(* ===== verification/Prelude.thy ===== *)
theory Prelude
  imports Main "HOL-Library.Word" "HOL-Library.List_Lexorder" "HOL-Library.Multiset" "HOL-Library.AList"
begin

text \<open>
  Shared vocabulary of the development: the machine integer types, Rust's saturating and
  wrapping arithmetic on \<open>usize\<close> values, the \<open>sort(); dedup()\<close> idiom that the transaction
  crate uses on almost every vector, and small facts about association lists (the model of
  \<open>HashMap\<close>) and about searching lists.  The collections declared here are filled by the
  component theories.
\<close>

named_theorems wf_intros \<open>preservation of well-formedness invariants\<close>
named_theorems frame_simps \<open>what an operation leaves unchanged\<close>

section \<open>Machine integers\<close>

type_synonym u8 = "8 word"
type_synonym u16 = "16 word"
type_synonym u32 = "32 word"
type_synonym u64 = "64 word"

text \<open>\<open>usize\<close> quantities (lengths, byte counts) are natural numbers below \<open>usize_modulus\<close>; the
  operations that can leave the range are written out.\<close>

definition usize_modulus :: nat where
  "usize_modulus = 2 ^ 64"

definition usize_max :: nat where
  "usize_max = 2 ^ 64 - 1"

definition saturating_add :: "nat \<Rightarrow> nat \<Rightarrow> nat" where
  "saturating_add a b = min (a + b) usize_max"

definition fetch_add :: "nat \<Rightarrow> nat \<Rightarrow> nat" where
  "fetch_add a b = (a + b) mod usize_modulus"

definition fetch_sub :: "nat \<Rightarrow> nat \<Rightarrow> nat" where
  "fetch_sub a b = (a + (usize_modulus - b mod usize_modulus)) mod usize_modulus"

definition u64_saturating_add :: "u64 \<Rightarrow> u64 \<Rightarrow> u64" where
  "u64_saturating_add a b = (if unat a + unat b < 2 ^ 64 then a + b else - 1)"

definition u64_saturating_sub :: "u64 \<Rightarrow> u64 \<Rightarrow> u64" where
  "u64_saturating_sub a b = (if b \<le> a then a - b else 0)"

lemma usize_modulus_pos [simp]: "0 < usize_modulus"
  by (simp add: usize_modulus_def)

lemma saturating_add_exact: "a + b \<le> usize_max \<Longrightarrow> saturating_add a b = a + b"
  by (simp add: saturating_add_def)

lemma saturating_add_le: "saturating_add a b \<le> usize_max"
  by (simp add: saturating_add_def)

lemma saturating_add_ge1: "a \<le> usize_max \<Longrightarrow> a \<le> saturating_add a b"
  by (simp add: saturating_add_def)

lemma fetch_add_mod: "fetch_add (a mod usize_modulus) b = (a + b) mod usize_modulus"
  by (simp add: fetch_add_def mod_add_left_eq)

lemma fetch_sub_mod:
  assumes "b \<le> a"
  shows "fetch_sub (a mod usize_modulus) b = (a - b) mod usize_modulus"
proof -
  let ?M = usize_modulus
  have le: "b mod ?M \<le> ?M" by (simp add: mod_le_divisor)
  have "a + (?M - b mod ?M) = a - b + (b + (?M - b mod ?M))"
    using assms by linarith
  then have "(a + (?M - b mod ?M)) mod ?M = (a - b + (b + (?M - b mod ?M))) mod ?M"
    by presburger
  also have "b + (?M - b mod ?M) = ?M * (b div ?M) + ?M"
    using le mult_div_mod_eq [of ?M b] by linarith
  also have "(a - b + (?M * (b div ?M) + ?M)) mod ?M = (a - b) mod ?M"
    by (metis add.assoc mod_add_self2 mod_mult_self2)
  finally show ?thesis
    unfolding fetch_sub_def by (metis mod_add_left_eq)
qed

section \<open>Sorting and removing duplicates\<close>

text \<open>Rust's \<open>v.sort(); v.dedup()\<close>: \<open>dedup\<close> removes consecutive repetitions only.\<close>

definition sort_dedup :: "'a::linorder list \<Rightarrow> 'a list" where
  "sort_dedup xs = remdups_adj (sort xs)"

lemma set_sort_dedup [simp]: "set (sort_dedup xs) = set xs"
  by (simp add: sort_dedup_def)

lemma sort_dedup_Nil [simp]: "sort_dedup [] = []"
  by (simp add: sort_dedup_def)

lemma sort_dedup_eq_Nil_iff [simp]: "sort_dedup xs = [] \<longleftrightarrow> xs = []"
  by (metis set_empty set_sort_dedup)

lemma distinct_remdups_adj_sorted: "sorted xs \<Longrightarrow> distinct (remdups_adj xs)"
proof (induction xs rule: remdups_adj.induct)
  case (3 x y xs)
  then show ?case by (cases "x = y") auto
qed auto

lemma sorted_sort_dedup [simp]: "sorted (sort_dedup xs)"
  by (simp add: sort_dedup_def sorted_remdups_adj)

lemma distinct_sort_dedup [simp]: "distinct (sort_dedup xs)"
  by (simp add: sort_dedup_def distinct_remdups_adj_sorted)

lemma sort_dedup_cong: "set xs = set ys \<Longrightarrow> sort_dedup xs = sort_dedup ys"
  by (metis distinct_sort_dedup set_sort_dedup sorted_distinct_set_unique sorted_sort_dedup)

section \<open>Association lists as hash maps\<close>

text \<open>A \<open>HashMap\<close> is an association list with distinct keys; its order stands for the
  unspecified iteration order.\<close>

abbreviation keys_of :: "('k \<times> 'v) list \<Rightarrow> 'k list" where
  "keys_of al \<equiv> map fst al"

lemma map_of_update [simp]: "map_of (AList.update k v al) = (map_of al)(k \<mapsto> v)"
  by (rule AList.update_conv')

lemma map_of_delete [simp]: "map_of (AList.delete k al) = (map_of al)(k := None)"
  by (rule AList.delete_conv')

lemma set_keys_of: "set (keys_of al) = dom (map_of al)"
  by (simp add: dom_map_of_conv_image_fst)

lemma mem_alist_iff: "distinct (keys_of al) \<Longrightarrow> (k, v) \<in> set al \<longleftrightarrow> map_of al k = Some v"
  by (simp add: map_of_eq_Some_iff)

lemma set_update_subset:
  "set (AList.update k v al) \<subseteq> insert (k, v) (set al)"
  by (induction al) auto

lemma set_delete_subset: "set (AList.delete k al) \<subseteq> set al"
  by (auto simp: AList.delete_eq)

section \<open>Searching lists\<close>

lemma find_eq_None_iff: "List.find P xs = None \<longleftrightarrow> (\<forall>x \<in> set xs. \<not> P x)"
  by (auto simp: find_None_iff)

lemma find_SomeD: "List.find P xs = Some x \<Longrightarrow> x \<in> set xs \<and> P x"
  by (auto simp: find_Some_iff)

lemma dropWhile_subset: "set (dropWhile P xs) \<subseteq> set xs"
  by (auto dest: set_dropWhileD)

lemma mem_dropWhileI: "x \<in> set xs \<Longrightarrow> \<not> P x \<Longrightarrow> x \<in> set (dropWhile P xs)"
  by (induction xs) auto

end
