(* ===== verification/Txn_Types.thy ===== *)
theory Txn_Types
  imports Prelude
begin

text \<open>
  The scalar types of \<open>crates/transaction/src/types/mod.rs\<close>: transaction, writer and database
  identities, read and commit timestamps (all transparent wrappers of \<open>u64\<close> with the derived
  order), the boundary between commit timestamps and provisional transaction ids, and the
  opaque resource key a participant hands to the transaction core.
\<close>

section \<open>Identities and timestamps\<close>

type_synonym txn_id = u64
type_synonym writer_id = u64
type_synonym read_ts = u64
type_synonym commit_ts = u64
type_synonym layout_epoch = u64
type_synonym db_id = u64
type_synonym tbl_id = u64
type_synonym participant_id = u64

definition TRANSACTION_ID_START :: u64 where
  "TRANSACTION_ID_START = 2 ^ 62"

definition MAX_TRANSACTION_ID :: u64 where
  "MAX_TRANSACTION_ID = - 1"

definition txn_first :: txn_id where
  "txn_first = TRANSACTION_ID_START"

definition as_writer_id :: "txn_id \<Rightarrow> writer_id" where
  "as_writer_id t = t"

definition txn_is_provisional :: "txn_id \<Rightarrow> bool" where
  "txn_is_provisional t \<longleftrightarrow> TRANSACTION_ID_START \<le> t"

definition writer_replay :: writer_id where
  "writer_replay = TRANSACTION_ID_START"

definition writer_permanent :: writer_id where
  "writer_permanent = 0"

definition writer_is_provisional :: "writer_id \<Rightarrow> bool" where
  "writer_is_provisional w \<longleftrightarrow> TRANSACTION_ID_START \<le> w"

definition no_active_transaction :: read_ts where
  "no_active_transaction = TRANSACTION_ID_START"

definition visible_before_start :: "read_ts \<Rightarrow> commit_ts" where
  "visible_before_start r = u64_saturating_sub r 1"

definition commit_ts_zero :: commit_ts where
  "commit_ts_zero = 0"

definition commit_ts_next :: "commit_ts \<Rightarrow> commit_ts" where
  "commit_ts_next c = u64_saturating_add c 1"

section \<open>Participants and resource keys\<close>

datatype participant_kind =
  PK_Storage | PK_Catalog | PK_Search | PK_Graph | PK_Maintenance | PK_External | PK_BulkLoad

record txn_resource_key =
  rk_kind :: participant_kind
  rk_database_id :: db_id
  rk_table_id :: "tbl_id option"
  rk_local_hi :: u64
  rk_local_lo :: u64

definition resource_key_database :: "participant_kind \<Rightarrow> db_id \<Rightarrow> txn_resource_key" where
  "resource_key_database k d =
     \<lparr>rk_kind = k, rk_database_id = d, rk_table_id = None, rk_local_hi = 0, rk_local_lo = 0\<rparr>"

definition resource_key_table :: "participant_kind \<Rightarrow> db_id \<Rightarrow> tbl_id \<Rightarrow> txn_resource_key" where
  "resource_key_table k d t =
     \<lparr>rk_kind = k, rk_database_id = d, rk_table_id = Some t, rk_local_hi = 0, rk_local_lo = 0\<rparr>"

definition resource_key_opaque ::
  "participant_kind \<Rightarrow> db_id \<Rightarrow> tbl_id option \<Rightarrow> u64 \<Rightarrow> u64 \<Rightarrow> txn_resource_key" where
  "resource_key_opaque k d t hi lo =
     \<lparr>rk_kind = k, rk_database_id = d, rk_table_id = t, rk_local_hi = hi, rk_local_lo = lo\<rparr>"

definition local_words :: "txn_resource_key \<Rightarrow> u64 \<times> u64" where
  "local_words k = (rk_local_hi k, rk_local_lo k)"

end
