(* ===== verification/Lock_Resource.thy ===== *)
theory Lock_Resource
  imports Txn_Types
begin

text \<open>
  Lockable resources and lock modes, from the first part of
  \<open>crates/transaction/src/lock_manager.rs\<close>: the granularity hierarchy, the conflict relation
  between resources, the mode compatibility matrix, and the rule that an intent lock on an
  ancestor does not conflict with locks below it.
\<close>

section \<open>Resources\<close>

record lock_namespace =
  ns_tenant_id :: u64
  ns_database_id :: db_id

definition single_tenant :: "db_id \<Rightarrow> lock_namespace" where
  "single_tenant d = \<lparr>ns_tenant_id = 0, ns_database_id = d\<rparr>"

datatype lock_resource =
    LR_Database lock_namespace
  | LR_Schema lock_namespace u64
  | LR_Table lock_namespace tbl_id
  | LR_Tablet lock_namespace tbl_id u64
  | LR_PrimaryKey lock_namespace tbl_id u64 u64
  | LR_RowId lock_namespace tbl_id u64 u64 u32 u32
  | LR_Range lock_namespace tbl_id u64 u64 u64
  | LR_Predicate lock_namespace tbl_id u64
  | LR_CatalogObject lock_namespace u16 u64

fun lr_namespace :: "lock_resource \<Rightarrow> lock_namespace" where
  "lr_namespace (LR_Database ns) = ns"
| "lr_namespace (LR_Schema ns _) = ns"
| "lr_namespace (LR_Table ns _) = ns"
| "lr_namespace (LR_Tablet ns _ _) = ns"
| "lr_namespace (LR_PrimaryKey ns _ _ _) = ns"
| "lr_namespace (LR_RowId ns _ _ _ _ _) = ns"
| "lr_namespace (LR_Range ns _ _ _ _) = ns"
| "lr_namespace (LR_Predicate ns _ _) = ns"
| "lr_namespace (LR_CatalogObject ns _ _) = ns"

fun lr_table_id :: "lock_resource \<Rightarrow> tbl_id option" where
  "lr_table_id (LR_Table _ t) = Some t"
| "lr_table_id (LR_Tablet _ t _) = Some t"
| "lr_table_id (LR_PrimaryKey _ t _ _) = Some t"
| "lr_table_id (LR_RowId _ t _ _ _ _) = Some t"
| "lr_table_id (LR_Range _ t _ _ _) = Some t"
| "lr_table_id (LR_Predicate _ t _) = Some t"
| "lr_table_id _ = None"

fun tablet_identity :: "lock_resource \<Rightarrow> (tbl_id \<times> u64) option" where
  "tablet_identity (LR_Tablet _ t b) = Some (t, b)"
| "tablet_identity (LR_PrimaryKey _ t b _) = Some (t, b)"
| "tablet_identity (LR_RowId _ t b _ _ _) = Some (t, b)"
| "tablet_identity (LR_Range _ t b _ _) = Some (t, b)"
| "tablet_identity _ = None"

definition conflict_domain :: "lock_resource \<Rightarrow> lock_namespace \<times> tbl_id option" where
  "conflict_domain r = (lr_namespace r, lr_table_id r)"

fun is_table :: "lock_resource \<Rightarrow> bool" where
  "is_table (LR_Table _ _) = True"
| "is_table _ = False"

fun is_tablet :: "lock_resource \<Rightarrow> bool" where
  "is_tablet (LR_Tablet _ _ _) = True"
| "is_tablet _ = False"

section \<open>Hash ranges on the ring\<close>

definition hash_in_range :: "u64 \<Rightarrow> u64 \<Rightarrow> u64 \<Rightarrow> bool" where
  "hash_in_range h start end =
     (if start \<le> end then start \<le> h \<and> h \<le> end else start \<le> h \<or> h \<le> end)"

definition ranges_overlap :: "u64 \<Rightarrow> u64 \<Rightarrow> u64 \<Rightarrow> u64 \<Rightarrow> bool" where
  "ranges_overlap ls le rs re \<longleftrightarrow>
     hash_in_range ls rs re \<or> hash_in_range le rs re \<or>
     hash_in_range rs ls le \<or> hash_in_range re ls le"

section \<open>The conflict relation on resources\<close>

text \<open>The arms of the \<open>match\<close> in \<open>LockResource::conflicts_with\<close>, in the source's order; an
  or-pattern \<open>(A, other) | (other, A)\<close> is two equations.\<close>

fun conflict_arms :: "lock_resource \<Rightarrow> lock_resource \<Rightarrow> bool" where
  "conflict_arms (LR_Database _) _ = True"
| "conflict_arms _ (LR_Database _) = True"
| "conflict_arms (LR_Table _ l) (LR_Table _ r) = (l = r)"
| "conflict_arms (LR_Table _ t) other = (lr_table_id other = Some t)"
| "conflict_arms other (LR_Table _ t) = (lr_table_id other = Some t)"
| "conflict_arms (LR_Tablet _ lt l) (LR_Tablet _ rt r) = (lt = rt \<and> l = r)"
| "conflict_arms (LR_Tablet _ t b) other = (tablet_identity other = Some (t, b))"
| "conflict_arms other (LR_Tablet _ t b) = (tablet_identity other = Some (t, b))"
| "conflict_arms (LR_PrimaryKey _ lt ltab k) (LR_Range _ rt rtab s e) =
     (lt = rt \<and> ltab = rtab \<and> hash_in_range k s e)"
| "conflict_arms (LR_Range _ rt rtab s e) (LR_PrimaryKey _ lt ltab k) =
     (lt = rt \<and> ltab = rtab \<and> hash_in_range k s e)"
| "conflict_arms (LR_Range _ lt ltab ls le) (LR_Range _ rt rtab rs re) =
     (lt = rt \<and> ltab = rtab \<and> ranges_overlap ls le rs re)"
| "conflict_arms (LR_Predicate _ l _) other = (lr_table_id other = Some l)"
| "conflict_arms other (LR_Predicate _ l _) = (lr_table_id other = Some l)"
| "conflict_arms (LR_Schema _ l) (LR_Schema _ r) = (l = r)"
| "conflict_arms (LR_CatalogObject _ lk li) (LR_CatalogObject _ rk ri) = (lk = rk \<and> li = ri)"
| "conflict_arms _ _ = False"

definition conflicts_with :: "lock_resource \<Rightarrow> lock_resource \<Rightarrow> bool" where
  "conflicts_with a b =
     (if a = b then True
      else if lr_namespace a \<noteq> lr_namespace b then False
      else conflict_arms a b)"

section \<open>Lock modes\<close>

datatype lock_mode =
  IS | IX | S | X | RangeS | RangeX | PredicateX | SchemaStability | SchemaModification

definition compatible_with :: "lock_mode \<Rightarrow> lock_mode \<Rightarrow> bool" where
  "compatible_with a b =
     (case a of
        IS \<Rightarrow> b \<in> {IS, IX, S, RangeS, SchemaStability}
      | IX \<Rightarrow> b \<in> {IS, IX, SchemaStability}
      | S \<Rightarrow> b \<in> {IS, S, RangeS, SchemaStability}
      | RangeS \<Rightarrow> b \<in> {IS, S, RangeS, SchemaStability}
      | SchemaStability \<Rightarrow> b \<in> {IS, IX, S, RangeS, SchemaStability}
      | _ \<Rightarrow> False)"

definition is_write_intent :: "lock_mode \<Rightarrow> bool" where
  "is_write_intent m \<longleftrightarrow> m \<in> {IX, X, RangeX, PredicateX, SchemaModification}"

definition is_commit_write :: "lock_mode \<Rightarrow> bool" where
  "is_commit_write m \<longleftrightarrow> m \<in> {X, RangeX, PredicateX, SchemaModification}"

fun strength :: "lock_mode \<Rightarrow> nat" where
  "strength IS = 1"
| "strength IX = 2"
| "strength S = 3"
| "strength RangeS = 3"
| "strength SchemaStability = 3"
| "strength _ = 4"

definition strongest :: "lock_mode \<Rightarrow> lock_mode \<Rightarrow> lock_mode" where
  "strongest a b = (if strength b \<le> strength a then a else b)"

section \<open>Conflicts between grants\<close>

definition proper_ancestor_intent :: "lock_resource \<Rightarrow> lock_mode \<Rightarrow> lock_resource \<Rightarrow> bool" where
  "proper_ancestor_intent ancestor mode descendant =
     (if mode \<notin> {IS, IX, SchemaStability} then False
      else (case ancestor of
        LR_Database ns \<Rightarrow> lr_namespace ancestor = lr_namespace descendant
      | LR_Table ns t \<Rightarrow> lr_table_id descendant = Some t \<and> \<not> is_table descendant
      | LR_Tablet ns t b \<Rightarrow> tablet_identity descendant = Some (t, b) \<and> \<not> is_tablet descendant
      | _ \<Rightarrow> False))"

definition lock_grants_conflict ::
  "lock_resource \<Rightarrow> lock_mode \<Rightarrow> lock_resource \<Rightarrow> lock_mode \<Rightarrow> bool" where
  "lock_grants_conflict hr hm rr rm =
     (if \<not> conflicts_with hr rr then False
      else if hr \<noteq> rr \<and> (proper_ancestor_intent hr hm rr \<or> proper_ancestor_intent rr rm hr)
           then False
      else \<not> compatible_with hm rm \<or> \<not> compatible_with rm hm)"

record lock_request =
  req_resource :: lock_resource
  req_mode :: lock_mode

section \<open>The derived order on resources\<close>

text \<open>\<open>#[derive(Ord)]\<close> compares the variant first and then the fields left to right.  The key
  lists the variant's position and the fields; keys of one variant have one length, so the
  lexicographic order on keys is the derived order.\<close>

fun ns_key :: "lock_namespace \<Rightarrow> nat list" where
  "ns_key ns = [unat (ns_tenant_id ns), unat (ns_database_id ns)]"

fun lr_key :: "lock_resource \<Rightarrow> nat list" where
  "lr_key (LR_Database ns) = 0 # ns_key ns"
| "lr_key (LR_Schema ns s) = 1 # ns_key ns @ [unat s]"
| "lr_key (LR_Table ns t) = 2 # ns_key ns @ [unat t]"
| "lr_key (LR_Tablet ns t b) = 3 # ns_key ns @ [unat t, unat b]"
| "lr_key (LR_PrimaryKey ns t b k) = 4 # ns_key ns @ [unat t, unat b, unat k]"
| "lr_key (LR_RowId ns t b rs sg off) =
     5 # ns_key ns @ [unat t, unat b, unat rs, unat sg, unat off]"
| "lr_key (LR_Range ns t b s e) = 6 # ns_key ns @ [unat t, unat b, unat s, unat e]"
| "lr_key (LR_Predicate ns t p) = 7 # ns_key ns @ [unat t, unat p]"
| "lr_key (LR_CatalogObject ns k i) = 8 # ns_key ns @ [unat k, unat i]"

lemma ns_key_inject: "ns_key a = ns_key b \<Longrightarrow> a = b"
  by (cases a; cases b) (simp add: word_unat_eq_iff)

lemma lr_key_inject: "lr_key a = lr_key b \<longleftrightarrow> a = b"
proof
  assume "lr_key a = lr_key b"
  then show "a = b"
    by (cases a; cases b) (auto simp: word_unat_eq_iff intro: ns_key_inject)
qed simp

instantiation lock_resource :: linorder
begin

definition less_eq_lock_resource :: "lock_resource \<Rightarrow> lock_resource \<Rightarrow> bool" where
  "less_eq_lock_resource a b \<longleftrightarrow> lr_key a \<le> lr_key b"

definition less_lock_resource :: "lock_resource \<Rightarrow> lock_resource \<Rightarrow> bool" where
  "less_lock_resource a b \<longleftrightarrow> lr_key a < lr_key b"

instance
proof
  fix a b c :: lock_resource
  show "(a < b) = (a \<le> b \<and> \<not> b \<le> a)"
    by (auto simp: less_lock_resource_def less_eq_lock_resource_def)
  show "a \<le> a" by (simp add: less_eq_lock_resource_def)
  show "a \<le> b \<Longrightarrow> b \<le> c \<Longrightarrow> a \<le> c" by (simp add: less_eq_lock_resource_def)
  show "a \<le> b \<Longrightarrow> b \<le> a \<Longrightarrow> a = b"
    by (simp add: less_eq_lock_resource_def flip: lr_key_inject)
  show "a \<le> b \<or> b \<le> a" by (auto simp: less_eq_lock_resource_def)
qed

end

section \<open>Properties of ranges\<close>

lemma hash_in_range_start [simp]: "hash_in_range s s e"
  by (simp add: hash_in_range_def)

lemma hash_in_range_end [simp]: "hash_in_range e s e"
  by (simp add: hash_in_range_def)

lemma ranges_overlapI:
  assumes "hash_in_range h ls le" "hash_in_range h rs re"
  shows "ranges_overlap ls le rs re"
proof (cases "ls \<le> le"; cases "rs \<le> re")
qed (use assms in \<open>simp_all add: ranges_overlap_def hash_in_range_def word_le_nat_alt\<close>, linarith+)

lemma ranges_overlapE:
  assumes "ranges_overlap ls le rs re"
  obtains h where "hash_in_range h ls le" "hash_in_range h rs re"
  using assms that [of ls] that [of le] that [of rs] that [of re]
  by (auto simp: ranges_overlap_def)

lemma ranges_overlap_sym: "ranges_overlap ls le rs re = ranges_overlap rs re ls le"
  by (auto simp: ranges_overlap_def)

section \<open>Properties of the conflict relation\<close>

lemma conflict_arms_sym: "conflict_arms a b = conflict_arms b a"
proof (cases a)
  case (LR_Range ns t tab s e)
  then show ?thesis by (cases b) (auto simp: ranges_overlap_sym [of s e])
qed (cases b; auto; fail)+

lemma conflicts_with_refl [simp]: "conflicts_with r r"
  by (simp add: conflicts_with_def)

lemma conflicts_with_sym: "conflicts_with a b = conflicts_with b a"
  using conflict_arms_sym [of a b] by (auto simp: conflicts_with_def)

lemma conflicts_with_namespace: "conflicts_with a b \<Longrightarrow> lr_namespace a = lr_namespace b"
  by (auto simp: conflicts_with_def split: if_splits)

lemma compatible_with_sym: "compatible_with a b = compatible_with b a"
  by (cases a; cases b; simp add: compatible_with_def)

lemma lock_grants_conflict_sym:
  "lock_grants_conflict a am b bm = lock_grants_conflict b bm a am"
  using conflicts_with_sym [of a b] by (auto simp: lock_grants_conflict_def)

lemma lock_grants_conflict_same:
  "lock_grants_conflict r m r m' \<longleftrightarrow> \<not> compatible_with m m'"
  using compatible_with_sym [of m m'] by (auto simp: lock_grants_conflict_def)

lemma lock_grants_conflict_resource:
  "lock_grants_conflict a am b bm \<Longrightarrow> conflicts_with a b"
  by (simp add: lock_grants_conflict_def split: if_splits)

lemma strongest_cases: "strongest a b = a \<or> strongest a b = b"
  by (simp add: strongest_def)

text \<open>A mode blocks at least what another blocks when everything compatible with it is compatible
  with the other.\<close>

definition all_lock_modes :: "lock_mode list" where
  "all_lock_modes = [IS, IX, S, X, RangeS, RangeX, PredicateX, SchemaStability, SchemaModification]"

lemma mem_all_lock_modes [simp]: "m \<in> set all_lock_modes"
  by (cases m) (simp_all add: all_lock_modes_def)

definition blocks_at_least :: "lock_mode \<Rightarrow> lock_mode \<Rightarrow> bool" where
  "blocks_at_least a b \<longleftrightarrow>
     list_all (\<lambda>m. compatible_with a m \<longrightarrow> compatible_with b m) all_lock_modes"

lemma blocks_at_leastD: "blocks_at_least a b \<Longrightarrow> compatible_with a m \<Longrightarrow> compatible_with b m"
  by (simp add: blocks_at_least_def list_all_iff)

end
