(* ===== verification/Lock_Manager.thy ===== *)
theory Lock_Manager
  imports Lock_Resource
begin

text \<open>
  The sharded pessimistic lock manager, from the second part of
  \<open>crates/transaction/src/lock_manager.rs\<close>.  A lock table shard is an association list from
  resources to the holders of that resource; the manager keeps one shard per hash bucket for
  exact (fine) resources, one table for coarse resources, the number of coarse holders and a
  coarse epoch.  Every operation takes the manager and returns the changed one.  The hash of a
  resource (\<open>std\<close>'s \<open>DefaultHasher\<close>, whose algorithm is unspecified) is the parameter \<open>h\<close>.
\<close>

section \<open>Lock table shards\<close>

record lock_holder =
  lh_txn_id :: txn_id
  lh_mode :: lock_mode
  lh_ref_count :: nat

type_synonym lock_state = "lock_holder list"

type_synonym lock_table_shard = "(lock_resource \<times> lock_state) list"

record grant_outcome =
  go_inserted_holder :: bool
  go_previous_mode :: "lock_mode option"

definition granted_count :: "lock_table_shard \<Rightarrow> nat" where
  "granted_count shard = sum_list (map (\<lambda>(r, st). length st) shard)"

definition normalize_txn_ids :: "txn_id list \<Rightarrow> txn_id list" where
  "normalize_txn_ids ts = sort_dedup ts"

definition shard_blockers :: "lock_table_shard \<Rightarrow> txn_id \<Rightarrow> lock_request \<Rightarrow> txn_id list" where
  "shard_blockers shard t req =
     normalize_txn_ids (concat (map (\<lambda>(r, st).
       if \<not> conflicts_with r (req_resource req) then []
       else map lh_txn_id (filter (\<lambda>holder. lh_txn_id holder \<noteq> t \<and>
              lock_grants_conflict r (lh_mode holder) (req_resource req) (req_mode req)) st)) shard))"

definition append_exact_blockers ::
  "lock_table_shard \<Rightarrow> txn_id \<Rightarrow> lock_request \<Rightarrow> txn_id list \<Rightarrow> txn_id list" where
  "append_exact_blockers shard t req blockers =
     (case map_of shard (req_resource req) of
        None \<Rightarrow> blockers
      | Some st \<Rightarrow> blockers @ map lh_txn_id (filter (\<lambda>holder. lh_txn_id holder \<noteq> t \<and>
            lock_grants_conflict (req_resource req) (lh_mode holder)
              (req_resource req) (req_mode req)) st))"

fun grant_holder :: "lock_state \<Rightarrow> txn_id \<Rightarrow> lock_mode \<Rightarrow> lock_state \<times> grant_outcome" where
  "grant_holder [] t md =
     ([\<lparr>lh_txn_id = t, lh_mode = md, lh_ref_count = 1\<rparr>],
      \<lparr>go_inserted_holder = True, go_previous_mode = None\<rparr>)"
| "grant_holder (holder # rest) t md =
     (if lh_txn_id holder = t
      then (holder\<lparr>lh_mode := strongest (lh_mode holder) md,
                   lh_ref_count := saturating_add (lh_ref_count holder) 1\<rparr> # rest,
            \<lparr>go_inserted_holder = False, go_previous_mode = Some (lh_mode holder)\<rparr>)
      else (case grant_holder rest t md of (rest', oc) \<Rightarrow> (holder # rest', oc)))"

definition state_of :: "lock_table_shard \<Rightarrow> lock_resource \<Rightarrow> lock_state" where
  "state_of shard r = (case map_of shard r of None \<Rightarrow> [] | Some st \<Rightarrow> st)"

definition shard_grant ::
  "lock_table_shard \<Rightarrow> txn_id \<Rightarrow> lock_request \<Rightarrow> lock_table_shard \<times> grant_outcome" where
  "shard_grant shard t req =
     (case grant_holder (state_of shard (req_resource req)) t (req_mode req) of
        (st, oc) \<Rightarrow> (AList.update (req_resource req) st shard, oc))"

fun release_ref :: "lock_state \<Rightarrow> txn_id \<Rightarrow> lock_mode option \<Rightarrow> lock_state option" where
  "release_ref [] t prev = None"
| "release_ref (holder # rest) t prev =
     (if lh_txn_id holder = t \<and> 1 < lh_ref_count holder
      then Some (holder\<lparr>lh_ref_count := lh_ref_count holder - 1,
                        lh_mode := (case prev of Some md \<Rightarrow> md | None \<Rightarrow> lh_mode holder)\<rparr> # rest)
      else map_option (\<lambda>rest'. holder # rest') (release_ref rest t prev))"

definition shard_release ::
  "lock_table_shard \<Rightarrow> txn_id \<Rightarrow> lock_resource \<Rightarrow> lock_mode option \<Rightarrow> lock_table_shard \<times> bool" where
  "shard_release shard t r prev =
     (case map_of shard r of
        None \<Rightarrow> (shard, False)
      | Some st \<Rightarrow>
          (case release_ref st t prev of
             Some st' \<Rightarrow> (AList.update r st' shard, False)
           | None \<Rightarrow>
               (let st' = filter (\<lambda>holder. lh_txn_id holder \<noteq> t) st;
                    removed_holder = (length st' \<noteq> length st)
                in (if st' = [] then AList.delete r shard else AList.update r st' shard,
                    removed_holder))))"

definition has_conflicting :: "lock_table_shard \<Rightarrow> lock_resource \<Rightarrow> bool" where
  "has_conflicting shard r \<longleftrightarrow> list_ex (\<lambda>(held, st). conflicts_with held r \<and> st \<noteq> []) shard"

definition has_exact :: "lock_table_shard \<Rightarrow> lock_resource \<Rightarrow> bool" where
  "has_exact shard r \<longleftrightarrow> (case map_of shard r of None \<Rightarrow> False | Some st \<Rightarrow> st \<noteq> [])"

section \<open>Errors and requests\<close>

datatype lock_acquire_error =
    WouldWait "txn_id list"
  | WouldWound "txn_id list"
  | WouldWoundAndWait "txn_id list" "txn_id list"

fun has_wait_blockers :: "lock_acquire_error \<Rightarrow> bool" where
  "has_wait_blockers (WouldWait blockers) = (blockers \<noteq> [])"
| "has_wait_blockers (WouldWoundAndWait victims blockers) = (blockers \<noteq> [])"
| "has_wait_blockers (WouldWound victims) = False"

fun has_wound_victims :: "lock_acquire_error \<Rightarrow> bool" where
  "has_wound_victims (WouldWound victims) = (victims \<noteq> [])"
| "has_wound_victims (WouldWoundAndWait victims blockers) = (victims \<noteq> [])"
| "has_wound_victims (WouldWait blockers) = False"

definition classify_wound_wait :: "txn_id \<Rightarrow> txn_id list \<Rightarrow> lock_acquire_error" where
  "classify_wound_wait t bs =
     (let blockers = normalize_txn_ids bs;
          victims = filter (\<lambda>b. t < b) blockers;
          wait_blockers = filter (\<lambda>b. \<not> t < b) blockers
      in if victims \<noteq> [] \<and> wait_blockers = [] then WouldWound victims
         else if victims = [] \<and> wait_blockers \<noteq> [] then WouldWait wait_blockers
         else if victims \<noteq> [] \<and> wait_blockers \<noteq> [] then WouldWoundAndWait victims wait_blockers
         else WouldWait [])"

fun merge_sorted_requests :: "lock_request list \<Rightarrow> lock_request list \<Rightarrow> lock_request list" where
  "merge_sorted_requests normalized [] = normalized"
| "merge_sorted_requests normalized (req # rest) =
     (if normalized \<noteq> [] \<and> req_resource (last normalized) = req_resource req
      then merge_sorted_requests
             (butlast normalized @
               [(last normalized)\<lparr>req_mode := strongest (req_mode (last normalized)) (req_mode req)\<rparr>])
             rest
      else merge_sorted_requests (normalized @ [req]) rest)"

definition normalize_requests :: "lock_request list \<Rightarrow> lock_request list" where
  "normalize_requests reqs = merge_sorted_requests [] (sort_key req_resource reqs)"

section \<open>The manager\<close>

datatype lock_escalation_failure_action = KeepFineGrained | AbortEscalation

record lock_escalation_policy =
  ep_threshold :: nat
  ep_failure_action :: lock_escalation_failure_action

definition escalation_disabled :: lock_escalation_policy where
  "escalation_disabled = \<lparr>ep_threshold = usize_max, ep_failure_action = KeepFineGrained\<rparr>"

definition try_tablet :: "nat \<Rightarrow> lock_escalation_policy" where
  "try_tablet n = \<lparr>ep_threshold = n, ep_failure_action = KeepFineGrained\<rparr>"

definition abort_on_failure :: "nat \<Rightarrow> lock_escalation_policy" where
  "abort_on_failure n = \<lparr>ep_threshold = n, ep_failure_action = AbortEscalation\<rparr>"

definition escalation_enabled :: "lock_escalation_policy \<Rightarrow> bool" where
  "escalation_enabled p \<longleftrightarrow> ep_threshold p \<noteq> usize_max"

record lock_manager =
  lm_shards :: "lock_table_shard list"
  lm_coarse :: lock_table_shard
  lm_coarse_active_count :: nat
  lm_coarse_epoch :: u64
  lm_lock_wait_count :: u64
  lm_lock_wait_duration_us :: u64
  lm_lock_wound_wait_abort_count :: u64
  lm_lock_deadlock_abort_count :: u64
  lm_escalation_policy :: lock_escalation_policy

datatype lock_location = FineShard nat | Coarse

record granted_lock =
  gl_resource :: lock_resource
  gl_mode :: lock_mode
  gl_location :: lock_location
  gl_previous_mode :: "lock_mode option"

record txn_lock_set =
  ls_txn_id :: txn_id
  ls_locks :: "granted_lock list"
  ls_released :: bool

definition lock_manager_new :: "nat \<Rightarrow> lock_escalation_policy \<Rightarrow> lock_manager option" where
  "lock_manager_new shard_count policy =
     (if 0 < shard_count
      then Some \<lparr>lm_shards = replicate shard_count [], lm_coarse = [],
                 lm_coarse_active_count = 0, lm_coarse_epoch = 0,
                 lm_lock_wait_count = 0, lm_lock_wait_duration_us = 0,
                 lm_lock_wound_wait_abort_count = 0, lm_lock_deadlock_abort_count = 0,
                 lm_escalation_policy = policy\<rparr>
      else None)"

definition lm_shard_index :: "(lock_resource \<Rightarrow> u64) \<Rightarrow> lock_manager \<Rightarrow> lock_resource \<Rightarrow> nat" where
  "lm_shard_index h m r = unat (h r) mod length (lm_shards m)"

fun is_coarse_resource :: "lock_resource \<Rightarrow> bool" where
  "is_coarse_resource (LR_Database _) = True"
| "is_coarse_resource (LR_Schema _ _) = True"
| "is_coarse_resource (LR_Table _ _) = True"
| "is_coarse_resource (LR_Tablet _ _ _) = True"
| "is_coarse_resource (LR_Range _ _ _ _ _) = True"
| "is_coarse_resource (LR_Predicate _ _ _) = True"
| "is_coarse_resource _ = False"

definition record_acquire_error :: "lock_manager \<Rightarrow> lock_acquire_error \<Rightarrow> lock_manager" where
  "record_acquire_error m err =
     (let m1 = (if has_wait_blockers err
                then m\<lparr>lm_lock_wait_count := lm_lock_wait_count m + 1\<rparr> else m)
      in if has_wound_victims err
         then m1\<lparr>lm_lock_wound_wait_abort_count := lm_lock_wound_wait_abort_count m1 + 1\<rparr>
         else m1)"

definition release_coarse_lock ::
  "lock_manager \<Rightarrow> txn_id \<Rightarrow> lock_resource \<Rightarrow> lock_mode option \<Rightarrow> lock_manager" where
  "release_coarse_lock m t r prev =
     (case shard_release (lm_coarse m) t r prev of
        (coarse, removed_holder) \<Rightarrow>
          m\<lparr>lm_coarse := coarse,
            lm_coarse_active_count :=
              (if removed_holder then fetch_sub (lm_coarse_active_count m) 1
               else lm_coarse_active_count m),
            lm_coarse_epoch := lm_coarse_epoch m + 1\<rparr>)"

definition release_lock :: "lock_manager \<Rightarrow> txn_id \<Rightarrow> granted_lock \<Rightarrow> lock_manager" where
  "release_lock m t lock =
     (case gl_location lock of
        FineShard i \<Rightarrow>
          m\<lparr>lm_shards := (lm_shards m)[i :=
              fst (shard_release (lm_shards m ! i) t (gl_resource lock) (gl_previous_mode lock))]\<rparr>
      | Coarse \<Rightarrow> release_coarse_lock m t (gl_resource lock) (gl_previous_mode lock))"

definition release_locks :: "lock_manager \<Rightarrow> txn_id \<Rightarrow> granted_lock list \<Rightarrow> lock_manager" where
  "release_locks m t locks = fold (\<lambda>lock m'. release_lock m' t lock) (rev locks) m"

definition coarse_blockers_many ::
  "lock_manager \<Rightarrow> txn_id \<Rightarrow> lock_request list \<Rightarrow> txn_id list" where
  "coarse_blockers_many m t reqs =
     (if lm_coarse_active_count m = 0 then []
      else normalize_txn_ids (concat (map (shard_blockers (lm_coarse m) t) reqs)))"

definition fine_blockers :: "lock_manager \<Rightarrow> txn_id \<Rightarrow> lock_request \<Rightarrow> txn_id list" where
  "fine_blockers m t req =
     normalize_txn_ids (concat (map (\<lambda>shard. shard_blockers shard t req) (lm_shards m)))"

definition try_grant_coarse ::
  "lock_manager \<Rightarrow> txn_id \<Rightarrow> lock_request \<Rightarrow> lock_manager \<times> (lock_acquire_error + granted_lock list)" where
  "try_grant_coarse m t req =
     (let blockers = shard_blockers (lm_coarse m) t req
      in if blockers \<noteq> [] then (m, Inl (classify_wound_wait t blockers))
         else (case shard_grant (lm_coarse m) t req of
           (coarse, outcome) \<Rightarrow>
             (let m1 = m\<lparr>lm_coarse := coarse,
                         lm_coarse_active_count :=
                           (if go_inserted_holder outcome
                            then fetch_add (lm_coarse_active_count m) 1
                            else lm_coarse_active_count m),
                         lm_coarse_epoch := lm_coarse_epoch m + 1\<rparr>;
                  fblockers = fine_blockers m1 t req
              in if fblockers \<noteq> []
                 then (release_coarse_lock m1 t (req_resource req) (go_previous_mode outcome),
                       Inl (classify_wound_wait t fblockers))
                 else (m1, Inr [\<lparr>gl_resource = req_resource req, gl_mode = req_mode req,
                                 gl_location = Coarse,
                                 gl_previous_mode = go_previous_mode outcome\<rparr>]))))"

text \<open>\<open>try_grant_fine_batch\<close> in two steps, as its synchronisation splits it: what happens before
  the shard mutex is taken, with the coarse epoch read there, and what happens under it.\<close>

definition fine_batch_precheck ::
  "lock_manager \<Rightarrow> txn_id \<Rightarrow> lock_request list \<Rightarrow> lock_acquire_error + u64" where
  "fine_batch_precheck m t reqs =
     (if 0 < lm_coarse_active_count m
      then (let blockers = coarse_blockers_many m t reqs
            in if blockers \<noteq> [] then Inl (classify_wound_wait t blockers)
               else Inr (lm_coarse_epoch m))
      else Inr (lm_coarse_epoch m))"

fun grant_batch ::
  "lock_table_shard \<Rightarrow> txn_id \<Rightarrow> nat \<Rightarrow> lock_request list \<Rightarrow> lock_table_shard \<times> granted_lock list" where
  "grant_batch shard t i [] = (shard, [])"
| "grant_batch shard t i (req # rest) =
     (case shard_grant shard t req of
        (shard1, outcome) \<Rightarrow>
          (case grant_batch shard1 t i rest of
             (shard2, locks) \<Rightarrow>
               (shard2, \<lparr>gl_resource = req_resource req, gl_mode = req_mode req,
                         gl_location = FineShard i,
                         gl_previous_mode = go_previous_mode outcome\<rparr> # locks)))"

definition fine_batch_locked ::
  "u64 \<Rightarrow> lock_manager \<Rightarrow> txn_id \<Rightarrow> nat \<Rightarrow> lock_request list
     \<Rightarrow> lock_manager \<times> (lock_acquire_error + granted_lock list)" where
  "fine_batch_locked epoch m t i reqs =
     (let recheck = (lm_coarse_epoch m \<noteq> epoch \<or> 0 < lm_coarse_active_count m);
          cblockers = (if recheck then coarse_blockers_many m t reqs else [])
      in if cblockers \<noteq> [] then (m, Inl (classify_wound_wait t cblockers))
         else (let blockers = normalize_txn_ids
                     (fold (append_exact_blockers (lm_shards m ! i) t) reqs [])
               in if blockers \<noteq> [] then (m, Inl (classify_wound_wait t blockers))
                  else (case grant_batch (lm_shards m ! i) t i reqs of
                    (shard, granted) \<Rightarrow> (m\<lparr>lm_shards := (lm_shards m)[i := shard]\<rparr>, Inr granted))))"

definition try_grant_fine_batch ::
  "lock_manager \<Rightarrow> txn_id \<Rightarrow> nat \<Rightarrow> lock_request list
     \<Rightarrow> lock_manager \<times> (lock_acquire_error + granted_lock list)" where
  "try_grant_fine_batch m t i reqs =
     (case fine_batch_precheck m t reqs of
        Inl err \<Rightarrow> (m, Inl err)
      | Inr epoch \<Rightarrow> fine_batch_locked epoch m t i reqs)"

definition try_grant_fine ::
  "(lock_resource \<Rightarrow> u64) \<Rightarrow> lock_manager \<Rightarrow> txn_id \<Rightarrow> lock_request
     \<Rightarrow> lock_manager \<times> (lock_acquire_error + granted_lock list)" where
  "try_grant_fine h m t req = try_grant_fine_batch m t (lm_shard_index h m (req_resource req)) [req]"

definition try_grant ::
  "(lock_resource \<Rightarrow> u64) \<Rightarrow> lock_manager \<Rightarrow> txn_id \<Rightarrow> lock_request
     \<Rightarrow> lock_manager \<times> (lock_acquire_error + granted_lock list)" where
  "try_grant h m t req =
     (if is_coarse_resource (req_resource req) then try_grant_coarse m t req
      else try_grant_fine h m t req)"

definition has_lock_conflicting_with ::
  "(lock_resource \<Rightarrow> u64) \<Rightarrow> lock_manager \<Rightarrow> lock_resource \<Rightarrow> bool" where
  "has_lock_conflicting_with h m r =
     (if 0 < lm_coarse_active_count m \<and> has_conflicting (lm_coarse m) r then True
      else if \<not> is_coarse_resource r then has_exact (lm_shards m ! lm_shard_index h m r) r
      else list_ex (\<lambda>shard. has_conflicting shard r) (lm_shards m))"

section \<open>Escalation\<close>

fun fine_tablet_identity :: "lock_resource \<Rightarrow> (lock_namespace \<times> tbl_id \<times> u64) option" where
  "fine_tablet_identity (LR_PrimaryKey ns t b _) = Some (ns, t, b)"
| "fine_tablet_identity (LR_RowId ns t b _ _ _) = Some (ns, t, b)"
| "fine_tablet_identity _ = None"

fun row_id_escalation_identity :: "lock_resource \<Rightarrow> (lock_namespace \<times> tbl_id \<times> u64) option" where
  "row_id_escalation_identity (LR_RowId ns t b _ _ _) = Some (ns, t, b)"
| "row_id_escalation_identity _ = None"

definition has_tablet_lock :: "granted_lock list \<Rightarrow> lock_namespace \<Rightarrow> tbl_id \<Rightarrow> u64 \<Rightarrow> bool" where
  "has_tablet_lock locks ns t b \<longleftrightarrow> list_ex (\<lambda>lock. gl_resource lock = LR_Tablet ns t b) locks"

fun escalation_counts ::
  "granted_lock list \<Rightarrow> ((lock_namespace \<times> tbl_id \<times> u64) \<times> nat) list
     \<Rightarrow> ((lock_namespace \<times> tbl_id \<times> u64) \<times> nat) list" where
  "escalation_counts [] counts = counts"
| "escalation_counts (lock # rest) counts =
     (case row_id_escalation_identity (gl_resource lock) of
        None \<Rightarrow> escalation_counts rest counts
      | Some ident \<Rightarrow>
          escalation_counts rest
            (AList.update ident (Suc (case map_of counts ident of None \<Rightarrow> 0 | Some n \<Rightarrow> n)) counts))"

fun escalate_all ::
  "(lock_resource \<Rightarrow> u64) \<Rightarrow> txn_id \<Rightarrow> ((lock_namespace \<times> tbl_id \<times> u64) \<times> nat) list
     \<Rightarrow> lock_manager \<Rightarrow> granted_lock list
     \<Rightarrow> lock_manager \<times> granted_lock list \<times> lock_acquire_error option" where
  "escalate_all h txn [] m locks = (m, locks, None)"
| "escalate_all h txn (((ns, t, b), cnt) # rest) m locks =
     (if cnt < ep_threshold (lm_escalation_policy m) \<or> has_tablet_lock locks ns t b
      then escalate_all h txn rest m locks
      else (case try_grant h m txn \<lparr>req_resource = LR_Tablet ns t b, req_mode = X\<rparr> of
          (m1, Inr coarse_locks) \<Rightarrow>
            (let is_fine = (\<lambda>lock. fine_tablet_identity (gl_resource lock) = Some (ns, t, b));
                 fine_locks = filter is_fine locks;
                 m2 = release_locks m1 txn fine_locks
             in escalate_all h txn rest m2 (filter (\<lambda>lock. \<not> is_fine lock) locks @ coarse_locks))
        | (m1, Inl err) \<Rightarrow>
            (if ep_failure_action (lm_escalation_policy m) = AbortEscalation
             then (m1, locks, Some err)
             else escalate_all h txn rest m1 locks)))"

definition try_escalate ::
  "(lock_resource \<Rightarrow> u64) \<Rightarrow> txn_id \<Rightarrow> lock_manager \<Rightarrow> granted_lock list
     \<Rightarrow> lock_manager \<times> granted_lock list \<times> lock_acquire_error option" where
  "try_escalate h txn m locks =
     (if \<not> escalation_enabled (lm_escalation_policy m)
         \<or> length locks < ep_threshold (lm_escalation_policy m)
      then (m, locks, None)
      else escalate_all h txn (escalation_counts locks []) m locks)"

section \<open>Acquiring and releasing lock sets\<close>

text \<open>The first loop of \<open>lock_many\<close>: coarse requests are granted as they come, fine requests are
  collected per shard.\<close>

fun lock_many_coarse ::
  "(lock_resource \<Rightarrow> u64) \<Rightarrow> txn_id \<Rightarrow> lock_request list \<Rightarrow> lock_manager \<Rightarrow> granted_lock list
     \<Rightarrow> lock_request list list
     \<Rightarrow> lock_manager \<times> granted_lock list \<times> (lock_acquire_error + lock_request list list)" where
  "lock_many_coarse h t [] m granted batches = (m, granted, Inr batches)"
| "lock_many_coarse h t (req # rest) m granted batches =
     (if \<not> is_coarse_resource (req_resource req)
      then (let i = lm_shard_index h m (req_resource req)
            in lock_many_coarse h t rest m granted (batches[i := batches ! i @ [req]]))
      else (case try_grant_coarse m t req of
          (m1, Inr locks) \<Rightarrow> lock_many_coarse h t rest m1 (granted @ locks) batches
        | (m1, Inl err) \<Rightarrow> (m1, granted, Inl err)))"

text \<open>The second loop: one batch per shard.\<close>

fun lock_many_fine ::
  "txn_id \<Rightarrow> (nat \<times> lock_request list) list \<Rightarrow> lock_manager \<Rightarrow> granted_lock list
     \<Rightarrow> lock_manager \<times> granted_lock list \<times> lock_acquire_error option" where
  "lock_many_fine t [] m granted = (m, granted, None)"
| "lock_many_fine t ((i, reqs) # rest) m granted =
     (if reqs = [] then lock_many_fine t rest m granted
      else (case try_grant_fine_batch m t i reqs of
          (m1, Inr locks) \<Rightarrow> lock_many_fine t rest m1 (granted @ locks)
        | (m1, Inl err) \<Rightarrow> (m1, granted, Some err)))"

definition lock_many ::
  "(lock_resource \<Rightarrow> u64) \<Rightarrow> lock_manager \<Rightarrow> txn_id \<Rightarrow> lock_request list
     \<Rightarrow> lock_manager \<times> (lock_acquire_error + txn_lock_set)" where
  "lock_many h m t requests =
     (let reqs = normalize_requests requests;
          n = length (lm_shards m)
      in case lock_many_coarse h t reqs m [] (replicate n []) of
           (m1, granted, Inl err) \<Rightarrow> (record_acquire_error (release_locks m1 t granted) err, Inl err)
         | (m1, granted, Inr batches) \<Rightarrow>
             (case lock_many_fine t (enumerate 0 batches) m1 granted of
                (m2, granted2, Some err) \<Rightarrow>
                  (record_acquire_error (release_locks m2 t granted2) err, Inl err)
              | (m2, granted2, None) \<Rightarrow>
                  (case try_escalate h t m2 granted2 of
                     (m3, locks, Some err) \<Rightarrow>
                       (release_locks (record_acquire_error m3 err) t locks, Inl err)
                   | (m3, locks, None) \<Rightarrow>
                       (m3, Inr \<lparr>ls_txn_id = t, ls_locks = locks, ls_released = False\<rparr>))))"

definition lock_one ::
  "(lock_resource \<Rightarrow> u64) \<Rightarrow> lock_manager \<Rightarrow> txn_id \<Rightarrow> lock_resource \<Rightarrow> lock_mode
     \<Rightarrow> lock_manager \<times> (lock_acquire_error + txn_lock_set)" where
  "lock_one h m t r md = lock_many h m t [\<lparr>req_resource = r, req_mode = md\<rparr>]"

definition release_inner :: "lock_manager \<Rightarrow> txn_lock_set \<Rightarrow> lock_manager \<times> txn_lock_set" where
  "release_inner m ls =
     (if ls_released ls then (m, ls)
      else (release_locks m (ls_txn_id ls) (ls_locks ls), ls\<lparr>ls_released := True\<rparr>))"

definition ls_lock_requests :: "txn_lock_set \<Rightarrow> lock_request list" where
  "ls_lock_requests ls =
     normalize_requests
       (map (\<lambda>lock. \<lparr>req_resource = gl_resource lock, req_mode = gl_mode lock\<rparr>) (ls_locks ls))"

definition ls_mode_for :: "txn_lock_set \<Rightarrow> lock_resource \<Rightarrow> lock_mode option" where
  "ls_mode_for ls r =
     (case map gl_mode (filter (\<lambda>lock. gl_resource lock = r) (ls_locks ls)) of
        [] \<Rightarrow> None
      | md # mds \<Rightarrow> Some (fold (\<lambda>x acc. strongest acc x) mds md))"

end
