(* ===== verification/Lock_Table.thy ===== *)
theory Lock_Table
  imports Lock_Manager
begin

text \<open>
  Laws of one lock state (the holders of a resource) and of one lock table shard: what a grant
  and a release change, that a release undoes the grant it belongs to, which invariant both
  keep, and how they move the number of holders.
\<close>

section \<open>Holders of one resource\<close>

definition wf_state :: "lock_state \<Rightarrow> bool" where
  "wf_state st \<longleftrightarrow> distinct (map lh_txn_id st) \<and> (\<forall>holder \<in> set st. 1 \<le> lh_ref_count holder)"

definition unsaturated :: "lock_state \<Rightarrow> bool" where
  "unsaturated st \<longleftrightarrow> (\<forall>holder \<in> set st. lh_ref_count holder < usize_max)"

definition release_state :: "lock_state \<Rightarrow> txn_id \<Rightarrow> lock_mode option \<Rightarrow> lock_state" where
  "release_state st t prev =
     (case release_ref st t prev of
        Some st' \<Rightarrow> st'
      | None \<Rightarrow> filter (\<lambda>holder. lh_txn_id holder \<noteq> t) st)"

lemma wf_state_Nil [simp]: "wf_state []"
  by (simp add: wf_state_def)

lemma release_state_Nil [simp]: "release_state [] t prev = []"
  by (simp add: release_state_def)

lemma release_ref_none:
  "\<forall>holder \<in> set st. lh_txn_id holder = t \<longrightarrow> lh_ref_count holder \<le> 1 \<Longrightarrow>
     release_ref st t prev = None"
  by (induction st) auto

lemma grant_holder_new:
  "t \<notin> lh_txn_id ` set st \<Longrightarrow>
     grant_holder st t md =
       (st @ [\<lparr>lh_txn_id = t, lh_mode = md, lh_ref_count = 1\<rparr>],
        \<lparr>go_inserted_holder = True, go_previous_mode = None\<rparr>)"
  by (induction st) auto

lemma grant_holder_old:
  assumes "lh_txn_id holder = t" "t \<notin> lh_txn_id ` set xs"
  shows "grant_holder (xs @ holder # ys) t md =
     (xs @ holder\<lparr>lh_mode := strongest (lh_mode holder) md,
                  lh_ref_count := saturating_add (lh_ref_count holder) 1\<rparr> # ys,
      \<lparr>go_inserted_holder = False, go_previous_mode = Some (lh_mode holder)\<rparr>)"
  using assms by (induction xs) auto

lemma release_ref_old:
  assumes "lh_txn_id holder = t" "1 < lh_ref_count holder" "t \<notin> lh_txn_id ` set xs"
  shows "release_ref (xs @ holder # ys) t prev =
     Some (xs @ holder\<lparr>lh_ref_count := lh_ref_count holder - 1,
              lh_mode := (case prev of Some md \<Rightarrow> md | None \<Rightarrow> lh_mode holder)\<rparr> # ys)"
  using assms by (induction xs) auto

text \<open>A state either has no holder for a transaction or splits around its only one.\<close>

lemma holder_cases:
  assumes "wf_state st"
  obtains "t \<notin> lh_txn_id ` set st"
  | xs holder ys where "st = xs @ holder # ys" "lh_txn_id holder = t"
      "t \<notin> lh_txn_id ` set xs" "t \<notin> lh_txn_id ` set ys" "1 \<le> lh_ref_count holder"
proof (cases "t \<in> lh_txn_id ` set st")
  case True
  then obtain holder where "holder \<in> set st" "lh_txn_id holder = t" by auto
  then obtain xs ys where st: "st = xs @ holder # ys" by (meson split_list)
  with assms \<open>lh_txn_id holder = t\<close> that(2) [OF st] show ?thesis
    by (auto simp: wf_state_def)
qed (use that(1) in blast)

theorem release_after_grant:
  assumes "wf_state st" "unsaturated st" "grant_holder st t md = (st', oc)"
  shows "release_state st' t (go_previous_mode oc) = st"
proof (cases rule: holder_cases [OF assms(1), of t])
  case 1
  then have "filter (\<lambda>holder. lh_txn_id holder \<noteq> t) st = st"
    by (auto simp: filter_id_conv)
  moreover from 1 assms(3) have
    st': "st' = st @ [\<lparr>lh_txn_id = t, lh_mode = md, lh_ref_count = 1\<rparr>]"
    by (simp add: grant_holder_new)
  moreover have "release_ref st' t prev = None" for prev
    by (rule release_ref_none) (use 1 in \<open>auto simp: st'\<close>)
  ultimately show ?thesis
    by (simp add: release_state_def)
next
  case (2 xs holder ys)
  then have sat: "saturating_add (lh_ref_count holder) (Suc 0) = Suc (lh_ref_count holder)"
    using assms(2) by (auto simp: unsaturated_def saturating_add_exact)
  from 2 assms(3) have st': "st' = xs @ holder\<lparr>lh_mode := strongest (lh_mode holder) md,
        lh_ref_count := lh_ref_count holder + 1\<rparr> # ys" and oc: "go_previous_mode oc = Some (lh_mode holder)"
    by (auto simp: grant_holder_old sat)
  show ?thesis unfolding st' oc release_state_def
    by (subst release_ref_old) (use 2 in auto)
qed

lemma grant_holder_ConsE:
  assumes "grant_holder (a # st) t md = (st', oc)"
  obtains "lh_txn_id a = t"
      "st' = a\<lparr>lh_mode := strongest (lh_mode a) md,
               lh_ref_count := saturating_add (lh_ref_count a) (Suc 0)\<rparr> # st"
      "oc = \<lparr>go_inserted_holder = False, go_previous_mode = Some (lh_mode a)\<rparr>"
  | rest where "lh_txn_id a \<noteq> t" "grant_holder st t md = (rest, oc)" "st' = a # rest"
  using assms by (cases "grant_holder st t md") (auto split: if_splits)

lemma grant_holder_others:
  assumes "grant_holder st t md = (st', oc)" "lh_txn_id holder \<noteq> t"
  shows "holder \<in> set st' \<longleftrightarrow> holder \<in> set st"
  using assms
proof (induction st arbitrary: st' oc)
  case (Cons a st)
  from Cons.prems(1) show ?case
    by (rule grant_holder_ConsE) (use Cons in auto)
qed auto

lemma grant_holder_own:
  assumes "grant_holder st t md = (st', oc)" "holder \<in> set st'" "lh_txn_id holder = t"
  shows "lh_mode holder = md \<or> (\<exists>old \<in> set st. lh_txn_id old = t \<and> lh_mode old = lh_mode holder)"
  using assms
proof (induction st arbitrary: st' oc)
  case (Cons a st)
  from Cons.prems(1) show ?case
    by (rule grant_holder_ConsE)
      (use Cons strongest_cases [of "lh_mode a" md] in auto)
qed auto

lemma grant_holder_txns:
  "grant_holder st t md = (st', oc) \<Longrightarrow>
     map lh_txn_id st' = map lh_txn_id st @ (if t \<in> lh_txn_id ` set st then [] else [t])"
proof (induction st arbitrary: st' oc)
  case (Cons a st)
  from Cons.prems(1) show ?case
    by (rule grant_holder_ConsE) (use Cons in auto)
qed auto

lemma grant_holder_refs:
  "grant_holder st t md = (st', oc) \<Longrightarrow> \<forall>x \<in> set st. 1 \<le> lh_ref_count x \<Longrightarrow>
     \<forall>x \<in> set st'. 1 \<le> lh_ref_count x"
proof (induction st arbitrary: st' oc)
  case (Cons a st)
  from Cons.prems(1) show ?case
    by (rule grant_holder_ConsE)
      (use Cons in \<open>auto simp: saturating_add_def usize_max_def\<close>)
qed auto

lemma grant_holder_inserted:
  "grant_holder st t md = (st', oc) \<Longrightarrow>
     length st' = length st + (if go_inserted_holder oc then 1 else 0)"
proof (induction st arbitrary: st' oc)
  case (Cons a st)
  from Cons.prems(1) show ?case
    by (rule grant_holder_ConsE) (use Cons in auto)
qed auto

lemma grant_holder_nonempty: "grant_holder st t md = (st', oc) \<Longrightarrow> st' \<noteq> []"
  using grant_holder_txns [of st t md st' oc] by (auto split: if_splits)

lemma wf_state_grant:
  "wf_state st \<Longrightarrow> grant_holder st t md = (st', oc) \<Longrightarrow> wf_state st'"
  using grant_holder_txns [of st t md st' oc] grant_holder_refs [of st t md st' oc]
  by (auto simp: wf_state_def)

lemma release_state_others:
  assumes "lh_txn_id holder \<noteq> t"
  shows "holder \<in> set (release_state st t prev) \<longleftrightarrow> holder \<in> set st"
proof -
  have "release_ref st t prev = Some st' \<Longrightarrow> holder \<in> set st' \<longleftrightarrow> holder \<in> set st" for st'
    using assms by (induction st arbitrary: st') (auto split: if_splits)
  then show ?thesis
    using assms by (auto simp: release_state_def split: option.splits)
qed

lemma wf_state_release:
  assumes "wf_state st"
  shows "wf_state (release_state st t prev)"
proof (cases "release_ref st t prev")
  case None
  with assms show ?thesis
    by (auto simp: release_state_def wf_state_def distinct_map_filter)
next
  case (Some st')
  have "map lh_txn_id st' = map lh_txn_id st \<and>
      ((\<forall>x \<in> set st. 1 \<le> lh_ref_count x) \<longrightarrow> (\<forall>x \<in> set st'. 1 \<le> lh_ref_count x))"
    using Some by (induction st arbitrary: st') (auto split: if_splits)
  with Some assms show ?thesis
    by (auto simp: release_state_def wf_state_def)
qed

section \<open>One shard\<close>

definition wf_shard :: "lock_table_shard \<Rightarrow> bool" where
  "wf_shard shard \<longleftrightarrow> distinct (keys_of shard) \<and> (\<forall>(r, st) \<in> set shard. st \<noteq> [] \<and> wf_state st)"

lemma wf_shard_Nil [simp]: "wf_shard []"
  by (simp add: wf_shard_def)

lemma wf_shard_distinct: "wf_shard shard \<Longrightarrow> distinct (keys_of shard)"
  by (simp add: wf_shard_def)

lemma state_of_Nil [simp]: "state_of [] r = []"
  by (simp add: state_of_def)

lemma state_of_update [simp]:
  "state_of (AList.update r st shard) r' = (if r' = r then st else state_of shard r')"
  by (simp add: state_of_def)

lemma state_of_delete [simp]:
  "state_of (AList.delete r shard) r' = (if r' = r then [] else state_of shard r')"
  by (simp add: state_of_def)

lemma state_of_wf: "wf_shard shard \<Longrightarrow> wf_state (state_of shard r)"
  by (auto simp: wf_shard_def state_of_def split: option.splits dest!: map_of_SomeD)

lemma state_of_nonempty_iff: "wf_shard shard \<Longrightarrow> state_of shard r \<noteq> [] \<longleftrightarrow> r \<in> set (keys_of shard)"
  by (auto simp: wf_shard_def state_of_def dom_map_of_conv_image_fst [symmetric] dom_def
      split: option.splits dest!: map_of_SomeD)

lemma mem_shard_iff:
  assumes "wf_shard shard"
  shows "(r, st) \<in> set shard \<longleftrightarrow> state_of shard r = st \<and> st \<noteq> []"
proof (cases "map_of shard r")
  case None
  then have "(r, st) \<notin> set shard" by (metis option.distinct(1) weak_map_of_SomeI)
  with None show ?thesis by (simp add: state_of_def)
next
  case (Some st')
  then have "st' \<noteq> []" using assms by (auto simp: wf_shard_def dest: map_of_SomeD)
  moreover have "(r, st) \<in> set shard \<longleftrightarrow> st' = st"
    using mem_alist_iff [OF wf_shard_distinct [OF assms], of r st] Some by simp
  ultimately show ?thesis using Some by (auto simp: state_of_def)
qed

lemma wf_shard_update:
  "wf_shard shard \<Longrightarrow> st \<noteq> [] \<Longrightarrow> wf_state st \<Longrightarrow> wf_shard (AList.update r st shard)"
  using set_update_subset [of r st shard] distinct_update [of shard r st]
  by (auto simp: wf_shard_def)

lemma wf_shard_delete: "wf_shard shard \<Longrightarrow> wf_shard (AList.delete r shard)"
  using set_delete_subset [of r shard] distinct_delete [of shard r]
  by (auto simp: wf_shard_def)

lemma shard_grant_state:
  assumes "shard_grant shard t req = (shard', oc)"
  shows "state_of shard' r =
      (if r = req_resource req then fst (grant_holder (state_of shard r) t (req_mode req))
       else state_of shard r)"
    and "oc = snd (grant_holder (state_of shard (req_resource req)) t (req_mode req))"
  using assms by (auto simp: shard_grant_def split: prod.splits)

lemma wf_shard_grant [wf_intros]:
  assumes "wf_shard shard" "shard_grant shard t req = (shard', oc)"
  shows "wf_shard shard'"
  using assms wf_state_grant [OF state_of_wf [OF assms(1)]]
  by (auto simp: shard_grant_def split: prod.splits intro!: wf_shard_update
      dest: grant_holder_nonempty)

lemma shard_release_state:
  "state_of (fst (shard_release shard t r prev)) r' =
     (if r' = r then release_state (state_of shard r) t prev else state_of shard r')"
  by (auto simp: shard_release_def release_state_def Let_def state_of_def
      split: option.splits if_splits)

lemma release_ref_nonempty: "release_ref st t prev = Some st' \<Longrightarrow> st' \<noteq> []"
  by (cases st) (auto split: if_splits)

lemma wf_shard_release [wf_intros]:
  assumes "wf_shard shard"
  shows "wf_shard (fst (shard_release shard t r prev))"
proof (cases "map_of shard r")
  case (Some st)
  then have st: "state_of shard r = st" by (simp add: state_of_def)
  have wf: "wf_state (release_state st t prev)"
    using wf_state_release [OF state_of_wf [OF assms, of r]] st by simp
  show ?thesis
    using Some wf assms release_ref_nonempty
    by (auto simp: shard_release_def release_state_def Let_def
        intro!: wf_shard_update wf_shard_delete split: option.splits)
qed (simp add: shard_release_def assms)

lemma keys_grant:
  "shard_grant shard t req = (shard', oc) \<Longrightarrow>
     set (keys_of shard') = insert (req_resource req) (set (keys_of shard))"
  by (auto simp: shard_grant_def dom_update simp flip: dom_map_of_conv_image_fst
      split: prod.splits if_splits option.splits)

lemma keys_release: "set (keys_of (fst (shard_release shard t r prev))) \<subseteq> set (keys_of shard)"
  by (auto simp: shard_release_def Let_def simp flip: dom_map_of_conv_image_fst
      split: option.splits if_splits)

subsection \<open>Counting holders\<close>

lemma granted_count_notin:
  "r \<notin> set (keys_of shard) \<Longrightarrow> state_of shard r = []"
  by (simp add: state_of_def map_of_eq_None_iff [THEN iffD2])

lemma granted_count_update:
  "distinct (keys_of shard) \<Longrightarrow>
     granted_count (AList.update r st shard) + length (state_of shard r) = granted_count shard + length st"
proof (induction shard)
  case (Cons p shard)
  then show ?case
    using granted_count_notin [of r shard]
    by (cases p) (auto simp: granted_count_def state_of_def)
qed (simp add: granted_count_def)

lemma granted_count_delete:
  "distinct (keys_of shard) \<Longrightarrow>
     granted_count (AList.delete r shard) + length (state_of shard r) = granted_count shard"
proof (induction shard)
  case (Cons p shard)
  then show ?case
    using granted_count_notin [of r shard]
    by (cases p) (auto simp: granted_count_def state_of_def AList.delete_eq)
qed (simp add: granted_count_def)

lemma granted_count_grant:
  assumes "wf_shard shard" "shard_grant shard t req = (shard', oc)"
  shows "granted_count shard' = granted_count shard + (if go_inserted_holder oc then 1 else 0)"
proof -
  obtain st where gh: "grant_holder (state_of shard (req_resource req)) t (req_mode req) = (st, oc)"
    and s': "shard' = AList.update (req_resource req) st shard"
    using assms(2) by (auto simp: shard_grant_def split: prod.splits)
  show ?thesis
    using granted_count_update [OF wf_shard_distinct [OF assms(1)], of "req_resource req" st]
      grant_holder_inserted [OF gh] s' by auto
qed

lemma release_ref_length: "release_ref st t prev = Some st' \<Longrightarrow> length st' = length st"
  by (induction st arbitrary: st') (auto split: if_splits)

lemma length_filter_txn:
  assumes "wf_state st"
  shows "length (filter (\<lambda>x. lh_txn_id x \<noteq> t) st) =
      (if t \<in> lh_txn_id ` set st then length st - 1 else length st)"
proof (cases rule: holder_cases [OF assms, of t])
  case 1
  then have "filter (\<lambda>x. lh_txn_id x \<noteq> t) st = st" by (auto simp: filter_id_conv)
  with 1 show ?thesis by simp
next
  case (2 xs holder ys)
  then have "\<forall>x \<in> set xs. lh_txn_id x \<noteq> t" "\<forall>x \<in> set ys. lh_txn_id x \<noteq> t"
    by blast+
  then have "filter (\<lambda>x. lh_txn_id x \<noteq> t) xs = xs" "filter (\<lambda>x. lh_txn_id x \<noteq> t) ys = ys"
    by (simp_all add: filter_id_conv)
  with 2 show ?thesis by auto
qed

lemma granted_count_release:
  assumes "wf_shard shard" "shard_release shard t r prev = (shard', removed)"
  shows "granted_count shard' + (if removed then 1 else 0) = granted_count shard"
proof (cases "map_of shard r")
  case None
  with assms(2) show ?thesis by (simp add: shard_release_def)
next
  case (Some st)
  then have st: "state_of shard r = st" by (simp add: state_of_def)
  note dist = wf_shard_distinct [OF assms(1)]
  note upd = granted_count_update [OF dist, of r, unfolded st]
    and del = granted_count_delete [OF dist, of r, unfolded st]
  note len = length_filter_txn [OF state_of_wf [OF assms(1), of r, unfolded st], of t]
  show ?thesis
  proof (cases "release_ref st t prev")
    case None
    let ?st = "filter (\<lambda>x. lh_txn_id x \<noteq> t) st"
    have "removed = (length ?st \<noteq> length st)"
      "shard' = (if ?st = [] then AList.delete r shard else AList.update r ?st shard)"
      using assms(2) Some None by (auto simp: shard_release_def Let_def)
    moreover have "t \<in> lh_txn_id ` set st \<Longrightarrow> 0 < length st"
      by (auto simp: length_pos_if_in_set)
    moreover have "?st = [] \<Longrightarrow> length ?st = 0" by simp
    ultimately show ?thesis
      using upd [of ?st] del len
      by (cases "?st = []"; cases "t \<in> lh_txn_id ` set st"; simp; linarith)
  next
    case (Some st')
    with assms(2) \<open>map_of shard r = Some st\<close> upd [of st'] release_ref_length [OF Some]
    show ?thesis by (auto simp: shard_release_def)
  qed
qed

end
