(* ===== verification/Lock_Safety.thy ===== *)
theory Lock_Safety
  imports Lock_Table
begin

text \<open>
  Laws of the sharded lock manager for one call: the holders of a resource as the whole manager
  sees them, what one release and one grant attempt change of them, and that a refused attempt
  changes none of them.
\<close>

section \<open>The manager's states\<close>

definition lm_shard_for :: "(lock_resource \<Rightarrow> u64) \<Rightarrow> lock_manager \<Rightarrow> lock_resource \<Rightarrow> lock_table_shard" where
  "lm_shard_for h m r =
     (if is_coarse_resource r then lm_coarse m else lm_shards m ! lm_shard_index h m r)"

definition lm_state :: "(lock_resource \<Rightarrow> u64) \<Rightarrow> lock_manager \<Rightarrow> lock_resource \<Rightarrow> lock_state" where
  "lm_state h m r = state_of (lm_shard_for h m r) r"

definition wf_manager :: "(lock_resource \<Rightarrow> u64) \<Rightarrow> lock_manager \<Rightarrow> bool" where
  "wf_manager h m \<longleftrightarrow>
     lm_shards m \<noteq> [] \<and> wf_shard (lm_coarse m) \<and>
     (\<forall>r \<in> set (keys_of (lm_coarse m)). is_coarse_resource r) \<and>
     (\<forall>i < length (lm_shards m). wf_shard (lm_shards m ! i) \<and>
        (\<forall>r \<in> set (keys_of (lm_shards m ! i)). \<not> is_coarse_resource r \<and> lm_shard_index h m r = i)) \<and>
     lm_coarse_active_count m = granted_count (lm_coarse m) mod usize_modulus"

definition located :: "(lock_resource \<Rightarrow> u64) \<Rightarrow> lock_manager \<Rightarrow> granted_lock \<Rightarrow> bool" where
  "located h m lock \<longleftrightarrow>
     gl_location lock =
       (if is_coarse_resource (gl_resource lock) then Coarse
        else FineShard (lm_shard_index h m (gl_resource lock)))"

definition clear_of ::
  "(lock_resource \<Rightarrow> u64) \<Rightarrow> lock_manager \<Rightarrow> txn_id \<Rightarrow> lock_resource \<Rightarrow> lock_mode \<Rightarrow> bool" where
  "clear_of h m t r md \<longleftrightarrow>
     (\<forall>r' holder. holder \<in> set (lm_state h m r') \<longrightarrow> lh_txn_id holder \<noteq> t \<longrightarrow>
        \<not> lock_grants_conflict r' (lh_mode holder) r md)"

lemma wf_manager_index: "wf_manager h m \<Longrightarrow> lm_shard_index h m r < length (lm_shards m)"
  by (simp add: wf_manager_def lm_shard_index_def)

lemma wf_manager_shard: "wf_manager h m \<Longrightarrow> i < length (lm_shards m) \<Longrightarrow> wf_shard (lm_shards m ! i)"
  by (simp add: wf_manager_def)

lemma wf_manager_shard_for: "wf_manager h m \<Longrightarrow> wf_shard (lm_shard_for h m r)"
  using wf_manager_index [of h m r] by (simp add: wf_manager_def lm_shard_for_def)

lemma lm_state_wf: "wf_manager h m \<Longrightarrow> wf_state (lm_state h m r)"
  by (simp add: lm_state_def state_of_wf wf_manager_shard_for)

lemma state_of_coarse:
  assumes "wf_manager h m"
  shows "state_of (lm_coarse m) r = (if is_coarse_resource r then lm_state h m r else [])"
  using assms granted_count_notin [of r "lm_coarse m"]
  by (auto simp: lm_state_def lm_shard_for_def wf_manager_def)

lemma state_of_fine:
  assumes "wf_manager h m" "i < length (lm_shards m)"
  shows "state_of (lm_shards m ! i) r =
     (if \<not> is_coarse_resource r \<and> lm_shard_index h m r = i then lm_state h m r else [])"
  using assms granted_count_notin [of r "lm_shards m ! i"]
  by (auto simp: lm_state_def lm_shard_for_def wf_manager_def)

subsection \<open>Blockers\<close>

lemma shard_blockers_Nil:
  assumes "wf_shard shard"
  shows "shard_blockers shard t req = [] \<longleftrightarrow>
     (\<forall>r holder. holder \<in> set (state_of shard r) \<longrightarrow> lh_txn_id holder \<noteq> t \<longrightarrow>
        \<not> lock_grants_conflict r (lh_mode holder) (req_resource req) (req_mode req))"
proof -
  have "shard_blockers shard t req = [] \<longleftrightarrow>
      (\<forall>(r, st) \<in> set shard. \<forall>holder \<in> set st. lh_txn_id holder \<noteq> t \<longrightarrow>
         \<not> lock_grants_conflict r (lh_mode holder) (req_resource req) (req_mode req))"
    by (fastforce simp: shard_blockers_def normalize_txn_ids_def filter_empty_conv
        dest: lock_grants_conflict_resource split: if_splits)
  also have "\<dots> \<longleftrightarrow> (\<forall>r holder. holder \<in> set (state_of shard r) \<longrightarrow> lh_txn_id holder \<noteq> t \<longrightarrow>
        \<not> lock_grants_conflict r (lh_mode holder) (req_resource req) (req_mode req))"
    using mem_shard_iff [OF assms] by fastforce
  finally show ?thesis .
qed

text \<open>Exact resources conflict with nothing but themselves among the exact resources.\<close>

lemma fine_conflict_eq:
  "\<not> is_coarse_resource a \<Longrightarrow> \<not> is_coarse_resource b \<Longrightarrow> conflicts_with a b \<Longrightarrow> a = b"
  by (cases a; cases b) (auto simp: conflicts_with_def split: if_splits)

lemma exact_blockers_set:
  "set (fold (append_exact_blockers shard t) reqs bs) =
     set bs \<union> {lh_txn_id holder | holder req. req \<in> set reqs \<and> holder \<in> set (state_of shard (req_resource req)) \<and>
        lh_txn_id holder \<noteq> t \<and>
        lock_grants_conflict (req_resource req) (lh_mode holder) (req_resource req) (req_mode req)}"
proof (induction reqs arbitrary: bs)
  case (Cons req reqs)
  have "set (append_exact_blockers shard t req bs) = set bs \<union>
      {lh_txn_id holder | holder. holder \<in> set (state_of shard (req_resource req)) \<and>
        lh_txn_id holder \<noteq> t \<and>
        lock_grants_conflict (req_resource req) (lh_mode holder) (req_resource req) (req_mode req)}"
    by (auto simp: append_exact_blockers_def state_of_def split: option.splits)
  with Cons show ?case by auto
qed simp


subsection \<open>Releasing one lock\<close>

definition same_frame :: "lock_manager \<Rightarrow> lock_manager \<Rightarrow> bool" where
  "same_frame m m' \<longleftrightarrow>
     length (lm_shards m') = length (lm_shards m) \<and> lm_escalation_policy m' = lm_escalation_policy m"

lemma same_frame_refl [simp]: "same_frame m m"
  by (simp add: same_frame_def)

lemma same_frame_trans: "same_frame a b \<Longrightarrow> same_frame b c \<Longrightarrow> same_frame a c"
  by (simp add: same_frame_def)

lemma same_frame_index: "same_frame m m' \<Longrightarrow> lm_shard_index h m' = lm_shard_index h m"
  by (simp add: same_frame_def lm_shard_index_def fun_eq_iff)

lemma same_frame_located: "same_frame m m' \<Longrightarrow> located h m' lock = located h m lock"
  by (simp add: located_def same_frame_index)

lemma lm_state_coarse_upd:
  assumes "is_coarse_resource rc" "\<And>r. r \<noteq> rc \<Longrightarrow> state_of coarse r = state_of (lm_coarse m) r"
  shows "lm_state h (m\<lparr>lm_coarse := coarse, lm_coarse_active_count := n, lm_coarse_epoch := e\<rparr>) r =
     (if r = rc then state_of coarse rc else lm_state h m r)"
  using assms by (simp add: lm_state_def lm_shard_for_def lm_shard_index_def)

lemma wf_manager_coarse_upd:
  assumes "wf_manager h m" "wf_shard coarse"
    "set (keys_of coarse) \<subseteq> insert rc (set (keys_of (lm_coarse m)))" "is_coarse_resource rc"
    "n = granted_count coarse mod usize_modulus"
  shows "wf_manager h (m\<lparr>lm_coarse := coarse, lm_coarse_active_count := n, lm_coarse_epoch := e\<rparr>)"
  using assms by (fastforce simp: wf_manager_def lm_shard_index_def)

lemma lm_state_fine_upd:
  assumes "wf_manager h m" "\<not> is_coarse_resource rf" "i = lm_shard_index h m rf"
    "\<And>r. r \<noteq> rf \<Longrightarrow> state_of shard r = state_of (lm_shards m ! i) r"
  shows "lm_state h (m\<lparr>lm_shards := (lm_shards m)[i := shard]\<rparr>) r =
     (if r = rf then state_of shard rf else lm_state h m r)"
  using assms wf_manager_index [OF assms(1), of rf] wf_manager_index [OF assms(1), of r]
  by (auto simp: lm_state_def lm_shard_for_def lm_shard_index_def nth_list_update)

lemma wf_manager_fine_upd:
  assumes "wf_manager h m" "i < length (lm_shards m)" "wf_shard shard"
    "\<forall>r \<in> set (keys_of shard). \<not> is_coarse_resource r \<and> lm_shard_index h m r = i"
  shows "wf_manager h (m\<lparr>lm_shards := (lm_shards m)[i := shard]\<rparr>)"
  using assms by (auto simp: wf_manager_def lm_shard_index_def nth_list_update)

lemma count_after_release:
  assumes "wf_shard shard" "shard_release shard t r prev = (shard', removed)"
  shows "(if removed then fetch_sub (granted_count shard mod usize_modulus) 1
          else granted_count shard mod usize_modulus) = granted_count shard' mod usize_modulus"
proof -
  have "granted_count shard = granted_count shard' + (if removed then 1 else 0)"
    using granted_count_release [OF assms] by simp
  then show ?thesis by (simp add: fetch_sub_mod)
qed

lemma release_lock_frame: "same_frame m (release_lock m t lock)"
  by (auto simp: same_frame_def release_lock_def release_coarse_lock_def
      split: lock_location.splits prod.splits)

lemma release_coarse_lock_state:
  assumes "wf_manager h m" "is_coarse_resource rc"
  shows "lm_state h (release_coarse_lock m t rc prev) r =
      (if r = rc then release_state (lm_state h m rc) t prev else lm_state h m r)"
    and "wf_manager h (release_coarse_lock m t rc prev)"
proof -
  obtain coarse removed where rel: "shard_release (lm_coarse m) t rc prev = (coarse, removed)"
    by (cases "shard_release (lm_coarse m) t rc prev")
  have st: "state_of coarse r = (if r = rc then release_state (state_of (lm_coarse m) rc) t prev
      else state_of (lm_coarse m) r)" for r
    using shard_release_state [of "lm_coarse m" t rc prev r] rel by simp
  have eq: "release_coarse_lock m t rc prev =
      m\<lparr>lm_coarse := coarse,
        lm_coarse_active_count := (if removed then fetch_sub (lm_coarse_active_count m) 1
          else lm_coarse_active_count m),
        lm_coarse_epoch := lm_coarse_epoch m + 1\<rparr>"
    by (simp add: release_coarse_lock_def rel)
  show "lm_state h (release_coarse_lock m t rc prev) r =
      (if r = rc then release_state (lm_state h m rc) t prev else lm_state h m r)"
    unfolding eq
    by (subst lm_state_coarse_upd [OF assms(2)])
      (use st assms(2) in \<open>auto simp: state_of_coarse [OF assms(1)]\<close>)
  have wfc: "wf_shard (lm_coarse m)" and cnt:
    "lm_coarse_active_count m = granted_count (lm_coarse m) mod usize_modulus"
    using assms(1) by (auto simp: wf_manager_def)
  show "wf_manager h (release_coarse_lock m t rc prev)"
    unfolding eq cnt
    using wf_shard_release [OF wfc, of t rc prev] keys_release [of "lm_coarse m" t rc prev]
      count_after_release [OF wfc rel] rel
    by (intro wf_manager_coarse_upd [OF assms(1) _ _ assms(2)]) auto
qed

lemma release_lock_state:
  assumes "wf_manager h m" "located h m lock"
  shows "lm_state h (release_lock m t lock) r =
      (if r = gl_resource lock then release_state (lm_state h m r) t (gl_previous_mode lock)
       else lm_state h m r)"
    and "wf_manager h (release_lock m t lock)"
proof -
  let ?r = "gl_resource lock" and ?prev = "gl_previous_mode lock"
  have "lm_state h (release_lock m t lock) r =
      (if r = ?r then release_state (lm_state h m r) t ?prev else lm_state h m r)
    \<and> wf_manager h (release_lock m t lock)"
  proof (cases "is_coarse_resource ?r")
    case True
    then have "release_lock m t lock = release_coarse_lock m t ?r ?prev"
      using assms(2) by (simp add: release_lock_def located_def)
    then show ?thesis
      using release_coarse_lock_state [OF assms(1) True, of t ?prev] by simp
  next
    case False
    let ?i = "lm_shard_index h m ?r"
    let ?s = "fst (shard_release (lm_shards m ! ?i) t ?r ?prev)"
    have eq: "release_lock m t lock = m\<lparr>lm_shards := (lm_shards m)[?i := ?s]\<rparr>"
      using assms(2) False by (simp add: release_lock_def located_def)
    note i = wf_manager_index [OF assms(1), of ?r]
    have "lm_state h (release_lock m t lock) r =
      (if r = ?r then release_state (lm_state h m r) t ?prev else lm_state h m r)"
      unfolding eq
      by (subst lm_state_fine_upd [OF assms(1) False])
        (use False in \<open>auto simp: shard_release_state state_of_fine [OF assms(1) i]\<close>)
    moreover have "wf_manager h (release_lock m t lock)"
      unfolding eq
    proof (rule wf_manager_fine_upd [OF assms(1) i])
      show "wf_shard ?s" using wf_manager_shard [OF assms(1) i] by (rule wf_shard_release)
      show "\<forall>r \<in> set (keys_of ?s). \<not> is_coarse_resource r \<and> lm_shard_index h m r = ?i"
        using keys_release [of "lm_shards m ! ?i" t ?r ?prev] assms(1) i
        by (fastforce simp: wf_manager_def)
    qed
    ultimately show ?thesis ..
  qed
  then show "lm_state h (release_lock m t lock) r =
      (if r = ?r then release_state (lm_state h m r) t ?prev else lm_state h m r)"
    and "wf_manager h (release_lock m t lock)"
    by auto
qed


subsection \<open>Granting\<close>

text \<open>What an acquired lock records about the state it was granted in.\<close>

definition lock_of ::
  "(lock_resource \<Rightarrow> u64) \<Rightarrow> lock_manager \<Rightarrow> txn_id \<Rightarrow> lock_request \<Rightarrow> granted_lock" where
  "lock_of h m t req =
     \<lparr>gl_resource = req_resource req, gl_mode = req_mode req,
      gl_location = (if is_coarse_resource (req_resource req) then Coarse
                     else FineShard (lm_shard_index h m (req_resource req))),
      gl_previous_mode =
        go_previous_mode (snd (grant_holder (lm_state h m (req_resource req)) t (req_mode req)))\<rparr>"

definition granted_state :: "(lock_resource \<Rightarrow> u64) \<Rightarrow> lock_manager \<Rightarrow> txn_id \<Rightarrow> lock_request \<Rightarrow> lock_state" where
  "granted_state h m t req = fst (grant_holder (lm_state h m (req_resource req)) t (req_mode req))"

lemma lock_of_simps [simp]:
  "gl_resource (lock_of h m t req) = req_resource req"
  "gl_mode (lock_of h m t req) = req_mode req"
  "located h m (lock_of h m t req)"
  by (simp_all add: lock_of_def located_def)

lemma clear_of_blockers:
  assumes "wf_manager h m" "shard_blockers (lm_coarse m) t req = []"
    "\<And>i. i < length (lm_shards m) \<Longrightarrow> shard_blockers (lm_shards m ! i) t req = []"
  shows "clear_of h m t (req_resource req) (req_mode req)"
proof -
  have "shard_blockers (lm_shard_for h m r) t req = []" for r
    using assms wf_manager_index [OF assms(1), of r] by (simp add: lm_shard_for_def)
  then show ?thesis
    using shard_blockers_Nil [OF wf_manager_shard_for [OF assms(1)]]
    by (fastforce simp: clear_of_def lm_state_def)
qed

lemma fine_blockers_Nil:
  "fine_blockers m t req = [] \<longleftrightarrow> (\<forall>i < length (lm_shards m). shard_blockers (lm_shards m ! i) t req = [])"
  by (simp add: fine_blockers_def normalize_txn_ids_def all_set_conv_all_nth)

lemma try_grant_coarse_cases:
  assumes "wf_manager h m" "is_coarse_resource (req_resource req)"
    "try_grant_coarse m t req = (m', res)"
  obtains (granted) "res = Inr [lock_of h m t req]" "clear_of h m t (req_resource req) (req_mode req)"
      "\<And>r. lm_state h m' r = (if r = req_resource req then granted_state h m t req else lm_state h m r)"
      "wf_manager h m'" "same_frame m m'"
      "granted_count (lm_coarse m') \<le> Suc (granted_count (lm_coarse m))"
  | (refused) err where "res = Inl err"
      "unsaturated (lm_state h m (req_resource req)) \<Longrightarrow> \<forall>r. lm_state h m' r = lm_state h m r"
      "wf_manager h m'" "same_frame m m'"
proof -
  let ?rc = "req_resource req"
  note wf = assms(1) and coarse = assms(2)
  have wfc: "wf_shard (lm_coarse m)"
    and cnt: "lm_coarse_active_count m = granted_count (lm_coarse m) mod usize_modulus"
    using wf by (auto simp: wf_manager_def)
  show thesis
  proof (cases "shard_blockers (lm_coarse m) t req = []")
    case False
    with assms(3) have "m' = m" "res = Inl (classify_wound_wait t (shard_blockers (lm_coarse m) t req))"
      by (auto simp: try_grant_coarse_def)
    with that(2) wf show thesis by simp
  next
    case nb: True
    obtain c oc where sg: "shard_grant (lm_coarse m) t req = (c, oc)"
      by (cases "shard_grant (lm_coarse m) t req")
    let ?n = "if go_inserted_holder oc then fetch_add (lm_coarse_active_count m) 1
        else lm_coarse_active_count m"
    let ?m1 = "m\<lparr>lm_coarse := c, lm_coarse_active_count := ?n, lm_coarse_epoch := lm_coarse_epoch m + 1\<rparr>"
    have gst: "state_of c r = (if r = ?rc then granted_state h m t req else state_of (lm_coarse m) r)" for r
      using shard_grant_state(1) [OF sg, of r] coarse
      by (simp add: granted_state_def state_of_coarse [OF wf])
    have oc: "go_previous_mode oc = gl_previous_mode (lock_of h m t req)"
      using shard_grant_state(2) [OF sg] coarse by (simp add: lock_of_def state_of_coarse [OF wf])
    have st1: "lm_state h ?m1 r = (if r = ?rc then granted_state h m t req else lm_state h m r)" for r
      by (subst lm_state_coarse_upd [OF coarse]) (simp_all add: gst)
    have gc: "granted_count c = granted_count (lm_coarse m) + (if go_inserted_holder oc then 1 else 0)"
      by (rule granted_count_grant [OF wfc sg])
    have wf1: "wf_manager h ?m1"
      using keys_grant [OF sg] cnt gc
      by (intro wf_manager_coarse_upd [OF wf wf_shard_grant [OF wfc sg] _ coarse])
        (auto simp: fetch_add_mod)
    have frame1: "same_frame m ?m1" by (simp add: same_frame_def)
    show thesis
    proof (cases "fine_blockers ?m1 t req = []")
      case True
      then have "clear_of h m t ?rc (req_mode req)"
        using nb by (intro clear_of_blockers [OF wf]) (simp_all add: fine_blockers_Nil)
      moreover have "m' = ?m1" "res = Inr [lock_of h m t req]"
        using assms(3) nb True sg coarse oc by (auto simp: try_grant_coarse_def Let_def lock_of_def)
      ultimately show thesis
        using that(1) st1 wf1 frame1 gc by auto
    next
      case False
      let ?m2 = "release_coarse_lock ?m1 t ?rc (go_previous_mode oc)"
      have m': "m' = ?m2" and res: "res = Inl (classify_wound_wait t (fine_blockers ?m1 t req))"
        using assms(3) nb False sg by (auto simp: try_grant_coarse_def Let_def)
      have "\<forall>r. lm_state h m' r = lm_state h m r" if "unsaturated (lm_state h m ?rc)"
        using release_after_grant [OF lm_state_wf [OF wf] that, of t "req_mode req"]
        unfolding m' release_coarse_lock_state(1) [OF wf1 coarse] st1
        by (simp add: granted_state_def oc lock_of_def prod_eq_iff)
      moreover have "wf_manager h m'"
        unfolding m' by (rule release_coarse_lock_state(2) [OF wf1 coarse])
      moreover have "same_frame m m'"
        unfolding m' same_frame_def by (simp add: release_coarse_lock_def split: prod.splits)
      ultimately show thesis using that(2) res by blast
    qed
  qed
qed


lemma grant_batch_spec:
  assumes "wf_shard shard" "distinct (map req_resource reqs)"
    "grant_batch shard t i reqs = (shard', locks)"
  shows "wf_shard shard'"
    and "set (keys_of shard') = req_resource ` set reqs \<union> set (keys_of shard)"
    and "r \<notin> req_resource ` set reqs \<Longrightarrow> state_of shard' r = state_of shard r"
    and "req \<in> set reqs \<Longrightarrow> state_of shard' (req_resource req) =
           fst (grant_holder (state_of shard (req_resource req)) t (req_mode req))"
    and "locks = map (\<lambda>req. \<lparr>gl_resource = req_resource req, gl_mode = req_mode req,
           gl_location = FineShard i, gl_previous_mode =
             go_previous_mode (snd (grant_holder (state_of shard (req_resource req)) t (req_mode req)))\<rparr>) reqs"
proof -
  have "wf_shard shard' \<and>
    set (keys_of shard') = req_resource ` set reqs \<union> set (keys_of shard) \<and>
    (\<forall>r. r \<notin> req_resource ` set reqs \<longrightarrow> state_of shard' r = state_of shard r) \<and>
    (\<forall>req \<in> set reqs. state_of shard' (req_resource req) =
       fst (grant_holder (state_of shard (req_resource req)) t (req_mode req))) \<and>
    locks = map (\<lambda>req. \<lparr>gl_resource = req_resource req, gl_mode = req_mode req,
      gl_location = FineShard i, gl_previous_mode =
        go_previous_mode (snd (grant_holder (state_of shard (req_resource req)) t (req_mode req)))\<rparr>) reqs"
    using assms
  proof (induction reqs arbitrary: shard locks)
    case (Cons req reqs)
    obtain s1 oc where sg: "shard_grant shard t req = (s1, oc)" by (cases "shard_grant shard t req")
    obtain locks1 where gb: "grant_batch s1 t i reqs = (shard', locks1)"
      and locks: "locks = \<lparr>gl_resource = req_resource req, gl_mode = req_mode req,
          gl_location = FineShard i, gl_previous_mode = go_previous_mode oc\<rparr> # locks1"
      using Cons.prems(3) sg by (auto split: prod.splits)
    have wf1: "wf_shard s1" by (rule wf_shard_grant [OF Cons.prems(1) sg])
    have dist: "distinct (map req_resource reqs)" "req_resource req \<notin> req_resource ` set reqs"
      using Cons.prems(2) by auto
    note IH = Cons.IH [OF wf1 dist(1) gb]
    have same: "\<forall>r \<in> req_resource ` set reqs. state_of s1 r = state_of shard r"
      by (metis dist(2) shard_grant_state(1) [OF sg])
    then have same': "\<forall>x \<in> set reqs. state_of s1 (req_resource x) = state_of shard (req_resource x)"
      by auto
    have "locks = map (\<lambda>req. \<lparr>gl_resource = req_resource req, gl_mode = req_mode req,
      gl_location = FineShard i, gl_previous_mode =
        go_previous_mode (snd (grant_holder (state_of shard (req_resource req)) t (req_mode req)))\<rparr>) (req # reqs)"
      using IH same' locks shard_grant_state(2) [OF sg] by simp
    moreover have "\<forall>x \<in> set (req # reqs). state_of shard' (req_resource x) =
       fst (grant_holder (state_of shard (req_resource x)) t (req_mode x))"
      using IH dist(2) same' shard_grant_state(1) [OF sg, of "req_resource req"] by auto
    ultimately show ?case
      using IH keys_grant [OF sg] shard_grant_state(1) [OF sg] by auto
  qed simp
  then show "wf_shard shard'"
    "set (keys_of shard') = req_resource ` set reqs \<union> set (keys_of shard)"
    "r \<notin> req_resource ` set reqs \<Longrightarrow> state_of shard' r = state_of shard r"
    "req \<in> set reqs \<Longrightarrow> state_of shard' (req_resource req) =
       fst (grant_holder (state_of shard (req_resource req)) t (req_mode req))"
    "locks = map (\<lambda>req. \<lparr>gl_resource = req_resource req, gl_mode = req_mode req,
      gl_location = FineShard i, gl_previous_mode =
        go_previous_mode (snd (grant_holder (state_of shard (req_resource req)) t (req_mode req)))\<rparr>) reqs"
    by auto
qed

lemma granted_count_zero: "wf_shard shard \<Longrightarrow> granted_count shard = 0 \<Longrightarrow> shard = []"
  by (cases shard) (auto simp: granted_count_def wf_shard_def)

lemma coarse_blockers_many_Nil:
  assumes "wf_manager h m" "granted_count (lm_coarse m) < usize_modulus"
    "coarse_blockers_many m t reqs = []" "req \<in> set reqs"
  shows "shard_blockers (lm_coarse m) t req = []"
proof (cases "lm_coarse_active_count m = 0")
  case True
  then have "granted_count (lm_coarse m) = 0" "wf_shard (lm_coarse m)"
    using assms(1,2) by (simp_all add: wf_manager_def)
  then have "lm_coarse m = []" by (simp add: granted_count_zero)
  then show ?thesis by (simp add: shard_blockers_def normalize_txn_ids_def)
next
  case False
  with assms(3,4) show ?thesis
    by (simp add: coarse_blockers_many_def normalize_txn_ids_def)
qed

lemma exact_blockers_clear:
  assumes "wf_manager h m" "i < length (lm_shards m)" "\<not> is_coarse_resource (req_resource req)"
    "lm_shard_index h m (req_resource req) = i" "req \<in> set reqs"
    "fold (append_exact_blockers (lm_shards m ! i) t) reqs [] = []"
    "shard_blockers (lm_coarse m) t req = []"
  shows "clear_of h m t (req_resource req) (req_mode req)"
proof (rule clear_of_blockers [OF assms(1,7)])
  fix j assume j: "j < length (lm_shards m)"
  show "shard_blockers (lm_shards m ! j) t req = []"
    unfolding shard_blockers_Nil [OF wf_manager_shard [OF assms(1) j]]
  proof (intro allI impI notI)
    fix r holder
    assume hold: "holder \<in> set (state_of (lm_shards m ! j) r)" and t: "lh_txn_id holder \<noteq> t"
      and conf: "lock_grants_conflict r (lh_mode holder) (req_resource req) (req_mode req)"
    have "\<not> is_coarse_resource r"
      using hold state_of_fine [OF assms(1) j, of r] by (auto split: if_splits)
    then have r: "r = req_resource req"
      using fine_conflict_eq [OF _ assms(3)] lock_grants_conflict_resource [OF conf] by blast
    then have "holder \<in> set (state_of (lm_shards m ! i) r)"
      using hold assms(4) state_of_fine [OF assms(1) j, of r] by (auto split: if_splits)
    with r t conf assms(5) exact_blockers_set [of "lm_shards m ! i" t reqs "[]"]
    have "lh_txn_id holder \<in> set (fold (append_exact_blockers (lm_shards m ! i) t) reqs [])"
      by auto
    with assms(6) show False by simp
  qed
qed

lemma try_grant_fine_batch_cases:
  assumes "wf_manager h m" "i < length (lm_shards m)" "granted_count (lm_coarse m) < usize_modulus"
    "\<forall>req \<in> set reqs. \<not> is_coarse_resource (req_resource req) \<and> lm_shard_index h m (req_resource req) = i"
    "distinct (map req_resource reqs)" "try_grant_fine_batch m t i reqs = (m', res)"
  obtains (granted) "res = Inr (map (lock_of h m t) reqs)"
      "\<forall>req \<in> set reqs. clear_of h m t (req_resource req) (req_mode req)"
      "\<forall>req \<in> set reqs. lm_state h m' (req_resource req) = granted_state h m t req"
      "\<And>r. r \<notin> req_resource ` set reqs \<Longrightarrow> lm_state h m' r = lm_state h m r"
      "wf_manager h m'" "same_frame m m'" "lm_coarse m' = lm_coarse m"
  | (refused) err where "res = Inl err" "m' = m"
proof -
  note wf = assms(1) and i = assms(2)
  let ?s = "lm_shards m ! i"
  have "(\<exists>err. res = Inl err \<and> m' = m) \<or>
    (coarse_blockers_many m t reqs = [] \<and> fold (append_exact_blockers ?s t) reqs [] = [] \<and>
     m' = m\<lparr>lm_shards := (lm_shards m)[i := fst (grant_batch ?s t i reqs)]\<rparr> \<and>
     res = Inr (snd (grant_batch ?s t i reqs)))"
    using assms(6)
    by (auto simp: try_grant_fine_batch_def fine_batch_precheck_def fine_batch_locked_def Let_def
        normalize_txn_ids_def coarse_blockers_many_def split: if_splits sum.splits prod.splits)
  then show thesis
  proof (elim disjE exE conjE)
    fix err assume "res = Inl err" "m' = m"
    then show thesis using that(2) by blast
  next
    assume cb: "coarse_blockers_many m t reqs = []"
      and eb: "fold (append_exact_blockers ?s t) reqs [] = []"
      and m': "m' = m\<lparr>lm_shards := (lm_shards m)[i := fst (grant_batch ?s t i reqs)]\<rparr>"
      and res: "res = Inr (snd (grant_batch ?s t i reqs))"
    obtain s' locks where gb: "grant_batch ?s t i reqs = (s', locks)"
      by (cases "grant_batch ?s t i reqs")
    note spec = grant_batch_spec [OF wf_manager_shard [OF wf i] assms(5) gb]
    have st: "lm_state h m' r = (if \<not> is_coarse_resource r \<and> lm_shard_index h m r = i
        then state_of s' r else lm_state h m r)" for r
      using i wf_manager_index [OF wf, of r] unfolding m' gb
      by (auto simp: lm_state_def lm_shard_for_def lm_shard_index_def nth_list_update)
    have old: "state_of ?s r = lm_state h m r" if "\<not> is_coarse_resource r" "lm_shard_index h m r = i" for r
      using state_of_fine [OF wf i, of r] that by simp
    have locks: "locks = map (lock_of h m t) reqs"
      unfolding spec(5) using assms(4) old by (auto simp: lock_of_def)
    show thesis
    proof (rule that(1))
      show "res = Inr (map (lock_of h m t) reqs)" by (simp add: res gb locks)
      show "\<forall>req \<in> set reqs. clear_of h m t (req_resource req) (req_mode req)"
      proof
        fix req assume req: "req \<in> set reqs"
        with assms(4) have "\<not> is_coarse_resource (req_resource req)" "lm_shard_index h m (req_resource req) = i"
          by auto
        then show "clear_of h m t (req_resource req) (req_mode req)"
          using coarse_blockers_many_Nil [OF wf assms(3) cb req]
          by (intro exact_blockers_clear [OF wf i _ _ req eb]) auto
      qed
      show "\<forall>req \<in> set reqs. lm_state h m' (req_resource req) = granted_state h m t req"
        using assms(4) spec(4) old by (simp add: st granted_state_def)
      show "lm_state h m' r = lm_state h m r" if "r \<notin> req_resource ` set reqs" for r
        using spec(3) [OF that] old by (simp add: st)
      show "wf_manager h m'"
        unfolding m' gb fst_conv
      proof (rule wf_manager_fine_upd [OF wf i spec(1)])
        have "\<forall>r \<in> set (keys_of (lm_shards m ! i)). \<not> is_coarse_resource r \<and> lm_shard_index h m r = i"
          using wf i by (simp add: wf_manager_def)
        then show "\<forall>r \<in> set (keys_of s'). \<not> is_coarse_resource r \<and> lm_shard_index h m r = i"
          unfolding spec(2) using assms(4) by blast
      qed
    qed (simp_all add: m' same_frame_def)
  qed
qed

end
