(* ===== verification/Lock_Sets.thy ===== *)
theory Lock_Sets
  imports Lock_Safety
begin

text \<open>
  The whole of \<open>LockManager::lock_many\<close>: its request normalisation, its loops over coarse requests
  and over shard batches, tablet escalation, and the unwinding on every error path.  The
  invariant \<open>tracks\<close> ties the manager to the lock set acquired so far; \<open>lock_many_cases\<close> states the
  two outcomes the properties rest on.
\<close>

section \<open>Locks acquired on top of an earlier state\<close>

text \<open>\<open>tracks h t m0 m locks\<close>: the manager \<open>m\<close> is \<open>m0\<close> with exactly the listed locks granted to
  \<open>t\<close>, each recorded with what its release needs, and each admissible in \<open>m0\<close>.\<close>

definition tracks_lock ::
  "(lock_resource \<Rightarrow> u64) \<Rightarrow> txn_id \<Rightarrow> lock_manager \<Rightarrow> lock_manager \<Rightarrow> granted_lock \<Rightarrow> bool" where
  "tracks_lock h t m0 m lock \<longleftrightarrow>
     located h m lock \<and> clear_of h m0 t (gl_resource lock) (gl_mode lock) \<and>
     (\<exists>oc. grant_holder (lm_state h m0 (gl_resource lock)) t (gl_mode lock) =
              (lm_state h m (gl_resource lock), oc) \<and>
           gl_previous_mode lock = go_previous_mode oc)"

definition tracks ::
  "(lock_resource \<Rightarrow> u64) \<Rightarrow> txn_id \<Rightarrow> lock_manager \<Rightarrow> lock_manager \<Rightarrow> granted_lock list \<Rightarrow> bool" where
  "tracks h t m0 m locks \<longleftrightarrow>
     wf_manager h m \<and> same_frame m0 m \<and> distinct (map gl_resource locks) \<and>
     (\<forall>lock \<in> set locks. tracks_lock h t m0 m lock) \<and>
     (\<forall>r. r \<notin> gl_resource ` set locks \<longrightarrow> lm_state h m r = lm_state h m0 r)"

lemma tracks_refl: "wf_manager h m \<Longrightarrow> tracks h t m m []"
  by (simp add: tracks_def)

lemma tracks_others:
  assumes "tracks h t m0 m locks" "lh_txn_id holder \<noteq> t"
  shows "holder \<in> set (lm_state h m r) \<longleftrightarrow> holder \<in> set (lm_state h m0 r)"
proof (cases "r \<in> gl_resource ` set locks")
  case True
  then obtain lock where "lock \<in> set locks" "r = gl_resource lock" by auto
  with assms(1) obtain oc where
    "grant_holder (lm_state h m0 r) t (gl_mode lock) = (lm_state h m r, oc)"
    by (auto simp: tracks_def tracks_lock_def)
  from grant_holder_others [OF this assms(2)] show ?thesis .
next
  case False
  with assms(1) show ?thesis by (simp add: tracks_def)
qed

lemma tracks_clear_of:
  "tracks h t m0 m locks \<Longrightarrow> clear_of h m t r md \<longleftrightarrow> clear_of h m0 t r md"
  unfolding clear_of_def by (metis tracks_others)

lemma tracks_same_states:
  assumes "tracks h t m0 m locks" "\<forall>r. lm_state h m' r = lm_state h m r"
    "wf_manager h m'" "same_frame m m'"
  shows "tracks h t m0 m' locks"
  using assms same_frame_located [OF assms(4)] same_frame_trans [of m0 m m']
  by (simp add: tracks_def tracks_lock_def)

subsection \<open>Whom a refusal names\<close>

text \<open>A refusal names transactions, at least one, that hold a lock which conflicts with one of the given requests.\<close>

definition in_the_way ::
  "(lock_resource \<Rightarrow> u64) \<Rightarrow> lock_manager \<Rightarrow> txn_id \<Rightarrow> lock_request set \<Rightarrow> txn_id \<Rightarrow> bool" where
  "in_the_way h m t reqs b \<longleftrightarrow>
     b \<noteq> t \<and> (\<exists>req \<in> reqs. \<exists>r holder. holder \<in> set (lm_state h m r) \<and> lh_txn_id holder = b \<and>
       lock_grants_conflict r (lh_mode holder) (req_resource req) (req_mode req))"

definition blames ::
  "(lock_resource \<Rightarrow> u64) \<Rightarrow> lock_manager \<Rightarrow> txn_id \<Rightarrow> lock_request set \<Rightarrow> lock_acquire_error \<Rightarrow> bool" where
  "blames h m t reqs err \<longleftrightarrow> (\<exists>bs. bs \<noteq> [] \<and> err = classify_wound_wait t bs \<and> (\<forall>b \<in> set bs. in_the_way h m t reqs b))"

lemma in_the_wayI:
  "holder \<in> set (lm_state h m r) \<Longrightarrow> lh_txn_id holder \<noteq> t \<Longrightarrow> req \<in> reqs \<Longrightarrow>
     lock_grants_conflict r (lh_mode holder) (req_resource req) (req_mode req) \<Longrightarrow> in_the_way h m t reqs (lh_txn_id holder)"
  unfolding in_the_way_def by blast

lemma in_the_way_mono: "in_the_way h m t reqs b \<Longrightarrow> reqs \<subseteq> reqs' \<Longrightarrow> in_the_way h m t reqs' b"
  unfolding in_the_way_def by blast

lemma blames_mono: "blames h m t reqs err \<Longrightarrow> reqs \<subseteq> reqs' \<Longrightarrow> blames h m t reqs' err"
  unfolding blames_def using in_the_way_mono by blast

lemma tracks_in_the_way:
  assumes "tracks h t m0 m locks" "in_the_way h m t reqs b"
  shows "in_the_way h m0 t reqs b"
proof -
  from assms(2) obtain req r holder where "b \<noteq> t" "req \<in> reqs" "holder \<in> set (lm_state h m r)" "lh_txn_id holder = b"
    "lock_grants_conflict r (lh_mode holder) (req_resource req) (req_mode req)" unfolding in_the_way_def by blast
  with tracks_others [OF assms(1), of holder r] in_the_wayI [of holder h m0 r t req reqs] show ?thesis by simp
qed

lemma tracks_blames: "tracks h t m0 m locks \<Longrightarrow> blames h m t reqs err \<Longrightarrow> blames h m0 t reqs err"
  unfolding blames_def using tracks_in_the_way by blast

lemma shard_blockers_in_the_way:
  assumes "wf_shard shard" "b \<in> set (shard_blockers shard t req)" "req \<in> reqs"
    "\<And>r. set (state_of shard r) \<subseteq> set (lm_state h m r)"
  shows "in_the_way h m t reqs b"
proof -
  from assms(2) obtain r st holder where b: "(r, st) \<in> set shard" "holder \<in> set st" "lh_txn_id holder = b" "b \<noteq> t"
    "lock_grants_conflict r (lh_mode holder) (req_resource req) (req_mode req)"
    by (auto simp: shard_blockers_def normalize_txn_ids_def split: if_splits)
  have "state_of shard r = st" using mem_shard_iff [OF assms(1), of r st] b(1) by simp
  then have "holder \<in> set (lm_state h m r)" using assms(4) [of r] b(2) by auto
  then show ?thesis using in_the_wayI [of holder h m r t req reqs] assms(3) b(3,4,5) by simp
qed

lemma coarse_in_the_way:
  assumes "wf_manager h m" "b \<in> set (shard_blockers (lm_coarse m) t req)" "req \<in> reqs"
  shows "in_the_way h m t reqs b"
  by (rule shard_blockers_in_the_way [OF _ assms(2,3)])
    (use assms(1) in \<open>auto simp: wf_manager_def state_of_coarse [OF assms(1)] split: if_splits\<close>)

lemma fine_in_the_way:
  assumes "wf_manager h m" "i < length (lm_shards m)" "b \<in> set (shard_blockers (lm_shards m ! i) t req)" "req \<in> reqs"
  shows "in_the_way h m t reqs b"
  by (rule shard_blockers_in_the_way [OF wf_manager_shard [OF assms(1,2)] assms(3,4)])
    (auto simp: state_of_fine [OF assms(1,2)] split: if_splits)

lemma try_grant_coarse_blames:
  assumes "wf_manager h m" "try_grant_coarse m t req = (m', Inl err)"
  shows "blames h m t {req} err"
proof (cases "shard_blockers (lm_coarse m) t req = []")
  case False
  with assms(2) have "err = classify_wound_wait t (shard_blockers (lm_coarse m) t req)" by (auto simp: try_grant_coarse_def)
  with False coarse_in_the_way [OF assms(1)] show ?thesis unfolding blames_def by blast
next
  case True
  have err: "err = classify_wound_wait t (fine_blockers m t req)" "fine_blockers m t req \<noteq> []"
    using assms(2) True by (auto simp: try_grant_coarse_def fine_blockers_def Let_def split: prod.splits if_splits)
  have "in_the_way h m t {req} b" if blk: "b \<in> set (fine_blockers m t req)" for b
  proof -
    obtain shard where "shard \<in> set (lm_shards m)" "b \<in> set (shard_blockers shard t req)"
      using blk by (auto simp: fine_blockers_def normalize_txn_ids_def)
    then obtain i where "i < length (lm_shards m)" "b \<in> set (shard_blockers (lm_shards m ! i) t req)"
      by (metis in_set_conv_nth)
    then show ?thesis by (rule fine_in_the_way [OF assms(1)]) simp
  qed
  with err show ?thesis unfolding blames_def by blast
qed

lemma try_grant_fine_batch_blames:
  assumes "wf_manager h m" "i < length (lm_shards m)" "try_grant_fine_batch m t i reqs = (m', Inl err)"
  shows "blames h m t (set reqs) err"
proof -
  let ?cb = "coarse_blockers_many m t reqs"
  let ?fb = "normalize_txn_ids (fold (append_exact_blockers (lm_shards m ! i) t) reqs [])"
  have "(err = classify_wound_wait t ?cb \<and> ?cb \<noteq> []) \<or> (err = classify_wound_wait t ?fb \<and> ?fb \<noteq> [])"
    using assms(3)
    by (auto simp: try_grant_fine_batch_def fine_batch_precheck_def fine_batch_locked_def Let_def
        split: if_splits sum.splits prod.splits)
  moreover have "in_the_way h m t (set reqs) b" if blk: "b \<in> set ?cb" for b
  proof -
    obtain req where "req \<in> set reqs" "b \<in> set (shard_blockers (lm_coarse m) t req)"
      using blk by (auto simp: coarse_blockers_many_def normalize_txn_ids_def split: if_splits)
    then show ?thesis by (intro coarse_in_the_way [OF assms(1)])
  qed
  moreover have "in_the_way h m t (set reqs) b" if blk: "b \<in> set ?fb" for b
  proof -
    obtain holder req where b: "b = lh_txn_id holder" "req \<in> set reqs" "holder \<in> set (state_of (lm_shards m ! i) (req_resource req))"
      "lh_txn_id holder \<noteq> t" "lock_grants_conflict (req_resource req) (lh_mode holder) (req_resource req) (req_mode req)"
      using blk exact_blockers_set [of "lm_shards m ! i" t reqs "[]"] by (auto simp: normalize_txn_ids_def)
    then have "holder \<in> set (lm_state h m (req_resource req))" by (simp add: state_of_fine [OF assms(1,2)] split: if_splits)
    from in_the_wayI [OF this b(4,2,5)] show ?thesis by (simp add: b(1))
  qed
  ultimately show ?thesis unfolding blames_def by blast
qed

lemma tracks_grant:
  assumes tr: "tracks h t m0 m locks"
    and new: "distinct (map req_resource reqs)" "req_resource ` set reqs \<inter> gl_resource ` set locks = {}"
    and clear: "\<forall>req \<in> set reqs. clear_of h m t (req_resource req) (req_mode req)"
    and granted: "\<forall>req \<in> set reqs. lm_state h m' (req_resource req) = granted_state h m t req"
    and other: "\<And>r. r \<notin> req_resource ` set reqs \<Longrightarrow> lm_state h m' r = lm_state h m r"
    and wf: "wf_manager h m'" and frame: "same_frame m m'"
  shows "tracks h t m0 m' (locks @ map (lock_of h m t) reqs)"
proof -
  have old: "tracks_lock h t m0 m' lock" if "lock \<in> set locks" for lock
  proof -
    from that new(2) have "gl_resource lock \<notin> req_resource ` set reqs" by auto
    from other [OF this] tr that show ?thesis
      by (simp add: tracks_def tracks_lock_def same_frame_located [OF frame])
  qed
  have fresh: "tracks_lock h t m0 m' (lock_of h m t req)" if req: "req \<in> set reqs" for req
  proof -
    from req new(2) have "req_resource req \<notin> gl_resource ` set locks" by auto
    with tr have same: "lm_state h m (req_resource req) = lm_state h m0 (req_resource req)"
      by (simp add: tracks_def)
    have "clear_of h m0 t (req_resource req) (req_mode req)"
      using clear req tracks_clear_of [OF tr] by auto
    moreover have "lm_state h m' (req_resource req) = granted_state h m t req"
      using granted req by auto
    ultimately show ?thesis
      by (simp add: tracks_lock_def same_frame_located [OF frame])
        (simp add: lock_of_def granted_state_def same prod_eq_iff)
  qed
  have dist: "distinct (map gl_resource (locks @ map (lock_of h m t) reqs))"
    using tr new by (auto simp: tracks_def comp_def)
  have rest: "lm_state h m' r = lm_state h m0 r"
    if "r \<notin> gl_resource ` set (locks @ map (lock_of h m t) reqs)" for r
  proof -
    from that have "r \<notin> req_resource ` set reqs" "r \<notin> gl_resource ` set locks"
      by (auto simp: image_Un image_image)
    then show ?thesis using other tr by (simp add: tracks_def)
  qed
  have "same_frame m0 m'" using tr frame same_frame_trans by (auto simp: tracks_def)
  with old fresh dist rest wf show ?thesis by (auto simp: tracks_def)
qed

lemma tracks_release:
  assumes tr: "tracks h t m0 m locks" and lock: "lock \<in> set locks"
    and wf0: "wf_manager h m0" and unsat: "unsaturated (lm_state h m0 (gl_resource lock))"
  shows "tracks h t m0 (release_lock m t lock) (filter (\<lambda>l. gl_resource l \<noteq> gl_resource lock) locks)"
proof -
  let ?m = "release_lock m t lock" and ?r = "gl_resource lock"
  from tr lock have wf: "wf_manager h m" and tl: "tracks_lock h t m0 m lock"
    by (auto simp: tracks_def)
  then have loc: "located h m lock" by (simp add: tracks_lock_def)
  from tl obtain oc where oc: "grant_holder (lm_state h m0 ?r) t (gl_mode lock) = (lm_state h m ?r, oc)"
    "gl_previous_mode lock = go_previous_mode oc"
    by (auto simp: tracks_lock_def)
  have undone: "lm_state h ?m ?r = lm_state h m0 ?r"
    using release_after_grant [OF lm_state_wf [OF wf0] unsat oc(1)] oc(2)
    by (simp add: release_lock_state(1) [OF wf loc])
  have keep: "lm_state h ?m r = lm_state h m r" if "r \<noteq> ?r" for r
    using that by (simp add: release_lock_state(1) [OF wf loc])
  have "tracks_lock h t m0 ?m l" if "l \<in> set locks" "gl_resource l \<noteq> ?r" for l
    using tr that keep by (simp add: tracks_def tracks_lock_def same_frame_located [OF release_lock_frame])
  moreover have "lm_state h ?m r = lm_state h m0 r"
    if "r \<notin> gl_resource ` set (filter (\<lambda>l. gl_resource l \<noteq> ?r) locks)" for r
  proof (cases "r = ?r")
    case False
    with that have "r \<notin> gl_resource ` set locks" by auto
    then show ?thesis using tr keep [OF False] by (simp add: tracks_def)
  qed (simp add: undone)
  moreover have "same_frame m0 ?m"
    using tr release_lock_frame same_frame_trans by (auto simp: tracks_def)
  ultimately show ?thesis
    using tr release_lock_state(2) [OF wf loc] by (auto simp: tracks_def distinct_map_filter)
qed

lemma tracks_release_locks:
  assumes "tracks h t m0 m locks" "wf_manager h m0" "\<forall>r. unsaturated (lm_state h m0 r)"
  shows "tracks h t m0 (release_locks m t (filter P locks)) (filter (\<lambda>l. \<not> P l) locks)"
proof -
  have "tracks h t m0 (fold (\<lambda>lock m'. release_lock m' t lock) xs m)
      (filter (\<lambda>l. gl_resource l \<notin> gl_resource ` set xs) locks)"
    if "set xs \<subseteq> set locks" "distinct (map gl_resource xs)" "tracks h t m0 m locks" for xs locks m
    using that
  proof (induction xs arbitrary: locks m)
    case (Cons x xs)
    let ?locks = "filter (\<lambda>l. gl_resource l \<noteq> gl_resource x) locks"
    have "tracks h t m0 (release_lock m t x) ?locks"
      using Cons.prems assms(2,3) by (intro tracks_release) auto
    moreover have "set xs \<subseteq> set ?locks" using Cons.prems(1,2) by (auto simp: image_iff)
    ultimately have "tracks h t m0 (fold (\<lambda>lock m'. release_lock m' t lock) xs (release_lock m t x))
        (filter (\<lambda>l. gl_resource l \<notin> gl_resource ` set xs) ?locks)"
      using Cons.prems(2) by (intro Cons.IH) auto
    then show ?case by (simp add: conj_commute)
  qed simp
  from this [of "rev (filter P locks)" locks m]
  have "tracks h t m0 (release_locks m t (filter P locks))
      (filter (\<lambda>l. gl_resource l \<notin> gl_resource ` set (filter P locks)) locks)"
    using assms(1) by (simp add: release_locks_def tracks_def distinct_map_filter flip: rev_map)
  moreover have "filter (\<lambda>l. gl_resource l \<notin> gl_resource ` set (filter P locks)) locks
      = filter (\<lambda>l. \<not> P l) locks"
  proof (rule filter_cong [OF refl])
    fix l assume "l \<in> set locks"
    moreover have "inj_on gl_resource (set locks)"
      using assms(1) by (simp add: tracks_def distinct_map)
    ultimately show "(gl_resource l \<notin> gl_resource ` set (filter P locks)) = (\<not> P l)"
      by (auto dest: inj_onD)
  qed
  ultimately show ?thesis by simp
qed

lemma tracks_release_all:
  assumes "tracks h t m0 m locks" "wf_manager h m0" "\<forall>r. unsaturated (lm_state h m0 r)"
  shows "lm_state h (release_locks m t locks) r = lm_state h m0 r"
    and "wf_manager h (release_locks m t locks)"
    and "same_frame m0 (release_locks m t locks)"
  using tracks_release_locks [OF assms, of "\<lambda>_. True"] by (simp_all add: tracks_def)

section \<open>Normalised requests\<close>

text \<open>The requests of one call that name a resource, combined the way the merge does.\<close>

definition merged_mode :: "lock_request list \<Rightarrow> lock_resource \<Rightarrow> lock_mode option" where
  "merged_mode reqs r =
     (case map req_mode (filter (\<lambda>req. req_resource req = r) reqs) of
        [] \<Rightarrow> None
      | md # mds \<Rightarrow> Some (fold (\<lambda>x acc. strongest acc x) mds md))"

lemma merged_mode_step:
  assumes "req_resource a = req_resource b" "req_resource a \<notin> req_resource ` set xs"
  shows "merged_mode (xs @ a\<lparr>req_mode := strongest (req_mode a) (req_mode b)\<rparr> # ys) r =
    merged_mode (xs @ a # b # ys) r"
proof -
  have "filter (\<lambda>req. req_resource req = r) xs = []" if "r = req_resource a"
    using assms(2) that by (auto simp: filter_empty_conv image_iff)
  then show ?thesis using assms(1) by (auto simp: merged_mode_def)
qed

lemma merged_mode_unique:
  assumes "distinct (map req_resource reqs)" "req \<in> set reqs"
  shows "merged_mode reqs (req_resource req) = Some (req_mode req)"
proof -
  obtain xs ys where reqs: "reqs = xs @ req # ys" by (metis assms(2) split_list)
  with assms(1) have "\<forall>x \<in> set xs \<union> set ys. req_resource x \<noteq> req_resource req"
    by (auto simp: image_iff)
  then have "filter (\<lambda>x. req_resource x = req_resource req) reqs = [req]"
    by (simp add: reqs)
  then show ?thesis by (simp add: merged_mode_def)
qed

lemma merged_mode_None: "merged_mode reqs r = None \<longleftrightarrow> r \<notin> req_resource ` set reqs"
proof -
  have "merged_mode reqs r = None \<longleftrightarrow> filter (\<lambda>req. req_resource req = r) reqs = []"
    by (auto simp: merged_mode_def split: list.split)
  then show ?thesis by (auto simp: filter_empty_conv)
qed

lemma merge_sorted_requests_spec:
  assumes "sorted (map req_resource (normalized @ reqs))" "distinct (map req_resource normalized)"
  shows "sorted (map req_resource (merge_sorted_requests normalized reqs)) \<and>
     distinct (map req_resource (merge_sorted_requests normalized reqs)) \<and>
     length (merge_sorted_requests normalized reqs) \<le> length normalized + length reqs \<and>
     (\<forall>r. merged_mode (merge_sorted_requests normalized reqs) r = merged_mode (normalized @ reqs) r)"
  using assms
proof (induction normalized reqs rule: merge_sorted_requests.induct)
  case (2 normalized req rest)
  show ?case
  proof (cases "normalized \<noteq> [] \<and> req_resource (last normalized) = req_resource req")
    case True
    then obtain xs a where n: "normalized = xs @ [a]" and eq: "req_resource a = req_resource req"
      by (metis append_butlast_last_id)
    let ?a = "a\<lparr>req_mode := strongest (req_mode a) (req_mode req)\<rparr>"
    have "sorted (map req_resource ((xs @ [?a]) @ rest))" "distinct (map req_resource (xs @ [?a]))"
      using "2.prems" by (auto simp: n sorted_append)
    with 2(1) True merged_mode_step [OF eq, of xs rest] "2.prems"(2) show ?thesis
      by (simp add: n)
  next
    case False
    have "req_resource req \<notin> req_resource ` set normalized"
    proof
      assume "req_resource req \<in> req_resource ` set normalized"
      then obtain x where x: "x \<in> set normalized" "req_resource x = req_resource req" by auto
      then obtain xs a where n: "normalized = xs @ [a]" by (metis list.set_cases list.distinct(1) rev_exhaust)
      have "req_resource x \<le> req_resource a" "req_resource a \<le> req_resource req"
        using "2.prems"(1) x by (auto simp: n sorted_append)
      with False x(2) n show False by auto
    qed
    with 2(2) False "2.prems" show ?thesis by (auto simp: sorted_append)
  qed
qed auto

lemma normalize_requests_spec:
  shows "sorted (map req_resource (normalize_requests reqs))"
    and "distinct (map req_resource (normalize_requests reqs))"
    and "length (normalize_requests reqs) \<le> length reqs"
    and "merged_mode (normalize_requests reqs) r = merged_mode reqs r"
    and "req_resource ` set (normalize_requests reqs) = req_resource ` set reqs"
proof -
  have sorted: "sorted (map req_resource ([] @ sort_key req_resource reqs))" by simp
  note spec = merge_sorted_requests_spec [OF sorted, folded normalize_requests_def]
  have key: "merged_mode (sort_key req_resource reqs) r = merged_mode reqs r" for r
    by (simp add: merged_mode_def sort_key_stable)
  show "sorted (map req_resource (normalize_requests reqs))"
    "distinct (map req_resource (normalize_requests reqs))"
    "length (normalize_requests reqs) \<le> length reqs"
    using spec by simp_all
  have merged: "merged_mode (normalize_requests reqs) r = merged_mode reqs r" for r
    using spec key by simp
  then show "merged_mode (normalize_requests reqs) r = merged_mode reqs r" .
  show "req_resource ` set (normalize_requests reqs) = req_resource ` set reqs"
    using merged merged_mode_None by (metis (no_types, lifting) subsetI subset_antisym)
qed

lemma normalize_requests_mode:
  "req \<in> set (normalize_requests reqs) \<Longrightarrow> merged_mode reqs (req_resource req) = Some (req_mode req)"
  using merged_mode_unique normalize_requests_spec(2,4) by metis

lemma merged_mode_request:
  assumes "merged_mode reqs r = Some md"
  shows "\<lparr>req_resource = r, req_mode = md\<rparr> \<in> set (normalize_requests reqs)"
proof -
  from assms have "r \<in> req_resource ` set (normalize_requests reqs)"
    using normalize_requests_spec(5) merged_mode_None by (metis option.distinct(1))
  then obtain req where req: "req \<in> set (normalize_requests reqs)" "req_resource req = r" by auto
  with normalize_requests_mode [OF req(1)] assms show ?thesis
    by (metis (full_types) lock_request.surjective old.unit.exhaust option.inject)
qed

section \<open>The loops of \<open>lock_many\<close>\<close>

definition lock_req :: "granted_lock \<Rightarrow> lock_request" where
  "lock_req lock = \<lparr>req_resource = gl_resource lock, req_mode = gl_mode lock\<rparr>"

lemma lock_req_simps [simp]:
  "req_resource (lock_req lock) = gl_resource lock" "req_mode (lock_req lock) = gl_mode lock"
  "lock_req (lock_of h m t req) = req"
  by (simp_all add: lock_req_def)

lemma lock_req_lock_of [simp]: "lock_req \<circ> lock_of h m t = id"
  by (simp add: fun_eq_iff)

text \<open>What the loops start from: a well-formed manager with no saturated reference count.\<close>

definition settled :: "(lock_resource \<Rightarrow> u64) \<Rightarrow> lock_manager \<Rightarrow> bool" where
  "settled h m \<longleftrightarrow> wf_manager h m \<and> (\<forall>r. unsaturated (lm_state h m r))"

lemma tracks_index: "tracks h t m0 m locks \<Longrightarrow> lm_shard_index h m = lm_shard_index h m0"
  by (simp add: tracks_def same_frame_index)

lemma tracks_coarse:
  assumes "settled h m0" "tracks h t m0 m locks" "is_coarse_resource (req_resource req)"
    "req_resource req \<notin> gl_resource ` set locks" "try_grant_coarse m t req = (m', res)"
  obtains (granted) "res = Inr [lock_of h m t req]" "tracks h t m0 m' (locks @ [lock_of h m t req])"
      "granted_count (lm_coarse m') \<le> Suc (granted_count (lm_coarse m))"
  | (refused) err where "res = Inl err" "tracks h t m0 m' locks"
proof -
  from assms(2,4) have same: "lm_state h m (req_resource req) = lm_state h m0 (req_resource req)"
    and wf: "wf_manager h m"
    by (auto simp: tracks_def)
  show thesis
  proof (cases rule: try_grant_coarse_cases [OF wf assms(3,5)])
    case 1
    have "tracks h t m0 m' (locks @ map (lock_of h m t) [req])"
      by (rule tracks_grant [OF assms(2)]) (use 1 assms(4) in auto)
    with that(1) 1 show thesis by simp
  next
    case (2 err)
    have "tracks h t m0 m' locks"
      by (rule tracks_same_states [OF assms(2)])
        (use 2 assms(1) in \<open>simp_all add: same settled_def\<close>)
    with that(2) 2 show thesis by blast
  qed
qed

definition shard_batch ::
  "(lock_resource \<Rightarrow> u64) \<Rightarrow> lock_manager \<Rightarrow> lock_request list \<Rightarrow> nat \<Rightarrow> lock_request list" where
  "shard_batch h m reqs i =
     filter (\<lambda>req. \<not> is_coarse_resource (req_resource req) \<and> lm_shard_index h m (req_resource req) = i) reqs"

lemma shard_batch_Nil [simp]: "shard_batch h m [] = (\<lambda>i. [])"
  by (simp add: shard_batch_def fun_eq_iff)

lemma lock_many_coarse_spec:
  assumes "settled h m0" "tracks h t m0 m granted" "distinct (map req_resource reqs)"
    "req_resource ` set reqs \<inter> gl_resource ` set granted = {}" "length batches = length (lm_shards m0)"
    "lock_many_coarse h t reqs m granted batches = (m', granted', out)"
  shows "tracks h t m0 m' granted' \<and>
    (\<forall>batches'. out = Inr batches' \<longrightarrow>
      granted_count (lm_coarse m') \<le> granted_count (lm_coarse m) + length reqs \<and>
      map lock_req granted' = map lock_req granted @
        filter (\<lambda>req. is_coarse_resource (req_resource req)) reqs \<and>
      batches' = map (\<lambda>i. batches ! i @ shard_batch h m0 reqs i) [0..<length (lm_shards m0)])"
  using assms(2-)
proof (induction reqs arbitrary: m granted batches)
  case Nil
  then show ?case using map_nth [of batches] by auto
next
  case (Cons req reqs)
  have dist: "distinct (map req_resource reqs)" using Cons.prems(2) by simp
  show ?case
  proof (cases "is_coarse_resource (req_resource req)")
    case True
    obtain m1 res where tg: "try_grant_coarse m t req = (m1, res)"
      by (cases "try_grant_coarse m t req")
    from Cons.prems(3) have new: "req_resource req \<notin> gl_resource ` set granted" by auto
    have skip: "shard_batch h m0 (req # reqs) = shard_batch h m0 reqs"
      by (simp add: shard_batch_def fun_eq_iff True)
    from assms(1) Cons.prems(1) True new tg show ?thesis
    proof (cases rule: tracks_coarse)
      case granted
      then have rest: "lock_many_coarse h t reqs m1 (granted @ [lock_of h m t req]) batches =
          (m', granted', out)"
        using Cons.prems(5) True tg by simp
      have disj: "req_resource ` set reqs \<inter> gl_resource ` set (granted @ [lock_of h m t req]) = {}"
        using Cons.prems(2,3) by auto
      note IH = Cons.IH [OF granted(2) dist disj Cons.prems(4) rest]
      show ?thesis
      proof (intro conjI allI impI)
        show "tracks h t m0 m' granted'" using IH by blast
        fix batches' assume "out = Inr batches'"
        note out = IH [THEN conjunct2, rule_format, OF this]
        from out granted(3) show
          "granted_count (lm_coarse m') \<le> granted_count (lm_coarse m) + length (req # reqs)" by simp
        from out True show "map lock_req granted' = map lock_req granted @
          filter (\<lambda>req. is_coarse_resource (req_resource req)) (req # reqs)" by simp
        from out show "batches' = map (\<lambda>i. batches ! i @ shard_batch h m0 (req # reqs) i)
          [0..<length (lm_shards m0)]" unfolding skip by blast
      qed
    next
      case (refused err)
      then show ?thesis using Cons.prems(5) True tg by auto
    qed
  next
    case False
    let ?i = "lm_shard_index h m (req_resource req)"
    let ?batches = "batches[?i := batches ! ?i @ [req]]"
    have rest: "lock_many_coarse h t reqs m granted ?batches = (m', granted', out)"
      using Cons.prems(5) False by (simp add: Let_def)
    have "req_resource ` set reqs \<inter> gl_resource ` set granted = {}"
      "length ?batches = length (lm_shards m0)"
      using Cons.prems(3,4) by auto
    note IH = Cons.IH [OF Cons.prems(1) dist this rest]
    have eq: "map (\<lambda>i. ?batches ! i @ shard_batch h m0 reqs i) [0..<length (lm_shards m0)] =
        map (\<lambda>i. batches ! i @ shard_batch h m0 (req # reqs) i) [0..<length (lm_shards m0)]"
      by (rule map_cong [OF refl])
        (simp add: tracks_index [OF Cons.prems(1)] nth_list_update Cons.prems(4) shard_batch_def False)
    show ?thesis
    proof (intro conjI allI impI)
      show "tracks h t m0 m' granted'" using IH by blast
      fix batches' assume "out = Inr batches'"
      note out = IH [unfolded eq, THEN conjunct2, rule_format, OF this]
      from out show
        "granted_count (lm_coarse m') \<le> granted_count (lm_coarse m) + length (req # reqs)" by simp
      from out False show "map lock_req granted' = map lock_req granted @
        filter (\<lambda>req. is_coarse_resource (req_resource req)) (req # reqs)" by simp
      from out show "batches' = map (\<lambda>i. batches ! i @ shard_batch h m0 (req # reqs) i)
        [0..<length (lm_shards m0)]" by blast
    qed
  qed
qed

lemma lock_many_coarse_blames:
  assumes "settled h m0" "tracks h t m0 m granted" "distinct (map req_resource reqs)"
    "req_resource ` set reqs \<inter> gl_resource ` set granted = {}"
    "lock_many_coarse h t reqs m granted batches = (m', granted', Inl err)"
  shows "blames h m0 t (set reqs) err"
  using assms(2-)
proof (induction reqs arbitrary: m granted batches)
  case (Cons req reqs)
  show ?case
  proof (cases "is_coarse_resource (req_resource req)")
    case True
    obtain m1 res where tg: "try_grant_coarse m t req = (m1, res)" by (cases "try_grant_coarse m t req")
    from Cons.prems(3) have new: "req_resource req \<notin> gl_resource ` set granted" by auto
    from assms(1) Cons.prems(1) True new tg show ?thesis
    proof (cases rule: tracks_coarse)
      case granted
      then have "lock_many_coarse h t reqs m1 (granted @ [lock_of h m t req]) batches = (m', granted', Inl err)"
        using Cons.prems(4) True tg by simp
      moreover have "req_resource ` set reqs \<inter> gl_resource ` set (granted @ [lock_of h m t req]) = {}"
        using Cons.prems(2,3) by auto
      ultimately have "blames h m0 t (set reqs) err" using Cons.prems(2) by (intro Cons.IH [OF granted(2)]) auto
      then show ?thesis by (rule blames_mono) auto
    next
      case (refused err')
      then have "err' = err" using Cons.prems(4) True tg by auto
      moreover have "wf_manager h m" using Cons.prems(1) by (simp add: tracks_def)
      ultimately have "blames h m t {req} err" using tg refused(1) try_grant_coarse_blames by blast
      from tracks_blames [OF Cons.prems(1) this] show ?thesis by (rule blames_mono) simp
    qed
  next
    case False
    then have "\<exists>batches. lock_many_coarse h t reqs m granted batches = (m', granted', Inl err)"
      using Cons.prems(4) by (auto simp: Let_def)
    with Cons have "blames h m0 t (set reqs) err" by auto
    then show ?thesis by (rule blames_mono) auto
  qed
qed simp

lemma lock_many_fine_spec:
  assumes "tracks h t m0 m granted" "granted_count (lm_coarse m) < usize_modulus"
    "\<forall>(i, reqs) \<in> set todo. i < length (lm_shards m0) \<and>
       (\<forall>req \<in> set reqs. \<not> is_coarse_resource (req_resource req) \<and> lm_shard_index h m0 (req_resource req) = i)"
    "distinct (map req_resource (concat (map snd todo)))"
    "req_resource ` set (concat (map snd todo)) \<inter> gl_resource ` set granted = {}"
    "lock_many_fine t todo m granted = (m', granted', out)"
  shows "tracks h t m0 m' granted' \<and>
    (out = None \<longrightarrow> map lock_req granted' = map lock_req granted @ concat (map snd todo)) \<and>
    (\<forall>err. out = Some err \<longrightarrow> blames h m0 t (set (concat (map snd todo))) err)"
  using assms
proof (induction todo arbitrary: m granted)
  case (Cons entry todo)
  obtain i reqs where entry: "entry = (i, reqs)" by (cases entry)
  show ?case
  proof (cases "reqs = []")
    case True
    with Cons.prems Cons.IH [of m granted] show ?thesis by (simp add: entry)
  next
    case False
    obtain m1 res where tg: "try_grant_fine_batch m t i reqs = (m1, res)"
      by (cases "try_grant_fine_batch m t i reqs")
    have wf: "wf_manager h m" and len: "length (lm_shards m) = length (lm_shards m0)"
      using Cons.prems(1) by (auto simp: tracks_def same_frame_def)
    have i: "i < length (lm_shards m)"
      and here: "\<forall>req \<in> set reqs. \<not> is_coarse_resource (req_resource req) \<and>
        lm_shard_index h m (req_resource req) = i"
      using Cons.prems(3) len by (auto simp: entry tracks_index [OF Cons.prems(1)])
    have dist: "distinct (map req_resource reqs)" using Cons.prems(4) by (simp add: entry)
    show ?thesis
    proof (cases rule: try_grant_fine_batch_cases [OF wf i Cons.prems(2) here dist tg])
      case 1
      have "req_resource ` set reqs \<inter> gl_resource ` set granted = {}"
        using Cons.prems(5) by (auto simp: entry)
      then have tr: "tracks h t m0 m1 (granted @ map (lock_of h m t) reqs)"
        using tracks_grant [OF Cons.prems(1) dist] 1 by blast
      have "req_resource ` set (concat (map snd todo)) \<inter>
          gl_resource ` set (granted @ map (lock_of h m t) reqs) = {}"
        using Cons.prems(4,5)
        by (auto simp: entry image_Un image_image Int_Un_distrib Int_Un_distrib2 Int_commute
            simp del: set_concat)
      then have "tracks h t m0 m' granted' \<and> (out = None \<longrightarrow>
          map lock_req granted' = map lock_req (granted @ map (lock_of h m t) reqs) @ concat (map snd todo)) \<and>
          (\<forall>err. out = Some err \<longrightarrow> blames h m0 t (set (concat (map snd todo))) err)"
        using Cons.prems tg 1 False
        by (intro Cons.IH [OF tr]) (auto simp: entry)
      moreover have "set (concat (map snd todo)) \<subseteq> set (concat (map snd (entry # todo)))" by simp
      ultimately show ?thesis using blames_mono by (simp add: entry) blast
    next
      case (2 err)
      have "blames h m0 t (set reqs) err"
        using tracks_blames [OF Cons.prems(1) try_grant_fine_batch_blames [OF wf i]] tg 2(1) by blast
      then have "blames h m0 t (set (concat (map snd (entry # todo)))) err" by (rule blames_mono) (simp add: entry)
      then show ?thesis using Cons.prems(1,6) tg False 2 by (auto simp: entry)
    qed
  qed
qed simp

text \<open>A granted lock set covers a request when it holds the requested lock, or the exclusive lock
  on the tablet of the requested key or row.\<close>

definition covers :: "granted_lock list \<Rightarrow> lock_request \<Rightarrow> bool" where
  "covers locks req \<longleftrightarrow>
     req \<in> lock_req ` set locks \<or>
     (\<exists>ns tbl b. fine_tablet_identity (req_resource req) = Some (ns, tbl, b) \<and>
        \<lparr>req_resource = LR_Tablet ns tbl b, req_mode = X\<rparr> \<in> lock_req ` set locks)"

lemma covers_escalated:
  assumes "covers locks req"
    "\<lparr>req_resource = LR_Tablet ns tbl b, req_mode = X\<rparr> \<in> lock_req ` set new"
  shows "covers (filter (\<lambda>l. fine_tablet_identity (gl_resource l) \<noteq> Some (ns, tbl, b)) locks @ new) req"
proof -
  let ?kept = "filter (\<lambda>l. fine_tablet_identity (gl_resource l) \<noteq> Some (ns, tbl, b)) locks @ new"
  have kept: "x \<in> lock_req ` set ?kept"
    if "x \<in> lock_req ` set locks" "fine_tablet_identity (req_resource x) \<noteq> Some (ns, tbl, b)" for x
    using that by auto
  show ?thesis
  proof (cases "fine_tablet_identity (req_resource req) = Some (ns, tbl, b)")
    case True
    with assms(2) show ?thesis by (auto simp: covers_def)
  next
    case False
    from assms(1) consider "req \<in> lock_req ` set locks"
      | ns' tbl' b' where "fine_tablet_identity (req_resource req) = Some (ns', tbl', b')"
          "\<lparr>req_resource = LR_Tablet ns' tbl' b', req_mode = X\<rparr> \<in> lock_req ` set locks"
      by (auto simp: covers_def)
    then show ?thesis
    proof cases
      case 1
      with kept [OF 1 False] show ?thesis unfolding covers_def by blast
    next
      case 2
      with kept [OF 2(2)] show ?thesis unfolding covers_def by simp
    qed
  qed
qed

lemma escalate_all_spec:
  assumes "settled h m0" "tracks h t m0 m locks" "escalate_all h t counts m locks = (m', locks', out)"
  shows "tracks h t m0 m' locks'" and "covers locks req \<Longrightarrow> covers locks' req"
proof -
  have "tracks h t m0 m' locks' \<and> (covers locks req \<longrightarrow> covers locks' req)"
    using assms(2,3)
  proof (induction counts arbitrary: m locks)
    case Nil
    then show ?case by simp
  next
    case (Cons entry rest)
    obtain ns tbl b cnt where entry: "entry = ((ns, tbl, b), cnt)" by (metis prod_cases3 prod.exhaust)
    let ?req = "\<lparr>req_resource = LR_Tablet ns tbl b, req_mode = X\<rparr>"
    show ?case
    proof (cases "cnt < ep_threshold (lm_escalation_policy m) \<or> has_tablet_lock locks ns tbl b")
      case True
      with Cons show ?thesis by (simp add: entry)
    next
      case False
      obtain m1 res where tg: "try_grant_coarse m t ?req = (m1, res)"
        by (cases "try_grant_coarse m t ?req")
      have new: "req_resource ?req \<notin> gl_resource ` set locks"
        using False by (auto simp: has_tablet_lock_def list_ex_iff)
      have coarse: "is_coarse_resource (req_resource ?req)" by simp
      show ?thesis
      proof (cases rule: tracks_coarse [OF assms(1) Cons.prems(1) coarse new tg])
        case 1
        let ?fine = "\<lambda>l. fine_tablet_identity (gl_resource l) = Some (ns, tbl, b)"
        let ?new = "lock_of h m t ?req"
        let ?m2 = "release_locks m1 t (filter ?fine locks)"
        have "tracks h t m0 ?m2 (filter (\<lambda>l. \<not> ?fine l) locks @ [?new])"
          using tracks_release_locks [OF 1(2), of ?fine] assms(1) by (simp add: settled_def)
        moreover have "escalate_all h t rest ?m2 (filter (\<lambda>l. \<not> ?fine l) locks @ [?new]) = (m', locks', out)"
          using Cons.prems(2) False tg 1(1) by (simp add: entry try_grant_def Let_def)
        ultimately have "tracks h t m0 m' locks' \<and>
            (covers (filter (\<lambda>l. \<not> ?fine l) locks @ [?new]) req \<longrightarrow> covers locks' req)"
          by (rule Cons.IH)
        then show ?thesis using covers_escalated [of locks req ns tbl b "[?new]"] by auto
      next
        case (2 err)
        show ?thesis
        proof (cases "ep_failure_action (lm_escalation_policy m) = AbortEscalation")
          case True
          with Cons.prems(2) False tg 2 show ?thesis by (simp add: entry try_grant_def)
        next
          case keep: False
          have "escalate_all h t rest m1 locks = (m', locks', out)"
            using Cons.prems(2) False tg 2(1) keep by (simp add: entry try_grant_def)
          then show ?thesis by (rule Cons.IH [OF 2(2)])
        qed
      qed
    qed
  qed
  then show "tracks h t m0 m' locks'" "covers locks req \<Longrightarrow> covers locks' req" by auto
qed

lemma shard_batches_distinct:
  assumes "distinct (map req_resource reqs)"
  shows "distinct (map req_resource (concat (map (shard_batch h m reqs) [0..<n])))"
proof (induction n)
  case (Suc n)
  have "distinct (map req_resource (shard_batch h m reqs n))"
    using assms by (simp add: shard_batch_def distinct_map_filter)
  moreover have "req_resource ` set (concat (map (shard_batch h m reqs) [0..<n])) \<inter>
      req_resource ` set (shard_batch h m reqs n) = {}"
    by (auto simp: shard_batch_def)
  ultimately show ?case using Suc by simp
qed simp

lemma shard_batches_set:
  assumes "wf_manager h m"
  shows "set (concat (map (shard_batch h m reqs) [0..<length (lm_shards m)])) =
    {req \<in> set reqs. \<not> is_coarse_resource (req_resource req)}"
  using wf_manager_index [OF assms] by (auto simp: shard_batch_def)

lemma record_acquire_error_state [simp]:
  "lm_state h (record_acquire_error m err) = lm_state h m"
  "wf_manager h (record_acquire_error m err) = wf_manager h m"
  "same_frame m0 (record_acquire_error m err) = same_frame m0 m"
  by (simp_all add: record_acquire_error_def Let_def lm_state_def lm_shard_for_def fun_eq_iff
      lm_shard_index_def wf_manager_def same_frame_def)

lemma try_escalate_spec:
  assumes "settled h m0" "tracks h t m0 m locks" "try_escalate h t m locks = (m', locks', out)"
  shows "tracks h t m0 m' locks'" and "covers locks req \<Longrightarrow> covers locks' req"
  using escalate_all_spec [OF assms(1,2)] assms(2,3) by (auto simp: try_escalate_def split: if_splits)

text \<open>The two outcomes of \<open>lock_many\<close>.\<close>

lemma lock_many_fine_phase:
  assumes "settled h m" "granted_count (lm_coarse m) + length reqs < usize_modulus"
    "distinct (map req_resource reqs)"
    "lock_many_coarse h t reqs m [] (replicate (length (lm_shards m)) []) = (m1, granted, Inr batches)"
    "lock_many_fine t (enumerate 0 batches) m1 granted = (m2, granted2, out)"
  shows "tracks h t m m2 granted2" and "out = None \<Longrightarrow> req \<in> set reqs \<Longrightarrow> covers granted2 req"
    and "out = None \<Longrightarrow> lock_req ` set granted2 \<subseteq> set reqs" and "out = Some err \<Longrightarrow> blames h m t (set reqs) err"
proof -
  let ?n = "length (lm_shards m)"
  have wf: "wf_manager h m" using assms(1) by (simp add: settled_def)
  have "tracks h t m m1 granted \<and>
    (\<forall>batches'. Inr batches = (Inr batches' :: lock_acquire_error + _) \<longrightarrow>
      granted_count (lm_coarse m1) \<le> granted_count (lm_coarse m) + length reqs \<and>
      map lock_req granted = map lock_req [] @
        filter (\<lambda>req. is_coarse_resource (req_resource req)) reqs \<and>
      batches' = map (\<lambda>i. replicate ?n [] ! i @ shard_batch h m reqs i) [0..<?n])"
    by (rule lock_many_coarse_spec [OF assms(1) tracks_refl [OF wf] assms(3) _ _ assms(4)]) simp_all
  then have tr: "tracks h t m m1 granted"
    and cnt: "granted_count (lm_coarse m1) \<le> granted_count (lm_coarse m) + length reqs"
    and coarse: "map lock_req granted = filter (\<lambda>req. is_coarse_resource (req_resource req)) reqs"
    and batches: "batches = map (shard_batch h m reqs) [0..<?n]"
    by auto
  have todo: "enumerate 0 batches = map (\<lambda>i. (i, shard_batch h m reqs i)) [0..<?n]"
    by (rule nth_equalityI) (simp_all add: batches nth_enumerate_eq)
  have cc: "concat (map snd (enumerate 0 batches)) = concat (map (shard_batch h m reqs) [0..<?n])"
    by (simp add: todo comp_def)
  have fine: "set (concat (map snd (enumerate 0 batches))) =
      {req \<in> set reqs. \<not> is_coarse_resource (req_resource req)}"
    unfolding cc by (rule shard_batches_set [OF wf])
  have held: "gl_resource ` set granted = req_resource ` {req \<in> set reqs. is_coarse_resource (req_resource req)}"
    using arg_cong [OF coarse, of "\<lambda>xs. req_resource ` set xs"] by (simp add: image_image)
  have phase: "tracks h t m m2 granted2 \<and>
    (out = None \<longrightarrow> map lock_req granted2 = map lock_req granted @ concat (map snd (enumerate 0 batches))) \<and>
    (\<forall>err. out = Some err \<longrightarrow> blames h m t (set (concat (map snd (enumerate 0 batches)))) err)"
  proof (rule lock_many_fine_spec [OF tr _ _ _ _ assms(5)])
    show "\<forall>(i, rs) \<in> set (enumerate 0 batches). i < ?n \<and>
       (\<forall>req \<in> set rs. \<not> is_coarse_resource (req_resource req) \<and> lm_shard_index h m (req_resource req) = i)"
      by (auto simp: todo shard_batch_def)
    show "distinct (map req_resource (concat (map snd (enumerate 0 batches))))"
      unfolding cc by (rule shard_batches_distinct [OF assms(3)])
    show "req_resource ` set (concat (map snd (enumerate 0 batches))) \<inter> gl_resource ` set granted = {}"
      unfolding fine held by auto
  qed (use cnt assms(2) in simp)
  moreover have "set (map lock_req granted) = {req \<in> set reqs. is_coarse_resource (req_resource req)}"
    by (simp add: coarse)
  ultimately show "tracks h t m m2 granted2" "out = None \<Longrightarrow> req \<in> set reqs \<Longrightarrow> covers granted2 req"
    "out = None \<Longrightarrow> lock_req ` set granted2 \<subseteq> set reqs"
    using fine by (auto simp: covers_def dest!: arg_cong [of _ _ set])
  show "blames h m t (set reqs) err" if "out = Some err"
    using phase that fine by (auto intro: blames_mono)
qed

lemma lock_many_cases:
  assumes "settled h m" "granted_count (lm_coarse m) + length reqs < usize_modulus"
    "lock_many h m t reqs = (m', res)"
  obtains (granted) ls where "res = Inr ls" "ls_txn_id ls = t" "\<not> ls_released ls"
      "tracks h t m m' (ls_locks ls)" "\<forall>req \<in> set (normalize_requests reqs). covers (ls_locks ls) req"
  | (refused) err where "res = Inl err" "\<forall>r. lm_state h m' r = lm_state h m r" "wf_manager h m'"
      "same_frame m m'"
proof -
  let ?reqs = "normalize_requests reqs" and ?n = "length (lm_shards m)"
  note norm = normalize_requests_spec [of reqs]
  have wf: "wf_manager h m" and unsat: "\<forall>r. unsaturated (lm_state h m r)"
    using assms(1) by (auto simp: settled_def)
  have bound: "granted_count (lm_coarse m) + length ?reqs < usize_modulus"
    using norm(3) assms(2) by linarith
  obtain m1 granted out where c: "lock_many_coarse h t ?reqs m [] (replicate ?n []) = (m1, granted, out)"
    by (metis prod_cases3)
  show thesis
  proof (cases out)
    case (Inl err)
    have "tracks h t m m1 granted"
      using lock_many_coarse_spec [OF assms(1) tracks_refl [OF wf] norm(2) _ _ c] by simp
    note undo = tracks_release_all [OF this wf unsat]
    have "res = Inl err" "m' = record_acquire_error (release_locks m1 t granted) err"
      using assms(3) c Inl by (auto simp: lock_many_def Let_def)
    with undo that(2) show thesis by simp
  next
    case (Inr batches)
    obtain m2 granted2 fout where f: "lock_many_fine t (enumerate 0 batches) m1 granted = (m2, granted2, fout)"
      by (metis prod_cases3)
    note fine = lock_many_fine_phase [OF assms(1) bound norm(2) c [unfolded Inr] f]
    show thesis
    proof (cases fout)
      case (Some err)
      have "res = Inl err" "m' = record_acquire_error (release_locks m2 t granted2) err"
        using assms(3) c Inr f Some by (auto simp: lock_many_def Let_def)
      with tracks_release_all [OF fine(1) wf unsat] that(2) show thesis by simp
    next
      case None
      obtain m3 locks eout where e: "try_escalate h t m2 granted2 = (m3, locks, eout)"
        by (metis prod_cases3)
      note esc = try_escalate_spec [OF assms(1) fine(1) e]
      show thesis
      proof (cases eout)
        case (Some err)
        have "tracks h t m (record_acquire_error m3 err) locks"
          by (rule tracks_same_states [OF esc(1)]) (use esc(1) in \<open>simp_all add: tracks_def\<close>)
        note undo = tracks_release_all [OF this wf unsat]
        have "res = Inl err" "m' = release_locks (record_acquire_error m3 err) t locks"
          using assms(3) c Inr f \<open>fout = None\<close> e Some by (auto simp: lock_many_def Let_def)
        with undo that(2) show thesis by simp
      next
        case eNone: None
        have "res = Inr \<lparr>ls_txn_id = t, ls_locks = locks, ls_released = False\<rparr>" "m' = m3"
          using assms(3) c Inr f \<open>fout = None\<close> e eNone by (auto simp: lock_many_def Let_def)
        with that(1) esc fine(2) [OF \<open>fout = None\<close>] show thesis by simp
      qed
    qed
  qed
qed

text \<open>The requests a call may make: the given ones, and for escalation the exclusive lock on the tablet of a
  requested row.\<close>

definition wanted :: "lock_request list \<Rightarrow> lock_request set" where
  "wanted reqs = set (normalize_requests reqs) \<union>
     {\<lparr>req_resource = LR_Tablet ns tbl b, req_mode = X\<rparr> | ns tbl b.
        \<exists>req \<in> set reqs. row_id_escalation_identity (req_resource req) = Some (ns, tbl, b)}"

lemma escalation_counts_idents:
  "fst ` set (escalation_counts locks counts) \<subseteq>
     fst ` set counts \<union> {ident. \<exists>lock \<in> set locks. row_id_escalation_identity (gl_resource lock) = Some ident}"
proof (induction locks arbitrary: counts)
  case (Cons lock locks)
  show ?case
  proof (cases "row_id_escalation_identity (gl_resource lock)")
    case None
    with Cons.IH [of counts] show ?thesis by auto
  next
    case (Some ident)
    let ?counts = "AList.update ident (Suc (case map_of counts ident of None \<Rightarrow> 0 | Some n \<Rightarrow> n)) counts"
    have "fst ` set ?counts \<subseteq> insert ident (fst ` set counts)" by (auto simp: dom_update)
    with Cons.IH [of ?counts] Some show ?thesis by auto
  qed
qed simp

lemma escalate_all_blames:
  assumes "settled h m0" "tracks h t m0 m locks" "escalate_all h t counts m locks = (m', locks', Some err)"
  shows "blames h m0 t ((\<lambda>(ns, tbl, b). \<lparr>req_resource = LR_Tablet ns tbl b, req_mode = X\<rparr>) ` fst ` set counts) err"
  using assms(2,3)
proof (induction counts arbitrary: m locks)
  case (Cons entry rest)
  obtain ns tbl b cnt where entry: "entry = ((ns, tbl, b), cnt)" by (metis prod_cases3 prod.exhaust)
  let ?req = "\<lparr>req_resource = LR_Tablet ns tbl b, req_mode = X\<rparr>"
  let ?reqs = "\<lambda>counts. (\<lambda>(ns, tbl, b). \<lparr>req_resource = LR_Tablet ns tbl b, req_mode = X\<rparr>) ` fst ` set counts"
  have more: "blames h m0 t (?reqs (entry # rest)) err" if "blames h m0 t (?reqs rest) err"
    using that by (rule blames_mono) (intro image_mono, auto)
  show ?case
  proof (cases "cnt < ep_threshold (lm_escalation_policy m) \<or> has_tablet_lock locks ns tbl b")
    case True
    with Cons.prems have "escalate_all h t rest m locks = (m', locks', Some err)" by (simp add: entry)
    then show ?thesis by (intro more Cons.IH [OF Cons.prems(1)])
  next
    case False
    obtain m1 res where tg: "try_grant_coarse m t ?req = (m1, res)" by (cases "try_grant_coarse m t ?req")
    have new: "req_resource ?req \<notin> gl_resource ` set locks"
      using False by (auto simp: has_tablet_lock_def list_ex_iff)
    have coarse: "is_coarse_resource (req_resource ?req)" by simp
    show ?thesis
    proof (cases rule: tracks_coarse [OF assms(1) Cons.prems(1) coarse new tg])
      case 1
      let ?fine = "\<lambda>l. fine_tablet_identity (gl_resource l) = Some (ns, tbl, b)"
      let ?m2 = "release_locks m1 t (filter ?fine locks)" and ?locks = "filter (\<lambda>l. \<not> ?fine l) locks @ [lock_of h m t ?req]"
      have "tracks h t m0 ?m2 ?locks" using tracks_release_locks [OF 1(2), of ?fine] assms(1) by (simp add: settled_def)
      moreover have "escalate_all h t rest ?m2 ?locks = (m', locks', Some err)"
        using Cons.prems(2) False tg 1(1) by (simp add: entry try_grant_def Let_def)
      ultimately show ?thesis by (intro more Cons.IH)
    next
      case (2 err')
      show ?thesis
      proof (cases "ep_failure_action (lm_escalation_policy m) = AbortEscalation")
        case True
        then have "err' = err" using Cons.prems(2) False tg 2(1) by (simp add: entry try_grant_def)
        moreover have "wf_manager h m" using Cons.prems(1) by (simp add: tracks_def)
        ultimately have "blames h m t {?req} err" using tg 2(1) try_grant_coarse_blames by blast
        from tracks_blames [OF Cons.prems(1) this] show ?thesis by (rule blames_mono) (simp add: entry)
      next
        case keep: False
        have "escalate_all h t rest m1 locks = (m', locks', Some err)"
          using Cons.prems(2) False tg 2(1) keep by (simp add: entry try_grant_def)
        then show ?thesis by (intro more Cons.IH [OF 2(2)])
      qed
    qed
  qed
qed simp

lemma lock_many_blames:
  assumes "settled h m" "granted_count (lm_coarse m) + length reqs < usize_modulus"
    "lock_many h m t reqs = (m', Inl err)"
  shows "blames h m t (wanted reqs) err"
proof -
  let ?reqs = "normalize_requests reqs" and ?n = "length (lm_shards m)"
  note norm = normalize_requests_spec [of reqs]
  have wf: "wf_manager h m" using assms(1) by (simp add: settled_def)
  have bound: "granted_count (lm_coarse m) + length ?reqs < usize_modulus" using norm(3) assms(2) by linarith
  have asked: "blames h m t (wanted reqs) err" if "blames h m t (set ?reqs) err"
    using that by (rule blames_mono) (simp add: wanted_def)
  obtain m1 granted out where c: "lock_many_coarse h t ?reqs m [] (replicate ?n []) = (m1, granted, out)" by (metis prod_cases3)
  show ?thesis
  proof (cases out)
    case (Inl err')
    then have "err' = err" using assms(3) c by (auto simp: lock_many_def Let_def)
    with lock_many_coarse_blames [OF assms(1) tracks_refl [OF wf] norm(2) _ c [unfolded Inl]] asked show ?thesis by simp
  next
    case (Inr batches)
    obtain m2 granted2 fout where f: "lock_many_fine t (enumerate 0 batches) m1 granted = (m2, granted2, fout)" by (metis prod_cases3)
    note fine = lock_many_fine_phase [OF assms(1) bound norm(2) c [unfolded Inr] f]
    show ?thesis
    proof (cases fout)
      case (Some err')
      then have "err' = err" using assms(3) c Inr f by (auto simp: lock_many_def Let_def)
      with fine(4) Some asked show ?thesis by blast
    next
      case None
      obtain m3 locks eout where e: "try_escalate h t m2 granted2 = (m3, locks, eout)" by (metis prod_cases3)
      have "eout = Some err" using assms(3) c Inr f None e by (auto simp: lock_many_def Let_def split: option.splits)
      then have "escalate_all h t (escalation_counts granted2 []) m2 granted2 = (m3, locks, Some err)"
        using e by (auto simp: try_escalate_def split: if_splits)
      from escalate_all_blames [OF assms(1) fine(1) this] show ?thesis
      proof (rule blames_mono)
        have "\<exists>req \<in> set reqs. req_resource req = gl_resource lock" if "lock \<in> set granted2" for lock
          using fine(3) [OF None] that norm(5) by (metis (no_types, lifting) image_eqI imageE lock_req_simps(1) subsetD)
        then show "(\<lambda>(ns, tbl, b). \<lparr>req_resource = LR_Tablet ns tbl b, req_mode = X\<rparr>) `
            fst ` set (escalation_counts granted2 []) \<subseteq> wanted reqs"
          using escalation_counts_idents [of granted2 "[]"] by (fastforce simp: wanted_def)
      qed
    qed
  qed
qed

end
