(* ===== verification/Lock_Protocol.thy ===== *)
theory Lock_Protocol
  imports Lock_Sets
begin

text \<open>
  The lock manager under concurrent transactions: what one transaction holds, mutual exclusion of
  conflicting grants, and the step relation of a system in which transactions acquire and release
  lock sets in any interleaving.
\<close>

section \<open>What one transaction holds\<close>

text \<open>The entry of a transaction in the holder list of a resource.\<close>

definition held_in :: "lock_state \<Rightarrow> txn_id \<Rightarrow> lock_holder option" where
  "held_in st t = find (\<lambda>holder. lh_txn_id holder = t) st"

lemma held_in_simps [simp]:
  "held_in [] t = None"
  "held_in (a # st) t = (if lh_txn_id a = t then Some a else held_in st t)"
  by (simp_all add: held_in_def)

lemma held_in_append:
  "held_in (xs @ ys) t = (case held_in xs t of None \<Rightarrow> held_in ys t | Some holder \<Rightarrow> Some holder)"
  by (induction xs) auto

definition held :: "(lock_resource \<Rightarrow> u64) \<Rightarrow> lock_manager \<Rightarrow> txn_id \<Rightarrow> lock_resource \<Rightarrow> lock_holder option" where
  "held h m t r = held_in (lm_state h m r) t"

definition grant_view :: "lock_holder option \<Rightarrow> txn_id \<Rightarrow> lock_mode \<Rightarrow> lock_holder" where
  "grant_view v t md =
     (case v of
        None \<Rightarrow> \<lparr>lh_txn_id = t, lh_mode = md, lh_ref_count = 1\<rparr>
      | Some holder \<Rightarrow> holder\<lparr>lh_mode := strongest (lh_mode holder) md,
                              lh_ref_count := saturating_add (lh_ref_count holder) 1\<rparr>)"

definition release_view :: "lock_holder option \<Rightarrow> lock_mode option \<Rightarrow> lock_holder option" where
  "release_view v prev =
     (case v of
        None \<Rightarrow> None
      | Some holder \<Rightarrow>
          (if 1 < lh_ref_count holder
           then Some (holder\<lparr>lh_ref_count := lh_ref_count holder - 1,
                             lh_mode := (case prev of Some md \<Rightarrow> md | None \<Rightarrow> lh_mode holder)\<rparr>)
           else None))"

lemma release_view_grant:
  assumes "\<And>holder. v = Some holder \<Longrightarrow> 1 \<le> lh_ref_count holder \<and> lh_ref_count holder < usize_max"
  shows "release_view (Some (grant_view v t md)) (map_option lh_mode v) = v"
  using assms
  by (cases v) (auto simp: release_view_def grant_view_def saturating_add_exact)

lemma held_in_grant:
  assumes "grant_holder st t md = (st', oc)"
  shows "held_in st' t' = (if t' = t then Some (grant_view (held_in st t) t md) else held_in st t')"
    and "go_previous_mode oc = map_option lh_mode (held_in st t)"
proof -
  have "held_in st' t' = (if t' = t then Some (grant_view (held_in st t) t md) else held_in st t') \<and>
      go_previous_mode oc = map_option lh_mode (held_in st t)"
    using assms
  proof (induction st arbitrary: st' oc)
    case Nil
    then show ?case by (auto simp: grant_view_def)
  next
    case (Cons a st)
    from Cons.prems show ?case
    proof (rule grant_holder_ConsE)
      fix rest assume "lh_txn_id a \<noteq> t" "grant_holder st t md = (rest, oc)" "st' = a # rest"
      with Cons.IH [OF this(2)] show ?thesis by (simp split: if_splits)
    qed (simp add: grant_view_def)
  qed
  then show "held_in st' t' = (if t' = t then Some (grant_view (held_in st t) t md) else held_in st t')"
    "go_previous_mode oc = map_option lh_mode (held_in st t)"
    by auto
qed

lemma held_in_None: "held_in st t = None \<longleftrightarrow> t \<notin> lh_txn_id ` set st"
  by (auto simp: held_in_def find_None_iff)

lemma held_in_Some:
  "wf_state st \<Longrightarrow> held_in st t = Some holder \<longleftrightarrow> holder \<in> set st \<and> lh_txn_id holder = t"
proof (induction st)
  case (Cons a st)
  then have "wf_state st" "lh_txn_id a \<notin> lh_txn_id ` set st" by (auto simp: wf_state_def)
  with Cons.IH show ?case by auto
qed simp

lemma held_in_filter:
  "held_in (filter (\<lambda>holder. lh_txn_id holder \<noteq> t) st) t' = (if t' = t then None else held_in st t')"
  by (induction st) auto

lemma held_in_release:
  assumes "wf_state st"
  shows "held_in (release_state st t prev) t' =
    (if t' = t then release_view (held_in st t) prev else held_in st t')"
proof (cases rule: holder_cases [OF assms, of t])
  case 1
  then have "release_ref st t prev = None" by (intro release_ref_none) auto
  moreover from 1 have "held_in st t = None" by (simp add: held_in_None)
  ultimately show ?thesis
    by (auto simp: release_state_def held_in_filter release_view_def)
next
  case (2 xs holder ys)
  have find: "held_in st t = Some holder"
    using held_in_Some [OF assms] 2 by simp
  show ?thesis
  proof (cases "1 < lh_ref_count holder")
    case True
    let ?new = "holder\<lparr>lh_ref_count := lh_ref_count holder - 1,
        lh_mode := (case prev of Some md \<Rightarrow> md | None \<Rightarrow> lh_mode holder)\<rparr>"
    have st': "release_state st t prev = xs @ ?new # ys"
      by (simp add: release_state_def 2 release_ref_old [OF 2(2) True 2(3)])
    have wf': "wf_state (xs @ ?new # ys)"
      using assms True by (auto simp: wf_state_def 2(1))
    have "held_in (xs @ ?new # ys) t = Some ?new"
      unfolding held_in_Some [OF wf'] by (simp add: 2(2))
    moreover have "held_in (xs @ ?new # ys) t' = held_in st t'" if "t' \<noteq> t"
      using that by (simp add: 2(1,2) held_in_append split: option.split)
    ultimately show ?thesis using True by (simp add: st' find release_view_def)
  next
    case False
    then have "release_ref st t prev = None"
      using 2 by (intro release_ref_none) (auto simp: image_iff)
    then show ?thesis
      using False by (auto simp: release_state_def held_in_filter release_view_def find)
  qed
qed

section \<open>Mutual exclusion\<close>

text \<open>No two transactions hold grants that conflict.\<close>

definition mutual_exclusion :: "(lock_resource \<Rightarrow> u64) \<Rightarrow> lock_manager \<Rightarrow> bool" where
  "mutual_exclusion h m \<longleftrightarrow>
     (\<forall>r1 r2 h1 h2. h1 \<in> set (lm_state h m r1) \<longrightarrow> h2 \<in> set (lm_state h m r2) \<longrightarrow>
        lh_txn_id h1 \<noteq> lh_txn_id h2 \<longrightarrow> \<not> lock_grants_conflict r1 (lh_mode h1) r2 (lh_mode h2))"

lemma tracks_own_clear:
  assumes "tracks h t m0 m locks" "mutual_exclusion h m0" "holder \<in> set (lm_state h m r)"
    "lh_txn_id holder = t"
  shows "clear_of h m0 t r (lh_mode holder)"
proof -
  have old: "clear_of h m0 t r (lh_mode old)" if "old \<in> set (lm_state h m0 r)" "lh_txn_id old = t" for old
    using assms(2) that unfolding clear_of_def mutual_exclusion_def by metis
  show ?thesis
  proof (cases "r \<in> gl_resource ` set locks")
    case True
    then obtain lock where lock: "lock \<in> set locks" "r = gl_resource lock" by auto
    with assms(1) have "tracks_lock h t m0 m lock" by (simp add: tracks_def)
    then obtain oc where "clear_of h m0 t r (gl_mode lock)"
      "grant_holder (lm_state h m0 r) t (gl_mode lock) = (lm_state h m r, oc)"
      by (auto simp: tracks_lock_def lock(2))
    with grant_holder_own [OF this(2) assms(3,4)] old show ?thesis by metis
  next
    case False
    with assms show ?thesis by (intro old) (auto simp: tracks_def)
  qed
qed

lemma tracks_mutual_exclusion:
  assumes "tracks h t m0 m locks" "mutual_exclusion h m0"
  shows "mutual_exclusion h m"
  unfolding mutual_exclusion_def
proof (intro allI impI)
  fix r1 r2 h1 h2
  assume h1: "h1 \<in> set (lm_state h m r1)" and h2: "h2 \<in> set (lm_state h m r2)"
    and ne: "lh_txn_id h1 \<noteq> lh_txn_id h2"
  note others = tracks_others [OF assms(1)] and own = tracks_own_clear [OF assms]
  consider "lh_txn_id h1 = t" | "lh_txn_id h2 = t" | "lh_txn_id h1 \<noteq> t" "lh_txn_id h2 \<noteq> t" by auto
  then show "\<not> lock_grants_conflict r1 (lh_mode h1) r2 (lh_mode h2)"
  proof cases
    case 1
    then have "h2 \<in> set (lm_state h m0 r2)" "lh_txn_id h2 \<noteq> t" using h2 ne others by auto
    with own [OF h1 1] show ?thesis
      unfolding clear_of_def by (metis lock_grants_conflict_sym)
  next
    case 2
    then have "h1 \<in> set (lm_state h m0 r1)" "lh_txn_id h1 \<noteq> t" using h1 ne others by auto
    with own [OF h2 2] show ?thesis unfolding clear_of_def by metis
  next
    case 3
    then have "h1 \<in> set (lm_state h m0 r1)" "h2 \<in> set (lm_state h m0 r2)" using h1 h2 others by auto
    with assms(2) ne show ?thesis by (auto simp: mutual_exclusion_def)
  qed
qed

lemma mutual_exclusion_held:
  assumes "wf_manager h m"
  shows "mutual_exclusion h m \<longleftrightarrow>
    (\<forall>r1 r2 t1 t2 h1 h2. held h m t1 r1 = Some h1 \<longrightarrow> held h m t2 r2 = Some h2 \<longrightarrow> t1 \<noteq> t2 \<longrightarrow>
       \<not> lock_grants_conflict r1 (lh_mode h1) r2 (lh_mode h2))"
  using held_in_Some [OF lm_state_wf [OF assms]] by (auto simp: mutual_exclusion_def held_def)

text \<open>A mode whose grants conflict with everything another mode's grants conflict with.\<close>

definition mode_covers :: "lock_mode \<Rightarrow> lock_mode \<Rightarrow> bool" where
  "mode_covers a b \<longleftrightarrow>
     blocks_at_least a b \<and> (a \<in> {IS, IX, SchemaStability} \<longrightarrow> b \<in> {IS, IX, SchemaStability})"

lemma mode_covers_refl [simp]: "mode_covers a a"
  by (simp add: mode_covers_def blocks_at_least_def list_all_iff)

lemma mode_covers_conflict:
  assumes "mode_covers a b" "lock_grants_conflict r b r' md"
  shows "lock_grants_conflict r a r' md"
proof -
  from assms(2) have parts: "conflicts_with r r'" "\<not> compatible_with b md"
    "r \<noteq> r' \<Longrightarrow> \<not> proper_ancestor_intent r b r' \<and> \<not> proper_ancestor_intent r' md r"
    by (auto simp: lock_grants_conflict_def compatible_with_sym split: if_splits)
  have "\<not> compatible_with a md"
    using assms(1) parts(2) blocks_at_leastD by (auto simp: mode_covers_def)
  moreover have "\<not> proper_ancestor_intent r a r'" if "r \<noteq> r'"
  proof
    assume pa: "proper_ancestor_intent r a r'"
    then have "a \<in> {IS, IX, SchemaStability}" by (auto simp: proper_ancestor_intent_def split: if_splits)
    with assms(1) have "b \<in> {IS, IX, SchemaStability}" unfolding mode_covers_def by blast
    with pa have "proper_ancestor_intent r b r'"
      by (auto simp: proper_ancestor_intent_def split: if_splits)
    with parts(3) [OF that] show False by blast
  qed
  ultimately show ?thesis using parts by (auto simp: lock_grants_conflict_def)
qed

lemma mode_covers_trans: "mode_covers a b \<Longrightarrow> mode_covers b c \<Longrightarrow> mode_covers a c"
  by (auto simp: mode_covers_def blocks_at_least_def list_all_iff)

section \<open>The contract of a reference-counted lock service\<close>

definition lock_on :: "txn_lock_set \<Rightarrow> lock_resource \<Rightarrow> granted_lock option" where
  "lock_on ls r = find (\<lambda>lock. gl_resource lock = r) (ls_locks ls)"

definition locks_on :: "txn_lock_set \<Rightarrow> txn_id \<Rightarrow> lock_resource \<Rightarrow> bool" where
  "locks_on ls t r \<longleftrightarrow> ls_txn_id ls = t \<and> lock_on ls r \<noteq> None"

lemma lock_on_Some:
  "distinct (map gl_resource (ls_locks ls)) \<Longrightarrow>
     lock_on ls r = Some lock \<longleftrightarrow> lock \<in> set (ls_locks ls) \<and> gl_resource lock = r"
proof -
  have "distinct (map gl_resource locks) \<Longrightarrow>
      find (\<lambda>lock. gl_resource lock = r) locks = Some lock \<longleftrightarrow> lock \<in> set locks \<and> gl_resource lock = r"
    for locks by (induction locks) auto
  then show "distinct (map gl_resource (ls_locks ls)) \<Longrightarrow> ?thesis" by (simp add: lock_on_def)
qed

lemma lock_on_None: "lock_on ls r = None \<longleftrightarrow> r \<notin> gl_resource ` set (ls_locks ls)"
  by (auto simp: lock_on_def find_None_iff)

lemma tracks_held:
  assumes "tracks h t m m' locks" "ls_locks ls = locks"
  shows "held h m' t' r =
    (if t' = t then (case lock_on ls r of None \<Rightarrow> held h m t r
                     | Some lock \<Rightarrow> Some (grant_view (held h m t r) t (gl_mode lock)))
     else held h m t' r)"
proof (cases "lock_on ls r")
  case None
  with assms have "lm_state h m' r = lm_state h m r" by (auto simp: tracks_def lock_on_None)
  then show ?thesis by (simp add: held_def None)
next
  case (Some lock)
  have "distinct (map gl_resource (ls_locks ls))" using assms by (simp add: tracks_def)
  with Some assms have lock: "lock \<in> set locks" "gl_resource lock = r" by (auto simp: lock_on_Some)
  with assms(1) obtain oc where
    "grant_holder (lm_state h m r) t (gl_mode lock) = (lm_state h m' r, oc)"
    by (auto simp: tracks_def tracks_lock_def)
  from held_in_grant(1) [OF this] show ?thesis by (simp add: held_def Some)
qed

lemma tracks_previous:
  assumes "tracks h t m m' locks" "lock \<in> set locks"
  shows "gl_previous_mode lock = map_option lh_mode (held h m t (gl_resource lock))"
proof -
  from assms obtain oc where
    "grant_holder (lm_state h m (gl_resource lock)) t (gl_mode lock) = (lm_state h m' (gl_resource lock), oc)"
    "gl_previous_mode lock = go_previous_mode oc"
    by (auto simp: tracks_def tracks_lock_def)
  with held_in_grant(2) show ?thesis by (simp add: held_def)
qed

lemma release_locks_held:
  assumes "wf_manager h m" "distinct (map gl_resource locks)" "\<forall>lock \<in> set locks. located h m lock"
  shows "held h (release_locks m t locks) t' r =
      (if t' = t then (case find (\<lambda>lock. gl_resource lock = r) locks of
          None \<Rightarrow> held h m t r | Some lock \<Rightarrow> release_view (held h m t r) (gl_previous_mode lock))
       else held h m t' r)"
    and "wf_manager h (release_locks m t locks)" and "same_frame m (release_locks m t locks)"
proof -
  have "wf_manager h (release_locks m t locks) \<and> same_frame m (release_locks m t locks) \<and>
     held h (release_locks m t locks) t' r =
      (if t' = t then (case find (\<lambda>lock. gl_resource lock = r) locks of
          None \<Rightarrow> held h m t r | Some lock \<Rightarrow> release_view (held h m t r) (gl_previous_mode lock))
       else held h m t' r)"
    using assms
  proof (induction locks)
    case Nil
    then show ?case by (simp add: release_locks_def)
  next
    case (Cons a locks)
    let ?m = "release_locks m t locks"
    have step: "release_locks m t (a # locks) = release_lock ?m t a" by (simp add: release_locks_def)
    have IH: "wf_manager h ?m" "same_frame m ?m" and
      IHh: "held h ?m t' r = (if t' = t then (case find (\<lambda>lock. gl_resource lock = r) locks of
          None \<Rightarrow> held h m t r | Some lock \<Rightarrow> release_view (held h m t r) (gl_previous_mode lock))
       else held h m t' r)"
      using Cons by auto
    have loc: "located h ?m a" using Cons.prems(3) same_frame_located [OF IH(2)] by simp
    note rel = release_lock_state [OF IH(1) loc, of t]
    have fresh: "find (\<lambda>lock. gl_resource lock = gl_resource a) locks = None"
      using Cons.prems(2) by (auto simp: find_None_iff image_iff)
    have "held h (release_lock ?m t a) t' r = (if r = gl_resource a
        then (if t' = t then release_view (held h ?m t r) (gl_previous_mode a) else held h ?m t' r)
        else held h ?m t' r)"
      by (simp add: held_def rel(1) held_in_release [OF lm_state_wf [OF IH(1)]])
    with IHh fresh rel(2) same_frame_trans [OF IH(2) release_lock_frame, of t a]
    show ?case unfolding step by auto
  qed
  then show "held h (release_locks m t locks) t' r =
      (if t' = t then (case find (\<lambda>lock. gl_resource lock = r) locks of
          None \<Rightarrow> held h m t r | Some lock \<Rightarrow> release_view (held h m t r) (gl_previous_mode lock))
       else held h m t' r)"
    "wf_manager h (release_locks m t locks)" "same_frame m (release_locks m t locks)"
    by auto
qed

locale lock_set_service =
  fixes view :: "'m \<Rightarrow> txn_id \<Rightarrow> lock_resource \<Rightarrow> lock_holder option"
    and refs :: "'m \<Rightarrow> txn_id \<Rightarrow> lock_resource \<Rightarrow> nat"
    and releasable :: "'m \<Rightarrow> txn_lock_set \<Rightarrow> bool"
    and release_set :: "'m \<Rightarrow> txn_lock_set \<Rightarrow> 'm"
  assumes release_refs: "releasable m ls \<Longrightarrow>
      refs (release_set m ls) t r = refs m t r - (if locks_on ls t r then 1 else 0)"
    and release_keeps: "releasable m ls \<Longrightarrow> releasable m ls' \<Longrightarrow> releasable (release_set m ls) ls'"
    and release_frame: "releasable m ls \<Longrightarrow> \<not> locks_on ls t r \<Longrightarrow> view (release_set m ls) t r = view m t r"
begin

text \<open>Releasing any list of lock sets, in any order, takes away one reference for each of them.\<close>

lemma release_list:
  "\<forall>ls \<in> set sets. releasable m ls \<Longrightarrow>
     (\<forall>ls'. releasable m ls' \<longrightarrow> releasable (fold (\<lambda>ls m. release_set m ls) sets m) ls') \<and>
     refs (fold (\<lambda>ls m. release_set m ls) sets m) t r =
       refs m t r - length (filter (\<lambda>ls. locks_on ls t r) sets)"
proof (induction sets arbitrary: m)
  case (Cons ls sets)
  let ?m = "release_set m ls"
  have ok: "releasable m ls" using Cons.prems by simp
  then have "\<forall>ls' \<in> set sets. releasable ?m ls'" using Cons.prems release_keeps by auto
  note IH = Cons.IH [OF this]
  show ?case
  proof (intro conjI allI impI)
    fix ls' assume "releasable m ls'"
    then show "releasable (fold (\<lambda>ls m. release_set m ls) (ls # sets) m) ls'"
      using IH release_keeps [OF ok] by simp
  next
    show "refs (fold (\<lambda>ls m. release_set m ls) (ls # sets) m) t r =
        refs m t r - length (filter (\<lambda>ls. locks_on ls t r) (ls # sets))"
      using IH release_refs [OF ok] by simp
  qed
qed simp

lemma release_list_frame:
  "\<forall>ls \<in> set sets. releasable m ls \<and> \<not> locks_on ls t r \<Longrightarrow>
     view (fold (\<lambda>ls m. release_set m ls) sets m) t r = view m t r"
proof (induction sets arbitrary: m)
  case (Cons ls sets)
  then have "\<forall>ls' \<in> set sets. releasable (release_set m ls) ls' \<and> \<not> locks_on ls' t r"
    using release_keeps by auto
  from Cons.IH [OF this] show ?case using Cons.prems release_frame by simp
qed simp

end

text \<open>The lock manager provides it.\<close>

definition held_refs :: "(lock_resource \<Rightarrow> u64) \<Rightarrow> lock_manager \<Rightarrow> txn_id \<Rightarrow> lock_resource \<Rightarrow> nat" where
  "held_refs h m t r = (case held h m t r of None \<Rightarrow> 0 | Some holder \<Rightarrow> lh_ref_count holder)"

definition releasable_in :: "(lock_resource \<Rightarrow> u64) \<Rightarrow> lock_manager \<Rightarrow> txn_lock_set \<Rightarrow> bool" where
  "releasable_in h m ls \<longleftrightarrow>
     wf_manager h m \<and> \<not> ls_released ls \<and> distinct (map gl_resource (ls_locks ls)) \<and>
     (\<forall>lock \<in> set (ls_locks ls). located h m lock)"

lemma held_refs_release_view:
  "(case release_view v prev of None \<Rightarrow> 0 | Some holder \<Rightarrow> lh_ref_count holder) =
     (case v of None \<Rightarrow> 0 | Some holder \<Rightarrow> lh_ref_count holder) - 1"
  by (auto simp: release_view_def split: option.split)

interpretation lock_manager_service:
  lock_set_service "held h" "held_refs h" "releasable_in h" "\<lambda>m ls. fst (release_inner m ls)" for h
proof
  fix m ls t r
  assume ok: "releasable_in h m ls"
  then have eq: "fst (release_inner m ls) = release_locks m (ls_txn_id ls) (ls_locks ls)"
    by (simp add: releasable_in_def release_inner_def)
  note rel = release_locks_held [of h m "ls_locks ls" "ls_txn_id ls", folded lock_on_def eq]
  show "held_refs h (fst (release_inner m ls)) t r = held_refs h m t r - (if locks_on ls t r then 1 else 0)"
    using rel(1) ok
    by (auto simp: releasable_in_def held_refs_def locks_on_def held_refs_release_view split: option.split_asm)
  show "held h (fst (release_inner m ls)) t r = held h m t r" if "\<not> locks_on ls t r"
    using rel(1) ok that by (auto simp: releasable_in_def locks_on_def)
  fix ls' assume "releasable_in h m ls'"
  then show "releasable_in h (fst (release_inner m ls)) ls'"
    using rel(2,3) ok by (auto simp: releasable_in_def same_frame_located)
qed

lemma held_refs_zero:
  assumes "wf_manager h m" "held_refs h m t r = 0"
  shows "held h m t r = None"
proof (cases "held h m t r")
  case (Some holder)
  note wf = lm_state_wf [OF assms(1), of r]
  from Some held_in_Some [OF wf] have "holder \<in> set (lm_state h m r)" by (simp add: held_def)
  with wf assms(2) Some show ?thesis by (auto simp: wf_state_def held_refs_def)
qed


section \<open>Lock sets of concurrent transactions\<close>

text \<open>The manager together with the lock sets that are out, the most recently acquired first.\<close>

record lock_system =
  sys_manager :: lock_manager
  sys_sets :: "txn_lock_set list"

datatype lock_event = Acquired txn_lock_set | Refused txn_id | Released txn_lock_set

text \<open>One whole call of some transaction: an acquisition, granted or refused, or the release of any one of its
  lock sets, in whatever order.\<close>

inductive system_step :: "(lock_resource \<Rightarrow> u64) \<Rightarrow> lock_system \<Rightarrow> lock_event \<Rightarrow> lock_system \<Rightarrow> bool"
  for h where
  acquire: "\<lbrakk>\<forall>r. unsaturated (lm_state h (sys_manager s) r);
     granted_count (lm_coarse (sys_manager s)) + length reqs < usize_modulus;
     lock_many h (sys_manager s) t reqs = (m', Inr ls)\<rbrakk>
   \<Longrightarrow> system_step h s (Acquired ls) \<lparr>sys_manager = m', sys_sets = ls # sys_sets s\<rparr>"
| refuse: "\<lbrakk>\<forall>r. unsaturated (lm_state h (sys_manager s) r);
     granted_count (lm_coarse (sys_manager s)) + length reqs < usize_modulus;
     lock_many h (sys_manager s) t reqs = (m', Inl err)\<rbrakk>
   \<Longrightarrow> system_step h s (Refused t) \<lparr>sys_manager = m', sys_sets = sys_sets s\<rparr>"
| release: "\<lbrakk>sys_sets s = later @ ls # earlier; release_inner (sys_manager s) ls = (m', released)\<rbrakk>
   \<Longrightarrow> system_step h s (Released ls) \<lparr>sys_manager = m', sys_sets = later @ earlier\<rparr>"

inductive system_reachable :: "(lock_resource \<Rightarrow> u64) \<Rightarrow> lock_system \<Rightarrow> bool" for h where
  start: "lock_manager_new shard_count policy = Some m \<Longrightarrow>
     system_reachable h \<lparr>sys_manager = m, sys_sets = []\<rparr>"
| step: "system_reachable h s \<Longrightarrow> system_step h s ev s' \<Longrightarrow> system_reachable h s'"

subsection \<open>Reference counts\<close>

text \<open>A lock set acquired while an older one of the transaction names the resource has a mode to give back.\<close>

fun prevs_ok :: "txn_lock_set list \<Rightarrow> bool" where
  "prevs_ok [] = True"
| "prevs_ok (ls # rest) =
     ((\<forall>lock \<in> set (ls_locks ls). (\<exists>older \<in> set rest. locks_on older (ls_txn_id ls) (gl_resource lock)) \<longrightarrow>
         gl_previous_mode lock \<noteq> None) \<and> prevs_ok rest)"

text \<open>In whatever order lock sets are released, a transaction holds a resource as often as its outstanding lock
  sets name it.\<close>

definition system_ok :: "(lock_resource \<Rightarrow> u64) \<Rightarrow> lock_system \<Rightarrow> bool" where
  "system_ok h s \<longleftrightarrow>
     wf_manager h (sys_manager s) \<and> (\<forall>ls \<in> set (sys_sets s). releasable_in h (sys_manager s) ls) \<and>
     prevs_ok (sys_sets s) \<and>
     (\<forall>t r. held_refs h (sys_manager s) t r = length (filter (\<lambda>ls. locks_on ls t r) (sys_sets s)))"

lemma prevs_ok_remove: "prevs_ok (later @ ls # earlier) \<Longrightarrow> prevs_ok (later @ earlier)"
  by (induction later) auto

lemma held_refs_positive:
  assumes "wf_manager h m"
  shows "0 < held_refs h m t r \<longleftrightarrow> held h m t r \<noteq> None"
proof (cases "held h m t r")
  case (Some holder)
  with held_refs_zero [OF assms, of t r] show ?thesis by fastforce
qed (simp add: held_refs_def)

lemma locks_onI: "lock \<in> set (ls_locks ls) \<Longrightarrow> locks_on ls (ls_txn_id ls) (gl_resource lock)"
  by (auto simp: locks_on_def lock_on_None)

lemma system_ok_holds:
  assumes "system_ok h s" "ls \<in> set (sys_sets s)" "locks_on ls t r"
  shows "held h (sys_manager s) t r \<noteq> None"
proof -
  have "0 < length (filter (\<lambda>ls. locks_on ls t r) (sys_sets s))"
    using assms(2,3) by (auto simp: filter_empty_conv)
  then show ?thesis using assms(1) held_refs_positive by (metis system_ok_def)
qed

lemma system_ok_acquire:
  assumes ok: "system_ok h s" and settled: "settled h (sys_manager s)"
    and tr: "tracks h t (sys_manager s) m' (ls_locks ls)" and ls: "ls_txn_id ls = t" "\<not> ls_released ls"
  shows "system_ok h \<lparr>sys_manager = m', sys_sets = ls # sys_sets s\<rparr>"
proof -
  let ?m = "sys_manager s"
  have wf': "wf_manager h m'" and frame: "same_frame ?m m'" and dist: "distinct (map gl_resource (ls_locks ls))"
    and lock: "\<forall>lock \<in> set (ls_locks ls). tracks_lock h t ?m m' lock" using tr by (auto simp: tracks_def)
  have rel: "\<forall>x \<in> set (ls # sys_sets s). releasable_in h m' x"
    using ok wf' dist lock ls(2) by (auto simp: system_ok_def releasable_in_def tracks_lock_def same_frame_located [OF frame])
  have exact: "saturating_add (lh_ref_count holder) (Suc 0) = Suc (lh_ref_count holder)" if "held h ?m t r = Some holder" for r holder
  proof -
    have "wf_state (lm_state h ?m r)" "unsaturated (lm_state h ?m r)" using settled lm_state_wf by (auto simp: settled_def)
    with that held_in_Some have "lh_ref_count holder < usize_max" by (auto simp: held_def unsaturated_def)
    then show ?thesis using saturating_add_exact [of "lh_ref_count holder" 1] by simp
  qed
  have refs: "held_refs h m' t' r = held_refs h ?m t' r + (if locks_on ls t' r then 1 else 0)" for t' r
    using tracks_held [OF tr refl, of t' r] exact ls(1)
    by (auto simp: held_refs_def locks_on_def grant_view_def split: option.split)
  have "gl_previous_mode lock \<noteq> None"
    if "lock \<in> set (ls_locks ls)" "older \<in> set (sys_sets s)" "locks_on older t (gl_resource lock)" for lock older
    using tracks_previous [OF tr that(1)] system_ok_holds [OF ok that(2,3)] by auto
  with ok rel refs wf' ls show ?thesis by (auto simp: system_ok_def)
qed

lemma system_ok_refuse:
  assumes "system_ok h s" "\<forall>r. lm_state h m' r = lm_state h (sys_manager s) r"
    "wf_manager h m'" "same_frame (sys_manager s) m'"
  shows "system_ok h \<lparr>sys_manager = m', sys_sets = sys_sets s\<rparr>"
  using assms by (simp add: system_ok_def held_def held_refs_def releasable_in_def same_frame_located)

lemma system_ok_release:
  assumes ok: "system_ok h s" and sets: "sys_sets s = later @ ls # earlier"
    and rel: "release_inner (sys_manager s) ls = (m', released)"
  shows "system_ok h \<lparr>sys_manager = m', sys_sets = later @ earlier\<rparr>"
proof -
  let ?m = "sys_manager s"
  have m': "m' = fst (release_inner ?m ls)" by (simp add: rel)
  have can: "releasable_in h ?m x" if "x \<in> set (later @ ls # earlier)" for x
    using ok that by (auto simp: system_ok_def sets)
  note keeps = lock_manager_service.release_keeps [OF can can, of ls]
  have "wf_manager h m'" using keeps [of ls] by (simp add: m' releasable_in_def)
  with ok keeps prevs_ok_remove lock_manager_service.release_refs [OF can, of ls]
  show ?thesis by (auto simp: system_ok_def sets m')
qed

inductive_cases system_stepE: "system_step h s ev s'"

lemma system_step_cases:
  assumes "wf_manager h (sys_manager s)" "system_step h s ev s'"
  obtains (granted) t m' ls where "ev = Acquired ls" "s' = \<lparr>sys_manager = m', sys_sets = ls # sys_sets s\<rparr>"
      "settled h (sys_manager s)" "tracks h t (sys_manager s) m' (ls_locks ls)" "ls_txn_id ls = t" "\<not> ls_released ls"
  | (refused) t m' where "ev = Refused t" "s' = \<lparr>sys_manager = m', sys_sets = sys_sets s\<rparr>"
      "\<forall>r. lm_state h m' r = lm_state h (sys_manager s) r" "wf_manager h m'" "same_frame (sys_manager s) m'"
  | (released) later ls earlier m' released where "ev = Released ls" "s' = \<lparr>sys_manager = m', sys_sets = later @ earlier\<rparr>"
      "sys_sets s = later @ ls # earlier" "release_inner (sys_manager s) ls = (m', released)"
  using assms(2)
proof cases
  case (acquire reqs t m' ls)
  have settled: "settled h (sys_manager s)" using assms(1) acquire(3) by (simp add: settled_def)
  from lock_many_cases [OF settled acquire(4,5)] show ?thesis using acquire(1,2) settled that(1) by (metis sum.inject(2) sum.distinct(1))
next
  case (refuse reqs t m' err)
  have settled: "settled h (sys_manager s)" using assms(1) refuse(3) by (simp add: settled_def)
  from lock_many_cases [OF settled refuse(4,5)] show ?thesis using refuse(1,2) that(2) by (metis sum.distinct(1))
next
  case (release later ls earlier m' released)
  then show ?thesis using that(3) by blast
qed

lemma system_ok_step:
  assumes "system_ok h s" "system_step h s ev s'"
  shows "system_ok h s'"
proof -
  have "wf_manager h (sys_manager s)" using assms(1) by (simp add: system_ok_def)
  then show ?thesis using assms(2)
  proof (cases rule: system_step_cases)
    case (granted t m' ls)
    then show ?thesis using system_ok_acquire [OF assms(1)] by blast
  next
    case (refused t m')
    then show ?thesis using system_ok_refuse [OF assms(1)] by blast
  next
    case (released later ls earlier m' released)
    then show ?thesis using system_ok_release [OF assms(1)] by blast
  qed
qed

lemma lock_manager_new_inv:
  assumes "lock_manager_new shard_count policy = Some m"
  shows "wf_manager h m" "lm_state h m r = []" "lm_coarse m = []"
proof -
  have m: "lm_shards m = replicate shard_count []" "lm_coarse m = []" "lm_coarse_active_count m = 0"
    "0 < shard_count"
    using assms by (auto simp: lock_manager_new_def split: if_splits)
  then have idx: "lm_shard_index h m r < shard_count" by (simp add: lm_shard_index_def)
  show "wf_manager h m" using m by (simp add: wf_manager_def granted_count_def)
  show "lm_state h m r = []" using m idx by (simp add: lm_state_def lm_shard_for_def)
  show "lm_coarse m = []" by (rule m(2))
qed

lemma system_reachable_ok: "system_reachable h s \<Longrightarrow> system_ok h s"
proof (induction rule: system_reachable.induct)
  case (start shard_count policy m)
  show ?case
    using lock_manager_new_inv(1,2) [OF start, of h] by (simp add: system_ok_def held_refs_def held_def)
next
  case (step s ev s')
  from system_ok_step [OF step(3,2)] show ?case .
qed

subsection \<open>Runs that keep what they lock\<close>

text \<open>A grant to a transaction that holds the resource already gives it a mode that blocks at least what the earlier
  mode and the requested one block.\<close>

definition raising :: "granted_lock \<Rightarrow> bool" where
  "raising lock \<longleftrightarrow>
     (\<forall>p. gl_previous_mode lock = Some p \<longrightarrow>
        mode_covers (strongest p (gl_mode lock)) p \<and> mode_covers (strongest p (gl_mode lock)) (gl_mode lock))"

text \<open>The modes that a released lock set gives back block at least what the other lock sets of the transaction ask
  for and what they will give back.\<close>

definition undoable :: "txn_lock_set \<Rightarrow> txn_lock_set list \<Rightarrow> bool" where
  "undoable ls others \<longleftrightarrow>
     (\<forall>lock \<in> set (ls_locks ls). \<forall>p. gl_previous_mode lock = Some p \<longrightarrow>
        (\<forall>other \<in> set others. ls_txn_id other = ls_txn_id ls \<longrightarrow>
          (\<forall>lock' \<in> set (ls_locks other). gl_resource lock' = gl_resource lock \<longrightarrow>
            mode_covers p (gl_mode lock') \<and> (\<forall>p'. gl_previous_mode lock' = Some p' \<longrightarrow> mode_covers p p'))))"

fun orderly :: "lock_event \<Rightarrow> txn_lock_set list \<Rightarrow> bool" where
  "orderly (Acquired ls) sets \<longleftrightarrow> (\<forall>lock \<in> set (ls_locks ls). raising lock)"
| "orderly (Refused t) sets \<longleftrightarrow> True"
| "orderly (Released ls) sets \<longleftrightarrow> undoable ls sets"

inductive orderly_reachable :: "(lock_resource \<Rightarrow> u64) \<Rightarrow> lock_system \<Rightarrow> bool" for h where
  orderly_start: "lock_manager_new shard_count policy = Some m \<Longrightarrow>
     orderly_reachable h \<lparr>sys_manager = m, sys_sets = []\<rparr>"
| orderly_step: "orderly_reachable h s \<Longrightarrow> system_step h s ev s' \<Longrightarrow> orderly ev (sys_sets s') \<Longrightarrow> orderly_reachable h s'"

lemma orderly_system_reachable: "orderly_reachable h s \<Longrightarrow> system_reachable h s"
  by (induction rule: orderly_reachable.induct) (auto intro: system_reachable.intros)

text \<open>What an outstanding lock needs of the mode its transaction holds.\<close>

definition kept_by :: "lock_mode \<Rightarrow> granted_lock \<Rightarrow> bool" where
  "kept_by md lock \<longleftrightarrow> mode_covers md (gl_mode lock) \<and> (\<forall>p. gl_previous_mode lock = Some p \<longrightarrow> mode_covers md p)"

definition sets_kept :: "(lock_resource \<Rightarrow> u64) \<Rightarrow> lock_system \<Rightarrow> bool" where
  "sets_kept h s \<longleftrightarrow>
     (\<forall>ls \<in> set (sys_sets s). \<forall>lock \<in> set (ls_locks ls). \<forall>holder.
        held h (sys_manager s) (ls_txn_id ls) (gl_resource lock) = Some holder \<longrightarrow> kept_by (lh_mode holder) lock)"

lemma kept_by_trans: "mode_covers a b \<Longrightarrow> kept_by b lock \<Longrightarrow> kept_by a lock"
  unfolding kept_by_def using mode_covers_trans by blast

lemma sets_kept_acquire:
  assumes "sets_kept h s" "tracks h t (sys_manager s) m' (ls_locks ls)" "ls_txn_id ls = t"
    "\<forall>lock \<in> set (ls_locks ls). raising lock" "system_ok h s"
  shows "sets_kept h \<lparr>sys_manager = m', sys_sets = ls # sys_sets s\<rparr>"
proof -
  let ?m = "sys_manager s"
  have dist: "distinct (map gl_resource (ls_locks ls))" using assms(2) by (simp add: tracks_def)
  note view = tracks_held [OF assms(2) refl]
  note prev = tracks_previous [OF assms(2)]
  have up: "mode_covers (lh_mode now) (lh_mode before)"
    if "held h ?m t' r = Some before" "held h m' t' r = Some now" for t' r before now
  proof (cases "t' = t \<and> lock_on ls r \<noteq> None")
    case True
    then obtain lock where lock: "lock_on ls r = Some lock" by blast
    with lock_on_Some [OF dist] have "lock \<in> set (ls_locks ls)" "gl_resource lock = r" by auto
    with assms(4) prev have "mode_covers (strongest (lh_mode before) (gl_mode lock)) (lh_mode before)"
      using that(1) True by (auto simp: raising_def)
    with that view [of t' r] True lock show ?thesis by (auto simp: grant_view_def)
  next
    case False
    with that view [of t' r] show ?thesis by (auto split: if_splits)
  qed
  have new: "kept_by (lh_mode holder) lock"
    if "lock \<in> set (ls_locks ls)" "held h m' t (gl_resource lock) = Some holder" for lock holder
  proof -
    have "lock_on ls (gl_resource lock) = Some lock" using that(1) lock_on_Some [OF dist] by blast
    with view [of t "gl_resource lock"] that(2)
    have "holder = grant_view (held h ?m t (gl_resource lock)) t (gl_mode lock)" by simp
    with assms(4) prev [OF that(1)] that(1) show ?thesis
      by (auto simp: kept_by_def raising_def grant_view_def split: option.split)
  qed
  have old: "kept_by (lh_mode holder) lock"
    if other: "other \<in> set (sys_sets s)" "lock \<in> set (ls_locks other)"
      and now: "held h m' (ls_txn_id other) (gl_resource lock) = Some holder" for other lock holder
  proof -
    obtain before where "held h ?m (ls_txn_id other) (gl_resource lock) = Some before"
      using system_ok_holds [OF assms(5) other(1) locks_onI [OF other(2)]] by blast
    with assms(1) other up [OF this now] show ?thesis by (auto simp: sets_kept_def intro: kept_by_trans)
  qed
  show ?thesis using new old assms(3) by (auto simp: sets_kept_def)
qed

lemma release_inner_held:
  assumes "releasable_in h m ls"
  shows "held h (fst (release_inner m ls)) t r =
      (if t = ls_txn_id ls then (case lock_on ls r of None \<Rightarrow> held h m t r
         | Some lock \<Rightarrow> release_view (held h m t r) (gl_previous_mode lock)) else held h m t r)"
proof -
  have eq: "fst (release_inner m ls) = release_locks m (ls_txn_id ls) (ls_locks ls)"
    using assms by (simp add: releasable_in_def release_inner_def)
  show ?thesis
    using assms release_locks_held(1) [of h m "ls_locks ls" "ls_txn_id ls" t r]
    by (cases "t = ls_txn_id ls") (simp_all add: releasable_in_def lock_on_def eq cong: option.case_cong)
qed

text \<open>After a release every transaction holds what it held, or less.\<close>

lemma release_view_cases:
  assumes "releasable_in h m ls" "held h (fst (release_inner m ls)) t r = Some now"
  obtains before where "held h m t r = Some before"
    "lh_mode now = lh_mode before \<or>
     (\<exists>lock p. ls_txn_id ls = t \<and> lock \<in> set (ls_locks ls) \<and> gl_resource lock = r \<and> gl_previous_mode lock = Some p \<and> lh_mode now = p)"
proof -
  have dist: "distinct (map gl_resource (ls_locks ls))" using assms(1) by (simp add: releasable_in_def)
  note view = release_inner_held [OF assms(1), of t r]
  show thesis
  proof (cases "t = ls_txn_id ls \<and> lock_on ls r \<noteq> None")
    case False
    then show thesis using view assms(2) that [of now] by (auto split: if_splits)
  next
    case True
    then obtain lock where on: "lock_on ls r = Some lock" by blast
    with lock_on_Some [OF dist] have lock: "lock \<in> set (ls_locks ls)" "gl_resource lock = r" by auto
    have "release_view (held h m t r) (gl_previous_mode lock) = Some now" using view assms(2) True on by auto
    then obtain before where "held h m t r = Some before"
      "lh_mode now = (case gl_previous_mode lock of Some md \<Rightarrow> md | None \<Rightarrow> lh_mode before)"
      by (auto simp: release_view_def split: option.splits if_splits)
    with lock True that [of before] show thesis by (auto split: option.splits)
  qed
qed

lemma release_lowers:
  assumes kept: "sets_kept h s" and ok: "system_ok h s" and ls: "ls \<in> set (sys_sets s)"
    and now: "held h (fst (release_inner (sys_manager s) ls)) t r = Some now"
  obtains before where "held h (sys_manager s) t r = Some before" "mode_covers (lh_mode before) (lh_mode now)"
proof -
  have "releasable_in h (sys_manager s) ls" using ok ls by (simp add: system_ok_def)
  from release_view_cases [OF this now] obtain before where before: "held h (sys_manager s) t r = Some before"
    "lh_mode now = lh_mode before \<or>
     (\<exists>lock p. ls_txn_id ls = t \<and> lock \<in> set (ls_locks ls) \<and> gl_resource lock = r \<and> gl_previous_mode lock = Some p \<and> lh_mode now = p)" .
  then have "mode_covers (lh_mode before) (lh_mode now)"
    using kept ls by (auto simp: sets_kept_def kept_by_def)
  with before(1) that show thesis by blast
qed

lemma sets_kept_release:
  assumes kept: "sets_kept h s" and ok: "system_ok h s" and sets: "sys_sets s = later @ ls # earlier"
    and rel: "release_inner (sys_manager s) ls = (m', released)" and undo: "undoable ls (later @ earlier)"
  shows "sets_kept h \<lparr>sys_manager = m', sys_sets = later @ earlier\<rparr>"
  unfolding sets_kept_def
proof (intro ballI allI impI)
  fix other lock holder
  assume other: "other \<in> set (sys_sets \<lparr>sys_manager = m', sys_sets = later @ earlier\<rparr>)" "lock \<in> set (ls_locks other)"
    and now: "held h (sys_manager \<lparr>sys_manager = m', sys_sets = later @ earlier\<rparr>) (ls_txn_id other) (gl_resource lock) = Some holder"
  have can: "releasable_in h (sys_manager s) ls" using ok by (simp add: system_ok_def sets)
  have m': "m' = fst (release_inner (sys_manager s) ls)" by (simp add: rel)
  have "held h (fst (release_inner (sys_manager s) ls)) (ls_txn_id other) (gl_resource lock) = Some holder" using now m' by simp
  from release_view_cases [OF can this] obtain before where before:
    "held h (sys_manager s) (ls_txn_id other) (gl_resource lock) = Some before"
    "lh_mode holder = lh_mode before \<or> (\<exists>lock' p. ls_txn_id ls = ls_txn_id other \<and> lock' \<in> set (ls_locks ls) \<and>
       gl_resource lock' = gl_resource lock \<and> gl_previous_mode lock' = Some p \<and> lh_mode holder = p)" .
  from before(2) show "kept_by (lh_mode holder) lock"
  proof
    assume "lh_mode holder = lh_mode before"
    then show ?thesis using kept other before(1) by (auto simp: sets_kept_def sets)
  next
    assume "\<exists>lock' p. ls_txn_id ls = ls_txn_id other \<and> lock' \<in> set (ls_locks ls) \<and>
       gl_resource lock' = gl_resource lock \<and> gl_previous_mode lock' = Some p \<and> lh_mode holder = p"
    with undo other show ?thesis by (fastforce simp: undoable_def kept_by_def)
  qed
qed

lemma mutual_exclusion_release:
  assumes kept: "sets_kept h s" and ok: "system_ok h s" and ls: "ls \<in> set (sys_sets s)"
    and me: "mutual_exclusion h (sys_manager s)" and wf': "wf_manager h (fst (release_inner (sys_manager s) ls))"
  shows "mutual_exclusion h (fst (release_inner (sys_manager s) ls))"
  unfolding mutual_exclusion_held [OF wf']
proof (intro allI impI notI)
  fix r1 r2 t1 t2 h1 h2
  let ?m = "sys_manager s" and ?m' = "fst (release_inner (sys_manager s) ls)"
  assume now: "held h ?m' t1 r1 = Some h1" "held h ?m' t2 r2 = Some h2" and ne: "t1 \<noteq> t2"
    and conf: "lock_grants_conflict r1 (lh_mode h1) r2 (lh_mode h2)"
  obtain n1 where n1: "held h ?m t1 r1 = Some n1" "mode_covers (lh_mode n1) (lh_mode h1)"
    by (rule release_lowers [OF kept ok ls now(1)])
  obtain n2 where n2: "held h ?m t2 r2 = Some n2" "mode_covers (lh_mode n2) (lh_mode h2)"
    by (rule release_lowers [OF kept ok ls now(2)])
  have "lock_grants_conflict r1 (lh_mode n1) r2 (lh_mode n2)"
    using conf mode_covers_conflict [OF n1(2)] mode_covers_conflict [OF n2(2)] by (metis lock_grants_conflict_sym)
  moreover have "wf_manager h ?m" using ok by (simp add: system_ok_def)
  ultimately show False using me n1(1) n2(1) ne mutual_exclusion_held by blast
qed

lemma orderly_reachable_ok:
  "orderly_reachable h s \<Longrightarrow> system_ok h s \<and> sets_kept h s \<and> mutual_exclusion h (sys_manager s)"
proof (induction rule: orderly_reachable.induct)
  case (orderly_start shard_count policy m)
  show ?case
    using lock_manager_new_inv(1,2) [OF orderly_start, of h]
    by (simp add: system_ok_def held_refs_def held_def sets_kept_def mutual_exclusion_def)
next
  case (orderly_step s ev s')
  then have ok: "system_ok h s" and kept: "sets_kept h s" and me: "mutual_exclusion h (sys_manager s)" by auto
  have ok': "system_ok h s'" using system_ok_step [OF ok orderly_step(2)] .
  have "wf_manager h (sys_manager s)" using ok by (simp add: system_ok_def)
  then show ?case using orderly_step(2)
  proof (cases rule: system_step_cases)
    case (granted t m' ls)
    then show ?thesis
      using ok' sets_kept_acquire [OF kept granted(4,5) _ ok] tracks_mutual_exclusion [OF granted(4) me] orderly_step(3) by simp
  next
    case (refused t m')
    then have "sets_kept h s'" "mutual_exclusion h (sys_manager s')"
      using kept me by (simp_all add: sets_kept_def held_def mutual_exclusion_def)
    with ok' show ?thesis by blast
  next
    case (released later ls earlier m' released)
    have ls: "ls \<in> set (sys_sets s)" and m': "m' = fst (release_inner (sys_manager s) ls)" using released by simp_all
    have "wf_manager h m'" using ok' released(2) by (simp add: system_ok_def)
    with mutual_exclusion_release [OF kept ok ls me] have "mutual_exclusion h m'" by (simp add: m')
    moreover have "sets_kept h s'"
      using sets_kept_release [OF kept ok released(3,4)] orderly_step(3) released(1,2) by simp
    ultimately show ?thesis using ok' released(2) by simp
  qed
qed

text \<open>A transaction that releases the newest of its lock sets on each resource first keeps what the others lock.\<close>

fun stacked :: "txn_lock_set list \<Rightarrow> bool" where
  "stacked [] = True"
| "stacked (ls # rest) = (undoable ls rest \<and> stacked rest)"

lemma stacked_remove: "stacked (later @ ls # earlier) \<Longrightarrow> stacked (later @ earlier) \<and> undoable ls earlier"
  by (induction later) (auto simp: undoable_def)

lemma undoable_acquire:
  assumes "sets_kept h s" "system_ok h s" "tracks h t (sys_manager s) m' (ls_locks ls)" "ls_txn_id ls = t"
  shows "undoable ls (sys_sets s)"
  unfolding undoable_def
proof (intro ballI allI impI)
  fix lock p other lock'
  assume lock: "lock \<in> set (ls_locks ls)" "gl_previous_mode lock = Some p"
    and other: "other \<in> set (sys_sets s)" "ls_txn_id other = ls_txn_id ls" "lock' \<in> set (ls_locks other)"
      "gl_resource lock' = gl_resource lock"
  have "gl_previous_mode lock = map_option lh_mode (held h (sys_manager s) t (gl_resource lock))"
    by (rule tracks_previous [OF assms(3) lock(1)])
  with lock(2) obtain holder where "held h (sys_manager s) t (gl_resource lock) = Some holder" "lh_mode holder = p" by auto
  with assms(1,4) other show "mode_covers p (gl_mode lock') \<and> (\<forall>p'. gl_previous_mode lock' = Some p' \<longrightarrow> mode_covers p p')"
    unfolding sets_kept_def kept_by_def by metis
qed

lemma orderly_reachable_stacked: "orderly_reachable h s \<Longrightarrow> stacked (sys_sets s)"
proof (induction rule: orderly_reachable.induct)
  case (orderly_step s ev s')
  note ok = orderly_reachable_ok [OF orderly_step(1)]
  then have "wf_manager h (sys_manager s)" by (simp add: system_ok_def)
  then show ?case using orderly_step(2)
  proof (cases rule: system_step_cases)
    case (granted t m' ls)
    then show ?thesis using undoable_acquire [OF _ _ granted(4,5)] ok orderly_step.IH by simp
  next
    case (released later ls earlier m' released)
    then show ?thesis using stacked_remove orderly_step.IH by simp
  qed (use orderly_step.IH in simp)
qed simp

lemma newest_first_undoable:
  assumes "orderly_reachable h s" "sys_sets s = later @ ls # earlier"
    "\<forall>other \<in> set later. \<forall>lock \<in> set (ls_locks ls). \<not> locks_on other (ls_txn_id ls) (gl_resource lock)"
  shows "undoable ls (later @ earlier)"
proof -
  have "undoable ls earlier"
    using orderly_reachable_stacked [OF assms(1)] stacked_remove unfolding assms(2) by blast
  moreover have "undoable ls later"
    using assms(3) locks_onI by (fastforce simp: undoable_def)
  ultimately show ?thesis by (auto simp: undoable_def)
qed

section \<open>Properties\<close>

lemma unsaturated_shards:
  assumes "wf_manager h m"
    "\<forall>shard \<in> set (lm_coarse m # lm_shards m). \<forall>(r, st) \<in> set shard. unsaturated st"
  shows "settled h m"
proof -
  have "unsaturated (state_of shard r)" if "shard \<in> set (lm_coarse m # lm_shards m)" for shard r
  proof (cases "map_of shard r")
    case (Some st)
    then have "(r, st) \<in> set shard" by (rule map_of_SomeD)
    with assms(2) that Some show ?thesis by (fastforce simp: state_of_def)
  qed (simp add: state_of_def unsaturated_def)
  moreover have "lm_shard_for h m r \<in> set (lm_coarse m # lm_shards m)" for r
    using wf_manager_index [OF assms(1), of r] by (auto simp: lm_shard_for_def)
  ultimately show ?thesis using assms(1) by (auto simp: settled_def lm_state_def)
qed

lemmas lock_eval = normalize_requests_def sort_key_def less_eq_lock_resource_def
  less_lock_resource_def strongest_def lock_many_def try_grant_coarse_def shard_blockers_def
  normalize_txn_ids_def sort_dedup_def shard_grant_def state_of_def fine_blockers_def
  try_grant_fine_batch_def fine_batch_precheck_def coarse_blockers_many_def fine_batch_locked_def
  append_exact_blockers_def lm_shard_index_def try_escalate_def escalation_enabled_def try_tablet_def
  lock_manager_new_def fetch_add_def fetch_sub_def usize_modulus_def single_tenant_def
  classify_wound_wait_def compatible_with_def conflicts_with_def lock_grants_conflict_def proper_ancestor_intent_def
  Let_def usize_max_def

text \<open>A manager of two shards, a transaction that writes two keys of one table and a transaction
  that writes another key of it, for the instances below.\<close>

definition demo_key :: "u64 \<Rightarrow> lock_resource" where
  "demo_key k = LR_PrimaryKey (single_tenant 7) 3 1 k"

definition demo_write :: "u64 list \<Rightarrow> lock_request list" where
  "demo_write ks = \<lparr>req_resource = LR_Table (single_tenant 7) 3, req_mode = IX\<rparr> #
     map (\<lambda>k. \<lparr>req_resource = demo_key k, req_mode = X\<rparr>) ks"

definition demo_hash :: "lock_resource \<Rightarrow> u64" where
  "demo_hash r = (case r of LR_PrimaryKey _ _ _ k \<Rightarrow> k | _ \<Rightarrow> 0)"

definition demo_table :: lock_resource where
  "demo_table = LR_Table (single_tenant 7) 3"

definition demo_managed :: "lock_table_shard list \<Rightarrow> lock_table_shard \<Rightarrow> nat \<Rightarrow> u64 \<Rightarrow> lock_manager" where
  "demo_managed shards coarse n epoch = \<lparr>lm_shards = shards, lm_coarse = coarse,
     lm_coarse_active_count = n, lm_coarse_epoch = epoch, lm_lock_wait_count = 0,
     lm_lock_wait_duration_us = 0, lm_lock_wound_wait_abort_count = 0,
     lm_lock_deadlock_abort_count = 0, lm_escalation_policy = try_tablet 3\<rparr>"

definition demo_holds :: "txn_id \<Rightarrow> lock_mode \<Rightarrow> lock_holder" where
  "demo_holds t md = \<lparr>lh_txn_id = t, lh_mode = md, lh_ref_count = 1\<rparr>"

definition demo_lock :: "lock_resource \<Rightarrow> lock_mode \<Rightarrow> lock_location \<Rightarrow> granted_lock" where
  "demo_lock r md loc =
     \<lparr>gl_resource = r, gl_mode = md, gl_location = loc, gl_previous_mode = None\<rparr>"

definition demo_m0 :: lock_manager where
  "demo_m0 = demo_managed [[], []] [] 0 0"

definition demo_m1 :: lock_manager where
  "demo_m1 = demo_managed [[(demo_key 6, [demo_holds 1 X])], [(demo_key 5, [demo_holds 1 X])]]
     [(demo_table, [demo_holds 1 IX])] 1 1"

definition demo_m2 :: lock_manager where
  "demo_m2 = demo_managed
     [[(demo_key 6, [demo_holds 1 X]), (demo_key 8, [demo_holds 2 X])], [(demo_key 5, [demo_holds 1 X])]]
     [(demo_table, [demo_holds 1 IX, demo_holds 2 IX])] 2 2"

definition demo_set1 :: txn_lock_set where
  "demo_set1 = \<lparr>ls_txn_id = 1, ls_locks = [demo_lock demo_table IX Coarse,
     demo_lock (demo_key 6) X (FineShard 0), demo_lock (demo_key 5) X (FineShard 1)],
     ls_released = False\<rparr>"

definition demo_set2 :: txn_lock_set where
  "demo_set2 = \<lparr>ls_txn_id = 2, ls_locks = [demo_lock demo_table IX Coarse,
     demo_lock (demo_key 8) X (FineShard 0)], ls_released = False\<rparr>"

text \<open>The first transaction once more, with another key of the table.\<close>

definition demo_m3 :: lock_manager where
  "demo_m3 = demo_managed
     [[(demo_key 6, [demo_holds 1 X]), (demo_key 8, [demo_holds 1 X])], [(demo_key 5, [demo_holds 1 X])]]
     [(demo_table, [\<lparr>lh_txn_id = 1, lh_mode = IX, lh_ref_count = 2\<rparr>])] 1 2"

definition demo_set3 :: txn_lock_set where
  "demo_set3 = \<lparr>ls_txn_id = 1, ls_locks = [(demo_lock demo_table IX Coarse)\<lparr>gl_previous_mode := Some IX\<rparr>,
     demo_lock (demo_key 8) X (FineShard 0)], ls_released = False\<rparr>"

lemma replicate_two: "replicate 2 x = [x, x]"
  by (simp add: numeral_2_eq_2)

lemmas demo_eval = demo_key_def demo_write_def demo_hash_def demo_table_def demo_managed_def
  demo_holds_def demo_lock_def demo_m0_def demo_m1_def demo_m2_def demo_set1_def demo_set2_def
  demo_m3_def demo_set3_def lock_eval numeral_2_eq_2 [symmetric] replicate_two

lemma demo_new: "lock_manager_new 2 (try_tablet 3) = Some demo_m0"
  by (simp add: demo_eval)

lemma demo_acquire1: "lock_many demo_hash demo_m0 1 (demo_write [5, 6]) = (demo_m1, Inr demo_set1)"
  by (simp add: demo_eval)

lemma demo_acquire2: "lock_many demo_hash demo_m1 2 (demo_write [8]) = (demo_m2, Inr demo_set2)"
  by (simp add: demo_eval)

lemma demo_refused: "lock_many demo_hash demo_m1 2 (demo_write [5]) =
    (record_acquire_error (demo_m1\<lparr>lm_coarse_epoch := 3\<rparr>) (WouldWait [1]), Inl (WouldWait [1]))"
  by (simp add: demo_eval release_locks_def release_lock_def release_coarse_lock_def shard_release_def)

lemma demo_settled0: "settled demo_hash demo_m0"
  using lock_manager_new_inv [OF demo_new] by (simp add: settled_def unsaturated_def)

lemma demo_settled1: "settled demo_hash demo_m1"
proof (rule unsaturated_shards)
  show "wf_manager demo_hash demo_m1"
    by (simp add: wf_manager_def wf_shard_def wf_state_def granted_count_def demo_eval less_2_cases_iff)
qed (simp add: demo_eval unsaturated_def)

lemma demo_bound:
  "granted_count (lm_coarse demo_m0) + length (demo_write [5, 6]) < usize_modulus"
  "granted_count (lm_coarse demo_m1) + length (demo_write [5]) < usize_modulus"
  "granted_count (lm_coarse demo_m1) + length (demo_write [8]) < usize_modulus"
  by (simp_all add: demo_eval granted_count_def)

lemma demo_acquire3: "lock_many demo_hash demo_m1 1 (demo_write [8]) = (demo_m3, Inr demo_set3)"
  by (simp add: demo_eval saturating_add_def)

lemma demo_orderly1: "orderly_reachable demo_hash \<lparr>sys_manager = demo_m1, sys_sets = [demo_set1]\<rparr>"
proof (rule orderly_step [OF orderly_start [OF demo_new]])
  show "system_step demo_hash \<lparr>sys_manager = demo_m0, sys_sets = []\<rparr> (Acquired demo_set1)
      \<lparr>sys_manager = demo_m1, sys_sets = [demo_set1]\<rparr>"
    using acquire [of demo_hash "\<lparr>sys_manager = demo_m0, sys_sets = []\<rparr>"]
      demo_acquire1 demo_settled0 demo_bound(1) by (auto simp: settled_def)
qed (simp add: demo_set1_def demo_lock_def raising_def)

lemma demo_orderly2: "orderly_reachable demo_hash \<lparr>sys_manager = demo_m2, sys_sets = [demo_set2, demo_set1]\<rparr>"
proof (rule orderly_step [OF demo_orderly1])
  show "system_step demo_hash \<lparr>sys_manager = demo_m1, sys_sets = [demo_set1]\<rparr> (Acquired demo_set2)
      \<lparr>sys_manager = demo_m2, sys_sets = [demo_set2, demo_set1]\<rparr>"
    using acquire [of demo_hash "\<lparr>sys_manager = demo_m1, sys_sets = [demo_set1]\<rparr>"]
      demo_acquire2 demo_settled1 demo_bound(3) by (auto simp: settled_def)
qed (simp add: demo_set2_def demo_lock_def raising_def)

lemma demo_orderly3: "orderly_reachable demo_hash \<lparr>sys_manager = demo_m3, sys_sets = [demo_set3, demo_set1]\<rparr>"
proof (rule orderly_step [OF demo_orderly1])
  show "system_step demo_hash \<lparr>sys_manager = demo_m1, sys_sets = [demo_set1]\<rparr> (Acquired demo_set3)
      \<lparr>sys_manager = demo_m3, sys_sets = [demo_set3, demo_set1]\<rparr>"
    using acquire [of demo_hash "\<lparr>sys_manager = demo_m1, sys_sets = [demo_set1]\<rparr>"]
      demo_acquire3 demo_settled1 demo_bound(3) by (auto simp: settled_def)
qed (simp add: demo_set3_def demo_lock_def raising_def strongest_def)

text \<open>Its older lock set is released first.\<close>

lemma demo_orderly4:
  "orderly_reachable demo_hash \<lparr>sys_manager = fst (release_inner demo_m3 demo_set1), sys_sets = [demo_set3]\<rparr>"
proof (rule orderly_step [OF demo_orderly3])
  obtain m' released where "release_inner demo_m3 demo_set1 = (m', released)" by fastforce
  with release [of "\<lparr>sys_manager = demo_m3, sys_sets = [demo_set3, demo_set1]\<rparr>" "[demo_set3]" demo_set1 "[]" m' released demo_hash]
  show "system_step demo_hash \<lparr>sys_manager = demo_m3, sys_sets = [demo_set3, demo_set1]\<rparr> (Released demo_set1)
      \<lparr>sys_manager = fst (release_inner demo_m3 demo_set1), sys_sets = [demo_set3]\<rparr>"
    by simp
qed (simp add: undoable_def demo_set1_def demo_lock_def)

text \<open>\<^bold>\<open>C1.\<close> Mutual exclusion.  Transactions acquire lock sets (escalation included), are refused and release lock
  sets, in any interleaving of whole calls, where a grant on a resource that its transaction already holds
  gives a mode that blocks at least what the earlier and the requested one block, and where a released lock
  set gives back modes that block at least what the transaction's other lock sets need, in whatever order
  they are released.  Then no two transactions ever hold conflicting grants; every lock of an outstanding
  lock set is held, in a mode that blocks at least what it asks for; and to release the newest lock set on
  each of its resources is always such a release.\<close>

theorem lock_system_mutual_exclusion:
  assumes "orderly_reachable h s"
  shows "mutual_exclusion h (sys_manager s) \<and>
    (\<forall>ls \<in> set (sys_sets s). \<forall>lock \<in> set (ls_locks ls). \<exists>holder.
       held h (sys_manager s) (ls_txn_id ls) (gl_resource lock) = Some holder \<and> mode_covers (lh_mode holder) (gl_mode lock)) \<and>
    (\<forall>later ls earlier. sys_sets s = later @ ls # earlier \<longrightarrow>
       (\<forall>other \<in> set later. \<forall>lock \<in> set (ls_locks ls). \<not> locks_on other (ls_txn_id ls) (gl_resource lock)) \<longrightarrow>
       orderly (Released ls) (later @ earlier))"
proof -
  note ok = orderly_reachable_ok [OF assms]
  have "\<exists>holder. held h (sys_manager s) (ls_txn_id ls) (gl_resource lock) = Some holder \<and> mode_covers (lh_mode holder) (gl_mode lock)"
    if "ls \<in> set (sys_sets s)" "lock \<in> set (ls_locks ls)" for ls lock
    using ok that system_ok_holds [OF _ that(1) locks_onI [OF that(2)]] by (fastforce simp: sets_kept_def kept_by_def)
  with ok newest_first_undoable [OF assms] show ?thesis by simp
qed

theorem lock_system_mutual_exclusion_witness:
  "mutual_exclusion demo_hash demo_m2 \<and>
   (\<exists>holder. held demo_hash demo_m2 2 (demo_key 8) = Some holder \<and> mode_covers (lh_mode holder) X) \<and>
   mutual_exclusion demo_hash (fst (release_inner demo_m3 demo_set1))"
proof -
  have "demo_lock (demo_key 8) X (FineShard 0) \<in> set (ls_locks demo_set2)" by (simp add: demo_set2_def)
  with lock_system_mutual_exclusion [OF demo_orderly2] lock_system_mutual_exclusion [OF demo_orderly4] show ?thesis
    by (fastforce simp: demo_set2_def demo_lock_def)
qed

text \<open>\<^bold>\<open>C2.\<close> A refused acquisition is atomic.  When \<open>lock_many\<close> returns an error, at whichever of its
  steps, the holders of every resource are the ones from before the call and the manager is
  well-formed: coarse locks already granted, shard batches already granted and an aborted
  escalation are all undone.\<close>

theorem lock_many_refused_atomic:
  assumes "settled h m" "granted_count (lm_coarse m) + length reqs < usize_modulus"
    "lock_many h m t reqs = (m', Inl err)"
  shows "lm_state h m' r = lm_state h m r \<and> wf_manager h m'"
  by (cases rule: lock_many_cases [OF assms]) auto

theorem lock_many_refused_atomic_witness:
  "lm_state demo_hash (fst (lock_many demo_hash demo_m1 2 (demo_write [5]))) demo_table = [demo_holds 1 IX]"
proof -
  have "lm_state demo_hash demo_m1 demo_table = [demo_holds 1 IX]"
    by (simp add: lm_state_def lm_shard_for_def demo_eval)
  with lock_many_refused_atomic [OF demo_settled1 demo_bound(2) demo_refused, of demo_table]
  show ?thesis by (simp add: demo_refused)
qed

text \<open>\<^bold>\<open>C3.\<close> Acquire and release are inverse.  Releasing the lock set that \<open>lock_many\<close> returned gives
  every resource back the holders, modes and reference counts it had before.\<close>

theorem lock_release_roundtrip:
  assumes "settled h m" "granted_count (lm_coarse m) + length reqs < usize_modulus"
    "lock_many h m t reqs = (m', Inr ls)"
  shows "lm_state h (fst (release_inner m' ls)) r = lm_state h m r"
proof (cases rule: lock_many_cases [OF assms])
  case (1 ls')
  have "wf_manager h m" "\<forall>r. unsaturated (lm_state h m r)" using assms(1) by (auto simp: settled_def)
  with 1 tracks_release_all(1) [OF 1(4)] show ?thesis by (simp add: release_inner_def)
qed simp

theorem lock_release_roundtrip_witness:
  "lm_state demo_hash (fst (release_inner demo_m2 demo_set2)) (demo_key 5) = [demo_holds 1 X]"
proof -
  have "lm_state demo_hash demo_m1 (demo_key 5) = [demo_holds 1 X]"
    by (simp add: lm_state_def lm_shard_for_def demo_eval)
  with lock_release_roundtrip [OF demo_settled1 demo_bound(3) demo_acquire2, of "demo_key 5"]
  show ?thesis by simp
qed

text \<open>\<^bold>\<open>C4.\<close> A granted acquisition covers every request.  For each resource of the call the returned
  lock set holds the strongest requested mode on it, or the exclusive lock on its tablet; and each
  lock of the set is held in the table, in the mode the grant computes.\<close>

theorem lock_many_granted_covers:
  assumes "settled h m" "granted_count (lm_coarse m) + length reqs < usize_modulus"
    "lock_many h m t reqs = (m', Inr ls)"
  shows "(merged_mode reqs r = Some md \<longrightarrow> covers (ls_locks ls) \<lparr>req_resource = r, req_mode = md\<rparr>) \<and>
    (lock \<in> set (ls_locks ls) \<longrightarrow>
      held h m' t (gl_resource lock) = Some (grant_view (held h m t (gl_resource lock)) t (gl_mode lock)))"
proof (cases rule: lock_many_cases [OF assms])
  case (1 ls')
  then have "distinct (map gl_resource (ls_locks ls))" by (simp add: tracks_def)
  then have "lock \<in> set (ls_locks ls) \<longrightarrow>
      held h m' t (gl_resource lock) = Some (grant_view (held h m t (gl_resource lock)) t (gl_mode lock))"
    using tracks_held [OF 1(4) refl, of t "gl_resource lock"] 1(1) by (simp add: lock_on_Some [THEN iffD2])
  moreover have "covers (ls_locks ls) \<lparr>req_resource = r, req_mode = md\<rparr>" if "merged_mode reqs r = Some md"
    using 1(1,5) merged_mode_request [OF that] by auto
  ultimately show ?thesis by blast
qed simp

theorem lock_many_granted_covers_witness:
  "covers (ls_locks demo_set1) \<lparr>req_resource = demo_key 5, req_mode = X\<rparr> \<and>
   held demo_hash demo_m1 1 demo_table = Some (demo_holds 1 IX)"
proof -
  have req: "merged_mode (demo_write [5, 6]) (demo_key 5) = Some X"
    by (simp add: merged_mode_def demo_eval)
  have lock: "demo_lock demo_table IX Coarse \<in> set (ls_locks demo_set1)" by (simp add: demo_set1_def)
  have none: "held demo_hash demo_m0 1 demo_table = None"
    by (simp add: held_def lm_state_def lm_shard_for_def demo_eval)
  note granted = lock_many_granted_covers [OF demo_settled0 demo_bound(1) demo_acquire1]
  from granted [of "demo_key 5" X "demo_lock demo_table IX Coarse"] req lock none show ?thesis
    by (simp add: demo_lock_def grant_view_def demo_holds_def)
qed

text \<open>\<^bold>\<open>C5.\<close> No lock is left behind.  Whatever lock sets were acquired and upgraded, and in whatever order
  transactions released theirs, when every lock set has been released no resource has a holder and the
  counter of active coarse locks is zero again; before that, a transaction holds a resource as often as its
  outstanding lock sets name it.\<close>

theorem lock_system_quiescent:
  assumes "system_reachable h s"
  shows "held_refs h (sys_manager s) t r = length (filter (\<lambda>ls. locks_on ls t r) (sys_sets s)) \<and>
    (sys_sets s = [] \<longrightarrow> lm_state h (sys_manager s) r = [] \<and> lm_coarse_active_count (sys_manager s) = 0)"
proof -
  let ?m = "sys_manager s"
  from system_reachable_ok [OF assms] have wf: "wf_manager h ?m"
    and refs: "\<And>t r. held_refs h ?m t r = length (filter (\<lambda>ls. locks_on ls t r) (sys_sets s))"
    by (auto simp: system_ok_def)
  have empty: "lm_state h ?m r = []" if "sys_sets s = []" for r
  proof (cases "lm_state h ?m r")
    case (Cons a st)
    have "held h ?m (lh_txn_id a) r = None" by (rule held_refs_zero [OF wf]) (simp add: refs that)
    with Cons show ?thesis by (simp add: held_def)
  qed simp
  have "lm_coarse ?m = []" if "sys_sets s = []"
  proof (rule ccontr)
    assume "lm_coarse ?m \<noteq> []"
    then obtain r st where "(r, st) \<in> set (lm_coarse ?m)" by (cases "lm_coarse ?m") auto
    then have "r \<in> set (keys_of (lm_coarse ?m))" by force
    with wf have "is_coarse_resource r" "state_of (lm_coarse ?m) r \<noteq> []"
      using state_of_nonempty_iff [of "lm_coarse ?m" r] by (auto simp: wf_manager_def)
    with empty [OF that, of r] show False by (simp add: lm_state_def lm_shard_for_def)
  qed
  with wf empty refs show ?thesis by (simp add: wf_manager_def granted_count_def)
qed

lemma demo_reachable_released:
  "system_reachable demo_hash
     \<lparr>sys_manager = fst (release_inner (fst (release_inner demo_m3 demo_set1)) demo_set3), sys_sets = []\<rparr>"
proof (rule step [OF orderly_system_reachable [OF demo_orderly4]])
  let ?m = "fst (release_inner demo_m3 demo_set1)"
  obtain m' released where "release_inner ?m demo_set3 = (m', released)" by fastforce
  with release [of "\<lparr>sys_manager = ?m, sys_sets = [demo_set3]\<rparr>" "[]" demo_set3 "[]" m' released demo_hash]
  show "system_step demo_hash \<lparr>sys_manager = ?m, sys_sets = [demo_set3]\<rparr> (Released demo_set3)
      \<lparr>sys_manager = fst (release_inner ?m demo_set3), sys_sets = []\<rparr>"
    by simp
qed

theorem lock_system_quiescent_witness:
  "lm_state demo_hash (fst (release_inner (fst (release_inner demo_m3 demo_set1)) demo_set3)) demo_table = []"
  using lock_system_quiescent [OF demo_reachable_released, of 1 demo_table] by simp

end
