(* ===== verification/Txn_Locks.thy ===== *)
theory Txn_Locks
  imports Lock_Protocol
begin

text \<open>
  The lock methods of a storage transaction (\<open>storage/src/transaction/txn.rs\<close>): acquiring and keeping
  lock sets, savepoints, rolling back and releasing.  It is a client of the lock manager, by way of the
  facts that the locale \<open>lock_set_service\<close> gives it.
\<close>

section \<open>The lock state of a storage transaction\<close>

text \<open>The fields of \<open>StorageTransaction\<close> its lock methods use.  A poisoned mutex is not modelled.\<close>

record storage_txn_locks =
  tl_txn_id :: txn_id
  tl_lock_namespace :: lock_namespace
  tl_pending_lock_sets :: "txn_lock_set list"

definition hold_lock_set :: "storage_txn_locks \<Rightarrow> txn_lock_set \<Rightarrow> storage_txn_locks" where
  "hold_lock_set tx ls = tx\<lparr>tl_pending_lock_sets := tl_pending_lock_sets tx @ [ls]\<rparr>"

definition hold_lock_sets :: "storage_txn_locks \<Rightarrow> txn_lock_set option list \<Rightarrow> storage_txn_locks" where
  "hold_lock_sets tx sets =
     tx\<lparr>tl_pending_lock_sets := tl_pending_lock_sets tx @ List.map_filter id sets\<rparr>"

definition acquire_lock_requests ::
  "(lock_resource \<Rightarrow> u64) \<Rightarrow> lock_manager \<Rightarrow> storage_txn_locks \<Rightarrow> lock_request list
     \<Rightarrow> lock_manager \<times> storage_txn_locks \<times> (lock_acquire_error + unit)" where
  "acquire_lock_requests h m tx reqs =
     (case lock_many h m (tl_txn_id tx) reqs of
        (m', Inl err) \<Rightarrow> (m', tx, Inl err)
      | (m', Inr ls) \<Rightarrow> (m', hold_lock_set tx ls, Inr ()))"

definition held_lock_count :: "storage_txn_locks \<Rightarrow> nat" where
  "held_lock_count tx = sum_list (map (\<lambda>ls. length (ls_locks ls)) (tl_pending_lock_sets tx))"

definition table_resource :: "storage_txn_locks \<Rightarrow> tbl_id \<Rightarrow> lock_resource" where
  "table_resource tx t = LR_Table (tl_lock_namespace tx) t"

definition has_table_write_intent :: "storage_txn_locks \<Rightarrow> tbl_id \<Rightarrow> bool" where
  "has_table_write_intent tx t \<longleftrightarrow>
     list_ex (\<lambda>ls. case ls_mode_for ls (table_resource tx t) of
                     None \<Rightarrow> False
                   | Some md \<Rightarrow> md = IX \<or> md = X \<or> md = SchemaModification)
       (tl_pending_lock_sets tx)"

definition acquire_table_write_intent_lock ::
  "(lock_resource \<Rightarrow> u64) \<Rightarrow> lock_manager \<Rightarrow> storage_txn_locks \<Rightarrow> tbl_id
     \<Rightarrow> lock_manager \<times> (lock_acquire_error + txn_lock_set option)" where
  "acquire_table_write_intent_lock h m tx t =
     (if has_table_write_intent tx t then (m, Inr None)
      else (case lock_many h m (tl_txn_id tx) [\<lparr>req_resource = table_resource tx t, req_mode = IX\<rparr>] of
              (m', Inl err) \<Rightarrow> (m', Inl err)
            | (m', Inr ls) \<Rightarrow> (m', Inr (Some ls))))"

text \<open>Dropping a \<open>Vec<TxnLockSet>\<close> drops its elements from the first to the last.\<close>

fun drop_lock_sets :: "lock_manager \<Rightarrow> txn_lock_set list \<Rightarrow> lock_manager" where
  "drop_lock_sets m [] = m"
| "drop_lock_sets m (ls # rest) = drop_lock_sets (fst (release_inner m ls)) rest"

definition mark_savepoint :: "storage_txn_locks \<Rightarrow> nat" where
  "mark_savepoint tx = length (tl_pending_lock_sets tx)"

definition rollback_to_savepoint ::
  "lock_manager \<Rightarrow> storage_txn_locks \<Rightarrow> nat \<Rightarrow> lock_manager \<times> storage_txn_locks" where
  "rollback_to_savepoint m tx mark =
     (let lock_tail = (if length (tl_pending_lock_sets tx) \<le> mark then []
                       else drop mark (tl_pending_lock_sets tx));
          kept = (if length (tl_pending_lock_sets tx) \<le> mark then tl_pending_lock_sets tx
                  else take mark (tl_pending_lock_sets tx))
      in (drop_lock_sets m lock_tail, tx\<lparr>tl_pending_lock_sets := kept\<rparr>))"

definition release_transaction_locks ::
  "lock_manager \<Rightarrow> storage_txn_locks \<Rightarrow> lock_manager \<times> storage_txn_locks" where
  "release_transaction_locks m tx =
     (drop_lock_sets m (tl_pending_lock_sets tx), tx\<lparr>tl_pending_lock_sets := []\<rparr>)"

section \<open>Dropping lock sets\<close>

lemma drop_lock_sets_fold: "drop_lock_sets m sets = fold (\<lambda>ls m. fst (release_inner m ls)) sets m"
  by (induction sets arbitrary: m) auto

lemma length_filter_rev_filter:
  "(\<And>x. P x \<Longrightarrow> Q x) \<Longrightarrow> length (filter P (rev (filter Q xs))) = length (filter P xs)"
  by (induction xs) auto

lemma drop_lock_sets_refs:
  assumes "wf_manager h m" "\<forall>ls \<in> set sets. releasable_in h m ls"
  shows "held_refs h (drop_lock_sets m sets) t r = held_refs h m t r - length (filter (\<lambda>ls. locks_on ls t r) sets)"
    and "wf_manager h (drop_lock_sets m sets)"
    and "\<forall>ls \<in> set sets. ls_txn_id ls \<noteq> t \<Longrightarrow> held h (drop_lock_sets m sets) t r = held h m t r"
proof -
  note drops = lock_manager_service.release_list [OF assms(2), of t r, folded drop_lock_sets_fold]
  show "held_refs h (drop_lock_sets m sets) t r = held_refs h m t r - length (filter (\<lambda>ls. locks_on ls t r) sets)"
    using drops by blast
  show "wf_manager h (drop_lock_sets m sets)"
  proof (cases sets)
    case (Cons ls rest)
    then show ?thesis using drops assms(2) by (auto simp: releasable_in_def)
  qed (simp add: assms(1))
  show "held h (drop_lock_sets m sets) t r = held h m t r" if "\<forall>ls \<in> set sets. ls_txn_id ls \<noteq> t"
    unfolding drop_lock_sets_fold using assms(2) that
    by (intro lock_manager_service.release_list_frame) (auto simp: locks_on_def)
qed

text \<open>The mode that dropping lock sets, first to last, leaves on a resource held by others besides.\<close>

definition restored_mode :: "txn_lock_set list \<Rightarrow> lock_resource \<Rightarrow> lock_mode \<Rightarrow> lock_mode" where
  "restored_mode sets r md =
     fold (\<lambda>ls md. case lock_on ls r of None \<Rightarrow> md
                   | Some lock \<Rightarrow> (case gl_previous_mode lock of None \<Rightarrow> md | Some p \<Rightarrow> p)) sets md"

lemma drop_lock_sets_held:
  assumes "\<forall>ls \<in> set sets. releasable_in h m ls \<and> ls_txn_id ls = t" "held h m t r = Some holder"
    "length (filter (\<lambda>ls. locks_on ls t r) sets) < lh_ref_count holder"
  shows "held h (drop_lock_sets m sets) t r =
    Some (holder\<lparr>lh_mode := restored_mode sets r (lh_mode holder),
                 lh_ref_count := lh_ref_count holder - length (filter (\<lambda>ls. locks_on ls t r) sets)\<rparr>)"
  using assms
proof (induction sets arbitrary: m holder)
  case (Cons ls sets)
  let ?m = "fst (release_inner m ls)"
  have ls: "releasable_in h m ls" "ls_txn_id ls = t" using Cons.prems(1) by auto
  have rest: "\<forall>ls \<in> set sets. releasable_in h ?m ls \<and> ls_txn_id ls = t"
    using Cons.prems(1) lock_manager_service.release_keeps [OF ls(1)] by auto
  note view = release_inner_held [OF ls(1), of t r]
  show ?case
  proof (cases "lock_on ls r")
    case None
    then show ?thesis using Cons.IH [OF rest, of holder] view Cons.prems(2,3) ls(2) by (simp add: locks_on_def restored_mode_def)
  next
    case (Some lock)
    let ?new = "holder\<lparr>lh_ref_count := lh_ref_count holder - 1,
        lh_mode := (case gl_previous_mode lock of Some md \<Rightarrow> md | None \<Rightarrow> lh_mode holder)\<rparr>"
    have on: "locks_on ls t r" using Some ls(2) by (simp add: locks_on_def)
    have "held h ?m t r = Some ?new" using view Some ls(2) Cons.prems(2,3) on by (simp add: release_view_def)
    from Cons.IH [OF rest this] Cons.prems(3) on show ?thesis
      by (simp add: restored_mode_def Some split: option.split)
  qed
qed (simp add: restored_mode_def)

lemma restored_mode_simps:
  "restored_mode [] r md = md"
  "restored_mode (ls # sets) r md =
     restored_mode sets r (case lock_on ls r of None \<Rightarrow> md
                           | Some lock \<Rightarrow> (case gl_previous_mode lock of None \<Rightarrow> md | Some p \<Rightarrow> p))"
  by (simp_all add: restored_mode_def)

lemma restored_mode_none:
  "filter (\<lambda>ls. locks_on ls t r) sets = [] \<Longrightarrow> \<forall>ls \<in> set sets. ls_txn_id ls = t \<Longrightarrow> restored_mode sets r md = md"
  by (induction sets) (auto simp: restored_mode_simps locks_on_def split: if_splits)

text \<open>It does not depend on the mode held before if a dropped lock set names the resource.\<close>

lemma restored_mode_any:
  assumes "\<forall>ls \<in> set sets. \<forall>lock. lock_on ls r = Some lock \<longrightarrow> gl_previous_mode lock \<noteq> None"
    "filter (\<lambda>ls. locks_on ls t r) sets \<noteq> []"
  shows "restored_mode sets r a = restored_mode sets r b"
  using assms
proof (induction sets arbitrary: a b)
  case (Cons ls sets)
  then show ?case by (cases "lock_on ls r") (auto simp: restored_mode_simps locks_on_def)
qed simp

lemma restored_mode_single:
  assumes "filter (\<lambda>ls. locks_on ls t r) sets = [ls]" "\<forall>ls \<in> set sets. ls_txn_id ls = t"
    "\<forall>lock. lock_on ls r = Some lock \<longrightarrow> gl_previous_mode lock = Some md"
  shows "restored_mode sets r md = md"
  using assms
proof (induction sets)
  case (Cons x sets)
  show ?case
  proof (cases "locks_on x t r")
    case True
    with Cons.prems have "x = ls" "filter (\<lambda>ls. locks_on ls t r) sets = []" by auto
    moreover obtain lock where "lock_on x r = Some lock" using True by (auto simp: locks_on_def)
    ultimately show ?thesis using Cons.prems(2,3) restored_mode_none [of t r sets] by (simp add: restored_mode_simps)
  next
    case False
    with Cons show ?thesis by (auto simp: restored_mode_simps locks_on_def)
  qed
qed simp

lemma fold_hold_lock_set:
  "fold (\<lambda>ls tx. hold_lock_set tx ls) new tx = tx\<lparr>tl_pending_lock_sets := tl_pending_lock_sets tx @ new\<rparr>"
  by (induction new arbitrary: tx) (simp_all add: hold_lock_set_def)

lemma held_txn: "held h m t r = Some holder \<Longrightarrow> lh_txn_id holder = t"
  by (auto simp: held_def held_in_def find_Some_iff)

section \<open>Savepoints in a run\<close>

fun event_txn :: "lock_event \<Rightarrow> txn_id" where
  "event_txn (Acquired ls) = ls_txn_id ls"
| "event_txn (Refused t) = t"
| "event_txn (Released ls) = ls_txn_id ls"

text \<open>What has happened since a transaction set a savepoint: it acquired the listed lock sets, first to last, and was
  refused others, while the other transactions did whatever they did.\<close>

inductive since_savepoint ::
  "(lock_resource \<Rightarrow> u64) \<Rightarrow> txn_id \<Rightarrow> lock_system \<Rightarrow> lock_system \<Rightarrow> txn_lock_set list \<Rightarrow> bool"
  for h t s0 where
  marked: "since_savepoint h t s0 s0 []"
| own: "since_savepoint h t s0 s new \<Longrightarrow> system_step h s (Acquired ls) s' \<Longrightarrow> ls_txn_id ls = t \<Longrightarrow>
    since_savepoint h t s0 s' (new @ [ls])"
| other: "since_savepoint h t s0 s new \<Longrightarrow> system_step h s ev s' \<Longrightarrow> event_txn ev \<noteq> t \<or> ev = Refused t \<Longrightarrow>
    since_savepoint h t s0 s' new"

lemma other_step_held:
  assumes "system_ok h s" "system_step h s ev s'" "event_txn ev \<noteq> t \<or> ev = Refused t"
  shows "held h (sys_manager s') t r = held h (sys_manager s) t r"
    and "{ls \<in> set (sys_sets s). ls_txn_id ls = t} \<subseteq> set (sys_sets s')"
proof -
  have wf: "wf_manager h (sys_manager s)" using assms(1) by (simp add: system_ok_def)
  from wf assms(2) have "held h (sys_manager s') t r = held h (sys_manager s) t r \<and>
    {ls \<in> set (sys_sets s). ls_txn_id ls = t} \<subseteq> set (sys_sets s')"
  proof (cases rule: system_step_cases)
    case (granted u m' ls)
    then show ?thesis using assms(3) tracks_held [OF granted(4) refl, of t r] by auto
  next
    case (refused u m')
    then show ?thesis by (simp add: held_def)
  next
    case (released later ls earlier m' released)
    have "releasable_in h (sys_manager s) ls" using assms(1) released(3) by (simp add: system_ok_def)
    from release_inner_held [OF this, of t r] released assms(3) show ?thesis by auto
  qed
  then show "held h (sys_manager s') t r = held h (sys_manager s) t r"
    "{ls \<in> set (sys_sets s). ls_txn_id ls = t} \<subseteq> set (sys_sets s')" by auto
qed

text \<open>The facts about the lock sets acquired since.\<close>

definition acquired_since ::
  "(lock_resource \<Rightarrow> u64) \<Rightarrow> txn_id \<Rightarrow> lock_resource \<Rightarrow> lock_system \<Rightarrow> lock_system \<Rightarrow> txn_lock_set list \<Rightarrow> bool" where
  "acquired_since h t r s0 s new \<longleftrightarrow>
     system_ok h s \<and> set new \<subseteq> {ls \<in> set (sys_sets s). ls_txn_id ls = t} \<and>
     held_refs h (sys_manager s) t r = held_refs h (sys_manager s0) t r + length (filter (\<lambda>ls. locks_on ls t r) new) \<and>
     (held h (sys_manager s0) t r \<noteq> None \<longrightarrow>
        (\<forall>ls \<in> set new. \<forall>lock. lock_on ls r = Some lock \<longrightarrow> gl_previous_mode lock \<noteq> None)) \<and>
     (filter (\<lambda>ls. locks_on ls t r) new = [] \<longrightarrow> held h (sys_manager s) t r = held h (sys_manager s0) t r) \<and>
     (\<forall>ls lock. filter (\<lambda>ls. locks_on ls t r) new = [ls] \<longrightarrow> lock_on ls r = Some lock \<longrightarrow>
        gl_previous_mode lock = map_option lh_mode (held h (sys_manager s0) t r))"

lemma acquired_since_own:
  assumes since: "acquired_since h t r s0 s new" and ok0: "system_ok h s0"
    and step: "system_step h s (Acquired ls) s'" and t: "ls_txn_id ls = t"
  shows "acquired_since h t r s0 s' (new @ [ls])"
proof -
  have ok: "system_ok h s" using since by (simp add: acquired_since_def)
  have wf: "wf_manager h (sys_manager s)" "wf_manager h (sys_manager s0)" using ok ok0 by (simp_all add: system_ok_def)
  have ok': "system_ok h s'" by (rule system_ok_step [OF ok step])
  obtain m' where s': "s' = \<lparr>sys_manager = m', sys_sets = ls # sys_sets s\<rparr>" and tr: "tracks h t (sys_manager s) m' (ls_locks ls)"
    by (cases rule: system_step_cases [OF wf(1) step]) (use t in auto)
  have refs: "held_refs h m' t r = held_refs h (sys_manager s) t r + (if locks_on ls t r then 1 else 0)"
    using ok ok' by (simp add: system_ok_def s')
  have dist: "distinct (map gl_resource (ls_locks ls))" using tr by (simp add: tracks_def)
  have prev: "gl_previous_mode lock = map_option lh_mode (held h (sys_manager s) t r)" if "lock_on ls r = Some lock" for lock
    using tracks_previous [OF tr] that lock_on_Some [OF dist] by auto
  have "held h (sys_manager s) t r \<noteq> None" if "held h (sys_manager s0) t r \<noteq> None"
    using that since held_refs_positive [OF wf(1), of t r] held_refs_positive [OF wf(2), of t r]
    by (auto simp: acquired_since_def)
  with since prev have some: "held h (sys_manager s0) t r \<noteq> None \<longrightarrow>
      (\<forall>x \<in> set (new @ [ls]). \<forall>lock. lock_on x r = Some lock \<longrightarrow> gl_previous_mode lock \<noteq> None)"
    by (auto simp: acquired_since_def)
  have none: "held h m' t r = held h (sys_manager s) t r" if "\<not> locks_on ls t r"
    using tracks_held [OF tr refl, of t r] that t by (auto simp: locks_on_def)
  have single: "gl_previous_mode lock = map_option lh_mode (held h (sys_manager s0) t r)"
    if "filter (\<lambda>ls. locks_on ls t r) (new @ [ls]) = [x]" "lock_on x r = Some lock" for x lock
    using that since prev by (auto simp: acquired_since_def split: if_splits)
  show ?thesis
    using since ok' refs some none single t unfolding acquired_since_def s' by auto
qed

lemma since_savepoint_acquired:
  assumes "system_ok h s0" "since_savepoint h t s0 s new"
  shows "acquired_since h t r s0 s new"
  using assms(2)
proof (induction rule: since_savepoint.induct)
  case marked
  show ?case using assms(1) by (simp add: acquired_since_def)
next
  case (own s new ls s')
  then show ?case using acquired_since_own [OF _ assms(1)] by blast
next
  case (other s new ev s')
  then have ok: "system_ok h s" by (simp add: acquired_since_def)
  note same = other_step_held [OF ok other(2,3)]
  from other(4) system_ok_step [OF ok other(2)] same(2) show ?case
    by (auto simp: acquired_since_def same(1) [of r] held_refs_def)
qed

section \<open>A lock manager with one table in use\<close>

definition only_table :: "lock_manager \<Rightarrow> nat \<Rightarrow> lock_resource \<Rightarrow> lock_state \<Rightarrow> bool" where
  "only_table m n r st \<longleftrightarrow>
     0 < n \<and> lm_shards m = replicate n [] \<and> lm_coarse m = (if st = [] then [] else [(r, st)])"

definition table_lock :: "lock_resource \<Rightarrow> lock_mode \<Rightarrow> lock_mode option \<Rightarrow> granted_lock" where
  "table_lock r md prev = \<lparr>gl_resource = r, gl_mode = md, gl_location = Coarse, gl_previous_mode = prev\<rparr>"

lemma only_table_new: "lock_manager_new n policy = Some m \<Longrightarrow> only_table m n r []"
  by (auto simp: lock_manager_new_def only_table_def split: if_splits)

lemma only_table_state:
  assumes "only_table m n (LR_Table ns tbl) st"
  shows "lm_state h m r' = (if r' = LR_Table ns tbl then st else [])"
proof -
  have "lm_shard_index h m r' < n" using assms by (simp add: only_table_def lm_shard_index_def)
  then show ?thesis using assms by (auto simp: only_table_def lm_state_def lm_shard_for_def state_of_def)
qed

lemma lock_many_fine_empty: "lock_many_fine t (enumerate k (replicate n [])) m granted = (m, granted, None)"
  by (induction n arbitrary: k) auto

lemma lock_many_table:
  assumes "only_table m n (LR_Table ns tbl) st" and req_def: "req = \<lparr>req_resource = LR_Table ns tbl, req_mode = md\<rparr>"
  shows "lock_many h m t [req] =
    (case try_grant_coarse m t req of
       (m1, Inr locks) \<Rightarrow> (m1, Inr \<lparr>ls_txn_id = t, ls_locks = locks, ls_released = False\<rparr>)
     | (m1, Inl err) \<Rightarrow> (record_acquire_error m1 err, Inl err))"
proof -
  have "lock_many_fine t (enumerate 0 (replicate (length (lm_shards m)) [])) m1 granted = (m1, granted, None)" for m1 granted
    by (rule lock_many_fine_empty)
  moreover have "try_escalate h t m1 locks = (m1, locks, None)" if "try_grant_coarse m t req = (m1, Inr locks)" for m1 locks
    using that by (auto simp: try_grant_coarse_def req_def try_escalate_def Let_def split: if_splits prod.splits)
  ultimately show ?thesis
    by (simp add: lock_many_def normalize_requests_def req_def release_locks_def Let_def split: prod.split sum.split)
qed

lemma table_blockers:
  assumes "only_table m n (LR_Table ns tbl) st" and req_def: "req = \<lparr>req_resource = LR_Table ns tbl, req_mode = md\<rparr>"
  shows "shard_blockers (lm_coarse m) t req = [] \<longleftrightarrow>
    (\<forall>holder \<in> set st. lh_txn_id holder \<noteq> t \<longrightarrow> compatible_with (lh_mode holder) md)"
  using assms(1)
  by (auto simp: only_table_def req_def shard_blockers_def normalize_txn_ids_def filter_empty_conv
      lock_grants_conflict_def conflicts_with_def compatible_with_sym)

lemma grant_table:
  assumes "only_table m n (LR_Table ns tbl) st"
    "\<forall>holder \<in> set st. lh_txn_id holder \<noteq> t \<longrightarrow> compatible_with (lh_mode holder) md"
    "grant_holder st t md = (st', oc)"
  obtains m' where "lock_many h m t [\<lparr>req_resource = LR_Table ns tbl, req_mode = md\<rparr>] =
      (m', Inr \<lparr>ls_txn_id = t, ls_locks = [table_lock (LR_Table ns tbl) md (go_previous_mode oc)], ls_released = False\<rparr>)"
    "only_table m' n (LR_Table ns tbl) st'"
proof -
  let ?req = "\<lparr>req_resource = LR_Table ns tbl, req_mode = md\<rparr>"
  have st': "st' \<noteq> []" using assms(3) by (cases st) (auto split: if_splits prod.splits)
  have grant: "shard_grant (lm_coarse m) t ?req = ([(LR_Table ns tbl, st')], oc)"
    using assms(1,3) by (auto simp: only_table_def shard_grant_def state_of_def)
  have no: "shard_blockers (lm_coarse m) t ?req = []" using assms(2) table_blockers [OF assms(1) refl] by blast
  have fine: "fine_blockers (m\<lparr>lm_coarse := c, lm_coarse_active_count := k, lm_coarse_epoch := e\<rparr>) t ?req = []" for c k e
    using assms(1) by (auto simp: fine_blockers_Nil only_table_def shard_blockers_def normalize_txn_ids_def)
  let ?m' = "m\<lparr>lm_coarse := [(LR_Table ns tbl, st')],
      lm_coarse_active_count := (if go_inserted_holder oc then fetch_add (lm_coarse_active_count m) 1 else lm_coarse_active_count m),
      lm_coarse_epoch := lm_coarse_epoch m + 1\<rparr>"
  have "try_grant_coarse m t ?req = (?m', Inr [table_lock (LR_Table ns tbl) md (go_previous_mode oc)])"
    by (simp add: try_grant_coarse_def no grant fine table_lock_def Let_def)
  then have "lock_many h m t [?req] =
      (?m', Inr \<lparr>ls_txn_id = t, ls_locks = [table_lock (LR_Table ns tbl) md (go_previous_mode oc)], ls_released = False\<rparr>)"
    by (simp add: lock_many_table [OF assms(1) refl])
  moreover have "only_table ?m' n (LR_Table ns tbl) st'" using st' assms(1) by (simp add: only_table_def)
  ultimately show thesis by (rule that)
qed

lemma refuse_table:
  assumes "only_table m n (LR_Table ns tbl) st" "holder \<in> set st" "lh_txn_id holder \<noteq> t" "\<not> compatible_with (lh_mode holder) md"
  shows "isl (snd (lock_many h m t [\<lparr>req_resource = LR_Table ns tbl, req_mode = md\<rparr>]))"
proof -
  let ?req = "\<lparr>req_resource = LR_Table ns tbl, req_mode = md\<rparr>"
  have "shard_blockers (lm_coarse m) t ?req \<noteq> []" using assms(2-) table_blockers [OF assms(1) refl] by blast
  then show ?thesis by (simp add: lock_many_table [OF assms(1) refl] try_grant_coarse_def)
qed

lemma release_ref_not_Nil: "release_ref st t prev \<noteq> Some []"
  by (cases st) auto

lemma release_table:
  assumes "only_table m n (LR_Table ns tbl) st"
    "ls = \<lparr>ls_txn_id = t, ls_locks = [table_lock (LR_Table ns tbl) md prev], ls_released = False\<rparr>"
  shows "only_table (fst (release_inner m ls)) n (LR_Table ns tbl) (release_state st t prev)"
  using assms release_ref_not_Nil [of st t prev]
  by (auto simp: only_table_def release_inner_def release_locks_def release_lock_def table_lock_def release_coarse_lock_def
      shard_release_def release_state_def Let_def split: option.splits prod.splits)

lemma table_acquire:
  assumes "system_reachable h s" "only_table (sys_manager s) n (LR_Table ns tbl) st" "unsaturated st" "length st < 4"
    "\<forall>holder \<in> set st. lh_txn_id holder \<noteq> t \<longrightarrow> compatible_with (lh_mode holder) md"
    "grant_holder st t md = (st', oc)"
    "ls = \<lparr>ls_txn_id = t, ls_locks = [table_lock (LR_Table ns tbl) md (go_previous_mode oc)], ls_released = False\<rparr>"
  obtains m' where "lock_many h (sys_manager s) t [\<lparr>req_resource = LR_Table ns tbl, req_mode = md\<rparr>] = (m', Inr ls)"
    "only_table m' n (LR_Table ns tbl) st'" "system_reachable h \<lparr>sys_manager = m', sys_sets = ls # sys_sets s\<rparr>"
proof -
  obtain m' where m': "lock_many h (sys_manager s) t [\<lparr>req_resource = LR_Table ns tbl, req_mode = md\<rparr>] = (m', Inr ls)"
    "only_table m' n (LR_Table ns tbl) st'"
    using grant_table [OF assms(2,5,6)] assms(7) by metis
  have "\<forall>r. unsaturated (lm_state h (sys_manager s) r)"
    using assms(3) only_table_state [OF assms(2)] by (simp add: unsaturated_def)
  moreover have "granted_count (lm_coarse (sys_manager s)) + length [\<lparr>req_resource = LR_Table ns tbl, req_mode = md\<rparr>] < usize_modulus"
    using assms(2,4) by (auto simp: only_table_def granted_count_def usize_modulus_def)
  ultimately have "system_step h s (Acquired ls) \<lparr>sys_manager = m', sys_sets = ls # sys_sets s\<rparr>"
    using m'(1) by (rule acquire)
  from step [OF assms(1) this] m' that show thesis by blast
qed

lemma table_release:
  assumes "system_reachable h s" "sys_sets s = later @ ls # earlier"
  shows "system_reachable h \<lparr>sys_manager = fst (release_inner (sys_manager s) ls), sys_sets = later @ earlier\<rparr>"
  using step [OF assms(1) release [OF assms(2)]] by (metis prod.collapse)

section \<open>Properties\<close>

text \<open>\<^bold>\<open>C6.\<close> Ending a transaction releases all it holds and nothing else.  In every state of the lock system, whatever was
  acquired, upgraded and rolled back before and in whatever order, dropping the pending lock sets in the
  order they were acquired leaves the transaction without a lock on any resource, and every other
  transaction with what it held.\<close>

theorem release_transaction_locks_complete:
  assumes "system_reachable h s"
    "tl_pending_lock_sets tx = rev (filter (\<lambda>ls. ls_txn_id ls = tl_txn_id tx) (sys_sets s))"
    "release_transaction_locks (sys_manager s) tx = (m', tx')"
  shows "held h m' (tl_txn_id tx) r = None \<and> tl_pending_lock_sets tx' = [] \<and>
    (\<forall>t. t \<noteq> tl_txn_id tx \<longrightarrow> held h m' t r = held h (sys_manager s) t r)"
proof -
  let ?m = "sys_manager s" and ?t = "tl_txn_id tx"
  let ?sets = "tl_pending_lock_sets tx"
  from system_reachable_ok [OF assms(1)] have wf: "wf_manager h ?m" and rel: "\<forall>ls \<in> set ?sets. releasable_in h ?m ls"
    and refs: "held_refs h ?m ?t r = length (filter (\<lambda>ls. locks_on ls ?t r) (sys_sets s))"
    by (auto simp: system_ok_def assms(2))
  have m': "m' = drop_lock_sets ?m ?sets" "tl_pending_lock_sets tx' = []"
    using assms(3) by (auto simp: release_transaction_locks_def)
  note drops = drop_lock_sets_refs [OF wf rel, folded m'(1)]
  have "length (filter (\<lambda>ls. locks_on ls ?t r) ?sets) = length (filter (\<lambda>ls. locks_on ls ?t r) (sys_sets s))"
    unfolding assms(2) by (rule length_filter_rev_filter) (simp add: locks_on_def)
  then have "held h m' ?t r = None"
    using drops(1) refs by (intro held_refs_zero [OF drops(2)]) simp
  moreover have "held h m' t r = held h ?m t r" if "t \<noteq> ?t" for t
    by (rule drops(3)) (use that in \<open>auto simp: assms(2)\<close>)
  ultimately show ?thesis using m' by blast
qed

text \<open>Dropping the lock sets acquired since a savepoint, oldest first.\<close>

lemma drop_since_savepoint:
  assumes ok0: "system_ok h s0" and run: "since_savepoint h t s0 s new"
  shows "held h (drop_lock_sets (sys_manager s) new) t r =
    map_option (\<lambda>holder. holder\<lparr>lh_mode := restored_mode new r (lh_mode holder)\<rparr>) (held h (sys_manager s0) t r)"
proof -
  let ?on = "filter (\<lambda>ls. locks_on ls t r) new"
  note since = since_savepoint_acquired [OF ok0 run, of r]
  then have ok: "system_ok h s" and new: "\<forall>ls \<in> set new. releasable_in h (sys_manager s) ls \<and> ls_txn_id ls = t"
    and refs: "held_refs h (sys_manager s) t r = held_refs h (sys_manager s0) t r + length ?on"
    by (auto simp: acquired_since_def system_ok_def)
  have wf: "wf_manager h (sys_manager s)" "wf_manager h (sys_manager s0)" using ok ok0 by (simp_all add: system_ok_def)
  have rel: "\<forall>ls \<in> set new. releasable_in h (sys_manager s) ls" using new by blast
  note drops = drop_lock_sets_refs [OF wf(1) rel]
  show ?thesis
  proof (cases "held h (sys_manager s0) t r")
    case None
    then have "held h (drop_lock_sets (sys_manager s) new) t r = None"
      using drops(1) refs by (intro held_refs_zero [OF drops(2)]) (simp add: held_refs_def)
    with None show ?thesis by simp
  next
    case (Some holder0)
    then have pos: "0 < lh_ref_count holder0" using held_refs_positive [OF wf(2), of t r] by (simp add: held_refs_def)
    then obtain holder where now: "held h (sys_manager s) t r = Some holder"
      using refs Some held_refs_positive [OF wf(1), of t r] by (auto simp: held_refs_def)
    have cnt: "lh_ref_count holder = lh_ref_count holder0 + length ?on" using refs Some now by (simp add: held_refs_def)
    have txn: "lh_txn_id holder = lh_txn_id holder0"
      using held_txn [OF now] held_txn [OF Some] by simp
    have "restored_mode new r (lh_mode holder) = restored_mode new r (lh_mode holder0)"
    proof (cases "?on = []")
      case True
      then have "holder = holder0" using since Some now by (simp add: acquired_since_def)
      then show ?thesis by simp
    next
      case False
      with since Some show ?thesis by (intro restored_mode_any [of new r t]) (auto simp: acquired_since_def)
    qed
    moreover have "held h (drop_lock_sets (sys_manager s) new) t r = Some (holder\<lparr>lh_mode := restored_mode new r (lh_mode holder),
        lh_ref_count := lh_ref_count holder - length ?on\<rparr>)"
      using cnt pos by (intro drop_lock_sets_held [OF new now]) simp
    ultimately show ?thesis using cnt txn Some by simp
  qed
qed


abbreviation demo_tx :: "txn_lock_set list \<Rightarrow> storage_txn_locks" where
  "demo_tx sets \<equiv> \<lparr>tl_txn_id = 1, tl_lock_namespace = single_tenant 7, tl_pending_lock_sets = sets\<rparr>"

theorem release_transaction_locks_complete_witness:
  "held demo_hash (fst (release_transaction_locks demo_m3 (demo_tx [demo_set1, demo_set3]))) 1 demo_table = None"
proof -
  let ?s = "\<lparr>sys_manager = demo_m3, sys_sets = [demo_set3, demo_set1]\<rparr>" and ?tx = "demo_tx [demo_set1, demo_set3]"
  have "tl_pending_lock_sets ?tx = rev (filter (\<lambda>ls. ls_txn_id ls = tl_txn_id ?tx) (sys_sets ?s))"
    by (simp add: demo_set1_def demo_set3_def)
  from release_transaction_locks_complete [OF orderly_system_reachable [OF demo_orderly3] this, of _ _ demo_table] show ?thesis
    by (metis lock_system.select_convs(1) prod.collapse storage_txn_locks.select_convs(1))
qed


text \<open>\<^bold>\<open>C8.\<close> Rolling back to a savepoint can break mutual exclusion.  On any lock manager, a transaction holds a table in mode
  \<open>IS\<close>, sets a savepoint, and takes the table in mode \<open>X\<close> and then in mode \<open>S\<close>.  Rolling back drops the two later
  lock sets oldest first: the first drop gives \<open>IS\<close> back, so that another transaction is granted \<open>IX\<close> on the
  table, and the second drop gives \<open>X\<close> back, which it had found.  From then on the two transactions hold the
  table in conflicting modes, although the lock sets that are left are compatible.\<close>

theorem rollback_breaks_exclusion:
  assumes "t1 \<noteq> t2" "lock_manager_new n policy = Some m0"
  shows "\<exists>m1 a b c m2 d.
    system_reachable h \<lparr>sys_manager = m1, sys_sets = [c, b, a]\<rparr> \<and>
    map (\<lambda>ls. (ls_txn_id ls, ls_mode_for ls (LR_Table ns tbl))) [a, b, c, d] =
      [(t1, Some IS), (t1, Some X), (t1, Some S), (t2, Some IX)] \<and>
    fst (rollback_to_savepoint m1 \<lparr>tl_txn_id = t1, tl_lock_namespace = ns, tl_pending_lock_sets = [a, b, c]\<rparr> 1) =
      fst (release_inner (fst (release_inner m1 b)) c) \<and>
    lock_many h (fst (release_inner m1 b)) t2 [\<lparr>req_resource = LR_Table ns tbl, req_mode = IX\<rparr>] = (m2, Inr d) \<and>
    system_reachable h \<lparr>sys_manager = fst (release_inner m2 c), sys_sets = [d, a]\<rparr> \<and>
    \<not> mutual_exclusion h (fst (release_inner m2 c))"
proof -
  let ?r = "LR_Table ns tbl"
  let ?ls = "\<lambda>t md prev. \<lparr>ls_txn_id = t, ls_locks = [table_lock ?r md prev], ls_released = False\<rparr>"
  let ?h = "\<lambda>t md k. \<lparr>lh_txn_id = t, lh_mode = md, lh_ref_count = k\<rparr>"
  let ?a = "?ls t1 IS None" and ?b = "?ls t1 X (Some IS)" and ?c = "?ls t1 S (Some X)" and ?d = "?ls t2 IX None"
  let ?oc = "\<lambda>inserted prev. \<lparr>go_inserted_holder = inserted, go_previous_mode = prev\<rparr>"
  note eval = unsaturated_def usize_max_def saturating_add_def strongest_def
  obtain ma where a: "only_table ma n ?r [?h t1 IS 1]" "system_reachable h \<lparr>sys_manager = ma, sys_sets = [?a]\<rparr>"
    by (rule table_acquire [OF start [OF assms(2)], of n ns tbl "[]" t1 IS "[?h t1 IS 1]" "?oc True None" ?a])
      (use only_table_new [OF assms(2)] in \<open>simp_all add: eval\<close>)
  obtain mb where b: "only_table mb n ?r [?h t1 X 2]" "system_reachable h \<lparr>sys_manager = mb, sys_sets = [?b, ?a]\<rparr>"
    by (rule table_acquire [OF a(2), of n ns tbl "[?h t1 IS 1]" t1 X "[?h t1 X 2]" "?oc False (Some IS)" ?b]) (use a(1) in \<open>simp_all add: eval\<close>)
  obtain mc where c: "only_table mc n ?r [?h t1 X 3]" "system_reachable h \<lparr>sys_manager = mc, sys_sets = [?c, ?b, ?a]\<rparr>"
    by (rule table_acquire [OF b(2), of n ns tbl "[?h t1 X 2]" t1 S "[?h t1 X 3]" "?oc False (Some X)" ?c]) (use b(1) in \<open>simp_all add: eval\<close>)
  let ?m = "fst (release_inner mc ?b)"
  have drop1: "only_table ?m n ?r [?h t1 IS 2]" "system_reachable h \<lparr>sys_manager = ?m, sys_sets = [?c, ?a]\<rparr>"
    using release_table [OF c(1) refl, of t1 X "Some IS"] table_release [OF c(2), of "[?c]" ?b "[?a]"]
    by (simp_all add: release_state_def)
  obtain md where d: "lock_many h ?m t2 [\<lparr>req_resource = ?r, req_mode = IX\<rparr>] = (md, Inr ?d)"
    "only_table md n ?r [?h t1 IS 2, ?h t2 IX 1]" "system_reachable h \<lparr>sys_manager = md, sys_sets = [?d, ?c, ?a]\<rparr>"
    by (rule table_acquire [OF drop1(2), of n ns tbl "[?h t1 IS 2]" t2 IX "[?h t1 IS 2, ?h t2 IX 1]" "?oc True None" ?d])
      (use drop1(1) assms(1) in \<open>simp_all add: eval compatible_with_def\<close>)
  let ?m' = "fst (release_inner md ?c)"
  have drop2: "only_table ?m' n ?r [?h t1 X 1, ?h t2 IX 1]" "system_reachable h \<lparr>sys_manager = ?m', sys_sets = [?d, ?a]\<rparr>"
    using release_table [OF d(2) refl, of t1 S "Some X"] table_release [OF d(3), of "[?d]" ?c "[?a]"] assms(1)
    by (simp_all add: release_state_def)
  have "\<not> mutual_exclusion h ?m'"
  proof
    assume "mutual_exclusion h ?m'"
    then have "?h t1 X 1 \<in> set (lm_state h ?m' ?r) \<longrightarrow> ?h t2 IX 1 \<in> set (lm_state h ?m' ?r) \<longrightarrow>
        lh_txn_id (?h t1 X 1) \<noteq> lh_txn_id (?h t2 IX 1) \<longrightarrow>
        \<not> lock_grants_conflict ?r (lh_mode (?h t1 X 1)) ?r (lh_mode (?h t2 IX 1))"
      unfolding mutual_exclusion_def by blast
    moreover have "lm_state h ?m' ?r = [?h t1 X 1, ?h t2 IX 1]" using only_table_state [OF drop2(1)] by simp
    ultimately show False
      using assms(1) by (simp add: lock_grants_conflict_def conflicts_with_def compatible_with_def)
  qed
  then show ?thesis
    using c(2) d(1) drop2(2)
    by (intro exI [of _ mc] exI [of _ ?a] exI [of _ ?b] exI [of _ ?c] exI [of _ md] exI [of _ ?d])
      (simp add: ls_mode_for_def table_lock_def rollback_to_savepoint_def)
qed

theorem rollback_breaks_exclusion_witness:
  "\<exists>m s. system_reachable demo_hash \<lparr>sys_manager = m, sys_sets = s\<rparr> \<and> length s = 2 \<and> \<not> mutual_exclusion demo_hash m"
proof -
  have "(1 :: txn_id) \<noteq> 2" by simp
  from rollback_breaks_exclusion [OF this demo_new, of demo_hash] show ?thesis by fastforce
qed

end
