(* ===== verification/Lock_Queries.thy ===== *)
theory Lock_Queries
  imports Txn_Locks
begin

text \<open>
  Properties of the lock manager's pure parts and queries: overlap of hash ranges, combination of
  lock modes on upgrades, wound-wait classification of blockers, and the conflict query.
\<close>

section \<open>Ranges\<close>

text \<open>\<^bold>\<open>C11.\<close> The overlap test on hash ranges, which only looks at end points, is exact, wrapped ranges
  included: two ranges overlap iff some hash lies in both.\<close>

theorem ranges_overlap_iff:
  "ranges_overlap ls le rs re \<longleftrightarrow> (\<exists>k. hash_in_range k ls le \<and> hash_in_range k rs re)"
  by (metis ranges_overlapE ranges_overlapI)

section \<open>Upgrades\<close>

text \<open>When a transaction that holds a mode is granted another one on the same resource, the
  combined mode conflicts with everything either of them conflicts with, except for the eight
  combinations listed: there is no mode for shared access together with write intent, and schema
  stability counts as strong as shared.\<close>

lemma strongest_covers_iff:
  "mode_covers (strongest old new) old \<and> mode_covers (strongest old new) new \<longleftrightarrow>
     (old, new) \<notin> {(IX, S), (IX, RangeS), (IX, SchemaStability), (S, IX), (RangeS, IX),
        (SchemaStability, IX), (SchemaStability, S), (SchemaStability, RangeS)}"
  by (cases old; cases new)
    (simp_all add: mode_covers_def blocks_at_least_def compatible_with_def strongest_def all_lock_modes_def)

lemma table_granted:
  assumes "only_table m n (LR_Table ns tbl) st"
    "\<forall>holder \<in> set st. lh_txn_id holder \<noteq> t \<longrightarrow> compatible_with (lh_mode holder) md"
    "grant_holder st t md = (st', oc)"
  shows "\<exists>m' ls. lock_many h m t [\<lparr>req_resource = LR_Table ns tbl, req_mode = md\<rparr>] = (m', Inr ls) \<and>
    only_table m' n (LR_Table ns tbl) st'"
  by (rule grant_table [OF assms]) blast

text \<open>\<^bold>\<open>C12.\<close> What a transaction is protected against after an upgrade.  On a fresh manager a transaction takes a table
  in any mode \<open>a\<close> and then in any mode \<open>b\<close>; both calls grant their lock set.  Another transaction's request for the
  table in mode \<open>c\<close> is then granted iff \<open>c\<close> is compatible with the stronger one of \<open>a\<close> and \<open>b\<close>.  This admits a
  mode that is incompatible with one the first transaction was granted exactly when a shared mode is asked for beside
  a write intent that was combined with a shared or schema-stability mode, or a write intent beside a shared
  mode that was granted on top of schema stability.\<close>

theorem upgrade_protection_exact:
  assumes "t1 \<noteq> t2" "lock_manager_new n policy = Some m0"
  shows "\<exists>m1 ls1 m2 ls2.
    lock_many h m0 t1 [\<lparr>req_resource = LR_Table ns tbl, req_mode = a\<rparr>] = (m1, Inr ls1) \<and>
    lock_many h m1 t1 [\<lparr>req_resource = LR_Table ns tbl, req_mode = b\<rparr>] = (m2, Inr ls2) \<and>
    (\<forall>c. \<not> isl (snd (lock_many h m2 t2 [\<lparr>req_resource = LR_Table ns tbl, req_mode = c\<rparr>])) \<longleftrightarrow>
       compatible_with (strongest a b) c) \<and>
    (\<forall>c. (\<not> isl (snd (lock_many h m2 t2 [\<lparr>req_resource = LR_Table ns tbl, req_mode = c\<rparr>])) \<and>
         \<not> (compatible_with a c \<and> compatible_with b c)) \<longleftrightarrow>
       ((a = IX \<and> b \<in> {S, RangeS, SchemaStability} \<or> b = IX \<and> a \<in> {S, RangeS, SchemaStability}) \<and> c \<in> {S, RangeS}) \<or>
       (a = SchemaStability \<and> b \<in> {S, RangeS} \<and> c = IX))"
proof -
  let ?req = "\<lambda>md. \<lparr>req_resource = LR_Table ns tbl, req_mode = md\<rparr>"
  let ?st = "[\<lparr>lh_txn_id = t1, lh_mode = strongest a b, lh_ref_count = 2\<rparr>]"
  have "grant_holder [] t1 a = ([\<lparr>lh_txn_id = t1, lh_mode = a, lh_ref_count = 1\<rparr>], \<lparr>go_inserted_holder = True, go_previous_mode = None\<rparr>)"
    by simp
  from table_granted [OF only_table_new [OF assms(2)] _ this, of h ns tbl] obtain m1 ls1 where m1: "lock_many h m0 t1 [?req a] = (m1, Inr ls1)"
    "only_table m1 n (LR_Table ns tbl) [\<lparr>lh_txn_id = t1, lh_mode = a, lh_ref_count = 1\<rparr>]" by auto
  have "grant_holder [\<lparr>lh_txn_id = t1, lh_mode = a, lh_ref_count = 1\<rparr>] t1 b = (?st, \<lparr>go_inserted_holder = False, go_previous_mode = Some a\<rparr>)"
    by (simp add: saturating_add_def usize_max_def)
  from table_granted [OF m1(2) _ this, of h] obtain m2 ls2 where m2: "lock_many h m1 t1 [?req b] = (m2, Inr ls2)"
    "only_table m2 n (LR_Table ns tbl) ?st" by auto
  have granted: "\<not> isl (snd (lock_many h m2 t2 [?req c])) \<longleftrightarrow> compatible_with (strongest a b) c" for c
  proof (cases "compatible_with (strongest a b) c")
    case True
    obtain st' oc where "grant_holder ?st t2 c = (st', oc)" by fastforce
    from table_granted [OF m2(2) _ this, of h] True show ?thesis by auto
  next
    case False
    with refuse_table [OF m2(2), of "hd ?st" t2 c] assms(1) show ?thesis by simp
  qed
  have "(compatible_with (strongest a b) c \<and> \<not> (compatible_with a c \<and> compatible_with b c)) \<longleftrightarrow>
       ((a = IX \<and> b \<in> {S, RangeS, SchemaStability} \<or> b = IX \<and> a \<in> {S, RangeS, SchemaStability}) \<and> c \<in> {S, RangeS}) \<or>
       (a = SchemaStability \<and> b \<in> {S, RangeS} \<and> c = IX)" for c
    by (cases a; cases b; cases c) (simp_all add: compatible_with_def strongest_def)
  with granted m1(1) m2(1) show ?thesis by (intro exI conjI) (assumption | blast)+
qed

theorem upgrade_protection_exact_witness:
  "\<exists>m1 ls1 m2 ls2.
    lock_many demo_hash demo_m0 1 [\<lparr>req_resource = LR_Table (single_tenant 7) 3, req_mode = S\<rparr>] = (m1, Inr ls1) \<and>
    lock_many demo_hash m1 1 [\<lparr>req_resource = LR_Table (single_tenant 7) 3, req_mode = IX\<rparr>] = (m2, Inr ls2) \<and>
    \<not> isl (snd (lock_many demo_hash m2 2 [\<lparr>req_resource = LR_Table (single_tenant 7) 3, req_mode = S\<rparr>]))"
proof -
  have ne: "(1 :: txn_id) \<noteq> 2" by simp
  have new: "lock_manager_new 2 (try_tablet 3) = Some demo_m0" by (rule demo_new)
  from upgrade_protection_exact [OF ne new, of demo_hash "single_tenant 7" 3 S IX] show ?thesis by blast
qed

section \<open>Wound-wait\<close>

fun wound_victims :: "lock_acquire_error \<Rightarrow> txn_id list" where
  "wound_victims (WouldWound victims) = victims"
| "wound_victims (WouldWoundAndWait victims blockers) = victims"
| "wound_victims (WouldWait blockers) = []"

fun wait_for :: "lock_acquire_error \<Rightarrow> txn_id list" where
  "wait_for (WouldWait blockers) = blockers"
| "wait_for (WouldWoundAndWait victims blockers) = blockers"
| "wait_for (WouldWound victims) = []"

lemma set_normalize_txn_ids [simp]: "set (normalize_txn_ids ts) = set ts"
  by (simp add: normalize_txn_ids_def)

lemma classify_wound_wait_parts:
  "wound_victims (classify_wound_wait t bs) = filter (\<lambda>b. t < b) (normalize_txn_ids bs)"
  "wait_for (classify_wound_wait t bs) = filter (\<lambda>b. \<not> t < b) (normalize_txn_ids bs)"
  by (auto simp: classify_wound_wait_def Let_def)

text \<open>Conflict resolution splits the blockers by age: exactly the younger ones are victims,
  exactly the others are waited for, each list sorted and free of duplicates.\<close>

lemma classify_wound_wait_splits:
  "set (wound_victims (classify_wound_wait t bs)) = {b \<in> set bs. t < b} \<and>
   set (wait_for (classify_wound_wait t bs)) = {b \<in> set bs. b \<le> t} \<and>
   sorted (wound_victims (classify_wound_wait t bs)) \<and> distinct (wound_victims (classify_wound_wait t bs)) \<and>
   sorted (wait_for (classify_wound_wait t bs)) \<and> distinct (wait_for (classify_wound_wait t bs))"
  unfolding classify_wound_wait_parts
  by (auto simp: normalize_txn_ids_def intro!: sorted_wrt_filter)

text \<open>\<^bold>\<open>C9.\<close> A refused acquisition blames the right transactions.  Whichever of its phases refuses, a call of \<open>lock_many\<close>
  returns an error that names at least one transaction; each transaction it names is another one that holds, in the
  manager the call started from, a lock that conflicts with one of the requests, or with the tablet lock that
  escalation asks for on behalf of a requested row; the victims are younger than the caller and the ones to wait
  for are older, so that waiting only ever goes from a younger to an older transaction.\<close>

theorem lock_many_refusal_justified:
  assumes "settled h m" "granted_count (lm_coarse m) + length reqs < usize_modulus"
    "lock_many h m t reqs = (m', Inl err)"
  shows "wound_victims err @ wait_for err \<noteq> [] \<and>
    (\<forall>b \<in> set (wound_victims err). t < b \<and> in_the_way h m t (wanted reqs) b) \<and>
    (\<forall>b \<in> set (wait_for err). b < t \<and> in_the_way h m t (wanted reqs) b)"
proof -
  obtain bs where bs: "bs \<noteq> []" "err = classify_wound_wait t bs" "\<forall>b \<in> set bs. in_the_way h m t (wanted reqs) b"
    using lock_many_blames [OF assms] by (auto simp: blames_def)
  note split = classify_wound_wait_splits [of t bs, folded bs(2)]
  have "set (wound_victims err @ wait_for err) = set bs" using split by auto
  moreover have "b \<noteq> t" if "b \<in> set bs" for b using bs(3) that by (auto simp: in_the_way_def)
  ultimately show ?thesis using bs(1,3) split by (auto simp: order_le_less simp del: set_append)
qed

theorem lock_many_refusal_justified_witness:
  "\<exists>b \<in> set (wait_for (WouldWait [1])). b < 2 \<and> in_the_way demo_hash demo_m1 2 (wanted (demo_write [5])) b"
proof -
  have "granted_count (lm_coarse demo_m1) + length (demo_write [5]) < usize_modulus"
    by (simp add: demo_eval granted_count_def)
  from lock_many_refusal_justified [OF demo_settled1 this demo_refused] show ?thesis by simp
qed

section \<open>Queries\<close>

lemma has_conflicting_iff:
  assumes "wf_shard shard"
  shows "has_conflicting shard r \<longleftrightarrow> (\<exists>r'. state_of shard r' \<noteq> [] \<and> conflicts_with r' r)"
proof -
  have "has_conflicting shard r \<longleftrightarrow> (\<exists>r' st. (r', st) \<in> set shard \<and> conflicts_with r' r \<and> st \<noteq> [])"
    by (simp add: has_conflicting_def list_ex_iff Bex_def split_paired_Ex)
  then show ?thesis unfolding mem_shard_iff [OF assms] by auto
qed

lemma coarse_part_iff:
  assumes "wf_manager h m" "granted_count (lm_coarse m) < usize_modulus"
  shows "0 < lm_coarse_active_count m \<and> has_conflicting (lm_coarse m) r \<longleftrightarrow>
    (\<exists>r'. is_coarse_resource r' \<and> lm_state h m r' \<noteq> [] \<and> conflicts_with r' r)"
proof -
  have wf: "wf_shard (lm_coarse m)" and cnt: "lm_coarse_active_count m = granted_count (lm_coarse m)"
    using assms by (simp_all add: wf_manager_def)
  have "has_conflicting (lm_coarse m) r \<longleftrightarrow>
      (\<exists>r'. is_coarse_resource r' \<and> lm_state h m r' \<noteq> [] \<and> conflicts_with r' r)"
    unfolding has_conflicting_iff [OF wf] state_of_coarse [OF assms(1)] by auto
  moreover have "0 < lm_coarse_active_count m" if "has_conflicting (lm_coarse m) r"
  proof (rule ccontr)
    assume "\<not> 0 < lm_coarse_active_count m"
    then have "lm_coarse m = []" using cnt granted_count_zero [OF wf] by simp
    with that show False by (simp add: has_conflicting_def)
  qed
  ultimately show ?thesis by blast
qed

lemma fine_part_iff:
  assumes "wf_manager h m"
  shows "list_ex (\<lambda>shard. has_conflicting shard r) (lm_shards m) \<longleftrightarrow>
    (\<exists>r'. \<not> is_coarse_resource r' \<and> lm_state h m r' \<noteq> [] \<and> conflicts_with r' r)"
proof -
  have "list_ex (\<lambda>shard. has_conflicting shard r) (lm_shards m) \<longleftrightarrow>
      (\<exists>i < length (lm_shards m). \<exists>r'. state_of (lm_shards m ! i) r' \<noteq> [] \<and> conflicts_with r' r)"
    using has_conflicting_iff [OF wf_manager_shard [OF assms]] by (auto simp: list_ex_length)
  then show ?thesis
    using state_of_fine [OF assms] wf_manager_index [OF assms] by (auto split: if_splits) metis
qed

text \<open>\<^bold>\<open>C10.\<close> The conflict query is exact although it skips the coarse table when its counter is zero
  and looks at one shard only for exact resources: it answers whether any transaction holds a lock
  on a resource that conflicts with the given one.\<close>

theorem has_lock_conflicting_with_iff:
  assumes "wf_manager h m" "granted_count (lm_coarse m) < usize_modulus"
  shows "has_lock_conflicting_with h m r \<longleftrightarrow> (\<exists>r'. lm_state h m r' \<noteq> [] \<and> conflicts_with r' r)"
proof -
  let ?coarse = "\<exists>r'. is_coarse_resource r' \<and> lm_state h m r' \<noteq> [] \<and> conflicts_with r' r"
  let ?fine = "\<exists>r'. \<not> is_coarse_resource r' \<and> lm_state h m r' \<noteq> [] \<and> conflicts_with r' r"
  have exact: "has_exact (lm_shards m ! lm_shard_index h m r) r \<longleftrightarrow> ?fine" if "\<not> is_coarse_resource r"
  proof -
    have "has_exact (lm_shards m ! lm_shard_index h m r) r \<longleftrightarrow> lm_state h m r \<noteq> []"
      using that by (auto simp: has_exact_def lm_state_def lm_shard_for_def state_of_def split: option.split)
    then show ?thesis using fine_conflict_eq [OF _ that] conflicts_with_refl that by metis
  qed
  show ?thesis
    unfolding has_lock_conflicting_with_def
    using coarse_part_iff [OF assms, of r] fine_part_iff [OF assms(1), of r] exact by auto
qed

theorem has_lock_conflicting_with_iff_witness:
  "has_lock_conflicting_with demo_hash demo_m1 (LR_Database (single_tenant 7)) \<and>
   \<not> has_lock_conflicting_with demo_hash demo_m1 (LR_Database (single_tenant 8))"
proof -
  have wf: "wf_manager demo_hash demo_m1" using demo_settled1 by (simp add: settled_def)
  have cnt: "granted_count (lm_coarse demo_m1) < usize_modulus"
    using demo_bound(2) by simp
  note query = has_lock_conflicting_with_iff [OF wf cnt]
  have "lm_state demo_hash demo_m1 demo_table \<noteq> []"
    by (simp add: lm_state_def lm_shard_for_def demo_eval)
  moreover have "conflicts_with demo_table (LR_Database (single_tenant 7))"
    by (simp add: demo_eval)
  moreover have "\<not> has_lock_conflicting_with demo_hash demo_m1 (LR_Database (single_tenant 8))"
    by (simp add: has_lock_conflicting_with_def has_conflicting_def demo_eval)
  ultimately show ?thesis unfolding query by blast
qed

end
