(* ===== verification/Read_Dependency.thy ===== *)
theory Read_Dependency
  imports Lock_Resource
begin

text \<open>
  Read dependencies (\<open>view.rs\<close>), the frozen read set of a commit plan (\<open>commit/types.rs\<close>) and the
  normalisation of dependencies (\<open>read_dependency_index.rs\<close>).  A dependency stands for the set of
  writes it conflicts with; the lemmas show that normalising, coarsening and the tracking policies
  only ever enlarge that set.
\<close>

section \<open>Dependencies\<close>

datatype read_dependency =
    RD_Table tbl_id
  | RD_Row tbl_id u64
  | RD_Tablet tbl_id u64 read_ts u64 nat
  | RD_Rowset tbl_id u64 u64 read_ts u64
  | RD_KeyRange tbl_id u64 u64
  | RD_Predicate tbl_id u64
  | RD_AnalyticalScan tbl_id
  | RD_Generation txn_resource_key u64

fun rd_table_id :: "read_dependency \<Rightarrow> tbl_id option" where
  "rd_table_id (RD_Table t) = Some t"
| "rd_table_id (RD_Row t _) = Some t"
| "rd_table_id (RD_Tablet t _ _ _ _) = Some t"
| "rd_table_id (RD_Rowset t _ _ _ _) = Some t"
| "rd_table_id (RD_KeyRange t _ _) = Some t"
| "rd_table_id (RD_Predicate t _) = Some t"
| "rd_table_id (RD_AnalyticalScan t) = Some t"
| "rd_table_id (RD_Generation key _) = rk_table_id key"

fun table_marker :: "read_dependency \<Rightarrow> read_dependency option" where
  "table_marker (RD_AnalyticalScan t) = Some (RD_AnalyticalScan t)"
| "table_marker d = map_option RD_Table (rd_table_id d)"

fun is_coarse_scan_marker :: "read_dependency \<Rightarrow> bool" where
  "is_coarse_scan_marker (RD_AnalyticalScan _) = True"
| "is_coarse_scan_marker _ = False"

fun estimated_bytes :: "read_dependency \<Rightarrow> nat" where
  "estimated_bytes (RD_Table _) = 32"
| "estimated_bytes (RD_Row _ _) = 40"
| "estimated_bytes (RD_Tablet _ _ _ _ _) = 56"
| "estimated_bytes (RD_Rowset _ _ _ _ _) = 56"
| "estimated_bytes (RD_KeyRange _ _ _) = 48"
| "estimated_bytes (RD_Predicate _ _) = 40"
| "estimated_bytes (RD_AnalyticalScan _) = 32"
| "estimated_bytes (RD_Generation _ _) = 48"

section \<open>Conflicts between reads and writes\<close>

fun is_database :: "lock_resource \<Rightarrow> bool" where
  "is_database (LR_Database _) = True"
| "is_database _ = False"

definition write_matches_table :: "lock_resource \<Rightarrow> tbl_id \<Rightarrow> bool" where
  "write_matches_table w t \<longleftrightarrow> is_database w \<or> lr_table_id w = Some t"

fun write_matches_tablet :: "lock_resource \<Rightarrow> tbl_id \<Rightarrow> u64 \<Rightarrow> bool" where
  "write_matches_tablet (LR_Database _) t b = True"
| "write_matches_tablet (LR_Table _ wt) t b = (wt = t)"
| "write_matches_tablet (LR_Predicate _ wt _) t b = (wt = t)"
| "write_matches_tablet (LR_Tablet _ wt wb) t b = (wt = t \<and> wb = b)"
| "write_matches_tablet (LR_PrimaryKey _ wt wb _) t b = (wt = t \<and> wb = b)"
| "write_matches_tablet (LR_RowId _ wt wb _ _ _) t b = (wt = t \<and> wb = b)"
| "write_matches_tablet (LR_Range _ wt wb _ _) t b = (wt = t \<and> wb = b)"
| "write_matches_tablet (LR_Schema _ _) t b = False"
| "write_matches_tablet (LR_CatalogObject _ _ _) t b = False"

fun write_matches_rowset :: "lock_resource \<Rightarrow> tbl_id \<Rightarrow> u64 \<Rightarrow> u64 \<Rightarrow> bool" where
  "write_matches_rowset (LR_RowId _ wt wb wrs _ _) t b rs = (wt = t \<and> wb = b \<and> wrs = rs)"
| "write_matches_rowset w t b rs = write_matches_tablet w t b"

fun write_matches_key_range :: "lock_resource \<Rightarrow> tbl_id \<Rightarrow> u64 \<Rightarrow> u64 \<Rightarrow> bool" where
  "write_matches_key_range (LR_PrimaryKey _ wt _ k) t s e = (wt = t \<and> hash_in_range k s e)"
| "write_matches_key_range (LR_Range _ wt _ ws we) t s e = (wt = t \<and> ranges_overlap s e ws we)"
| "write_matches_key_range w t s e = write_matches_table w t"

fun is_database_or_catalog :: "lock_resource \<Rightarrow> bool" where
  "is_database_or_catalog (LR_Database _) = True"
| "is_database_or_catalog (LR_CatalogObject _ _ _) = True"
| "is_database_or_catalog _ = False"

fun conflicts_with_write :: "read_dependency \<Rightarrow> lock_resource \<Rightarrow> bool" where
  "conflicts_with_write (RD_Table t) w = write_matches_table w t"
| "conflicts_with_write (RD_Row t _) w = write_matches_table w t"
| "conflicts_with_write (RD_Tablet t b _ _ _) w = write_matches_tablet w t b"
| "conflicts_with_write (RD_Rowset t b rs _ _) w = write_matches_rowset w t b rs"
| "conflicts_with_write (RD_KeyRange t s e) w = write_matches_key_range w t s e"
| "conflicts_with_write (RD_Predicate t _) w = write_matches_table w t"
| "conflicts_with_write (RD_AnalyticalScan t) w = write_matches_table w t"
| "conflicts_with_write (RD_Generation key _) w =
     (case rk_table_id key of
        Some t \<Rightarrow> write_matches_table w t
      | None \<Rightarrow> is_database_or_catalog w)"

section \<open>Normalising, coarsening and tracking policies\<close>

fun normalize_dependency :: "read_dependency \<Rightarrow> read_dependency" where
  "normalize_dependency (RD_Row t _) = RD_Table t"
| "normalize_dependency d = d"

definition coarsen_dependency :: "read_dependency \<Rightarrow> read_dependency" where
  "coarsen_dependency d = (case table_marker d of Some marker \<Rightarrow> marker | None \<Rightarrow> d)"

datatype read_tracking_policy =
  PolicyNoop | PolicyRecord | PolicySerializable | PolicyPointCritical | PolicyRangeCritical
| PolicyAnalyticalScan | PolicySafeSnapshotPreferred | PolicySafeSnapshot

definition is_read_only_hint :: "read_tracking_policy \<Rightarrow> bool" where
  "is_read_only_hint p \<longleftrightarrow> p = PolicySafeSnapshotPreferred \<or> p = PolicyAnalyticalScan"

definition dependency_for_policy :: "read_tracking_policy \<Rightarrow> read_dependency \<Rightarrow> read_dependency option" where
  "dependency_for_policy p d =
     (if p = PolicyNoop \<or> p = PolicySafeSnapshot then None
      else if p = PolicyAnalyticalScan \<or> p = PolicySafeSnapshotPreferred
           then (case rd_table_id d of Some t \<Rightarrow> Some (RD_AnalyticalScan t) | None \<Rightarrow> Some d)
      else Some d)"

text \<open>The sort key of dependencies.\<close>

fun read_dependency_order_key :: "read_dependency \<Rightarrow> nat list" where
  "read_dependency_order_key (RD_Table t) = [0, unat t, 0, 0, 0]"
| "read_dependency_order_key (RD_Tablet t b _ _ _) = [1, unat t, unat b, 0, 0]"
| "read_dependency_order_key (RD_Rowset t b rs _ _) = [2, unat t, unat b, unat rs, 0]"
| "read_dependency_order_key (RD_KeyRange t s e) = [3, unat t, unat s, unat e, 0]"
| "read_dependency_order_key (RD_Predicate t p) = [4, unat t, unat p, 0, 0]"
| "read_dependency_order_key (RD_AnalyticalScan t) = [5, unat t, 0, 0, 0]"
| "read_dependency_order_key (RD_Generation key g) =
     [6, (case rk_table_id key of Some t \<Rightarrow> unat t | None \<Rightarrow> 0), unat g, 0, 0]"
| "read_dependency_order_key (RD_Row t r) = [7, unat t, unat r, 0, 0]"

definition is_row :: "read_dependency \<Rightarrow> bool" where
  "is_row d \<longleftrightarrow> (case d of RD_Row _ _ \<Rightarrow> True | _ \<Rightarrow> False)"

text \<open>Keeping the first occurrence of each element, as the loops over a \<open>HashSet\<close> of seen
  dependencies do.\<close>

fun keep_first :: "'a set \<Rightarrow> 'a list \<Rightarrow> 'a list" where
  "keep_first seen [] = []"
| "keep_first seen (x # xs) =
     (if x \<in> seen then keep_first seen xs else x # keep_first (insert x seen) xs)"

definition compact_read_dependencies :: "read_dependency list \<Rightarrow> read_dependency list \<times> bool" where
  "compact_read_dependencies ds =
     (sort_key read_dependency_order_key (keep_first {} (map normalize_dependency ds)),
      list_ex is_row ds)"

section \<open>Frozen read sets\<close>

record frozen_read_set =
  frs_dependency_count :: nat
  frs_coarsened :: bool
  frs_dependencies :: "read_dependency list"

definition frozen_empty :: frozen_read_set where
  "frozen_empty = \<lparr>frs_dependency_count = 0, frs_coarsened = False, frs_dependencies = []\<rparr>"

definition from_dependency_count :: "nat \<Rightarrow> frozen_read_set" where
  "from_dependency_count n = \<lparr>frs_dependency_count = n, frs_coarsened = False, frs_dependencies = []\<rparr>"

definition from_dependencies :: "read_dependency list \<Rightarrow> frozen_read_set" where
  "from_dependencies ds =
     \<lparr>frs_dependency_count = length ds, frs_coarsened = False, frs_dependencies = ds\<rparr>"

definition from_dependencies_with_coarsening :: "read_dependency list \<Rightarrow> bool \<Rightarrow> frozen_read_set" where
  "from_dependencies_with_coarsening ds coarsened =
     \<lparr>frs_dependency_count = length ds, frs_coarsened = coarsened, frs_dependencies = ds\<rparr>"

fun is_tablet_dependency :: "read_dependency \<Rightarrow> bool" where
  "is_tablet_dependency (RD_Tablet _ _ _ _ _) = True"
| "is_tablet_dependency _ = False"

definition storage_snapshot_count :: "frozen_read_set \<Rightarrow> nat" where
  "storage_snapshot_count rs = length (filter is_tablet_dependency (frs_dependencies rs))"

section \<open>The plain recording tracker\<close>

definition rec_record :: "read_dependency list \<Rightarrow> read_dependency \<Rightarrow> read_dependency list" where
  "rec_record ds d = ds @ [d]"

definition rec_record_batch :: "read_dependency list \<Rightarrow> read_dependency list \<Rightarrow> read_dependency list" where
  "rec_record_batch ds new = ds @ new"

definition rec_mark_savepoint :: "read_dependency list \<Rightarrow> nat" where
  "rec_mark_savepoint ds = length ds"

definition rec_rollback_to_savepoint :: "read_dependency list \<Rightarrow> nat \<Rightarrow> read_dependency list" where
  "rec_rollback_to_savepoint ds n = (if n < length ds then take n ds else ds)"

section \<open>Coverage\<close>

text \<open>A list of dependencies covers another when it conflicts with every write the other conflicts
  with.\<close>

definition conflicting :: "read_dependency list \<Rightarrow> lock_resource \<Rightarrow> bool" where
  "conflicting ds w \<longleftrightarrow> list_ex (\<lambda>d. conflicts_with_write d w) ds"

definition covers_reads :: "read_dependency list \<Rightarrow> read_dependency list \<Rightarrow> bool" where
  "covers_reads ds ds' \<longleftrightarrow> (\<forall>w. conflicting ds' w \<longrightarrow> conflicting ds w)"

lemma conflicting_append [simp]: "conflicting (xs @ ys) w \<longleftrightarrow> conflicting xs w \<or> conflicting ys w"
  by (simp add: conflicting_def)

lemma conflicting_Nil [simp]: "\<not> conflicting [] w"
  by (simp add: conflicting_def)

lemma conflicting_Cons [simp]: "conflicting (d # ds) w \<longleftrightarrow> conflicts_with_write d w \<or> conflicting ds w"
  by (simp add: conflicting_def)

lemma conflicting_iff: "conflicting ds w \<longleftrightarrow> (\<exists>d \<in> set ds. conflicts_with_write d w)"
  by (simp add: conflicting_def list_ex_iff)

lemma covers_reads_refl [simp]: "covers_reads ds ds"
  by (simp add: covers_reads_def)

lemma covers_reads_trans: "covers_reads a b \<Longrightarrow> covers_reads b c \<Longrightarrow> covers_reads a c"
  by (auto simp: covers_reads_def)

lemma covers_reads_set: "set ds' \<subseteq> set ds \<Longrightarrow> covers_reads ds ds'"
  by (auto simp: covers_reads_def conflicting_iff)

lemma covers_reads_map:
  "(\<And>d w. conflicts_with_write d w \<Longrightarrow> conflicts_with_write (f d) w) \<Longrightarrow> covers_reads (map f ds) ds"
  by (auto simp: covers_reads_def conflicting_iff)

lemma tablet_matches_table: "write_matches_tablet w t b \<Longrightarrow> write_matches_table w t"
  by (cases w) (auto simp: write_matches_table_def)

lemma rowset_matches_tablet: "write_matches_rowset w t b rs \<Longrightarrow> write_matches_tablet w t b"
  by (cases w) auto

lemma key_range_matches_table: "write_matches_key_range w t s e \<Longrightarrow> write_matches_table w t"
  by (cases w) (auto simp: write_matches_table_def)

lemma conflicts_table:
  assumes "conflicts_with_write d w" "rd_table_id d = Some t"
  shows "write_matches_table w t"
  using assms by (cases d)
    (auto dest: tablet_matches_table rowset_matches_tablet key_range_matches_table)

lemma normalize_conflicts [simp]: "conflicts_with_write (normalize_dependency d) w = conflicts_with_write d w"
  by (cases d) simp_all

lemma table_marker_conflicts:
  assumes "conflicts_with_write d w" "table_marker d = Some marker"
  shows "conflicts_with_write marker w"
proof (cases "is_coarse_scan_marker d")
  case True
  with assms show ?thesis by (cases d) auto
next
  case False
  with assms obtain t where "rd_table_id d = Some t" "marker = RD_Table t" by (cases d) auto
  with conflicts_table [OF assms(1)] show ?thesis by simp
qed

lemma coarsen_conflicts: "conflicts_with_write d w \<Longrightarrow> conflicts_with_write (coarsen_dependency d) w"
  by (auto simp: coarsen_dependency_def table_marker_conflicts split: option.split)

lemma policy_conflicts:
  assumes "conflicts_with_write d w" "p \<noteq> PolicyNoop" "p \<noteq> PolicySafeSnapshot"
  shows "\<exists>d'. dependency_for_policy p d = Some d' \<and> conflicts_with_write d' w"
  using assms conflicts_table by (auto simp: dependency_for_policy_def split: option.split)

lemma set_keep_first: "set (keep_first seen xs) = set xs - seen"
  by (induction seen xs rule: keep_first.induct) auto

lemma distinct_keep_first: "distinct (keep_first seen xs)"
  by (induction seen xs rule: keep_first.induct) (auto simp: set_keep_first)

lemma keep_first_id: "distinct xs \<Longrightarrow> set xs \<inter> seen = {} \<Longrightarrow> keep_first seen xs = xs"
  by (induction seen xs rule: keep_first.induct) auto

lemma conflicting_cong: "set ds = set ds' \<Longrightarrow> conflicting ds w = conflicting ds' w"
  by (simp add: conflicting_iff)

lemma conflicting_normalize [simp]: "conflicting (map normalize_dependency ds) w = conflicting ds w"
  by (auto simp: conflicting_iff)

lemma conflicting_keep_first [simp]: "conflicting (keep_first {} ds) w = conflicting ds w"
  by (rule conflicting_cong) (simp add: set_keep_first)

lemma conflicting_sort_key [simp]: "conflicting (sort_key f ds) w = conflicting ds w"
  by (rule conflicting_cong) simp

text \<open>Compacting a read set for a committed summary loses and adds no conflict.\<close>

lemma compact_read_dependencies_exact:
  "conflicting (fst (compact_read_dependencies ds)) w = conflicting ds w"
  by (simp add: compact_read_dependencies_def)

end
