(* ===== verification/Read_Dependency_Index.thy ===== *)
theory Read_Dependency_Index
  imports Read_Dependency
begin

text \<open>
  The index of active read sets (\<open>read_dependency_index.rs\<close>): registering and releasing
  transactions, recording reads under a per-transaction and a global memory budget, savepoints,
  and the marking of read-write conflicts.

  \<open>h\<close> is the standard library's hash of a transaction id, \<open>base\<close> the compile-time size
  \<open>active_read_set_base_bytes()\<close>.  A \<open>HashMap\<close> is an association list in its (unspecified)
  iteration order.  Counters of type \<open>u64\<close> wrap.
\<close>

section \<open>State\<close>

record ssi_txn_state =
  ssi_rw_conflict_in :: bool
  ssi_rw_conflict_out :: bool
  ssi_dangerous_structure :: bool
  ssi_coarse_scan_marker_conflict :: bool
  ssi_state_epoch :: u64

definition ssi_default :: ssi_txn_state where
  "ssi_default = \<lparr>ssi_rw_conflict_in = False, ssi_rw_conflict_out = False,
     ssi_dangerous_structure = False, ssi_coarse_scan_marker_conflict = False, ssi_state_epoch = 0\<rparr>"

record active_read_set =
  ars_read_ts :: read_ts
  ars_dependencies :: "read_dependency list"
  ars_seen :: "read_dependency set"
  ars_memory_usage_bytes :: nat
  ars_coarsened :: bool
  ars_coarsening_epoch :: u64
  ars_last_access_epoch :: u64
  ars_ssi :: ssi_txn_state

record read_dependency_index_mark =
  rm_dependency_count :: nat
  rm_coarsening_epoch :: u64

record read_dependency_rollback =
  rb_removed_dependencies :: nat
  rb_preserved_due_to_coarsening :: bool

type_synonym read_dependency_shard = "(txn_id \<times> active_read_set) list"

record read_dependency_index =
  ri_shards :: "read_dependency_shard list"
  ri_per_txn_budget_bytes :: nat
  ri_global_budget_bytes :: nat
  ri_memory_usage_bytes :: nat
  ri_record_count :: u64
  ri_coarsen_count :: u64
  ri_global_coarsen_count :: u64
  ri_state_epoch :: u64

definition rd_index_new :: "nat \<Rightarrow> nat \<Rightarrow> nat \<Rightarrow> read_dependency_index option" where
  "rd_index_new shard_count per_txn_budget global_budget =
     (if 0 < shard_count \<and> 0 < per_txn_budget \<and> 0 < global_budget
      then Some \<lparr>ri_shards = replicate shard_count [], ri_per_txn_budget_bytes = per_txn_budget,
                 ri_global_budget_bytes = global_budget, ri_memory_usage_bytes = 0,
                 ri_record_count = 0, ri_coarsen_count = 0, ri_global_coarsen_count = 0,
                 ri_state_epoch = 0\<rparr>
      else None)"

definition ri_shard_index :: "(txn_id \<Rightarrow> u64) \<Rightarrow> read_dependency_index \<Rightarrow> txn_id \<Rightarrow> nat" where
  "ri_shard_index h ix t = unat (h t) mod length (ri_shards ix)"

text \<open>Looking up, inserting and removing the entry of a transaction in its shard.\<close>

definition ri_get :: "(txn_id \<Rightarrow> u64) \<Rightarrow> read_dependency_index \<Rightarrow> txn_id \<Rightarrow> active_read_set option" where
  "ri_get h ix t = map_of (ri_shards ix ! ri_shard_index h ix t) t"

definition ri_put_at :: "read_dependency_index \<Rightarrow> nat \<Rightarrow> txn_id \<Rightarrow> active_read_set \<Rightarrow> read_dependency_index" where
  "ri_put_at ix i t rs = ix\<lparr>ri_shards := (ri_shards ix)[i := AList.update t rs (ri_shards ix ! i)]\<rparr>"

definition ri_put ::
  "(txn_id \<Rightarrow> u64) \<Rightarrow> read_dependency_index \<Rightarrow> txn_id \<Rightarrow> active_read_set \<Rightarrow> read_dependency_index" where
  "ri_put h ix t rs = ri_put_at ix (ri_shard_index h ix t) t rs"

definition ri_remove :: "(txn_id \<Rightarrow> u64) \<Rightarrow> read_dependency_index \<Rightarrow> txn_id \<Rightarrow> read_dependency_index" where
  "ri_remove h ix t =
     (let i = ri_shard_index h ix t
      in ix\<lparr>ri_shards := (ri_shards ix)[i := AList.delete t (ri_shards ix ! i)]\<rparr>)"

definition bump_epoch :: "read_dependency_index \<Rightarrow> read_dependency_index \<times> u64" where
  "bump_epoch ix = (ix\<lparr>ri_state_epoch := ri_state_epoch ix + 1\<rparr>, ri_state_epoch ix + 1)"

definition apply_memory_delta :: "read_dependency_index \<Rightarrow> nat \<Rightarrow> nat \<Rightarrow> read_dependency_index" where
  "apply_memory_delta ix old_usage new_usage =
     ix\<lparr>ri_memory_usage_bytes :=
          (if old_usage \<le> new_usage
           then fetch_add (ri_memory_usage_bytes ix) (new_usage - old_usage)
           else fetch_sub (ri_memory_usage_bytes ix) (old_usage - new_usage))\<rparr>"

section \<open>One read set\<close>

definition ars_new :: "nat \<Rightarrow> read_ts \<Rightarrow> u64 \<Rightarrow> active_read_set" where
  "ars_new base rts epoch =
     \<lparr>ars_read_ts = rts, ars_dependencies = [], ars_seen = {}, ars_memory_usage_bytes = base,
      ars_coarsened = False, ars_coarsening_epoch = 0, ars_last_access_epoch = epoch,
      ars_ssi = ssi_default\<rparr>"

definition insert_dependency :: "active_read_set \<Rightarrow> read_dependency \<Rightarrow> active_read_set \<times> bool" where
  "insert_dependency rs d =
     (if d \<in> ars_seen rs then (rs, False)
      else (rs\<lparr>ars_seen := insert d (ars_seen rs),
               ars_memory_usage_bytes := saturating_add (ars_memory_usage_bytes rs) (estimated_bytes d),
               ars_dependencies := ars_dependencies rs @ [d]\<rparr>, True))"

definition usage_of :: "nat \<Rightarrow> read_dependency list \<Rightarrow> nat" where
  "usage_of base ds = fold (\<lambda>d usage. saturating_add usage (estimated_bytes d)) ds base"

definition coarsen_to_table_level :: "nat \<Rightarrow> active_read_set \<Rightarrow> u64 \<Rightarrow> active_read_set" where
  "coarsen_to_table_level base rs epoch =
     (let compacted = keep_first {} (map coarsen_dependency (ars_dependencies rs))
      in rs\<lparr>ars_dependencies := compacted, ars_seen := set compacted,
            ars_memory_usage_bytes := usage_of base compacted,
            ars_coarsened := True, ars_coarsening_epoch := epoch\<rparr>)"

fun ars_record_batch ::
  "nat \<Rightarrow> active_read_set \<Rightarrow> read_dependency list \<Rightarrow> nat \<Rightarrow> u64 \<Rightarrow> nat \<Rightarrow> active_read_set \<times> nat" where
  "ars_record_batch base rs [] budget epoch inserted = (rs, inserted)"
| "ars_record_batch base rs (dep # rest) budget epoch inserted =
     (let d1 = (if ars_coarsened rs then coarsen_dependency dep else dep)
      in if d1 \<in> ars_seen rs then ars_record_batch base rs rest budget epoch inserted
         else
           (let rs1 = (if \<not> ars_coarsened rs \<and>
                          budget < saturating_add (ars_memory_usage_bytes rs) (estimated_bytes d1)
                       then coarsen_to_table_level base rs epoch else rs);
                d2 = (if ars_coarsened rs1 then coarsen_dependency d1 else d1)
            in case insert_dependency rs1 d2 of
                 (rs2, new) \<Rightarrow>
                   ars_record_batch base rs2 rest budget epoch (if new then Suc inserted else inserted)))"

definition ars_mark_savepoint :: "active_read_set \<Rightarrow> read_dependency_index_mark" where
  "ars_mark_savepoint rs =
     \<lparr>rm_dependency_count = length (ars_dependencies rs), rm_coarsening_epoch = ars_coarsening_epoch rs\<rparr>"

definition rebuild_seen_and_usage :: "nat \<Rightarrow> active_read_set \<Rightarrow> active_read_set" where
  "rebuild_seen_and_usage base rs =
     (let kept = keep_first {} (ars_dependencies rs)
      in rs\<lparr>ars_dependencies := kept, ars_seen := set kept, ars_memory_usage_bytes := usage_of base kept\<rparr>)"

definition rollback_default :: read_dependency_rollback where
  "rollback_default = \<lparr>rb_removed_dependencies = 0, rb_preserved_due_to_coarsening = False\<rparr>"

definition ars_rollback_to_savepoint ::
  "nat \<Rightarrow> active_read_set \<Rightarrow> read_dependency_index_mark \<Rightarrow> active_read_set \<times> read_dependency_rollback" where
  "ars_rollback_to_savepoint base rs mark =
     (if ars_coarsening_epoch rs \<noteq> rm_coarsening_epoch mark
      then (rs, \<lparr>rb_removed_dependencies = 0, rb_preserved_due_to_coarsening = True\<rparr>)
      else if length (ars_dependencies rs) \<le> rm_dependency_count mark then (rs, rollback_default)
      else (rebuild_seen_and_usage base
              (rs\<lparr>ars_dependencies := take (rm_dependency_count mark) (ars_dependencies rs)\<rparr>),
            \<lparr>rb_removed_dependencies = length (ars_dependencies rs) - rm_dependency_count mark,
             rb_preserved_due_to_coarsening = False\<rparr>))"

definition ars_frozen_read_set :: "active_read_set \<Rightarrow> frozen_read_set" where
  "ars_frozen_read_set rs = from_dependencies_with_coarsening (ars_dependencies rs) (ars_coarsened rs)"

fun first_conflicting_write :: "read_dependency \<Rightarrow> lock_resource list \<Rightarrow> (read_dependency \<times> lock_resource) option" where
  "first_conflicting_write d [] = None"
| "first_conflicting_write d (w # ws) =
     (if conflicts_with_write d w then Some (d, w) else first_conflicting_write d ws)"

fun first_conflicting_read ::
  "read_dependency list \<Rightarrow> lock_resource list \<Rightarrow> (read_dependency \<times> lock_resource) option" where
  "first_conflicting_read [] ws = None"
| "first_conflicting_read (d # ds) ws =
     (case first_conflicting_write d ws of
        Some hit \<Rightarrow> Some hit
      | None \<Rightarrow> first_conflicting_read ds ws)"

section \<open>Registering and releasing\<close>

definition register_transaction ::
  "(txn_id \<Rightarrow> u64) \<Rightarrow> nat \<Rightarrow> read_dependency_index \<Rightarrow> txn_id \<Rightarrow> read_ts \<Rightarrow> read_dependency_index" where
  "register_transaction h base ix t rts =
     (case ri_get h ix t of
        Some rs \<Rightarrow>
          ri_put h ix t (rs\<lparr>ars_read_ts := rts, ars_last_access_epoch := ri_state_epoch ix\<rparr>)
      | None \<Rightarrow>
          (let rs = ars_new base rts (ri_state_epoch ix);
               ix1 = ix\<lparr>ri_memory_usage_bytes :=
                          fetch_add (ri_memory_usage_bytes ix) (ars_memory_usage_bytes rs)\<rparr>
           in fst (bump_epoch (ri_put h ix1 t rs))))"

definition release_transaction ::
  "(txn_id \<Rightarrow> u64) \<Rightarrow> read_dependency_index \<Rightarrow> txn_id \<Rightarrow> read_dependency_index \<times> frozen_read_set option" where
  "release_transaction h ix t =
     (case ri_get h ix t of
        None \<Rightarrow> (ix, None)
      | Some rs \<Rightarrow>
          (let ix1 = ri_remove h ix t;
               ix2 = ix1\<lparr>ri_memory_usage_bytes :=
                           fetch_sub (ri_memory_usage_bytes ix1) (ars_memory_usage_bytes rs)\<rparr>
           in (fst (bump_epoch ix2), Some (ars_frozen_read_set rs))))"

section \<open>The global budget\<close>

record coarsen_candidate =
  cc_shard_index :: nat
  cc_txn_id :: txn_id
  cc_read_ts :: read_ts
  cc_last_access_epoch :: u64

definition cc_key :: "coarsen_candidate \<Rightarrow> nat list" where
  "cc_key c = [unat (cc_last_access_epoch c), unat (cc_read_ts c), unat (cc_txn_id c)]"

definition coarsen_candidate_precedes :: "coarsen_candidate \<Rightarrow> coarsen_candidate option \<Rightarrow> bool" where
  "coarsen_candidate_precedes c current =
     (case current of None \<Rightarrow> True | Some best \<Rightarrow> cc_key c < cc_key best)"

definition better_candidate ::
  "nat \<Rightarrow> txn_id \<times> active_read_set \<Rightarrow> coarsen_candidate option \<Rightarrow> coarsen_candidate option" where
  "better_candidate i entry best =
     (case entry of (t, rs) \<Rightarrow>
        if ars_coarsened rs then best
        else (let c = \<lparr>cc_shard_index = i, cc_txn_id = t, cc_read_ts = ars_read_ts rs,
                       cc_last_access_epoch = ars_last_access_epoch rs\<rparr>
              in if coarsen_candidate_precedes c best then Some c else best))"

definition oldest_coarsenable_read_set :: "read_dependency_index \<Rightarrow> coarsen_candidate option" where
  "oldest_coarsenable_read_set ix =
     fold (\<lambda>(i, shard) best. fold (better_candidate i) shard best) (enumerate 0 (ri_shards ix)) None"

definition coarsen_transaction ::
  "nat \<Rightarrow> read_dependency_index \<Rightarrow> coarsen_candidate \<Rightarrow> read_dependency_index \<times> bool" where
  "coarsen_transaction base ix c =
     (case map_of (ri_shards ix ! cc_shard_index c) (cc_txn_id c) of
        None \<Rightarrow> (ix, False)
      | Some rs \<Rightarrow>
          (if ars_coarsened rs then (ix, False)
           else
             (case bump_epoch ix of
                (ix1, epoch) \<Rightarrow>
                  (let rs' = coarsen_to_table_level base rs epoch;
                       ix2 = apply_memory_delta
                               (ri_put_at ix1 (cc_shard_index c) (cc_txn_id c) rs')
                               (ars_memory_usage_bytes rs) (ars_memory_usage_bytes rs')
                   in (ix2\<lparr>ri_global_coarsen_count := ri_global_coarsen_count ix2 + 1,
                           ri_coarsen_count := ri_coarsen_count ix2 + 1\<rparr>, True)))))"

text \<open>The number of read sets that can still be coarsened; each pass of the loop lowers it.\<close>

definition uncoarsened :: "read_dependency_index \<Rightarrow> nat" where
  "uncoarsened ix =
     sum_list (map (\<lambda>shard. length (filter (\<lambda>entry. \<not> ars_coarsened (snd entry)) shard)) (ri_shards ix))"

lemma uncoarsened_shard_update:
  assumes "map_of shard t = Some rs" "\<not> ars_coarsened rs" "ars_coarsened rs'"
  shows "Suc (length (filter (\<lambda>entry. \<not> ars_coarsened (snd entry)) (AList.update t rs' shard))) =
    length (filter (\<lambda>entry. \<not> ars_coarsened (snd entry)) shard)"
  using assms by (induction shard) (auto split: if_splits)

lemma better_candidate_in_range:
  assumes "fold (better_candidate i) shard best = Some c"
    "\<And>c'. best = Some c' \<Longrightarrow> cc_shard_index c' < n" "i < n"
  shows "cc_shard_index c < n"
  using assms
proof (induction shard arbitrary: best)
  case (Cons entry shard)
  have "cc_shard_index c' < n" if "better_candidate i entry best = Some c'" for c'
    using that Cons.prems(2,3) by (auto simp: better_candidate_def Let_def split: prod.splits if_splits)
  with Cons.prems show ?case by (intro Cons.IH [of "better_candidate i entry best"]) auto
qed auto

lemma candidate_fold_in_range:
  assumes "fold (\<lambda>(i, shard) best. fold (better_candidate i) shard best) xs best = Some c"
    "\<And>c'. best = Some c' \<Longrightarrow> cc_shard_index c' < n" "\<forall>(i, shard) \<in> set xs. i < n"
  shows "cc_shard_index c < n"
  using assms
proof (induction xs arbitrary: best)
  case (Cons x xs)
  obtain i shard where x: "x = (i, shard)" by (cases x)
  have "cc_shard_index c' < n" if "fold (better_candidate i) shard best = Some c'" for c'
    by (rule better_candidate_in_range [OF that Cons.prems(2)]) (use Cons.prems(3) x in auto)
  with Cons.prems show ?case
    by (intro Cons.IH [of "fold (better_candidate i) shard best"]) (auto simp: x)
qed auto

lemma oldest_in_range:
  assumes "oldest_coarsenable_read_set ix = Some c"
  shows "cc_shard_index c < length (ri_shards ix)"
  using assms unfolding oldest_coarsenable_read_set_def
  by (rule candidate_fold_in_range) (auto simp: in_set_enumerate_eq)

lemma coarsen_transaction_shards:
  assumes "coarsen_transaction base ix c = (ix', True)" "cc_shard_index c < length (ri_shards ix)"
  obtains rs epoch where "map_of (ri_shards ix ! cc_shard_index c) (cc_txn_id c) = Some rs"
    "\<not> ars_coarsened rs"
    "ri_shards ix' = (ri_shards ix)[cc_shard_index c :=
       AList.update (cc_txn_id c) (coarsen_to_table_level base rs epoch) (ri_shards ix ! cc_shard_index c)]"
  using assms
  by (auto simp: coarsen_transaction_def bump_epoch_def apply_memory_delta_def ri_put_at_def Let_def
      split: option.splits if_splits)

lemma coarsen_transaction_uncoarsened:
  assumes "coarsen_transaction base ix c = (ix', True)" "cc_shard_index c < length (ri_shards ix)"
  shows "uncoarsened ix' < uncoarsened ix"
proof -
  let ?i = "cc_shard_index c"
  let ?count = "\<lambda>shard. length (filter (\<lambda>entry. \<not> ars_coarsened (snd entry)) shard)"
  obtain rs epoch where rs: "map_of (ri_shards ix ! ?i) (cc_txn_id c) = Some rs" "\<not> ars_coarsened rs"
    and ix': "ri_shards ix' = (ri_shards ix)[?i :=
       AList.update (cc_txn_id c) (coarsen_to_table_level base rs epoch) (ri_shards ix ! ?i)]"
    by (rule coarsen_transaction_shards [OF assms])
  have less: "?count (ri_shards ix' ! ?i) < ?count (ri_shards ix ! ?i)"
    using uncoarsened_shard_update [OF rs, of "coarsen_to_table_level base rs epoch"] assms(2)
    by (simp add: ix' coarsen_to_table_level_def Let_def)
  have "?count (ri_shards ix ! ?i) \<le> uncoarsened ix"
    unfolding uncoarsened_def using assms(2) by (intro member_le_sum_list) auto
  with less show ?thesis
    using assms(2) by (simp add: uncoarsened_def ix' map_update sum_list_update)
qed

lemma coarsen_transaction_False: "(ix', False) = coarsen_transaction base ix c \<Longrightarrow> ix' = ix"
  by (auto simp: coarsen_transaction_def bump_epoch_def Let_def split: option.splits if_splits)

lemma coarsen_oldest_True:
  "(ix', True) = coarsen_transaction base ix c \<Longrightarrow> oldest_coarsenable_read_set ix = Some c \<Longrightarrow>
     uncoarsened ix' < uncoarsened ix"
  using coarsen_transaction_uncoarsened oldest_in_range by metis

text \<open>The loop.  \<open>stale\<close> is \<open>stale_candidates\<close>, which stays at most the number of shards plus one,
  so its saturating increment is a plain one.\<close>

function enforce_global_budget :: "nat \<Rightarrow> read_dependency_index \<Rightarrow> nat \<Rightarrow> read_dependency_index" where
  "enforce_global_budget base ix stale =
     (if ri_global_budget_bytes ix < ri_memory_usage_bytes ix
      then (case oldest_coarsenable_read_set ix of
              None \<Rightarrow> ix
            | Some c \<Rightarrow>
                (case coarsen_transaction base ix c of
                   (ix', coarsened) \<Rightarrow>
                     (if coarsened then enforce_global_budget base ix' 0
                      else if length (ri_shards ix) < Suc stale then ix'
                      else enforce_global_budget base ix' (Suc stale))))
      else ix)"
  by pat_completeness auto
termination
  by (relation "measures [\<lambda>(base, ix, stale). uncoarsened ix,
      \<lambda>(base, ix, stale). Suc (length (ri_shards ix)) - stale]")
    (auto dest: coarsen_oldest_True coarsen_transaction_False)

declare enforce_global_budget.simps [simp del]

section \<open>Recording\<close>

definition rd_record_batch ::
  "(txn_id \<Rightarrow> u64) \<Rightarrow> nat \<Rightarrow> read_dependency_index \<Rightarrow> txn_id \<Rightarrow> read_dependency list
     \<Rightarrow> read_dependency_index \<times> nat" where
  "rd_record_batch h base ix t ds =
     (if ds = [] then (ix, 0)
      else
        (let dependencies =
               remdups_adj (sort_key read_dependency_order_key (map normalize_dependency ds));
             epoch = u64_saturating_add (ri_state_epoch ix) 1;
             entry = ri_get h ix t;
             rs = (case entry of Some rs \<Rightarrow> rs | None \<Rightarrow> ars_new base 0 epoch);
             old_usage = (if entry = None then 0 else ars_memory_usage_bytes rs)
         in case ars_record_batch base rs dependencies (ri_per_txn_budget_bytes ix) epoch 0 of
              (rs1, inserted) \<Rightarrow>
                (let ix1 = apply_memory_delta ix old_usage (ars_memory_usage_bytes rs1);
                     ix2 = (if \<not> ars_coarsened rs \<and> ars_coarsened rs1
                            then ix1\<lparr>ri_coarsen_count := ri_coarsen_count ix1 + 1\<rparr> else ix1)
                 in if 0 < inserted
                    then (enforce_global_budget base
                            (fst (bump_epoch (ri_put h
                               (ix2\<lparr>ri_record_count := ri_record_count ix2 + of_nat inserted\<rparr>) t
                               (rs1\<lparr>ars_last_access_epoch := epoch\<rparr>)))) 0, inserted)
                    else (ri_put h ix2 t rs1, inserted))))"

definition rd_record ::
  "(txn_id \<Rightarrow> u64) \<Rightarrow> nat \<Rightarrow> read_dependency_index \<Rightarrow> txn_id \<Rightarrow> read_dependency
     \<Rightarrow> read_dependency_index \<times> nat" where
  "rd_record h base ix t d = rd_record_batch h base ix t [d]"

definition rd_frozen_read_set :: "(txn_id \<Rightarrow> u64) \<Rightarrow> read_dependency_index \<Rightarrow> txn_id \<Rightarrow> frozen_read_set" where
  "rd_frozen_read_set h ix t =
     (case ri_get h ix t of Some rs \<Rightarrow> ars_frozen_read_set rs | None \<Rightarrow> frozen_empty)"

definition rd_dependencies :: "(txn_id \<Rightarrow> u64) \<Rightarrow> read_dependency_index \<Rightarrow> txn_id \<Rightarrow> read_dependency list" where
  "rd_dependencies h ix t = (case ri_get h ix t of Some rs \<Rightarrow> ars_dependencies rs | None \<Rightarrow> [])"

definition rd_mark_savepoint ::
  "(txn_id \<Rightarrow> u64) \<Rightarrow> read_dependency_index \<Rightarrow> txn_id \<Rightarrow> read_dependency_index_mark" where
  "rd_mark_savepoint h ix t =
     (case ri_get h ix t of
        Some rs \<Rightarrow> ars_mark_savepoint rs
      | None \<Rightarrow> \<lparr>rm_dependency_count = 0, rm_coarsening_epoch = 0\<rparr>)"

definition rd_rollback_to_savepoint ::
  "(txn_id \<Rightarrow> u64) \<Rightarrow> nat \<Rightarrow> read_dependency_index \<Rightarrow> txn_id \<Rightarrow> read_dependency_index_mark
     \<Rightarrow> read_dependency_index \<times> read_dependency_rollback" where
  "rd_rollback_to_savepoint h base ix t mark =
     (case ri_get h ix t of
        None \<Rightarrow> (ix, rollback_default)
      | Some rs \<Rightarrow>
          (case ars_rollback_to_savepoint base rs mark of
             (rs1, rollback) \<Rightarrow>
               (if 0 < rb_removed_dependencies rollback
                then (case bump_epoch (apply_memory_delta ix (ars_memory_usage_bytes rs)
                             (ars_memory_usage_bytes rs1)) of
                        (ix1, epoch) \<Rightarrow>
                          (ri_put h ix1 t (rs1\<lparr>ars_last_access_epoch := epoch\<rparr>), rollback))
                else (ri_put h ix t rs1, rollback))))"

section \<open>Conflict flags\<close>

definition ssi_state :: "(txn_id \<Rightarrow> u64) \<Rightarrow> read_dependency_index \<Rightarrow> txn_id \<Rightarrow> ssi_txn_state" where
  "ssi_state h ix t = (case ri_get h ix t of Some rs \<Rightarrow> ars_ssi rs | None \<Rightarrow> ssi_default)"

definition mark_txn_state ::
  "(txn_id \<Rightarrow> u64) \<Rightarrow> read_dependency_index \<Rightarrow> txn_id \<Rightarrow> (ssi_txn_state \<Rightarrow> ssi_txn_state)
     \<Rightarrow> read_dependency_index \<times> ssi_txn_state" where
  "mark_txn_state h ix t mutate =
     (case ri_get h ix t of
        None \<Rightarrow> (ix, ssi_default)
      | Some rs \<Rightarrow>
          (case bump_epoch ix of
             (ix1, epoch) \<Rightarrow>
               (let ssi = (mutate (ars_ssi rs))\<lparr>ssi_state_epoch := epoch\<rparr>
                in (ri_put h ix1 t (rs\<lparr>ars_ssi := ssi\<rparr>), ssi))))"

definition mark_txn_conflict_in ::
  "(txn_id \<Rightarrow> u64) \<Rightarrow> read_dependency_index \<Rightarrow> txn_id \<Rightarrow> read_dependency_index \<times> ssi_txn_state" where
  "mark_txn_conflict_in h ix t = mark_txn_state h ix t (\<lambda>st. st\<lparr>ssi_rw_conflict_in := True\<rparr>)"

definition mark_txn_conflict_out ::
  "(txn_id \<Rightarrow> u64) \<Rightarrow> read_dependency_index \<Rightarrow> txn_id \<Rightarrow> read_dependency_index \<times> ssi_txn_state" where
  "mark_txn_conflict_out h ix t = mark_txn_state h ix t (\<lambda>st. st\<lparr>ssi_rw_conflict_out := True\<rparr>)"

definition mark_txn_dangerous ::
  "(txn_id \<Rightarrow> u64) \<Rightarrow> read_dependency_index \<Rightarrow> txn_id \<Rightarrow> read_dependency_index \<times> ssi_txn_state" where
  "mark_txn_dangerous h ix t = mark_txn_state h ix t (\<lambda>st. st\<lparr>ssi_dangerous_structure := True\<rparr>)"

definition mark_txn_coarse_scan_conflict ::
  "(txn_id \<Rightarrow> u64) \<Rightarrow> read_dependency_index \<Rightarrow> txn_id \<Rightarrow> read_dependency_index \<times> ssi_txn_state" where
  "mark_txn_coarse_scan_conflict h ix t =
     mark_txn_state h ix t (\<lambda>st. st\<lparr>ssi_coarse_scan_marker_conflict := True\<rparr>)"

record active_read_conflict =
  arc_txn_id :: txn_id
  arc_read_ts :: read_ts
  arc_dependency :: read_dependency
  arc_write :: lock_resource
  arc_state_after :: ssi_txn_state

record active_write_conflict_effects =
  awe_matched_txn_count :: nat
  awe_writer_has_conflict_in :: bool
  awe_coarse_scan_marker_conflict :: bool
  awe_ssi_effect_epoch :: u64
  awe_first_conflict :: "active_read_conflict option"

definition effects_default :: active_write_conflict_effects where
  "effects_default = \<lparr>awe_matched_txn_count = 0, awe_writer_has_conflict_in = False,
     awe_coarse_scan_marker_conflict = False, awe_ssi_effect_epoch = 0, awe_first_conflict = None\<rparr>"

definition select_earlier_active_conflict ::
  "active_read_conflict option \<Rightarrow> active_read_conflict \<Rightarrow> active_read_conflict option" where
  "select_earlier_active_conflict slot c =
     (case slot of
        None \<Rightarrow> Some c
      | Some current \<Rightarrow>
          (if arc_read_ts c < arc_read_ts current \<or>
              (arc_read_ts c = arc_read_ts current \<and> arc_txn_id c < arc_txn_id current)
           then Some c else Some current))"

text \<open>The body of the inner loop of \<open>mark_write_conflicts\<close> for one active transaction.\<close>

definition mark_reader ::
  "txn_id \<Rightarrow> lock_resource list \<Rightarrow> txn_id \<times> active_read_set \<Rightarrow> u64 \<Rightarrow> active_write_conflict_effects
     \<Rightarrow> (txn_id \<times> active_read_set) \<times> u64 \<times> active_write_conflict_effects" where
  "mark_reader writer ws entry epoch eff =
     (case entry of (t, rs) \<Rightarrow>
        if t = writer then (entry, epoch, eff)
        else (case first_conflicting_read (ars_dependencies rs) ws of
                None \<Rightarrow> (entry, epoch, eff)
              | Some (dep, w) \<Rightarrow>
                  (let epoch1 = epoch + 1;
                       ssi0 = (ars_ssi rs)\<lparr>ssi_rw_conflict_out := True\<rparr>;
                       ssi1 = (if ssi_rw_conflict_in ssi0
                               then ssi0\<lparr>ssi_dangerous_structure := True\<rparr> else ssi0);
                       coarse = is_coarse_scan_marker dep;
                       ssi2 = ssi1\<lparr>ssi_coarse_scan_marker_conflict :=
                                     ssi_coarse_scan_marker_conflict ssi1 \<or> coarse,
                                   ssi_state_epoch := epoch1\<rparr>
                   in ((t, rs\<lparr>ars_ssi := ssi2\<rparr>), epoch1,
                       \<lparr>awe_matched_txn_count = Suc (awe_matched_txn_count eff),
                        awe_writer_has_conflict_in = True,
                        awe_coarse_scan_marker_conflict = (awe_coarse_scan_marker_conflict eff \<or> coarse),
                        awe_ssi_effect_epoch = max (awe_ssi_effect_epoch eff) epoch1,
                        awe_first_conflict = select_earlier_active_conflict (awe_first_conflict eff)
                          \<lparr>arc_txn_id = t, arc_read_ts = ars_read_ts rs, arc_dependency = dep,
                           arc_write = w, arc_state_after = ssi2\<rparr>\<rparr>))))"

fun mark_shard ::
  "txn_id \<Rightarrow> lock_resource list \<Rightarrow> read_dependency_shard \<Rightarrow> u64 \<Rightarrow> active_write_conflict_effects
     \<Rightarrow> read_dependency_shard \<times> u64 \<times> active_write_conflict_effects" where
  "mark_shard writer ws [] epoch eff = ([], epoch, eff)"
| "mark_shard writer ws (entry # rest) epoch eff =
     (case mark_reader writer ws entry epoch eff of
        (entry', epoch1, eff1) \<Rightarrow>
          (case mark_shard writer ws rest epoch1 eff1 of
             (rest', epoch2, eff2) \<Rightarrow> (entry' # rest', epoch2, eff2)))"

fun mark_shards ::
  "txn_id \<Rightarrow> lock_resource list \<Rightarrow> read_dependency_shard list \<Rightarrow> u64 \<Rightarrow> active_write_conflict_effects
     \<Rightarrow> read_dependency_shard list \<times> u64 \<times> active_write_conflict_effects" where
  "mark_shards writer ws [] epoch eff = ([], epoch, eff)"
| "mark_shards writer ws (shard # rest) epoch eff =
     (case mark_shard writer ws shard epoch eff of
        (shard', epoch1, eff1) \<Rightarrow>
          (case mark_shards writer ws rest epoch1 eff1 of
             (rest', epoch2, eff2) \<Rightarrow> (shard' # rest', epoch2, eff2)))"

definition mark_write_conflicts ::
  "read_dependency_index \<Rightarrow> txn_id \<Rightarrow> lock_resource list
     \<Rightarrow> read_dependency_index \<times> active_write_conflict_effects" where
  "mark_write_conflicts ix writer ws =
     (if ws = [] then (ix, effects_default)
      else (case mark_shards writer ws (ri_shards ix) (ri_state_epoch ix) effects_default of
              (shards, epoch, eff) \<Rightarrow> (ix\<lparr>ri_shards := shards, ri_state_epoch := epoch\<rparr>, eff)))"

end
