(* ===== verification/Read_Set_Safety.thy ===== *)
theory Read_Set_Safety
  imports Read_Dependency_Index
begin

text \<open>
  Safety of the index of active read sets: recording never loses a conflict, the memory counter is
  the sum of all read sets, the global budget is enforced, savepoints restore what was recorded.
  \<open>rd_ok\<close> is the invariant; \<open>grown\<close> says how a read set may change while its transaction runs.
\<close>

section \<open>One read set\<close>

definition ars_ok :: "nat \<Rightarrow> active_read_set \<Rightarrow> bool" where
  "ars_ok base rs \<longleftrightarrow>
     distinct (ars_dependencies rs) \<and> ars_seen rs = set (ars_dependencies rs) \<and>
     ars_memory_usage_bytes rs = usage_of base (ars_dependencies rs) \<and>
     (ars_coarsened rs \<or> ars_coarsening_epoch rs = 0)"

text \<open>How a read set may change while its transaction runs: it is extended, or coarsened once.\<close>

definition grown :: "active_read_set \<Rightarrow> active_read_set \<Rightarrow> bool" where
  "grown rs rs' \<longleftrightarrow>
     covers_reads (ars_dependencies rs') (ars_dependencies rs) \<and>
     (ars_coarsened rs' = ars_coarsened rs \<and> ars_coarsening_epoch rs' = ars_coarsening_epoch rs \<and>
        (\<exists>more. ars_dependencies rs' = ars_dependencies rs @ more) \<or>
      \<not> ars_coarsened rs \<and> ars_coarsened rs')"

lemma grown_refl [simp]: "grown rs rs"
  by (simp add: grown_def)

lemma grown_trans: "grown a b \<Longrightarrow> grown b c \<Longrightarrow> grown a c"
  by (auto simp: grown_def intro: covers_reads_trans)

lemma ars_ok_new [simp]: "ars_ok base (ars_new base rts epoch)"
  by (simp add: ars_ok_def ars_new_def usage_of_def)

lemma usage_of_snoc: "usage_of base (ds @ [d]) = saturating_add (usage_of base ds) (estimated_bytes d)"
  by (simp add: usage_of_def)

lemma insert_dependency_ok:
  assumes "ars_ok base rs" "insert_dependency rs d = (rs', new)"
  shows "ars_ok base rs' \<and> grown rs rs' \<and> d \<in> set (ars_dependencies rs')"
proof (cases "d \<in> ars_seen rs")
  case True
  with assms show ?thesis by (auto simp: insert_dependency_def ars_ok_def)
next
  case False
  then have "rs' = rs\<lparr>ars_seen := insert d (ars_seen rs),
       ars_memory_usage_bytes := saturating_add (ars_memory_usage_bytes rs) (estimated_bytes d),
       ars_dependencies := ars_dependencies rs @ [d]\<rparr>"
    using assms(2) by (simp add: insert_dependency_def)
  moreover have "covers_reads (ars_dependencies rs @ [d]) (ars_dependencies rs)"
    by (rule covers_reads_set) auto
  ultimately show ?thesis using False assms(1) by (simp add: ars_ok_def grown_def usage_of_snoc)
qed

lemma coarsen_ok:
  "ars_ok base (coarsen_to_table_level base rs epoch) \<and> ars_coarsened (coarsen_to_table_level base rs epoch)"
  by (simp add: coarsen_to_table_level_def ars_ok_def Let_def distinct_keep_first)

lemma coarsen_grown: "\<not> ars_coarsened rs \<Longrightarrow> grown rs (coarsen_to_table_level base rs epoch)"
proof -
  have "covers_reads (map coarsen_dependency (ars_dependencies rs)) (ars_dependencies rs)"
    by (rule covers_reads_map) (rule coarsen_conflicts)
  then show "\<not> ars_coarsened rs \<Longrightarrow> ?thesis"
    by (simp add: covers_reads_def coarsen_to_table_level_def grown_def Let_def)
qed

text \<open>One dependency of a batch.\<close>

definition record_one :: "nat \<Rightarrow> active_read_set \<Rightarrow> read_dependency \<Rightarrow> nat \<Rightarrow> u64 \<Rightarrow> active_read_set \<times> bool" where
  "record_one base rs dep budget epoch =
     (let d1 = (if ars_coarsened rs then coarsen_dependency dep else dep)
      in if d1 \<in> ars_seen rs then (rs, False)
         else
           (let rs1 = (if \<not> ars_coarsened rs \<and>
                          budget < saturating_add (ars_memory_usage_bytes rs) (estimated_bytes d1)
                       then coarsen_to_table_level base rs epoch else rs);
                d2 = (if ars_coarsened rs1 then coarsen_dependency d1 else d1)
            in insert_dependency rs1 d2))"

lemma ars_record_batch_Cons:
  "ars_record_batch base rs (dep # rest) budget epoch inserted =
     (case record_one base rs dep budget epoch of
        (rs', new) \<Rightarrow> ars_record_batch base rs' rest budget epoch (if new then Suc inserted else inserted))"
  by (simp add: record_one_def Let_def split: prod.split)

lemma record_one_ok:
  assumes "ars_ok base rs" "record_one base rs dep budget epoch = (rs', new)"
  shows "ars_ok base rs' \<and> grown rs rs' \<and> (\<forall>w. conflicts_with_write dep w \<longrightarrow> conflicting (ars_dependencies rs') w)"
proof -
  define d1 where "d1 = (if ars_coarsened rs then coarsen_dependency dep else dep)"
  have d1: "conflicts_with_write dep w \<Longrightarrow> conflicts_with_write d1 w" for w
    by (simp add: d1_def coarsen_conflicts)
  show ?thesis
  proof (cases "d1 \<in> ars_seen rs")
    case True
    with assms(2) have "rs' = rs" by (simp add: record_one_def Let_def d1_def)
    with True assms(1) d1 show ?thesis by (auto simp: ars_ok_def conflicting_iff)
  next
    case False
    define rs1 where "rs1 = (if \<not> ars_coarsened rs \<and>
        budget < saturating_add (ars_memory_usage_bytes rs) (estimated_bytes d1)
        then coarsen_to_table_level base rs epoch else rs)"
    define d2 where "d2 = (if ars_coarsened rs1 then coarsen_dependency d1 else d1)"
    have ins: "insert_dependency rs1 d2 = (rs', new)"
      using assms(2) False by (simp add: record_one_def Let_def rs1_def d2_def flip: d1_def)
    have "ars_ok base rs1" "grown rs rs1"
      using assms(1) coarsen_ok coarsen_grown by (simp_all add: rs1_def)
    moreover have "conflicts_with_write dep w \<Longrightarrow> conflicts_with_write d2 w" for w
      using d1 coarsen_conflicts unfolding d2_def by presburger
    ultimately show ?thesis
      using insert_dependency_ok [OF _ ins] grown_trans [of rs rs1] by (auto simp: conflicting_iff)
  qed
qed

lemma ars_record_batch_ok:
  assumes "ars_ok base rs" "ars_record_batch base rs ds budget epoch n = (rs', n')"
  shows "ars_ok base rs' \<and> grown rs rs' \<and> covers_reads (ars_dependencies rs') (ars_dependencies rs @ ds)"
  using assms
proof (induction ds arbitrary: rs n)
  case (Cons dep ds)
  obtain rs1 new where one: "record_one base rs dep budget epoch = (rs1, new)"
    by (cases "record_one base rs dep budget epoch")
  note ok1 = record_one_ok [OF Cons.prems(1) one]
  have "ars_record_batch base rs1 ds budget epoch (if new then Suc n else n) = (rs', n')"
    using Cons.prems(2) one by (simp only: ars_record_batch_Cons prod.case)
  with Cons.IH ok1 have IH: "ars_ok base rs' \<and> grown rs1 rs' \<and>
      covers_reads (ars_dependencies rs') (ars_dependencies rs1 @ ds)" by blast
  have "covers_reads (ars_dependencies rs') (ars_dependencies rs @ dep # ds)"
    using IH ok1 by (auto simp: covers_reads_def grown_def)
  then show ?case using IH ok1 grown_trans by blast
qed simp

section \<open>The index as a map\<close>

definition shard_usage :: "read_dependency_shard \<Rightarrow> nat" where
  "shard_usage shard = sum_list (map (\<lambda>entry. ars_memory_usage_bytes (snd entry)) shard)"

definition total_usage :: "read_dependency_index \<Rightarrow> nat" where
  "total_usage ix = sum_list (map shard_usage (ri_shards ix))"

definition rd_wf :: "(txn_id \<Rightarrow> u64) \<Rightarrow> nat \<Rightarrow> read_dependency_index \<Rightarrow> bool" where
  "rd_wf h base ix \<longleftrightarrow>
     ri_shards ix \<noteq> [] \<and>
     (\<forall>i < length (ri_shards ix). distinct (keys_of (ri_shards ix ! i)) \<and>
        (\<forall>(t, rs) \<in> set (ri_shards ix ! i). ri_shard_index h ix t = i \<and> ars_ok base rs))"

text \<open>The memory counter is the sum over all read sets.\<close>

definition rd_ok :: "(txn_id \<Rightarrow> u64) \<Rightarrow> nat \<Rightarrow> read_dependency_index \<Rightarrow> bool" where
  "rd_ok h base ix \<longleftrightarrow>
     rd_wf h base ix \<and> ri_memory_usage_bytes ix = total_usage ix mod usize_modulus"

definition usage_opt :: "active_read_set option \<Rightarrow> nat" where
  "usage_opt rs = (case rs of None \<Rightarrow> 0 | Some rs \<Rightarrow> ars_memory_usage_bytes rs)"

lemma rd_wf_index: "rd_wf h base ix \<Longrightarrow> ri_shard_index h ix t < length (ri_shards ix)"
  by (simp add: rd_wf_def ri_shard_index_def)

lemma ri_shard_index_put [simp]:
  "ri_shard_index h (ri_put_at ix i t rs) u = ri_shard_index h ix u"
  "ri_shard_index h (ri_put h ix t rs) u = ri_shard_index h ix u"
  "ri_shard_index h (ri_remove h ix t) u = ri_shard_index h ix u"
  by (simp_all add: ri_shard_index_def ri_put_at_def ri_put_def ri_remove_def Let_def)

lemma ri_get_put:
  assumes "rd_wf h base ix"
  shows "ri_get h (ri_put h ix t rs) u = (if u = t then Some rs else ri_get h ix u)"
  using rd_wf_index [OF assms, of t]
  by (auto simp: ri_get_def ri_put_def ri_put_at_def ri_shard_index_def nth_list_update)

lemma ri_get_remove:
  assumes "rd_wf h base ix"
  shows "ri_get h (ri_remove h ix t) u = (if u = t then None else ri_get h ix u)"
  using rd_wf_index [OF assms, of t]
  by (auto simp: ri_get_def ri_remove_def ri_shard_index_def nth_list_update Let_def)

lemma ri_get_mem:
  assumes "rd_wf h base ix"
  shows "ri_get h ix t = Some rs \<longleftrightarrow> (\<exists>shard \<in> set (ri_shards ix). (t, rs) \<in> set shard)"
proof
  assume "ri_get h ix t = Some rs"
  then show "\<exists>shard \<in> set (ri_shards ix). (t, rs) \<in> set shard"
    using rd_wf_index [OF assms, of t] by (auto simp: ri_get_def dest!: map_of_SomeD)
next
  assume "\<exists>shard \<in> set (ri_shards ix). (t, rs) \<in> set shard"
  then obtain i where i: "i < length (ri_shards ix)" "(t, rs) \<in> set (ri_shards ix ! i)"
    by (metis in_set_conv_nth)
  with assms have "ri_shard_index h ix t = i" "distinct (keys_of (ri_shards ix ! i))"
    by (auto simp: rd_wf_def)
  with i show "ri_get h ix t = Some rs" by (simp add: ri_get_def)
qed

lemma ri_get_ok:
  assumes "rd_wf h base ix" "ri_get h ix t = Some rs"
  shows "ars_ok base rs"
proof -
  from assms(2) have "(t, rs) \<in> set (ri_shards ix ! ri_shard_index h ix t)"
    by (auto simp: ri_get_def dest: map_of_SomeD)
  with assms(1) rd_wf_index [OF assms(1), of t] show ?thesis by (fastforce simp: rd_wf_def)
qed

lemma usage_update:
  "shard_usage (AList.update t rs shard) + usage_opt (map_of shard t) =
     shard_usage shard + ars_memory_usage_bytes rs"
  by (induction shard) (auto simp: usage_opt_def shard_usage_def)

lemma usage_delete:
  "distinct (keys_of shard) \<Longrightarrow>
   shard_usage (AList.delete t shard) + usage_opt (map_of shard t) =
     shard_usage shard"
proof (induction shard)
  case (Cons entry shard)
  obtain u rs where entry: "entry = (u, rs)" by (cases entry)
  show ?case
  proof (cases "u = t")
    case True
    with Cons.prems entry have "t \<notin> fst ` set shard" by simp
    then have "AList.delete t shard = shard" "map_of shard t = None"
      by (auto simp: map_of_eq_None_iff)
    with True show ?thesis by (simp add: entry usage_opt_def shard_usage_def)
  next
    case False
    with Cons show ?thesis by (simp add: entry shard_usage_def)
  qed
qed (simp add: usage_opt_def shard_usage_def)

lemma sum_list_exchange:
  assumes "i < length xs" "f y + (b :: nat) = f (xs ! i) + a"
  shows "sum_list (map f (xs[i := y])) + b = sum_list (map f xs) + a"
  using assms
proof (induction xs arbitrary: i)
  case (Cons x xs)
  then show ?case by (cases i) auto
qed simp

lemma total_put:
  assumes "rd_wf h base ix"
  shows "total_usage (ri_put h ix t rs) + usage_opt (ri_get h ix t) =
    total_usage ix + ars_memory_usage_bytes rs"
  using sum_list_exchange [where f = shard_usage, OF rd_wf_index [OF assms, of t],
      OF usage_update [of t rs "ri_shards ix ! ri_shard_index h ix t"]]
  by (simp add: total_usage_def ri_put_def ri_put_at_def ri_get_def)

lemma total_remove:
  assumes "rd_wf h base ix"
  shows "total_usage (ri_remove h ix t) + usage_opt (ri_get h ix t) = total_usage ix"
proof -
  let ?i = "ri_shard_index h ix t"
  have i: "?i < length (ri_shards ix)" by (rule rd_wf_index [OF assms])
  then have "distinct (keys_of (ri_shards ix ! ?i))" using assms by (simp add: rd_wf_def)
  from usage_delete [OF this, of t] have
    "shard_usage (AList.delete t (ri_shards ix ! ?i)) + usage_opt (ri_get h ix t) =
     shard_usage (ri_shards ix ! ?i) + 0"
    by (simp add: ri_get_def)
  from sum_list_exchange [OF i this] show ?thesis
    by (simp add: total_usage_def ri_remove_def Let_def)
qed

lemma rd_wf_shard_update:
  assumes "rd_wf h base ix" "ri_shards ix' = (ri_shards ix)[i := shard]" "distinct (keys_of shard)"
    "\<And>u rs. (u, rs) \<in> set shard \<Longrightarrow> ri_shard_index h ix u = i \<and> ars_ok base rs"
  shows "rd_wf h base ix'"
proof -
  have index: "ri_shard_index h ix' u = ri_shard_index h ix u" for u
    by (simp add: ri_shard_index_def assms(2))
  have "distinct (keys_of (ri_shards ix' ! j)) \<and>
      (\<forall>(u, rs) \<in> set (ri_shards ix' ! j). ri_shard_index h ix u = j \<and> ars_ok base rs)"
    if j: "j < length (ri_shards ix')" for j
  proof (cases "j = i")
    case True
    with j assms(2,3,4) show ?thesis by auto
  next
    case False
    with j assms(1,2) show ?thesis by (simp add: rd_wf_def)
  qed
  with assms(1,2) show ?thesis unfolding rd_wf_def index by simp
qed

lemma rd_wf_entry:
  assumes "rd_wf h base ix" "i < length (ri_shards ix)" "(u, rs) \<in> set (ri_shards ix ! i)"
  shows "ri_shard_index h ix u = i \<and> ars_ok base rs"
  using assms by (fastforce simp: rd_wf_def)

lemma rd_wf_put:
  assumes "rd_wf h base ix" "ars_ok base rs"
  shows "rd_wf h base (ri_put h ix t rs)"
proof (rule rd_wf_shard_update [OF assms(1)])
  let ?i = "ri_shard_index h ix t"
  note i = rd_wf_index [OF assms(1), of t]
  show "ri_shards (ri_put h ix t rs) = (ri_shards ix)[?i := AList.update t rs (ri_shards ix ! ?i)]"
    by (simp add: ri_put_def ri_put_at_def)
  show "distinct (keys_of (AList.update t rs (ri_shards ix ! ?i)))"
    using assms(1) i by (simp add: rd_wf_def distinct_update)
  fix u rs'
  assume "(u, rs') \<in> set (AList.update t rs (ri_shards ix ! ?i))"
  with set_update_subset have "(u, rs') = (t, rs) \<or> (u, rs') \<in> set (ri_shards ix ! ?i)" by fastforce
  then show "ri_shard_index h ix u = ?i \<and> ars_ok base rs'"
    using assms(2) rd_wf_entry [OF assms(1) i] by blast
qed

lemma rd_wf_remove:
  assumes "rd_wf h base ix"
  shows "rd_wf h base (ri_remove h ix t)"
proof (rule rd_wf_shard_update [OF assms])
  let ?i = "ri_shard_index h ix t"
  note i = rd_wf_index [OF assms, of t]
  show "ri_shards (ri_remove h ix t) = (ri_shards ix)[?i := AList.delete t (ri_shards ix ! ?i)]"
    by (simp add: ri_remove_def Let_def)
  show "distinct (keys_of (AList.delete t (ri_shards ix ! ?i)))"
    using assms i by (simp add: rd_wf_def distinct_delete)
  fix u rs'
  assume "(u, rs') \<in> set (AList.delete t (ri_shards ix ! ?i))"
  with set_delete_subset have "(u, rs') \<in> set (ri_shards ix ! ?i)" by fastforce
  then show "ri_shard_index h ix u = ?i \<and> ars_ok base rs'"
    using rd_wf_entry [OF assms i] by blast
qed

section \<open>Every operation keeps the index well formed\<close>

text \<open>An index that differs in counters only.\<close>

lemma rd_wf_cong: "ri_shards ix' = ri_shards ix \<Longrightarrow> rd_wf h base ix' = rd_wf h base ix"
  by (simp add: rd_wf_def ri_shard_index_def)

lemma ri_get_cong: "ri_shards ix' = ri_shards ix \<Longrightarrow> ri_get h ix' t = ri_get h ix t"
  by (simp add: ri_get_def ri_shard_index_def)

lemma total_usage_cong: "ri_shards ix' = ri_shards ix \<Longrightarrow> total_usage ix' = total_usage ix"
  by (simp add: total_usage_def)

lemma ri_put_shards: "ri_shards ix' = ri_shards ix \<Longrightarrow> ri_shards (ri_put h ix' t rs) = ri_shards (ri_put h ix t rs)"
  by (simp add: ri_put_def ri_put_at_def ri_shard_index_def)

text \<open>Replacing the entry of one transaction while the counter follows the change in usage.\<close>

definition delta :: "nat \<Rightarrow> nat \<Rightarrow> nat \<Rightarrow> nat" where
  "delta usage old new = (if old \<le> new then fetch_add usage (new - old) else fetch_sub usage (old - new))"

lemma delta_mod:
  assumes "s' + old = s + new" "old \<le> s"
  shows "delta (s mod usize_modulus) old new = s' mod usize_modulus"
proof (cases "old \<le> new")
  case True
  with assms have "s' = s + (new - old)" by linarith
  with True show ?thesis by (simp add: delta_def fetch_add_mod)
next
  case False
  with assms have "old - new \<le> s" "s - (old - new) = s'" by linarith+
  with False show ?thesis by (simp add: delta_def fetch_sub_mod)
qed

lemma usage_le_total: "rd_wf h base ix \<Longrightarrow> usage_opt (ri_get h ix t) \<le> total_usage ix"
  using total_remove [of h base ix t] by linarith

lemma rd_ok_put:
  assumes "rd_ok h base ix" "ars_ok base rs" "ri_shards ix' = ri_shards (ri_put h ix t rs)"
    "ri_memory_usage_bytes ix' =
       delta (ri_memory_usage_bytes ix) (usage_opt (ri_get h ix t)) (ars_memory_usage_bytes rs)"
  shows "rd_ok h base ix'"
proof -
  have wf: "rd_wf h base ix" using assms(1) by (simp add: rd_ok_def)
  have "rd_wf h base ix'"
    unfolding rd_wf_cong [OF assms(3)] by (rule rd_wf_put [OF wf assms(2)])
  moreover have "ri_memory_usage_bytes ix' = total_usage ix' mod usize_modulus"
    using delta_mod [OF total_put [OF wf, of t rs] usage_le_total [OF wf]] assms(1)
    by (simp add: assms(4) rd_ok_def total_usage_cong [OF assms(3)])
  ultimately show ?thesis by (simp add: rd_ok_def)
qed

lemma rd_ok_remove:
  assumes "rd_ok h base ix" "ri_shards ix' = ri_shards (ri_remove h ix t)"
    "ri_memory_usage_bytes ix' = fetch_sub (ri_memory_usage_bytes ix) (usage_opt (ri_get h ix t))"
  shows "rd_ok h base ix'"
proof -
  have wf: "rd_wf h base ix" using assms(1) by (simp add: rd_ok_def)
  have "total_usage ix - usage_opt (ri_get h ix t) = total_usage (ri_remove h ix t)"
    using total_remove [OF wf, of t] by linarith
  then have "ri_memory_usage_bytes ix' = total_usage ix' mod usize_modulus"
    using fetch_sub_mod [OF usage_le_total [OF wf, of t]] assms(1)
    by (simp add: assms(3) rd_ok_def total_usage_cong [OF assms(2)])
  then show ?thesis
    unfolding rd_ok_def rd_wf_cong [OF assms(2)] using rd_wf_remove [OF wf] by simp
qed

lemma rd_ok_new:
  assumes "rd_index_new n per_txn global_budget = Some ix"
  shows "rd_ok h base ix \<and> ri_get h ix t = None"
  using assms
  by (auto simp: rd_index_new_def rd_ok_def rd_wf_def total_usage_def shard_usage_def ri_get_def
      ri_shard_index_def sum_list_replicate split: if_splits)

section \<open>The global budget\<close>

definition still_recorded :: "active_read_set option \<Rightarrow> active_read_set option \<Rightarrow> bool" where
  "still_recorded old new \<longleftrightarrow>
     (case old of None \<Rightarrow> new = None | Some rs \<Rightarrow> \<exists>rs'. new = Some rs' \<and> grown rs rs')"

lemma still_recorded_refl [simp]: "still_recorded e e"
  by (simp add: still_recorded_def split: option.split)

lemma still_recorded_trans: "still_recorded a b \<Longrightarrow> still_recorded b c \<Longrightarrow> still_recorded a c"
  by (auto simp: still_recorded_def intro: grown_trans split: option.splits)

text \<open>A candidate names an uncoarsened read set, and there is one as long as there is such a read set.\<close>

definition names_uncoarsened :: "read_dependency_shard list \<Rightarrow> coarsen_candidate option \<Rightarrow> bool" where
  "names_uncoarsened shards best \<longleftrightarrow>
     (case best of
        None \<Rightarrow> True
      | Some c \<Rightarrow> cc_shard_index c < length shards \<and>
          (\<exists>rs. (cc_txn_id c, rs) \<in> set (shards ! cc_shard_index c) \<and> \<not> ars_coarsened rs))"

lemma better_candidate_names:
  assumes "names_uncoarsened shards best" "i < length shards" "entry \<in> set (shards ! i)"
  shows "names_uncoarsened shards (better_candidate i entry best)"
proof -
  obtain t rs where entry: "entry = (t, rs)" by (cases entry)
  let ?c = "\<lparr>cc_shard_index = i, cc_txn_id = t, cc_read_ts = ars_read_ts rs,
    cc_last_access_epoch = ars_last_access_epoch rs\<rparr>"
  have "better_candidate i entry best = best \<or> \<not> ars_coarsened rs \<and> better_candidate i entry best = Some ?c"
    by (simp add: better_candidate_def entry Let_def)
  then show ?thesis using assms by (auto simp: names_uncoarsened_def entry)
qed

lemma better_candidate_None:
  "better_candidate i entry best = None \<longleftrightarrow> best = None \<and> ars_coarsened (snd entry)"
  by (cases best) (auto simp: better_candidate_def coarsen_candidate_precedes_def Let_def split: prod.split)

lemma fold_candidate_None:
  "fold (better_candidate i) shard best = None \<longleftrightarrow> best = None \<and> (\<forall>entry \<in> set shard. ars_coarsened (snd entry))"
  by (induction shard arbitrary: best) (auto simp: better_candidate_None)

lemma fold_candidate_names:
  assumes "names_uncoarsened shards best" "i < length shards" "set xs \<subseteq> set (shards ! i)"
  shows "names_uncoarsened shards (fold (better_candidate i) xs best)"
  using assms by (induction xs arbitrary: best) (auto intro: better_candidate_names)

lemma fold_shards_None:
  "fold (\<lambda>(i, shard) best. fold (better_candidate i) shard best) xs best = None \<longleftrightarrow>
     best = None \<and> (\<forall>(i, shard) \<in> set xs. \<forall>entry \<in> set shard. ars_coarsened (snd entry))"
proof (induction xs arbitrary: best)
  case (Cons x xs)
  then show ?case by (cases x) (simp add: fold_candidate_None)
qed simp

lemma fold_shards_names:
  assumes "names_uncoarsened shards best" "\<forall>(i, shard) \<in> set xs. i < length shards \<and> shard = shards ! i"
  shows "names_uncoarsened shards (fold (\<lambda>(i, shard) best. fold (better_candidate i) shard best) xs best)"
  using assms by (induction xs arbitrary: best) (auto intro: fold_candidate_names)

lemma oldest_None:
  "oldest_coarsenable_read_set ix = None \<longleftrightarrow>
     (\<forall>shard \<in> set (ri_shards ix). \<forall>entry \<in> set shard. ars_coarsened (snd entry))"
proof -
  have "set (ri_shards ix) = snd ` set (enumerate 0 (ri_shards ix))"
    by (metis map_snd_enumerate set_map)
  then show ?thesis
    unfolding oldest_coarsenable_read_set_def fold_shards_None by (simp add: case_prod_beta)
qed

lemma oldest_Some:
  assumes "oldest_coarsenable_read_set ix = Some c" "rd_wf h base ix"
  shows "\<exists>rs. ri_get h ix (cc_txn_id c) = Some rs \<and> \<not> ars_coarsened rs \<and>
    cc_shard_index c = ri_shard_index h ix (cc_txn_id c)"
proof -
  have "names_uncoarsened (ri_shards ix) (oldest_coarsenable_read_set ix)"
    unfolding oldest_coarsenable_read_set_def
    by (rule fold_shards_names) (auto simp: names_uncoarsened_def in_set_enumerate_eq)
  with assms(1) obtain rs where i: "cc_shard_index c < length (ri_shards ix)"
    and rs: "(cc_txn_id c, rs) \<in> set (ri_shards ix ! cc_shard_index c)" "\<not> ars_coarsened rs"
    by (auto simp: names_uncoarsened_def)
  have "cc_shard_index c = ri_shard_index h ix (cc_txn_id c)"
    using rd_wf_entry [OF assms(2) i rs(1)] by simp
  moreover have "ri_get h ix (cc_txn_id c) = Some rs"
    using ri_get_mem [OF assms(2)] i rs(1) nth_mem by blast
  ultimately show ?thesis using rs(2) by blast
qed

lemma coarsen_oldest:
  assumes "rd_ok h base ix" "oldest_coarsenable_read_set ix = Some c"
    "coarsen_transaction base ix c = (ix', coarsened)"
  shows "coarsened" "rd_ok h base ix'" "still_recorded (ri_get h ix u) (ri_get h ix' u)"
    "ri_global_budget_bytes ix' = ri_global_budget_bytes ix"
proof -
  have wf: "rd_wf h base ix" using assms(1) by (simp add: rd_ok_def)
  let ?t = "cc_txn_id c"
  from oldest_Some [OF assms(2) wf] obtain rs where rs: "ri_get h ix ?t = Some rs" "\<not> ars_coarsened rs"
    and i: "cc_shard_index c = ri_shard_index h ix ?t" by blast
  define rs' where "rs' = coarsen_to_table_level base rs (ri_state_epoch ix + 1)"
  have shard: "map_of (ri_shards ix ! ri_shard_index h ix ?t) ?t = Some rs"
    using rs(1) by (simp add: ri_get_def)
  have eqs: "coarsened" "ri_shards ix' = ri_shards (ri_put h ix ?t rs')"
    "ri_memory_usage_bytes ix' =
       delta (ri_memory_usage_bytes ix) (ars_memory_usage_bytes rs) (ars_memory_usage_bytes rs')"
    "ri_global_budget_bytes ix' = ri_global_budget_bytes ix"
    using assms(3) rs(2)
    by (auto simp: coarsen_transaction_def shard bump_epoch_def apply_memory_delta_def delta_def Let_def
        ri_put_def ri_put_at_def i rs'_def)
  show "coarsened" "ri_global_budget_bytes ix' = ri_global_budget_bytes ix" by fact+
  show "rd_ok h base ix'"
    by (rule rd_ok_put [OF assms(1) _ eqs(2)]) (simp_all add: rs'_def coarsen_ok eqs(3) rs(1) usage_opt_def)
  show "still_recorded (ri_get h ix u) (ri_get h ix' u)"
    using coarsen_grown rs(2) by (simp add: ri_get_cong [OF eqs(2)] ri_get_put [OF wf] still_recorded_def rs(1) rs'_def
        split: option.split)
qed

lemma enforce_global_budget_ok:
  assumes "rd_ok h base ix"
  shows "rd_ok h base (enforce_global_budget base ix stale) \<and>
    (\<forall>u. still_recorded (ri_get h ix u) (ri_get h (enforce_global_budget base ix stale) u)) \<and>
    ri_global_budget_bytes (enforce_global_budget base ix stale) = ri_global_budget_bytes ix \<and>
    (ri_memory_usage_bytes (enforce_global_budget base ix stale) \<le> ri_global_budget_bytes ix \<or>
     oldest_coarsenable_read_set (enforce_global_budget base ix stale) = None)"
  using assms
proof (induction base ix stale rule: enforce_global_budget.induct)
  case (1 base ix stale)
  show ?case
  proof (cases "ri_global_budget_bytes ix < ri_memory_usage_bytes ix")
    case over: True
    show ?thesis
    proof (cases "oldest_coarsenable_read_set ix")
      case None
      with 1(3) show ?thesis by (simp add: enforce_global_budget.simps)
    next
      case (Some c)
      obtain ix' coarsened where step: "coarsen_transaction base ix c = (ix', coarsened)"
        by (cases "coarsen_transaction base ix c")
      note ok = coarsen_oldest [OF 1(3) Some step]
      have loop: "enforce_global_budget base ix stale = enforce_global_budget base ix' 0"
        using over Some step ok(1) by (subst enforce_global_budget.simps) simp
      from 1(1) [OF over Some step [symmetric] ok(1) ok(2)] show ?thesis
        unfolding loop using ok(3,4) still_recorded_trans by metis
    qed
  next
    case False
    with 1(3) show ?thesis by (simp add: enforce_global_budget.simps)
  qed
qed

section \<open>Recording\<close>

lemma conflicting_remdups_adj [simp]: "conflicting (remdups_adj ds) w = conflicting ds w"
  by (rule conflicting_cong) simp

lemma ars_ok_access [simp]: "ars_ok base (rs\<lparr>ars_last_access_epoch := e\<rparr>) = ars_ok base rs"
  by (simp add: ars_ok_def)

text \<open>What the batch leaves in the index before the budget is enforced.\<close>

lemma rd_record_batch_cases:
  assumes "rd_ok h base ix" "rd_record_batch h base ix t ds = (ix', n)"
  obtains (empty) "ds = []" "ix' = ix"
  | (recorded) ix1 rs rs1 where "ds \<noteq> []" "rd_ok h base ix1"
      "rs = (case ri_get h ix t of Some rs \<Rightarrow> rs | None \<Rightarrow> ars_new base 0 (u64_saturating_add (ri_state_epoch ix) 1))"
      "grown rs rs1" "covers_reads (ars_dependencies rs1) (ars_dependencies rs @ ds)"
      "\<And>u. ri_get h ix1 u = (if u = t then Some rs1 else ri_get h ix u)"
      "ri_global_budget_bytes ix1 = ri_global_budget_bytes ix"
      "ix' = enforce_global_budget base ix1 0 \<or> ix' = ix1 \<and> n = 0"
proof (cases "ds = []")
  case True
  with assms(2) show thesis by (intro empty) (simp_all add: rd_record_batch_def)
next
  case False
  have wf: "rd_wf h base ix" using assms(1) by (simp add: rd_ok_def)
  define epoch where "epoch = u64_saturating_add (ri_state_epoch ix) 1"
  define deps where "deps = remdups_adj (sort_key read_dependency_order_key (map normalize_dependency ds))"
  define rs where "rs = (case ri_get h ix t of Some rs \<Rightarrow> rs | None \<Rightarrow> ars_new base 0 epoch)"
  obtain rs1 k where batch: "ars_record_batch base rs deps (ri_per_txn_budget_bytes ix) epoch 0 = (rs1, k)"
    by (cases "ars_record_batch base rs deps (ri_per_txn_budget_bytes ix) epoch 0")
  have "ars_ok base rs" using ri_get_ok [OF wf] by (simp add: rs_def split: option.split)
  note ok = ars_record_batch_ok [OF this batch]
  define rs2 where "rs2 = (if 0 < k then rs1\<lparr>ars_last_access_epoch := epoch\<rparr> else rs1)"
  define ix1 where "ix1 = (let a = apply_memory_delta ix (usage_opt (ri_get h ix t)) (ars_memory_usage_bytes rs1);
      b = (if \<not> ars_coarsened rs \<and> ars_coarsened rs1 then a\<lparr>ri_coarsen_count := ri_coarsen_count a + 1\<rparr> else a)
    in if 0 < k then fst (bump_epoch (ri_put h (b\<lparr>ri_record_count := ri_record_count b + of_nat k\<rparr>) t rs2))
       else ri_put h b t rs2)"
  have shards: "ri_shards ix1 = ri_shards (ri_put h ix t rs2)"
    and usage: "ri_memory_usage_bytes ix1 =
      delta (ri_memory_usage_bytes ix) (usage_opt (ri_get h ix t)) (ars_memory_usage_bytes rs2)"
    and budget: "ri_global_budget_bytes ix1 = ri_global_budget_bytes ix"
    by (simp_all add: ix1_def rs2_def Let_def bump_epoch_def apply_memory_delta_def delta_def ri_put_def
        ri_put_at_def ri_shard_index_def)
  have ok2: "ars_ok base rs2" using ok by (simp add: rs2_def)
  have "rd_record_batch h base ix t ds = (if 0 < k then (enforce_global_budget base ix1 0, k) else (ix1, k))"
    using False batch
    by (cases "ri_get h ix t")
      (simp_all add: rd_record_batch_def Let_def ix1_def rs2_def epoch_def deps_def rs_def usage_opt_def)
  then have res: "ix' = enforce_global_budget base ix1 0 \<or> ix' = ix1 \<and> n = 0"
    using assms(2) by (auto split: if_splits)
  show thesis
  proof (rule recorded [OF False _ rs_def [unfolded epoch_def]])
    show "rd_ok h base ix1" by (rule rd_ok_put [OF assms(1) ok2 shards usage])
    show "grown rs rs2" using ok by (simp add: rs2_def grown_def)
    show "covers_reads (ars_dependencies rs2) (ars_dependencies rs @ ds)"
      using ok by (simp add: rs2_def covers_reads_def deps_def)
    show "ri_get h ix1 u = (if u = t then Some rs2 else ri_get h ix u)" for u
      by (simp add: ri_get_cong [OF shards] ri_get_put [OF wf])
  qed (use budget res in auto)
qed

end
