(* ===== verification/Read_Set_Runs.thy ===== *)
theory Read_Set_Runs
  imports Read_Set_Safety
begin

text \<open>
  Runs of the index of active read sets as sequences of its operations, by any number of
  transactions, and the properties of every such run.
\<close>

section \<open>Runs of the index\<close>

datatype rd_op =
  Register txn_id read_ts
| Release txn_id
| Record_Batch txn_id "read_dependency list"
| Rollback txn_id read_dependency_index_mark
| Mark_In txn_id
| Mark_Out txn_id
| Mark_Dangerous txn_id
| Mark_Coarse txn_id
| Mark_Writes txn_id "lock_resource list"

fun rd_apply :: "(txn_id \<Rightarrow> u64) \<Rightarrow> nat \<Rightarrow> rd_op \<Rightarrow> read_dependency_index \<Rightarrow> read_dependency_index" where
  "rd_apply h base (Register t rts) ix = register_transaction h base ix t rts"
| "rd_apply h base (Release t) ix = fst (release_transaction h ix t)"
| "rd_apply h base (Record_Batch t ds) ix = fst (rd_record_batch h base ix t ds)"
| "rd_apply h base (Rollback t mark) ix = fst (rd_rollback_to_savepoint h base ix t mark)"
| "rd_apply h base (Mark_In t) ix = fst (mark_txn_conflict_in h ix t)"
| "rd_apply h base (Mark_Out t) ix = fst (mark_txn_conflict_out h ix t)"
| "rd_apply h base (Mark_Dangerous t) ix = fst (mark_txn_dangerous h ix t)"
| "rd_apply h base (Mark_Coarse t) ix = fst (mark_txn_coarse_scan_conflict h ix t)"
| "rd_apply h base (Mark_Writes t ws) ix = fst (mark_write_conflicts ix t ws)"

definition rd_run :: "(txn_id \<Rightarrow> u64) \<Rightarrow> nat \<Rightarrow> rd_op list \<Rightarrow> read_dependency_index \<Rightarrow> read_dependency_index" where
  "rd_run h base ops ix = fold (rd_apply h base) ops ix"

fun forgets :: "txn_id \<Rightarrow> rd_op \<Rightarrow> bool" where
  "forgets t (Release u) \<longleftrightarrow> u = t"
| "forgets t (Rollback u mark) \<longleftrightarrow> u = t"
| "forgets t _ \<longleftrightarrow> False"

fun recorded_by :: "txn_id \<Rightarrow> rd_op list \<Rightarrow> read_dependency list" where
  "recorded_by t [] = []"
| "recorded_by t (Record_Batch u ds # ops) = (if u = t then ds @ recorded_by t ops else recorded_by t ops)"
| "recorded_by t (_ # ops) = recorded_by t ops"

section \<open>The other operations\<close>

text \<open>A change of an entry that leaves its reads alone.\<close>

definition same_reads :: "active_read_set \<Rightarrow> active_read_set \<Rightarrow> bool" where
  "same_reads rs rs' \<longleftrightarrow>
     ars_dependencies rs' = ars_dependencies rs \<and> ars_seen rs' = ars_seen rs \<and>
     ars_memory_usage_bytes rs' = ars_memory_usage_bytes rs \<and> ars_coarsened rs' = ars_coarsened rs \<and>
     ars_coarsening_epoch rs' = ars_coarsening_epoch rs"

lemma same_reads_ok: "same_reads rs rs' \<Longrightarrow> ars_ok base rs \<Longrightarrow> ars_ok base rs'"
  by (simp add: same_reads_def ars_ok_def)

lemma same_reads_grown: "same_reads rs rs' \<Longrightarrow> grown rs rs'"
  by (simp add: same_reads_def grown_def)

lemma put_same_reads:
  assumes "rd_ok h base ix" "ri_get h ix t = Some rs" "same_reads rs rs'"
    "ri_shards ix' = ri_shards (ri_put h ix t rs')" "ri_memory_usage_bytes ix' = ri_memory_usage_bytes ix"
  shows "rd_ok h base ix' \<and> still_recorded (ri_get h ix u) (ri_get h ix' u)"
proof -
  have wf: "rd_wf h base ix" using assms(1) by (simp add: rd_ok_def)
  have "ri_memory_usage_bytes ix < usize_modulus"
    using assms(1) by (simp add: rd_ok_def usize_modulus_def)
  then have "rd_ok h base ix'"
    using assms ri_get_ok [OF wf assms(2)]
    by (intro rd_ok_put [OF assms(1) _ assms(4)])
      (auto intro: same_reads_ok simp: usage_opt_def delta_def fetch_add_def same_reads_def)
  moreover have "still_recorded (ri_get h ix u) (ri_get h ix' u)"
    using same_reads_grown [OF assms(3)] assms(2)
    by (simp add: ri_get_cong [OF assms(4)] ri_get_put [OF wf] still_recorded_def split: option.split)
  ultimately show ?thesis ..
qed

lemma mark_txn_state_ok:
  assumes "rd_ok h base ix"
  shows "rd_ok h base (fst (mark_txn_state h ix t f)) \<and>
    still_recorded (ri_get h ix u) (ri_get h (fst (mark_txn_state h ix t f)) u)"
proof (cases "ri_get h ix t")
  case None
  with assms show ?thesis by (simp add: mark_txn_state_def)
next
  case (Some rs)
  show ?thesis
    by (rule put_same_reads [OF assms Some])
      (auto simp: mark_txn_state_def Some bump_epoch_def Let_def ri_put_def ri_put_at_def ri_shard_index_def
        same_reads_def)
qed

lemma register_transaction_ok:
  assumes "rd_ok h base ix"
  shows "rd_ok h base (register_transaction h base ix t rts) \<and>
    (ri_get h ix u \<noteq> None \<longrightarrow> still_recorded (ri_get h ix u) (ri_get h (register_transaction h base ix t rts) u)) \<and>
    (ri_get h ix u = None \<longrightarrow> ri_get h (register_transaction h base ix t rts) u =
       (if u = t then Some (ars_new base rts (ri_state_epoch ix)) else None))"
proof (cases "ri_get h ix t")
  case (Some rs)
  have "rd_ok h base (register_transaction h base ix t rts) \<and>
    still_recorded (ri_get h ix u) (ri_get h (register_transaction h base ix t rts) u)"
    by (rule put_same_reads [OF assms Some])
      (auto simp: register_transaction_def Some ri_put_def ri_put_at_def same_reads_def)
  then show ?thesis using Some by (auto simp: still_recorded_def)
next
  case None
  let ?ix = "register_transaction h base ix t rts"
  have wf: "rd_wf h base ix" using assms by (simp add: rd_ok_def)
  have shards: "ri_shards ?ix = ri_shards (ri_put h ix t (ars_new base rts (ri_state_epoch ix)))"
    by (simp add: register_transaction_def None bump_epoch_def Let_def ri_put_def ri_put_at_def ri_shard_index_def)
  have "rd_ok h base ?ix"
    by (rule rd_ok_put [OF assms _ shards])
      (simp_all add: register_transaction_def None bump_epoch_def Let_def usage_opt_def delta_def ri_put_def
        ri_put_at_def)
  moreover have "ri_get h ?ix u = (if u = t then Some (ars_new base rts (ri_state_epoch ix)) else ri_get h ix u)"
    by (simp add: ri_get_cong [OF shards] ri_get_put [OF wf])
  ultimately show ?thesis using None by simp
qed

lemma release_transaction_ok:
  assumes "rd_ok h base ix"
  shows "rd_ok h base (fst (release_transaction h ix t)) \<and>
    ri_get h (fst (release_transaction h ix t)) u = (if u = t then None else ri_get h ix u)"
proof (cases "ri_get h ix t")
  case None
  with assms show ?thesis by (simp add: release_transaction_def)
next
  case (Some rs)
  let ?ix = "fst (release_transaction h ix t)"
  have wf: "rd_wf h base ix" using assms by (simp add: rd_ok_def)
  have shards: "ri_shards ?ix = ri_shards (ri_remove h ix t)"
    by (simp add: release_transaction_def Some bump_epoch_def Let_def)
  have "rd_ok h base ?ix"
    by (rule rd_ok_remove [OF assms shards])
      (simp add: release_transaction_def Some bump_epoch_def Let_def usage_opt_def ri_remove_def)
  then show ?thesis by (simp add: ri_get_cong [OF shards] ri_get_remove [OF wf])
qed

lemma first_conflicting_write_iff:
  "first_conflicting_write d ws = None \<longleftrightarrow> (\<forall>w \<in> set ws. \<not> conflicts_with_write d w)"
  by (induction ws) auto

lemma first_conflicting_read_iff:
  "first_conflicting_read ds ws = None \<longleftrightarrow> (\<forall>w \<in> set ws. \<not> conflicting ds w)"
proof (induction ds)
  case (Cons d ds)
  then show ?case
    using first_conflicting_write_iff [of d ws] by (cases "first_conflicting_write d ws") auto
qed simp

text \<open>What marking the readers of some writes does to the entry of one transaction.\<close>

definition is_reader :: "txn_id \<Rightarrow> lock_resource list \<Rightarrow> txn_id \<Rightarrow> active_read_set \<Rightarrow> bool" where
  "is_reader writer ws t rs \<longleftrightarrow> t \<noteq> writer \<and> (\<exists>w \<in> set ws. conflicting (ars_dependencies rs) w)"

definition marks :: "txn_id \<Rightarrow> lock_resource list \<Rightarrow> txn_id \<Rightarrow> active_read_set \<Rightarrow> active_read_set \<Rightarrow> bool" where
  "marks writer ws t rs rs' \<longleftrightarrow>
     same_reads rs rs' \<and>
     (if is_reader writer ws t rs
      then ssi_rw_conflict_out (ars_ssi rs') \<and>
        ssi_rw_conflict_in (ars_ssi rs') = ssi_rw_conflict_in (ars_ssi rs) \<and>
        ssi_dangerous_structure (ars_ssi rs') =
          (ssi_dangerous_structure (ars_ssi rs) \<or> ssi_rw_conflict_in (ars_ssi rs))
      else ars_ssi rs' = ars_ssi rs)"

abbreviation marks_entry where
  "marks_entry writer ws \<equiv> \<lambda>entry entry'. fst entry' = fst entry \<and> marks writer ws (fst entry) (snd entry) (snd entry')"

lemma mark_reader_entry:
  assumes "mark_reader writer ws (t, rs) epoch eff = (entry', epoch', eff')"
  shows "(\<exists>rs'. entry' = (t, rs') \<and> marks writer ws t rs rs') \<and>
    awe_writer_has_conflict_in eff' = (awe_writer_has_conflict_in eff \<or> is_reader writer ws t rs)"
proof (cases "is_reader writer ws t rs")
  case True
  with first_conflicting_read_iff [of "ars_dependencies rs" ws] obtain d w where
    "first_conflicting_read (ars_dependencies rs) ws = Some (d, w)" "t \<noteq> writer"
    by (fastforce simp: is_reader_def)
  with True assms show ?thesis
    by (auto simp: mark_reader_def marks_def same_reads_def Let_def)
next
  case False
  with first_conflicting_read_iff [of "ars_dependencies rs" ws]
  have "t = writer \<or> first_conflicting_read (ars_dependencies rs) ws = None" by (auto simp: is_reader_def)
  then have "mark_reader writer ws (t, rs) epoch eff = ((t, rs), epoch, eff)"
    by (auto simp: mark_reader_def)
  with False assms show ?thesis by (auto simp: marks_def same_reads_def)
qed

lemma mark_shard_entries:
  "mark_shard writer ws shard epoch eff = (shard', epoch', eff') \<Longrightarrow>
     list_all2 (marks_entry writer ws) shard shard' \<and>
     awe_writer_has_conflict_in eff' =
       (awe_writer_has_conflict_in eff \<or> (\<exists>(t, rs) \<in> set shard. is_reader writer ws t rs))"
proof (induction shard arbitrary: epoch eff shard' epoch' eff')
  case (Cons entry shard)
  obtain t rs where entry: "entry = (t, rs)" by (cases entry)
  obtain entry1 epoch1 eff1 where one: "mark_reader writer ws (t, rs) epoch eff = (entry1, epoch1, eff1)"
    by (cases "mark_reader writer ws (t, rs) epoch eff")
  obtain rest epoch2 eff2 where more: "mark_shard writer ws shard epoch1 eff1 = (rest, epoch2, eff2)"
    by (cases "mark_shard writer ws shard epoch1 eff1")
  show ?case
    using Cons.prems Cons.IH [OF more] mark_reader_entry [OF one] one more by (auto simp: entry)
qed simp

lemma mark_shards_entries:
  "mark_shards writer ws shards epoch eff = (shards', epoch', eff') \<Longrightarrow>
     list_all2 (list_all2 (marks_entry writer ws)) shards shards' \<and>
     awe_writer_has_conflict_in eff' =
       (awe_writer_has_conflict_in eff \<or> (\<exists>shard \<in> set shards. \<exists>(t, rs) \<in> set shard. is_reader writer ws t rs))"
proof (induction shards arbitrary: epoch eff shards' epoch' eff')
  case (Cons shard shards)
  obtain shard1 epoch1 eff1 where one: "mark_shard writer ws shard epoch eff = (shard1, epoch1, eff1)"
    by (cases "mark_shard writer ws shard epoch eff")
  obtain rest epoch2 eff2 where more: "mark_shards writer ws shards epoch1 eff1 = (rest, epoch2, eff2)"
    by (cases "mark_shards writer ws shards epoch1 eff1")
  show ?case
    using Cons.prems Cons.IH [OF more] mark_shard_entries [OF one] one more by auto
qed simp

lemma marks_shard_map_of:
  assumes "list_all2 (marks_entry writer ws) shard shard'"
  shows "rel_option (marks writer ws t) (map_of shard t) (map_of shard' t)"
  using assms by (induction shard shard' rule: list_all2_induct) auto

lemma marks_shard_keys:
  assumes "list_all2 (marks_entry writer ws) shard shard'"
  shows "keys_of shard' = keys_of shard \<and> shard_usage shard' = shard_usage shard"
  using assms
  by (induction shard shard' rule: list_all2_induct) (auto simp: shard_usage_def marks_def same_reads_def)

lemma marks_shard_mem:
  assumes "list_all2 (marks_entry writer ws) shard shard'" "(t, rs') \<in> set shard'"
  shows "\<exists>rs. (t, rs) \<in> set shard \<and> same_reads rs rs'"
  using assms by (induction shard shard' rule: list_all2_induct) (auto simp: marks_def)

lemma marks_shards_ok:
  assumes "rd_ok h base ix" "ri_memory_usage_bytes ix' = ri_memory_usage_bytes ix"
    "list_all2 (list_all2 (marks_entry writer ws)) (ri_shards ix) (ri_shards ix')"
  shows "rd_ok h base ix' \<and> rel_option (marks writer ws u) (ri_get h ix u) (ri_get h ix' u)"
proof -
  have wf: "rd_wf h base ix" using assms(1) by (simp add: rd_ok_def)
  have len: "length (ri_shards ix') = length (ri_shards ix)" using assms(3) by (simp add: list_all2_lengthD)
  have index: "ri_shard_index h ix' v = ri_shard_index h ix v" for v by (simp add: ri_shard_index_def len)
  note at = list_all2_nthD [OF assms(3)]
  have "ri_shard_index h ix v = i \<and> ars_ok base rs'"
    if i: "i < length (ri_shards ix)" "(v, rs') \<in> set (ri_shards ix' ! i)" for i v rs'
  proof -
    obtain rs where "(v, rs) \<in> set (ri_shards ix ! i)" "same_reads rs rs'"
      using marks_shard_mem [OF at [OF i(1)] i(2)] by blast
    with rd_wf_entry [OF wf i(1)] same_reads_ok show ?thesis by blast
  qed
  moreover have "distinct (keys_of (ri_shards ix' ! i))" if "i < length (ri_shards ix)" for i
    using wf that marks_shard_keys [OF at [OF that]] by (simp add: rd_wf_def)
  moreover have "ri_shards ix' \<noteq> []" using wf len by (auto simp: rd_wf_def)
  ultimately have "rd_wf h base ix'"
    unfolding rd_wf_def index len by blast
  moreover have "map shard_usage (ri_shards ix') = map shard_usage (ri_shards ix)"
    using len marks_shard_keys [OF at] by (intro nth_equalityI) simp_all
  ultimately have "rd_ok h base ix'"
    using assms(1,2) by (simp add: rd_ok_def total_usage_def)
  then show ?thesis
    unfolding ri_get_def index using marks_shard_map_of [OF at [OF rd_wf_index [OF wf]]] by blast
qed

lemma rel_option_marks:
  "rel_option (marks writer ws u) old new \<Longrightarrow> still_recorded old new"
  by (cases old; cases new) (auto simp: still_recorded_def marks_def intro: same_reads_grown)

lemma mark_write_conflicts_marks:
  assumes "rd_ok h base ix" "mark_write_conflicts ix writer ws = (ix', eff)"
  shows "rd_ok h base ix' \<and> rel_option (marks writer ws u) (ri_get h ix u) (ri_get h ix' u) \<and>
    awe_writer_has_conflict_in eff = (\<exists>t rs. ri_get h ix t = Some rs \<and> is_reader writer ws t rs)"
proof (cases "ws = []")
  case True
  have "marks writer ws u rs rs" for rs by (simp add: True marks_def is_reader_def same_reads_def)
  then have "rel_option (marks writer ws u) (ri_get h ix u) (ri_get h ix u)" by (cases "ri_get h ix u") simp_all
  with True assms show ?thesis by (auto simp: mark_write_conflicts_def effects_default_def is_reader_def)
next
  case False
  obtain shards epoch eff1 where
    run: "mark_shards writer ws (ri_shards ix) (ri_state_epoch ix) effects_default = (shards, epoch, eff1)"
    by (cases "mark_shards writer ws (ri_shards ix) (ri_state_epoch ix) effects_default")
  have ix': "ix' = ix\<lparr>ri_shards := shards, ri_state_epoch := epoch\<rparr>" "eff = eff1"
    using assms(2) False by (simp_all add: mark_write_conflicts_def run)
  have wf: "rd_wf h base ix" using assms(1) by (simp add: rd_ok_def)
  note entries = mark_shards_entries [OF run]
  have "awe_writer_has_conflict_in eff = (\<exists>t rs. ri_get h ix t = Some rs \<and> is_reader writer ws t rs)"
    using entries by (auto simp: ix' effects_default_def ri_get_mem [OF wf])
  then show ?thesis
    using marks_shards_ok [OF assms(1), where ix' = ix' and writer = writer and ws = ws and u = u] entries
    by (simp add: ix')
qed

lemma mark_write_conflicts_ok:
  assumes "rd_ok h base ix"
  shows "rd_ok h base (fst (mark_write_conflicts ix writer ws)) \<and>
    still_recorded (ri_get h ix u) (ri_get h (fst (mark_write_conflicts ix writer ws)) u)"
  using mark_write_conflicts_marks [OF assms prod.collapse [symmetric], of writer ws u] rel_option_marks by blast

lemma ars_rollback_ok:
  assumes "ars_ok base rs" "ars_rollback_to_savepoint base rs mark = (rs', rb)"
  shows "ars_ok base rs' \<and>
    (rb_preserved_due_to_coarsening rb \<longleftrightarrow> ars_coarsening_epoch rs \<noteq> rm_coarsening_epoch mark) \<and>
    rb_removed_dependencies rb = length (ars_dependencies rs) - length (ars_dependencies rs') \<and>
    ars_dependencies rs' =
      (if rb_preserved_due_to_coarsening rb then ars_dependencies rs
       else take (rm_dependency_count mark) (ars_dependencies rs)) \<and>
    (rb_removed_dependencies rb = 0 \<longrightarrow> rs' = rs)"
proof -
  have kept: "keep_first {} (take n (ars_dependencies rs)) = take n (ars_dependencies rs)" for n
    using assms(1) by (intro keep_first_id) (auto simp: ars_ok_def)
  show ?thesis
    using assms
    by (auto simp: ars_rollback_to_savepoint_def rebuild_seen_and_usage_def rollback_default_def Let_def kept
        ars_ok_def split: if_splits)
qed

lemma rd_rollback_ok:
  assumes "rd_ok h base ix" "ri_get h ix t = Some rs" "rd_rollback_to_savepoint h base ix t mark = (ix', rb)"
  shows "rd_ok h base ix' \<and>
    (\<forall>u. u \<noteq> t \<longrightarrow> ri_get h ix' u = ri_get h ix u) \<and>
    (\<exists>rs1. ars_rollback_to_savepoint base rs mark = (rs1, rb) \<and>
       (\<exists>rs2. ri_get h ix' t = Some rs2 \<and> ars_dependencies rs2 = ars_dependencies rs1))"
proof -
  have wf: "rd_wf h base ix" using assms(1) by (simp add: rd_ok_def)
  have rs: "ars_ok base rs" by (rule ri_get_ok [OF wf assms(2)])
  obtain rs1 rb1 where roll: "ars_rollback_to_savepoint base rs mark = (rs1, rb1)"
    by (cases "ars_rollback_to_savepoint base rs mark")
  note ok = ars_rollback_ok [OF rs roll]
  define rs2 where
    "rs2 = (if 0 < rb_removed_dependencies rb1 then rs1\<lparr>ars_last_access_epoch := ri_state_epoch ix + 1\<rparr> else rs1)"
  have usage: "ri_memory_usage_bytes ix < usize_modulus"
    using assms(1) by (simp add: rd_ok_def usize_modulus_def)
  have zero: "rb_removed_dependencies rb1 = 0 \<longrightarrow> rs1 = rs" using ok by blast
  have eqs: "rb = rb1" "ri_shards ix' = ri_shards (ri_put h ix t rs2)"
    "ri_memory_usage_bytes ix' =
       delta (ri_memory_usage_bytes ix) (ars_memory_usage_bytes rs) (ars_memory_usage_bytes rs2)"
    using assms(3) zero usage
    by (auto simp: rd_rollback_to_savepoint_def assms(2) roll bump_epoch_def apply_memory_delta_def delta_def
        ri_put_def ri_put_at_def ri_shard_index_def rs2_def fetch_add_def split: if_splits)
  have "rd_ok h base ix'"
    by (rule rd_ok_put [OF assms(1) _ eqs(2)]) (simp_all add: rs2_def eqs(3) assms(2) usage_opt_def ok rs)
  moreover have "ri_get h ix' u = (if u = t then Some rs2 else ri_get h ix u)" for u
    by (simp add: ri_get_cong [OF eqs(2)] ri_get_put [OF wf])
  moreover have "ars_dependencies rs2 = ars_dependencies rs1" by (simp add: rs2_def)
  ultimately show ?thesis using roll eqs(1) by auto
qed

section \<open>Reads survive\<close>

text \<open>A transaction without an entry counts as one without reads.\<close>

definition read_set_of :: "(txn_id \<Rightarrow> u64) \<Rightarrow> read_dependency_index \<Rightarrow> txn_id \<Rightarrow> active_read_set" where
  "read_set_of h ix t = (case ri_get h ix t of Some rs \<Rightarrow> rs | None \<Rightarrow> ars_new 0 0 0)"

lemma read_set_of_dependencies: "ars_dependencies (read_set_of h ix t) = rd_dependencies h ix t"
  by (simp add: read_set_of_def rd_dependencies_def ars_new_def split: option.split)

lemma still_recorded_grown:
  "still_recorded (ri_get h ix u) (ri_get h ix' u) \<Longrightarrow> grown (read_set_of h ix u) (read_set_of h ix' u)"
  by (auto simp: still_recorded_def read_set_of_def split: option.splits)

lemma rd_record_batch_ok:
  assumes "rd_ok h base ix" "rd_record_batch h base ix t ds = (ix', n)"
  shows "rd_ok h base ix' \<and> grown (read_set_of h ix u) (read_set_of h ix' u) \<and>
    covers_reads (rd_dependencies h ix' t) (rd_dependencies h ix t @ ds)"
  using assms
proof (cases rule: rd_record_batch_cases)
  case empty
  with assms(1) show ?thesis by simp
next
  case (recorded ix1 rs rs1)
  have last: "rd_ok h base ix' \<and> still_recorded (ri_get h ix1 v) (ri_get h ix' v)" for v
    using enforce_global_budget_ok [OF recorded(2), of 0] recorded(2,8) by auto
  have old: "ars_dependencies rs = rd_dependencies h ix t"
    by (simp add: recorded(3) rd_dependencies_def ars_new_def split: option.split)
  have "grown (read_set_of h ix u) (read_set_of h ix1 u)"
    using recorded(4) by (auto simp: read_set_of_def recorded(3,6) grown_def ars_new_def split: option.splits)
  then have "grown (read_set_of h ix u) (read_set_of h ix' u)"
    using last still_recorded_grown grown_trans by blast
  moreover have "covers_reads (rd_dependencies h ix' t) (ars_dependencies rs1)"
    using last [of t] by (auto simp: still_recorded_def recorded(6) grown_def rd_dependencies_def)
  ultimately show ?thesis
    using last recorded(5) covers_reads_trans unfolding old by blast
qed

lemma rd_apply_ok:
  assumes "rd_ok h base ix"
  shows "rd_ok h base (rd_apply h base op ix)"
    "\<not> forgets t op \<Longrightarrow> grown (read_set_of h ix t) (read_set_of h (rd_apply h base op ix) t)"
proof -
  have "rd_ok h base (rd_apply h base op ix) \<and>
    (\<not> forgets t op \<longrightarrow> grown (read_set_of h ix t) (read_set_of h (rd_apply h base op ix) t))"
  proof (cases op)
    case (Register u rts)
    let ?ix = "register_transaction h base ix u rts"
    note reg = register_transaction_ok [OF assms, of u rts t]
    have "grown (read_set_of h ix t) (read_set_of h ?ix t)"
    proof (cases "ri_get h ix t")
      case None
      with reg show ?thesis
        by (simp add: read_set_of_def grown_def ars_new_def)
    qed (use reg still_recorded_grown in auto)
    with Register reg show ?thesis by simp
  next
    case (Release u)
    then show ?thesis using release_transaction_ok [OF assms, of u t] by (simp add: read_set_of_def)
  next
    case (Record_Batch u ds)
    then show ?thesis using rd_record_batch_ok [OF assms prod.collapse [symmetric], of u ds] by simp
  next
    case (Rollback u mark)
    show ?thesis
    proof (cases "ri_get h ix u")
      case None
      with assms Rollback show ?thesis by (simp add: rd_rollback_to_savepoint_def)
    next
      case (Some rs)
      then show ?thesis
        using rd_rollback_ok [OF assms Some prod.collapse [symmetric], of mark] Rollback by (simp add: read_set_of_def)
    qed
  next
    case (Mark_Writes u ws)
    then show ?thesis using mark_write_conflicts_ok [OF assms, of u ws t] still_recorded_grown by simp
  qed (simp_all add: mark_txn_conflict_in_def mark_txn_conflict_out_def mark_txn_dangerous_def
      mark_txn_coarse_scan_conflict_def mark_txn_state_ok [OF assms] still_recorded_grown)
  then show "rd_ok h base (rd_apply h base op ix)"
    "\<not> forgets t op \<Longrightarrow> grown (read_set_of h ix t) (read_set_of h (rd_apply h base op ix) t)" by auto
qed

lemma rd_run_ok: "rd_ok h base ix \<Longrightarrow> rd_ok h base (rd_run h base ops ix)"
  unfolding rd_run_def by (induction ops arbitrary: ix) (simp_all add: rd_apply_ok)

lemma rd_run_grown:
  "rd_ok h base ix \<Longrightarrow> list_all (\<lambda>op. \<not> forgets t op) ops \<Longrightarrow>
     grown (read_set_of h ix t) (read_set_of h (rd_run h base ops ix) t)"
proof (induction ops arbitrary: ix)
  case (Cons op ops)
  then show ?case
    using grown_trans [OF rd_apply_ok(2) [OF Cons.prems(1)] Cons.IH [OF rd_apply_ok(1)]]
    by (simp add: rd_run_def)
qed (simp add: rd_run_def)

lemma grown_covers: "grown rs rs' \<Longrightarrow> covers_reads (ars_dependencies rs') (ars_dependencies rs)"
  by (simp add: grown_def)

lemma rd_run_covers:
  assumes "rd_ok h base ix" "list_all (\<lambda>op. \<not> forgets t op) ops"
  shows "covers_reads (rd_dependencies h (rd_run h base ops ix) t) (rd_dependencies h ix t @ recorded_by t ops)"
  using assms
proof (induction ops arbitrary: ix)
  case (Cons op ops)
  let ?ix = "rd_apply h base op ix"
  have step: "covers_reads (rd_dependencies h ?ix t) (rd_dependencies h ix t @ recorded_by t [op])"
  proof (cases "\<exists>ds. op = Record_Batch t ds")
    case True
    then show ?thesis using rd_record_batch_ok [OF Cons.prems(1) prod.collapse [symmetric], of t] by auto
  next
    case False
    then have "recorded_by t [op] = []" by (cases op) auto
    then show ?thesis
      using Cons.prems grown_covers [OF rd_apply_ok(2)] by (simp add: read_set_of_dependencies)
  qed
  have split: "recorded_by t (op # ops) = recorded_by t [op] @ recorded_by t ops" by (cases op) simp_all
  have rest: "covers_reads (rd_dependencies h (rd_run h base (op # ops) ix) t)
      (rd_dependencies h ?ix t @ recorded_by t ops)"
    using Cons.IH [OF rd_apply_ok(1) [OF Cons.prems(1)]] Cons.prems(2) by (simp add: rd_run_def)
  show ?case
    unfolding covers_reads_def
  proof (intro allI impI)
    fix w
    assume "conflicting (rd_dependencies h ix t @ recorded_by t (op # ops)) w"
    then consider "conflicting (rd_dependencies h ix t @ recorded_by t [op]) w" | "conflicting (recorded_by t ops) w"
      unfolding split conflicting_append by blast
    then show "conflicting (rd_dependencies h (rd_run h base (op # ops) ix) t) w"
      using step rest unfolding covers_reads_def conflicting_append by cases blast+
  qed
qed (simp add: rd_run_def)

section \<open>Properties\<close>

text \<open>\<^bold>\<open>C13.\<close> Recorded reads survive.  In any run of the index by any number of transactions, a write
  that conflicts with a read of transaction \<open>t\<close>, recorded before or during the run, still conflicts
  with the read set of \<open>t\<close> afterwards, unless \<open>t\<close> itself was released or rolled back: neither
  normalisation, deduplication, the budget of the transaction nor coarsening on behalf of others
  loses a conflict.\<close>

theorem recorded_reads_survive:
  assumes "rd_index_new n per_txn global_budget = Some ix0" "list_all (\<lambda>op. \<not> forgets t op) later"
    "conflicting (rd_dependencies h (rd_run h base earlier ix0) t @ recorded_by t later) w"
  shows "conflicting (rd_dependencies h (rd_run h base (earlier @ later) ix0) t) w"
proof -
  have ok: "rd_ok h base (rd_run h base earlier ix0)"
    using rd_ok_new [OF assms(1)] rd_run_ok by blast
  show ?thesis
    using rd_run_covers [OF ok assms(2)] assms(3) by (auto simp: covers_reads_def rd_run_def)
qed

text \<open>\<^bold>\<open>C16.\<close> Memory accounting is exact.  In every state of the index the global counter is the sum of
  the usage of all read sets as a \<open>usize\<close>, each read set's usage is that of its dependencies, and
  its dependencies are free of duplicates and those its hash set has.\<close>

theorem read_set_memory_exact:
  assumes "rd_index_new n per_txn global_budget = Some ix0"
  shows "ri_memory_usage_bytes (rd_run h base ops ix0) = total_usage (rd_run h base ops ix0) mod usize_modulus \<and>
    (\<forall>t rs. ri_get h (rd_run h base ops ix0) t = Some rs \<longrightarrow>
       ars_memory_usage_bytes rs = usage_of base (ars_dependencies rs) \<and>
       distinct (ars_dependencies rs) \<and> ars_seen rs = set (ars_dependencies rs))"
proof -
  have "rd_ok h base (rd_run h base ops ix0)"
    using rd_ok_new [OF assms] rd_run_ok by blast
  then show ?thesis using ri_get_ok by (auto simp: rd_ok_def ars_ok_def)
qed

text \<open>\<^bold>\<open>C17.\<close> The global budget is enforced.  A batch that records something leaves the index within its
  global budget, unless every read set in it is coarsened already, when nothing more can be saved.\<close>

theorem record_batch_within_budget:
  assumes "rd_index_new n per_txn global_budget = Some ix0"
    "rd_record_batch h base (rd_run h base ops ix0) t ds = (ix, inserted)" "0 < inserted"
  shows "ri_memory_usage_bytes ix \<le> ri_global_budget_bytes ix \<or>
    (\<forall>u rs. ri_get h ix u = Some rs \<longrightarrow> ars_coarsened rs)"
proof -
  have ok: "rd_ok h base (rd_run h base ops ix0)"
    using rd_ok_new [OF assms(1)] rd_run_ok by blast
  have wf: "rd_wf h base ix" using rd_record_batch_ok [OF ok assms(2)] by (simp add: rd_ok_def)
  from ok assms(2) have "ri_memory_usage_bytes ix \<le> ri_global_budget_bytes ix \<or>
    oldest_coarsenable_read_set ix = None"
  proof (cases rule: rd_record_batch_cases)
    case empty
    with assms(2,3) show ?thesis by (simp add: rd_record_batch_def)
  next
    case (recorded ix1 rs rs1)
    with assms(3) enforce_global_budget_ok [OF recorded(2), of 0] show ?thesis by simp
  qed
  then show ?thesis
    unfolding oldest_None using ri_get_mem [OF wf] by fastforce
qed

text \<open>\<^bold>\<open>C15.\<close> Savepoints of the read set.  Rolling a transaction back to a mark, after any operations but
  its own release or rollback, restores exactly the dependencies it had at the mark; if its read set
  was coarsened since, nothing is removed, which is reported, and the reads from before are still
  covered.  The 64-bit epoch of a coarsening is taken not to have wrapped to zero.\<close>

theorem read_set_rollback:
  assumes "rd_index_new n per_txn global_budget = Some ix0" "list_all (\<lambda>op. \<not> forgets t op) later"
    "ix = rd_run h base earlier ix0" "ix1 = rd_run h base later ix"
    "ars_coarsened (read_set_of h ix1 t) \<Longrightarrow> ars_coarsening_epoch (read_set_of h ix1 t) \<noteq> 0"
    "rd_rollback_to_savepoint h base ix1 t (rd_mark_savepoint h ix t) = (ix2, rb)"
  shows "if rb_preserved_due_to_coarsening rb
    then ars_coarsened (read_set_of h ix1 t) \<and> rd_dependencies h ix2 t = rd_dependencies h ix1 t \<and>
      covers_reads (rd_dependencies h ix2 t) (rd_dependencies h ix t)
    else rd_dependencies h ix2 t = rd_dependencies h ix t \<and>
      rb_removed_dependencies rb = length (rd_dependencies h ix1 t) - length (rd_dependencies h ix t)"
proof -
  have ok: "rd_ok h base ix" "rd_ok h base ix1"
    unfolding assms(3,4) using rd_ok_new [OF assms(1)] rd_run_ok by blast+
  have grown: "grown (read_set_of h ix t) (read_set_of h ix1 t)"
    unfolding assms(4) by (rule rd_run_grown [OF ok(1) assms(2)])
  have mark: "rm_coarsening_epoch (rd_mark_savepoint h ix t) = ars_coarsening_epoch (read_set_of h ix t)"
    "rm_dependency_count (rd_mark_savepoint h ix t) = length (rd_dependencies h ix t)"
    by (simp_all add: rd_mark_savepoint_def ars_mark_savepoint_def read_set_of_def rd_dependencies_def ars_new_def
        split: option.split)
  have uncoarsened: "ars_coarsened (read_set_of h ix t) \<or> ars_coarsening_epoch (read_set_of h ix t) = 0"
    using ri_get_ok [of h base ix t] ok(1) by (auto simp: read_set_of_def rd_ok_def ars_ok_def ars_new_def split: option.split)
  note view = grown [unfolded grown_def read_set_of_dependencies]
  show ?thesis
  proof (cases "ri_get h ix1 t")
    case None
    then have "rd_dependencies h ix1 t = []" by (simp add: rd_dependencies_def)
    moreover have "rd_dependencies h ix t = []"
      using view None by (auto simp: read_set_of_def ars_new_def rd_dependencies_def split: option.splits)
    ultimately show ?thesis
      using assms(6) None by (auto simp: rd_rollback_to_savepoint_def rollback_default_def)
  next
    case (Some rs)
    then have rs: "read_set_of h ix1 t = rs" "ars_dependencies rs = rd_dependencies h ix1 t"
      by (simp_all add: read_set_of_def rd_dependencies_def)
    from rd_rollback_ok [OF ok(2) Some assms(6)] obtain rs1 rs2 where
      roll: "ars_rollback_to_savepoint base rs (rd_mark_savepoint h ix t) = (rs1, rb)"
      and "ri_get h ix2 t = Some rs2" "ars_dependencies rs2 = ars_dependencies rs1" by blast
    then have deps: "rd_dependencies h ix2 t = ars_dependencies rs1" by (simp add: rd_dependencies_def)
    have "ars_ok base rs" using ri_get_ok [OF _ Some] ok(2) by (simp add: rd_ok_def)
    note rb = ars_rollback_ok [OF this roll, unfolded mark rs]
    show ?thesis
      using view assms(5) uncoarsened rb unfolding deps rs by (auto simp: covers_reads_def)
  qed
qed

text \<open>\<^bold>\<open>C14.\<close> Marking the readers of a commit is exact: an active transaction other than the writer gets
  an outgoing conflict iff one of its reads conflicts with one of the writes, and becomes dangerous
  iff it also has an incoming one; nothing else changes, and the writer learns that it has an incoming
  conflict iff there is such a reader.\<close>

theorem mark_write_conflicts_exact:
  assumes "rd_index_new n per_txn global_budget = Some ix0" "ix = rd_run h base ops ix0"
    "mark_write_conflicts ix writer ws = (ix', eff)"
    "reads = (\<lambda>u. u \<noteq> writer \<and> (\<exists>w \<in> set ws. conflicting (rd_dependencies h ix u) w))"
  shows "ssi_rw_conflict_out (ssi_state h ix' u) = (ssi_rw_conflict_out (ssi_state h ix u) \<or> reads u) \<and>
    ssi_rw_conflict_in (ssi_state h ix' u) = ssi_rw_conflict_in (ssi_state h ix u) \<and>
    ssi_dangerous_structure (ssi_state h ix' u) =
      (ssi_dangerous_structure (ssi_state h ix u) \<or> reads u \<and> ssi_rw_conflict_in (ssi_state h ix u)) \<and>
    rd_dependencies h ix' u = rd_dependencies h ix u \<and>
    awe_writer_has_conflict_in eff = (\<exists>u. reads u)"
proof -
  have ok: "rd_ok h base ix" unfolding assms(2) using rd_ok_new [OF assms(1)] rd_run_ok by blast
  note marked = mark_write_conflicts_marks [OF ok assms(3), of u]
  have reads: "reads v = (\<exists>rs. ri_get h ix v = Some rs \<and> is_reader writer ws v rs)" for v
    by (auto simp: assms(4) is_reader_def rd_dependencies_def split: option.splits)
  have "awe_writer_has_conflict_in eff = (\<exists>u. reads u)" unfolding reads using marked by blast
  moreover have "ssi_rw_conflict_out (ssi_state h ix' u) = (ssi_rw_conflict_out (ssi_state h ix u) \<or> reads u) \<and>
    ssi_rw_conflict_in (ssi_state h ix' u) = ssi_rw_conflict_in (ssi_state h ix u) \<and>
    ssi_dangerous_structure (ssi_state h ix' u) =
      (ssi_dangerous_structure (ssi_state h ix u) \<or> reads u \<and> ssi_rw_conflict_in (ssi_state h ix u)) \<and>
    rd_dependencies h ix' u = rd_dependencies h ix u"
  proof (cases "ri_get h ix u")
    case None
    with marked have "ri_get h ix' u = None" by simp
    with None show ?thesis by (simp add: ssi_state_def rd_dependencies_def reads)
  next
    case (Some rs)
    with marked obtain rs' where rs': "ri_get h ix' u = Some rs'" "marks writer ws u rs rs'"
      by (cases "ri_get h ix' u") simp_all
    then show ?thesis
      by (auto simp: ssi_state_def rd_dependencies_def reads Some marks_def same_reads_def split: if_splits)
  qed
  ultimately show ?thesis by blast
qed

section \<open>Witnesses\<close>

text \<open>One shard, a budget of 200 bytes for a transaction and of 1000 for the index, 64 bytes for an
  empty read set.\<close>

definition demo_index :: read_dependency_index where
  "demo_index = the (rd_index_new 1 200 1000)"

abbreviation demo_reads :: "rd_op list" where
  "demo_reads \<equiv> [Register 1 10, Record_Batch 1 [RD_KeyRange 3 10 20]]"

abbreviation demo_write :: lock_resource where
  "demo_write \<equiv> LR_PrimaryKey \<lparr>ns_tenant_id = 0, ns_database_id = 7\<rparr> 3 1 15"

lemma demo_index: "rd_index_new 1 200 1000 = Some demo_index"
  by (simp add: demo_index_def rd_index_new_def)

lemmas rd_eval = rd_run_def demo_index_def rd_index_new_def register_transaction_def rd_record_batch_def
  rd_dependencies_def rd_mark_savepoint_def ars_mark_savepoint_def rd_rollback_to_savepoint_def
  ars_rollback_to_savepoint_def rebuild_seen_and_usage_def rollback_default_def
  ri_get_def ri_put_def ri_put_at_def ri_shard_index_def ars_new_def bump_epoch_def apply_memory_delta_def
  insert_dependency_def usage_of_def saturating_add_def fetch_add_def fetch_sub_def u64_saturating_add_def
  usize_max_def usize_modulus_def enforce_global_budget.simps coarsen_to_table_level_def
  coarsen_dependency_def Let_def

theorem recorded_reads_survive_witness:
  "conflicting (rd_dependencies (\<lambda>_. 0) (rd_run (\<lambda>_. 0) 64
     ([Register 1 10] @ [Record_Batch 1 [RD_KeyRange 3 10 20], Record_Batch 1 [RD_KeyRange 3 30 40, RD_KeyRange 3 50 60]])
     demo_index) 1) demo_write"
  by (rule recorded_reads_survive [OF demo_index]) (simp_all add: hash_in_range_def)

theorem read_set_memory_exact_witness:
  "ri_memory_usage_bytes (rd_run (\<lambda>_. 0) 64 demo_reads demo_index) =
     total_usage (rd_run (\<lambda>_. 0) 64 demo_reads demo_index) mod usize_modulus \<and>
   total_usage (rd_run (\<lambda>_. 0) 64 demo_reads demo_index) = 112"
  using read_set_memory_exact [OF demo_index, of "\<lambda>_. 0" 64 demo_reads]
  by (simp add: rd_eval total_usage_def shard_usage_def)

theorem record_batch_within_budget_witness:
  "\<exists>ix. rd_record_batch (\<lambda>_. 0) 64 (rd_run (\<lambda>_. 0) 64 [Register 1 10] demo_index) 1 [RD_KeyRange 3 10 20] = (ix, 1) \<and>
     (ri_memory_usage_bytes ix \<le> ri_global_budget_bytes ix \<or>
      (\<forall>u rs. ri_get (\<lambda>_. 0) ix u = Some rs \<longrightarrow> ars_coarsened rs))"
proof -
  obtain ix where ix:
    "rd_record_batch (\<lambda>_. 0) 64 (rd_run (\<lambda>_. 0) 64 [Register 1 10] demo_index) 1 [RD_KeyRange 3 10 20] = (ix, 1)"
    by (simp add: rd_eval)
  with record_batch_within_budget [OF demo_index ix] show ?thesis by auto
qed

theorem read_set_rollback_witness:
  "rd_dependencies (\<lambda>_. 0) (fst (rd_rollback_to_savepoint (\<lambda>_. 0) 64
     (rd_run (\<lambda>_. 0) 64 [Record_Batch 1 [RD_KeyRange 3 30 40]] (rd_run (\<lambda>_. 0) 64 demo_reads demo_index)) 1
     (rd_mark_savepoint (\<lambda>_. 0) (rd_run (\<lambda>_. 0) 64 demo_reads demo_index) 1))) 1 = [RD_KeyRange 3 10 20]"
proof -
  let ?ix = "rd_run (\<lambda>_. 0) 64 demo_reads demo_index"
  let ?ix1 = "rd_run (\<lambda>_. 0) 64 [Record_Batch 1 [RD_KeyRange 3 30 40]] ?ix"
  have plain: "\<not> ars_coarsened (read_set_of (\<lambda>_. 0) ?ix1 1)"
    by (simp add: rd_eval read_set_of_def)
  have "rd_dependencies (\<lambda>_. 0) ?ix 1 = [RD_KeyRange 3 10 20]"
    by (simp add: rd_eval)
  then show ?thesis
    using read_set_rollback [OF demo_index _ refl refl _ prod.collapse [symmetric],
        of 1 "[Record_Batch 1 [RD_KeyRange 3 30 40]]" "\<lambda>_. 0" 64 demo_reads] plain
    by (auto split: if_splits)
qed

theorem mark_write_conflicts_exact_witness:
  "ssi_rw_conflict_out (ssi_state (\<lambda>_. 0) (fst (mark_write_conflicts
     (rd_run (\<lambda>_. 0) 64 demo_reads demo_index) 2 [demo_write])) 1)"
proof -
  have "rd_dependencies (\<lambda>_. 0) (rd_run (\<lambda>_. 0) 64 demo_reads demo_index) 1 = [RD_KeyRange 3 10 20]"
    by (simp add: rd_eval)
  then show ?thesis
    using mark_write_conflicts_exact [OF demo_index refl prod.collapse [symmetric] refl,
        of "\<lambda>_. 0" 64 demo_reads 2 "[demo_write]" 1]
    by (simp add: hash_in_range_def)
qed

end
