(* ===== verification/Txn_View.thy ===== *)
theory Txn_View
  imports Read_Set_Runs
begin

text \<open>
  Read trackers and transaction views (\<open>view.rs\<close>): the handle through which a transaction records its
  reads, in a list of its own or in the shared index under a tracking policy, and the snapshot a
  transaction reads.  A recording tracker, shared by reference in the source, is the list it holds;
  operations return it updated together with the index.  The snapshot lease only keeps old versions
  alive and is not modelled.
\<close>

section \<open>Tracker handles\<close>

datatype read_tracker_handle =
  RT_Noop
| RT_SafeSnapshot
| RT_Recording "read_dependency list"
| RT_Serializable txn_id read_tracking_policy

datatype read_tracker_savepoint =
  RTS_Noop
| RTS_Recording nat
| RTS_Serializable read_dependency_index_mark

fun mark_dependency_count :: "read_tracker_savepoint \<Rightarrow> nat" where
  "mark_dependency_count RTS_Noop = 0"
| "mark_dependency_count (RTS_Recording n) = n"
| "mark_dependency_count (RTS_Serializable mark) = rm_dependency_count mark"

fun mark_coarsening_epoch :: "read_tracker_savepoint \<Rightarrow> u64" where
  "mark_coarsening_epoch (RTS_Serializable mark) = rm_coarsening_epoch mark"
| "mark_coarsening_epoch _ = 0"

definition tracker_serializable_with_policy ::
  "(txn_id \<Rightarrow> u64) \<Rightarrow> nat \<Rightarrow> read_dependency_index \<Rightarrow> txn_id \<Rightarrow> read_ts \<Rightarrow> read_tracking_policy
     \<Rightarrow> read_dependency_index \<times> read_tracker_handle" where
  "tracker_serializable_with_policy h base ix t rts policy =
     (register_transaction h base ix t rts, RT_Serializable t policy)"

definition tracker_serializable ::
  "(txn_id \<Rightarrow> u64) \<Rightarrow> nat \<Rightarrow> read_dependency_index \<Rightarrow> txn_id \<Rightarrow> read_ts
     \<Rightarrow> read_dependency_index \<times> read_tracker_handle" where
  "tracker_serializable h base ix t rts = tracker_serializable_with_policy h base ix t rts PolicySerializable"

fun tracker_policy :: "read_tracker_handle \<Rightarrow> read_tracking_policy" where
  "tracker_policy RT_Noop = PolicyNoop"
| "tracker_policy RT_SafeSnapshot = PolicySafeSnapshot"
| "tracker_policy (RT_Recording _) = PolicyRecord"
| "tracker_policy (RT_Serializable _ policy) = policy"

fun is_safe_snapshot :: "read_tracker_handle \<Rightarrow> bool" where
  "is_safe_snapshot RT_SafeSnapshot = True"
| "is_safe_snapshot _ = False"

fun tracker_record ::
  "(txn_id \<Rightarrow> u64) \<Rightarrow> nat \<Rightarrow> read_dependency_index \<Rightarrow> read_tracker_handle \<Rightarrow> read_dependency
     \<Rightarrow> read_dependency_index \<times> read_tracker_handle" where
  "tracker_record h base ix RT_Noop d = (ix, RT_Noop)"
| "tracker_record h base ix RT_SafeSnapshot d = (ix, RT_SafeSnapshot)"
| "tracker_record h base ix (RT_Recording ds) d = (ix, RT_Recording (rec_record ds d))"
| "tracker_record h base ix (RT_Serializable t policy) d =
     (case dependency_for_policy policy d of
        Some d' \<Rightarrow> (fst (rd_record h base ix t d'), RT_Serializable t policy)
      | None \<Rightarrow> (ix, RT_Serializable t policy))"

fun tracker_record_dependencies ::
  "(txn_id \<Rightarrow> u64) \<Rightarrow> nat \<Rightarrow> read_dependency_index \<Rightarrow> read_tracker_handle \<Rightarrow> read_dependency list
     \<Rightarrow> read_dependency_index \<times> read_tracker_handle" where
  "tracker_record_dependencies h base ix RT_Noop ds = (ix, RT_Noop)"
| "tracker_record_dependencies h base ix RT_SafeSnapshot ds = (ix, RT_SafeSnapshot)"
| "tracker_record_dependencies h base ix (RT_Recording old) ds = (ix, RT_Recording (rec_record_batch old ds))"
| "tracker_record_dependencies h base ix (RT_Serializable t policy) ds =
     (fst (rd_record_batch h base ix t (List.map_filter (dependency_for_policy policy) ds)), RT_Serializable t policy)"

definition record_table_read where
  "record_table_read h base ix tracker t = tracker_record h base ix tracker (RD_Table t)"

definition record_row_read where
  "record_row_read h base ix tracker t row = tracker_record h base ix tracker (RD_Row t row)"

definition record_row_reads where
  "record_row_reads h base ix tracker t rows = tracker_record_dependencies h base ix tracker (map (RD_Row t) rows)"

definition record_tablet_read where
  "record_tablet_read h base ix tracker t b rts layout rowsets =
     tracker_record h base ix tracker (RD_Tablet t b rts layout rowsets)"

definition record_rowset_read where
  "record_rowset_read h base ix tracker t b rs rts layout =
     tracker_record h base ix tracker (RD_Rowset t b rs rts layout)"

definition record_key_range where
  "record_key_range h base ix tracker t s e = tracker_record h base ix tracker (RD_KeyRange t s e)"

definition record_key_ranges where
  "record_key_ranges h base ix tracker t ranges =
     tracker_record_dependencies h base ix tracker (map (\<lambda>(s, e). RD_KeyRange t s e) ranges)"

definition record_predicate where
  "record_predicate h base ix tracker t p = tracker_record h base ix tracker (RD_Predicate t p)"

definition record_generation where
  "record_generation h base ix tracker key g = tracker_record h base ix tracker (RD_Generation key g)"

fun tracker_frozen_read_set ::
  "(txn_id \<Rightarrow> u64) \<Rightarrow> read_dependency_index \<Rightarrow> read_tracker_handle \<Rightarrow> frozen_read_set" where
  "tracker_frozen_read_set h ix (RT_Recording ds) = from_dependencies ds"
| "tracker_frozen_read_set h ix (RT_Serializable t policy) = rd_frozen_read_set h ix t"
| "tracker_frozen_read_set h ix _ = frozen_empty"

fun recorded_dependencies ::
  "(txn_id \<Rightarrow> u64) \<Rightarrow> read_dependency_index \<Rightarrow> read_tracker_handle \<Rightarrow> read_dependency list" where
  "recorded_dependencies h ix (RT_Recording ds) = ds"
| "recorded_dependencies h ix (RT_Serializable t policy) = rd_dependencies h ix t"
| "recorded_dependencies h ix _ = []"

fun tracker_mark_savepoint ::
  "(txn_id \<Rightarrow> u64) \<Rightarrow> read_dependency_index \<Rightarrow> read_tracker_handle \<Rightarrow> read_tracker_savepoint" where
  "tracker_mark_savepoint h ix (RT_Recording ds) = RTS_Recording (rec_mark_savepoint ds)"
| "tracker_mark_savepoint h ix (RT_Serializable t policy) = RTS_Serializable (rd_mark_savepoint h ix t)"
| "tracker_mark_savepoint h ix _ = RTS_Noop"

fun tracker_rollback_to_savepoint ::
  "(txn_id \<Rightarrow> u64) \<Rightarrow> nat \<Rightarrow> read_dependency_index \<Rightarrow> read_tracker_handle \<Rightarrow> read_tracker_savepoint
     \<Rightarrow> read_dependency_index \<times> read_tracker_handle \<times> read_dependency_rollback" where
  "tracker_rollback_to_savepoint h base ix (RT_Recording ds) (RTS_Recording n) =
     (ix, RT_Recording (rec_rollback_to_savepoint ds n),
      \<lparr>rb_removed_dependencies = length ds - n, rb_preserved_due_to_coarsening = False\<rparr>)"
| "tracker_rollback_to_savepoint h base ix (RT_Serializable t policy) (RTS_Serializable mark) =
     (case rd_rollback_to_savepoint h base ix t mark of
        (ix', rollback) \<Rightarrow> (ix', RT_Serializable t policy, rollback))"
| "tracker_rollback_to_savepoint h base ix tracker mark = (ix, tracker, rollback_default)"

section \<open>Views\<close>

datatype isolation_level = Snapshot | Serializable

datatype as_of_timestamp_error = BeforeGcWatermark read_ts read_ts

definition validate_as_of_timestamp :: "read_ts \<Rightarrow> read_ts \<Rightarrow> as_of_timestamp_error + unit" where
  "validate_as_of_timestamp requested oldest =
     (if requested < oldest then Inl (BeforeGcWatermark requested oldest) else Inr ())"

text \<open>A participant's opaque state, by what the transaction core asks of it.\<close>

record participant_state =
  ps_participant_id :: participant_id
  ps_participant_kind :: participant_kind
  ps_resource_key :: txn_resource_key

record transaction_view =
  tv_writer_id :: writer_id
  tv_start_time :: read_ts
  tv_snapshot_read_ts :: read_ts
  tv_as_of_ts :: "read_ts option"
  tv_isolation_level :: isolation_level
  tv_command_id :: u32
  tv_read_tracker :: read_tracker_handle
  tv_participant_states :: "participant_state list"

definition view_new ::
  "writer_id \<Rightarrow> read_ts \<Rightarrow> read_ts \<Rightarrow> isolation_level \<Rightarrow> u32 \<Rightarrow> read_tracker_handle \<Rightarrow> participant_state list
     \<Rightarrow> transaction_view" where
  "view_new writer start rts isolation command tracker states =
     \<lparr>tv_writer_id = writer, tv_start_time = start, tv_snapshot_read_ts = rts, tv_as_of_ts = None,
      tv_isolation_level = isolation, tv_command_id = command, tv_read_tracker = tracker,
      tv_participant_states = states\<rparr>"

definition view_autocommit :: "read_ts \<Rightarrow> transaction_view" where
  "view_autocommit rts = view_new writer_permanent rts rts Snapshot 0 RT_Noop []"

definition with_as_of_ts :: "transaction_view \<Rightarrow> read_ts \<Rightarrow> transaction_view" where
  "with_as_of_ts v ts = v\<lparr>tv_as_of_ts := Some ts\<rparr>"

definition is_time_travel :: "transaction_view \<Rightarrow> bool" where
  "is_time_travel v \<longleftrightarrow> tv_as_of_ts v \<noteq> None"

definition effective_read_ts :: "transaction_view \<Rightarrow> read_ts" where
  "effective_read_ts v = (case tv_as_of_ts v of Some ts \<Rightarrow> ts | None \<Rightarrow> tv_snapshot_read_ts v)"

definition validate_as_of_watermark :: "transaction_view \<Rightarrow> read_ts \<Rightarrow> as_of_timestamp_error + unit" where
  "validate_as_of_watermark v oldest =
     (case tv_as_of_ts v of Some ts \<Rightarrow> validate_as_of_timestamp ts oldest | None \<Rightarrow> Inr ())"

definition visible_version :: "transaction_view \<Rightarrow> u64" where
  "visible_version v = effective_read_ts v"

definition visible_version_i64 :: "transaction_view \<Rightarrow> int" where
  "visible_version_i64 v =
     (if uint (visible_version v) < 2 ^ 63 then uint (visible_version v) else 2 ^ 63 - 1)"

definition view_frozen_read_set ::
  "(txn_id \<Rightarrow> u64) \<Rightarrow> read_dependency_index \<Rightarrow> transaction_view \<Rightarrow> frozen_read_set" where
  "view_frozen_read_set h ix v = tracker_frozen_read_set h ix (tv_read_tracker v)"

section \<open>What a frozen read set covers\<close>

definition keeps_reads :: "read_tracker_handle \<Rightarrow> bool" where
  "keeps_reads tracker \<longleftrightarrow> tracker_policy tracker \<noteq> PolicyNoop \<and> tracker_policy tracker \<noteq> PolicySafeSnapshot"

lemma mem_map_filter: "x \<in> set xs \<Longrightarrow> f x = Some y \<Longrightarrow> y \<in> set (List.map_filter f xs)"
  by (induction xs) (auto simp: map_filter_simps split: option.split)

lemma dependency_for_policy_covers:
  assumes "policy \<noteq> PolicyNoop" "policy \<noteq> PolicySafeSnapshot" "conflicting ds w"
  shows "conflicting (List.map_filter (dependency_for_policy policy) ds) w"
proof -
  obtain d where d: "d \<in> set ds" "conflicts_with_write d w" using assms(3) by (auto simp: conflicting_iff)
  obtain d' where "dependency_for_policy policy d = Some d'" "conflicts_with_write d' w"
    using policy_conflicts [OF d(2) assms(1,2)] by blast
  with d(1) have "d' \<in> set (List.map_filter (dependency_for_policy policy) ds) \<and> conflicts_with_write d' w"
    by (auto intro: mem_map_filter)
  then show ?thesis unfolding conflicting_iff by blast
qed

lemma rd_frozen_dependencies: "frs_dependencies (rd_frozen_read_set h ix t) = rd_dependencies h ix t"
  by (simp add: rd_frozen_read_set_def rd_dependencies_def ars_frozen_read_set_def from_dependencies_with_coarsening_def
      frozen_empty_def split: option.split)

lemma tracker_record_single:
  "keeps_reads tracker \<Longrightarrow> tracker_record h base ix tracker d = tracker_record_dependencies h base ix tracker [d]"
  by (cases tracker)
    (auto simp: rec_record_def rec_record_batch_def rd_record_def map_filter_simps keeps_reads_def dependency_for_policy_def
      split: option.split)

text \<open>\<^bold>\<open>C23.\<close> Nothing read is forgotten on the way to the commit plan.  Whatever policy a transaction tracks
  its reads under, unless it asks for none, every write that conflicts with a batch it recorded, or with
  what it had recorded, conflicts with the read set it freezes for its commit.\<close>

theorem tracker_freezes_reads:
  assumes "rd_index_new n per_txn global_budget = Some ix0" "ix = rd_run h base ops ix0" "keeps_reads tracker"
    "tracker_record_dependencies h base ix tracker ds = (ix', tracker')"
    "conflicting (recorded_dependencies h ix tracker @ ds) w"
  shows "conflicting (frs_dependencies (tracker_frozen_read_set h ix' tracker')) w"
proof (cases tracker)
  case (RT_Recording old)
  with assms(4,5) show ?thesis by (auto simp: rec_record_batch_def from_dependencies_def)
next
  case (RT_Serializable t policy)
  have ok: "rd_ok h base ix" unfolding assms(2) using rd_ok_new [OF assms(1)] rd_run_ok by blast
  let ?ds = "List.map_filter (dependency_for_policy policy) ds"
  have covers: "covers_reads (rd_dependencies h ix' t) (rd_dependencies h ix t @ ?ds)"
    using rd_record_batch_ok [OF ok prod.collapse [symmetric], of t ?ds] assms(4) by (auto simp: RT_Serializable)
  have "conflicting (rd_dependencies h ix t @ ?ds) w"
    using assms(3,5) dependency_for_policy_covers [of policy ds w] by (auto simp: RT_Serializable keeps_reads_def)
  with covers assms(4) show ?thesis by (auto simp: RT_Serializable covers_reads_def rd_frozen_dependencies)
qed (use assms(3) in \<open>simp_all add: keeps_reads_def\<close>)

theorem tracker_freezes_reads_witness:
  "\<exists>ix' tracker'. tracker_record_dependencies (\<lambda>_. 0) 64 (rd_run (\<lambda>_. 0) 64 [Register 1 10] demo_index)
       (RT_Serializable 1 PolicyAnalyticalScan) [RD_KeyRange 3 10 20] = (ix', tracker') \<and>
     conflicting (frs_dependencies (tracker_frozen_read_set (\<lambda>_. 0) ix' tracker')) demo_write"
proof -
  let ?ix = "rd_run (\<lambda>_. 0) 64 [Register 1 10] demo_index"
  let ?tracker = "RT_Serializable 1 PolicyAnalyticalScan"
  obtain ix' tracker' where rec: "tracker_record_dependencies (\<lambda>_. 0) 64 ?ix ?tracker [RD_KeyRange 3 10 20] = (ix', tracker')"
    by (cases "tracker_record_dependencies (\<lambda>_. 0) 64 ?ix ?tracker [RD_KeyRange 3 10 20]")
  with tracker_freezes_reads [OF demo_index refl _ rec] show ?thesis
    by (auto simp: keeps_reads_def hash_in_range_def)
qed

end
