(* ===== verification/Commit_Request.thy ===== *)
theory Commit_Request
  imports Txn_View
begin

text \<open>
  Commit requests and plans (\<open>commit/types.rs\<close>, \<open>commit/request.rs\<close>): descriptors of the
  participants, the request a transaction makes of its view, its plan, and the check that all of it is
  about one database.
\<close>

section \<open>Participants\<close>

definition PARTICIPANT_DESCRIPTOR_VERSION :: u16 where
  "PARTICIPANT_DESCRIPTOR_VERSION = 1"

datatype commit_record_version_error =
  UnsupportedCommittedRecordVersion u16 u16
| UnsupportedParticipantDescriptorVersion participant_id u16 u16

datatype commit_ack_policy = RequiredPublished | DurableOnlyAsync

datatype participant_role = Required | Deferred

record participant_descriptor =
  pd_descriptor_version :: u16
  pd_participant_id :: participant_id
  pd_kind :: participant_kind
  pd_resource_key :: txn_resource_key
  pd_role :: participant_role

definition with_descriptor_version ::
  "u16 \<Rightarrow> participant_id \<Rightarrow> participant_kind \<Rightarrow> txn_resource_key \<Rightarrow> participant_descriptor" where
  "with_descriptor_version version p kind key =
     \<lparr>pd_descriptor_version = version, pd_participant_id = p, pd_kind = kind, pd_resource_key = key, pd_role = Required\<rparr>"

definition descriptor_new :: "participant_id \<Rightarrow> participant_kind \<Rightarrow> txn_resource_key \<Rightarrow> participant_descriptor" where
  "descriptor_new p kind key = with_descriptor_version PARTICIPANT_DESCRIPTOR_VERSION p kind key"

definition descriptor_with_role :: "participant_descriptor \<Rightarrow> participant_role \<Rightarrow> participant_descriptor" where
  "descriptor_with_role d role = d\<lparr>pd_role := role\<rparr>"

definition descriptor_is_required :: "participant_descriptor \<Rightarrow> bool" where
  "descriptor_is_required d \<longleftrightarrow> pd_role d = Required"

definition descriptor_is_deferred :: "participant_descriptor \<Rightarrow> bool" where
  "descriptor_is_deferred d \<longleftrightarrow> pd_role d = Deferred"

definition validate_version :: "participant_descriptor \<Rightarrow> commit_record_version_error + unit" where
  "validate_version d =
     (if pd_descriptor_version d \<noteq> PARTICIPANT_DESCRIPTOR_VERSION
      then Inl (UnsupportedParticipantDescriptorVersion (pd_participant_id d) (pd_descriptor_version d)
             PARTICIPANT_DESCRIPTOR_VERSION)
      else Inr ())"

record prepared_participant =
  pp_descriptor :: participant_descriptor
  pp_role :: participant_role
  pp_prepared_bytes :: nat
  pp_write_count :: nat

definition prepared_with_role ::
  "participant_descriptor \<Rightarrow> participant_role \<Rightarrow> nat \<Rightarrow> nat \<Rightarrow> prepared_participant" where
  "prepared_with_role d role bytes writes =
     \<lparr>pp_descriptor = descriptor_with_role d role, pp_role = role, pp_prepared_bytes = bytes, pp_write_count = writes\<rparr>"

definition prepared_new :: "participant_descriptor \<Rightarrow> bool \<Rightarrow> nat \<Rightarrow> nat \<Rightarrow> prepared_participant" where
  "prepared_new d required bytes writes =
     prepared_with_role d (if required then Required else Deferred) bytes writes"

section \<open>Requests and plans\<close>

record commit_plan =
  pl_database_id :: db_id
  pl_txn_id :: txn_id
  pl_read_ts :: read_ts
  pl_isolation :: isolation_level
  pl_frozen_read_set :: frozen_read_set
  pl_lock_set :: "lock_request list"
  pl_participants :: "participant_descriptor list"

record commit_request =
  cr_database_id :: db_id
  cr_txn_id :: txn_id
  cr_transaction_view :: transaction_view
  cr_read_ts :: read_ts
  cr_isolation :: isolation_level
  cr_command_id :: u32
  cr_ack_policy :: commit_ack_policy
  cr_frozen_read_set :: frozen_read_set
  cr_participant_states :: "participant_state list"
  cr_lock_set :: "lock_request list"
  cr_participants :: "participant_descriptor list"

text \<open>Adding a participant unless an equal one is there.\<close>

definition push_participant :: "participant_descriptor list \<Rightarrow> participant_descriptor \<Rightarrow> participant_descriptor list" where
  "push_participant ps d = (if d \<in> set ps then ps else ps @ [d])"

definition request_new ::
  "(txn_id \<Rightarrow> u64) \<Rightarrow> read_dependency_index \<Rightarrow> db_id \<Rightarrow> txn_id \<Rightarrow> transaction_view \<Rightarrow> commit_ack_policy
     \<Rightarrow> lock_request list \<Rightarrow> participant_descriptor list \<Rightarrow> commit_request" where
  "request_new h ix db t view ack locks participants =
     \<lparr>cr_database_id = db, cr_txn_id = t, cr_transaction_view = view, cr_read_ts = tv_snapshot_read_ts view,
      cr_isolation = tv_isolation_level view, cr_command_id = tv_command_id view, cr_ack_policy = ack,
      cr_frozen_read_set = view_frozen_read_set h ix view, cr_participant_states = tv_participant_states view,
      cr_lock_set = locks,
      cr_participants = fold (\<lambda>st ps. push_participant ps
          (descriptor_new (ps_participant_id st) (ps_participant_kind st) (ps_resource_key st)))
        (tv_participant_states view) participants\<rparr>"

definition plan_from_request :: "commit_request \<Rightarrow> commit_plan" where
  "plan_from_request r =
     \<lparr>pl_database_id = cr_database_id r, pl_txn_id = cr_txn_id r, pl_read_ts = cr_read_ts r,
      pl_isolation = cr_isolation r, pl_frozen_read_set = cr_frozen_read_set r, pl_lock_set = cr_lock_set r,
      pl_participants = cr_participants r\<rparr>"

definition plan_contains_participant :: "commit_plan \<Rightarrow> participant_descriptor \<Rightarrow> bool" where
  "plan_contains_participant plan d \<longleftrightarrow> list_ex (\<lambda>c. c = d) (pl_participants plan)"

definition plan_required_participants :: "commit_plan \<Rightarrow> participant_descriptor list" where
  "plan_required_participants plan = filter descriptor_is_required (pl_participants plan)"

definition plan_deferred_participants :: "commit_plan \<Rightarrow> participant_descriptor list" where
  "plan_deferred_participants plan = filter descriptor_is_deferred (pl_participants plan)"

record validation_context =
  vc_read_ts :: read_ts
  vc_isolation :: isolation_level
  vc_participant_count :: nat
  vc_lock_count :: nat

definition context_from_plan :: "commit_plan \<Rightarrow> validation_context" where
  "context_from_plan plan =
     \<lparr>vc_read_ts = pl_read_ts plan, vc_isolation = pl_isolation plan,
      vc_participant_count = length (pl_participants plan), vc_lock_count = length (pl_lock_set plan)\<rparr>"

definition add_participant :: "commit_request \<Rightarrow> participant_descriptor \<Rightarrow> commit_request" where
  "add_participant r d = r\<lparr>cr_participants := push_participant (cr_participants r) d\<rparr>"

definition add_participants :: "commit_request \<Rightarrow> participant_descriptor list \<Rightarrow> commit_request" where
  "add_participants r ds = fold (\<lambda>d r. add_participant r d) ds r"

datatype request_validation_error =
  RuntimeDatabaseMismatch db_id db_id
| PlanDatabaseMismatch db_id db_id
| ParticipantDatabaseMismatch db_id db_id participant_id participant_kind

fun validate_participants :: "db_id \<Rightarrow> participant_descriptor list \<Rightarrow> request_validation_error + unit" where
  "validate_participants db [] = Inr ()"
| "validate_participants db (d # ds) =
     (if rk_database_id (pd_resource_key d) \<noteq> db
      then Inl (ParticipantDatabaseMismatch db (rk_database_id (pd_resource_key d)) (pd_participant_id d) (pd_kind d))
      else validate_participants db ds)"

definition validate_single_database ::
  "commit_request \<Rightarrow> db_id \<Rightarrow> commit_plan option \<Rightarrow> request_validation_error + unit" where
  "validate_single_database r runtime plan =
     (if cr_database_id r \<noteq> runtime then Inl (RuntimeDatabaseMismatch runtime (cr_database_id r))
      else (case plan of
              Some p \<Rightarrow>
                (if pl_database_id p \<noteq> cr_database_id r
                 then Inl (PlanDatabaseMismatch (cr_database_id r) (pl_database_id p))
                 else validate_participants (cr_database_id r) (cr_participants r))
            | None \<Rightarrow> validate_participants (cr_database_id r) (cr_participants r)))"

section \<open>Properties\<close>

lemma validate_participants_ok:
  "validate_participants db ds = Inr () \<longleftrightarrow> (\<forall>d \<in> set ds. rk_database_id (pd_resource_key d) = db)"
  by (induction ds) auto

lemma push_participant_set [simp]: "set (push_participant ps d) = insert d (set ps)"
  by (auto simp: push_participant_def)

lemma push_participant_distinct: "distinct ps \<Longrightarrow> distinct (push_participant ps d)"
  by (simp add: push_participant_def)

lemma fold_push_participant:
  "set (fold (\<lambda>x ps. push_participant ps (f x)) xs ps) = set ps \<union> f ` set xs \<and>
   (distinct ps \<longrightarrow> distinct (fold (\<lambda>x ps. push_participant ps (f x)) xs ps))"
  by (induction xs arbitrary: ps) (auto simp: push_participant_distinct)

text \<open>A request made from a view names the given participants and all participants of the view, each once if no given one
  is repeated; it passes the single-database check, with the plan made from it, exactly if its database and
  those of all its participants are the runtime's.\<close>

lemma request_single_database:
  assumes "r = request_new h ix db t view ack locks participants"
  shows "(distinct participants \<longrightarrow> distinct (cr_participants r)) \<and>
    set (cr_participants r) = set participants \<union>
      (\<lambda>st. descriptor_new (ps_participant_id st) (ps_participant_kind st) (ps_resource_key st)) ` set (tv_participant_states view) \<and>
    (validate_single_database r runtime (Some (plan_from_request r)) = Inr () \<longleftrightarrow>
       db = runtime \<and> (\<forall>d \<in> set (cr_participants r). rk_database_id (pd_resource_key d) = runtime))"
  using fold_push_participant [of "\<lambda>st. descriptor_new (ps_participant_id st) (ps_participant_kind st) (ps_resource_key st)"
      "tv_participant_states view" participants]
  by (auto simp: assms request_new_def validate_single_database_def plan_from_request_def validate_participants_ok)

end
