(* ===== verification/Commit_Log.thy ===== *)
theory Commit_Log
  imports Txn_Types
begin

text \<open>
  The contract of an index over committed transactions: commits are registered with rising
  timestamps, and advancing a horizon forgets those at or below it.  Two indexes of the
  transaction core have it, the one of committed writes and the one of committed summaries.
\<close>

section \<open>Monotone counters\<close>

text \<open>\<open>bump_atomic_max\<close>: the compare-and-swap loop that raises an atomic to a candidate; the value it
  stores and returns is the larger of both.\<close>

definition bump_atomic_max :: "u64 \<Rightarrow> u64 \<Rightarrow> u64" where
  "bump_atomic_max current candidate = (if current < candidate then candidate else current)"

lemma bump_atomic_max_eq: "bump_atomic_max a b = max a b"
  by (auto simp: bump_atomic_max_def max_def)

section \<open>Queues sorted by time\<close>

text \<open>Popping the front while it is old removes everything old when the queue is sorted.\<close>

lemma dropWhile_sorted:
  "sorted (map ts es) \<Longrightarrow> dropWhile (\<lambda>e. ts e \<le> (h :: u64)) es = filter (\<lambda>e. h < ts e) es"
proof (induction es)
  case (Cons e es)
  show ?case
  proof (cases "ts e \<le> h")
    case False
    with Cons.prems have "\<forall>e' \<in> set es. h < ts e'" by fastforce
    with False show ?thesis by (simp add: filter_id_conv)
  qed (use Cons in \<open>simp add: not_le\<close>)
qed simp

lemma sorted_snoc: "sorted (map ts es) \<Longrightarrow> (\<And>e'. e' \<in> set es \<Longrightarrow> ts e' \<le> ts e) \<Longrightarrow> sorted (map ts (es @ [e]))"
  by (simp add: sorted_append)

lemma sorted_map_filter: "sorted (map ts es) \<Longrightarrow> sorted (map ts (filter P es))"
  by (induction es) auto

lemma UN_list_update:
  assumes "i < length xs" "f y = insert a (f (xs ! i))"
  shows "(\<Union>x \<in> set (xs[i := y]). f x) = insert a (\<Union>x \<in> set xs. f x)"
  using assms
proof (induction xs arbitrary: i)
  case (Cons x xs)
  then show ?case by (cases i) auto
qed simp

section \<open>The contract\<close>

text \<open>\<open>logged\<close> is what the index holds, as pairs of a commit timestamp and an item of the commit.\<close>

datatype 'c log_op = Log_Register 'c | Log_Advance commit_ts

fun log_apply ::
  "('ix \<Rightarrow> 'c \<Rightarrow> 'ix \<times> bool) \<Rightarrow> ('ix \<Rightarrow> commit_ts \<Rightarrow> 'ix) \<Rightarrow> 'c log_op \<Rightarrow> 'ix \<Rightarrow> 'ix" where
  "log_apply register advance (Log_Register c) ix = fst (register ix c)"
| "log_apply register advance (Log_Advance t) ix = advance ix t"

text \<open>Everything a run registered, whether still held or not.\<close>

fun log_history ::
  "('ix \<Rightarrow> 'c \<Rightarrow> 'ix \<times> bool) \<Rightarrow> ('ix \<Rightarrow> commit_ts \<Rightarrow> 'ix) \<Rightarrow> ('c \<Rightarrow> 'x set) \<Rightarrow> 'c log_op list \<Rightarrow> 'ix
     \<Rightarrow> 'x set" where
  "log_history register advance items [] ix = {}"
| "log_history register advance items (op # ops) ix =
     (case op of Log_Register c \<Rightarrow> (if snd (register ix c) then items c else {}) | Log_Advance t \<Rightarrow> {}) \<union>
     log_history register advance items ops (log_apply register advance op ix)"

locale commit_log =
  fixes ok :: "'ix \<Rightarrow> bool"
    and logged :: "'ix \<Rightarrow> (commit_ts \<times> 'e) set"
    and horizon :: "'ix \<Rightarrow> commit_ts"
    and items :: "'c \<Rightarrow> (commit_ts \<times> 'e) set"
    and register :: "'ix \<Rightarrow> 'c \<Rightarrow> 'ix \<times> bool"
    and advance :: "'ix \<Rightarrow> commit_ts \<Rightarrow> 'ix"
  assumes register_ok: "ok ix \<Longrightarrow> register ix c = (ix', accepted) \<Longrightarrow>
      ok ix' \<and> horizon ix' = horizon ix \<and>
      logged ix' = (if accepted then logged ix \<union> items c else logged ix)"
    and advance_ok: "ok ix \<Longrightarrow>
      ok (advance ix t) \<and> horizon (advance ix t) = max (horizon ix) t \<and>
      logged (advance ix t) = {x \<in> logged ix. horizon (advance ix t) < fst x}"
begin

abbreviation step where
  "step \<equiv> log_apply register advance"

abbreviation history where
  "history \<equiv> log_history register advance items"

lemma log_apply_ok: "ok ix \<Longrightarrow> ok (step op ix)"
  using register_ok [OF _ prod.collapse [symmetric]] advance_ok by (cases op) auto

lemma log_run_ok: "ok ix \<Longrightarrow> ok (fold step ops ix)"
  by (induction ops arbitrary: ix) (simp_all add: log_apply_ok)

lemma horizon_mono: "ok ix \<Longrightarrow> horizon ix \<le> horizon (fold step ops ix)"
proof (induction ops arbitrary: ix)
  case (Cons op ops)
  have "horizon ix \<le> horizon (step op ix)"
  proof (cases op)
    case (Log_Register c)
    then show ?thesis using register_ok [OF Cons.prems prod.collapse [symmetric]] by simp
  next
    case (Log_Advance t)
    then show ?thesis using advance_ok [OF Cons.prems, of t] by simp
  qed
  with Cons.IH [OF log_apply_ok [OF Cons.prems, of op]] show ?case by simp
qed simp

lemma logged_step:
  assumes "ok ix"
  shows "logged (step op ix) \<subseteq> logged ix \<union> history [op] ix"
    "{x \<in> logged ix \<union> history [op] ix. horizon (step op ix) < fst x} \<subseteq> logged (step op ix)"
proof -
  have "logged (step op ix) \<subseteq> logged ix \<union> history [op] ix \<and>
    {x \<in> logged ix \<union> history [op] ix. horizon (step op ix) < fst x} \<subseteq> logged (step op ix)"
  proof (cases op)
    case (Log_Register c)
    then show ?thesis using register_ok [OF assms prod.collapse [symmetric], of c] by auto
  next
    case (Log_Advance t)
    then show ?thesis using advance_ok [OF assms, of t] by auto
  qed
  then show "logged (step op ix) \<subseteq> logged ix \<union> history [op] ix"
    "{x \<in> logged ix \<union> history [op] ix. horizon (step op ix) < fst x} \<subseteq> logged (step op ix)"
    by auto
qed

text \<open>The index holds nothing that was not registered, and all that lies above the horizon.\<close>

lemma logged_run:
  assumes "ok ix"
  shows "logged (fold step ops ix) \<subseteq> logged ix \<union> history ops ix \<and>
    {x \<in> logged ix \<union> history ops ix. horizon (fold step ops ix) < fst x} \<subseteq> logged (fold step ops ix)"
  using assms
proof (induction ops arbitrary: ix)
  case (Cons op ops)
  let ?ix = "step op ix"
  have ok: "ok ?ix" by (rule log_apply_ok [OF Cons.prems])
  note IH = Cons.IH [OF ok] and one = logged_step [OF Cons.prems, of op]
  have hist: "history (op # ops) ix = history [op] ix \<union> history ops ?ix" by simp
  have "x \<in> logged (fold step ops ?ix)"
    if "x \<in> logged ix \<union> history (op # ops) ix" "horizon (fold step ops ?ix) < fst x" for x
  proof -
    have "horizon ?ix < fst x" using horizon_mono [OF ok, of ops] that(2) by (rule order.strict_trans1)
    with one(2) that(1) have "x \<in> logged ?ix \<union> history ops ?ix" unfolding hist by blast
    with IH that(2) show ?thesis by blast
  qed
  moreover have "logged (fold step ops ?ix) \<subseteq> logged ix \<union> history (op # ops) ix"
    using IH one(1) unfolding hist by blast
  ultimately show ?case by auto
qed simp

end

end
