(* ===== verification/Committed_Summary.thy ===== *)
theory Committed_Summary
  imports Commit_Log Read_Dependency
begin

text \<open>
  Summaries of committed transactions (\<open>committed_txn_summary.rs\<close>), kept for the validation of
  serializable transactions: the compressed read set and the write set of each commit, searched for
  conflicts with the reads or the writes of a committing transaction.  \<open>h\<close> is the standard library's
  hash of a transaction id.
\<close>

section \<open>Summaries\<close>

record compressed_read_set =
  crs_dependency_count :: nat
  crs_coarsened :: bool
  crs_dependencies :: "read_dependency list"

definition from_frozen :: "frozen_read_set \<Rightarrow> compressed_read_set" where
  "from_frozen rs =
     (case compact_read_dependencies (frs_dependencies rs) of
        (dependencies, summary_coarsened) \<Rightarrow>
          \<lparr>crs_dependency_count = max (frs_dependency_count rs) (length dependencies),
           crs_coarsened = (frs_coarsened rs \<or> summary_coarsened),
           crs_dependencies = dependencies\<rparr>)"

record committed_txn_summary =
  cts_txn_id :: txn_id
  cts_read_ts :: read_ts
  cts_commit_ts :: commit_ts
  cts_write_set :: "lock_resource list"
  cts_read_set :: compressed_read_set

definition summary_new ::
  "txn_id \<Rightarrow> read_ts \<Rightarrow> commit_ts \<Rightarrow> lock_resource list \<Rightarrow> frozen_read_set \<Rightarrow> committed_txn_summary" where
  "summary_new t rts cts writes reads =
     \<lparr>cts_txn_id = t, cts_read_ts = rts, cts_commit_ts = cts, cts_write_set = sort_dedup writes,
      cts_read_set = from_frozen reads\<rparr>"

record committed_txn_conflict =
  ctc_txn_id :: txn_id
  ctc_read_ts :: read_ts
  ctc_commit_ts :: commit_ts
  ctc_dependency :: read_dependency
  ctc_write :: lock_resource

definition ctc_is_coarse_scan_marker :: "committed_txn_conflict \<Rightarrow> bool" where
  "ctc_is_coarse_scan_marker c = is_coarse_scan_marker (ctc_dependency c)"

section \<open>The index\<close>

record summary_shard =
  ss_summaries :: "committed_txn_summary list"
  ss_last_commit_ts :: commit_ts

record summary_index =
  si_shards :: "summary_shard list"
  si_durable_ts :: commit_ts
  si_conflict_horizon :: commit_ts

datatype summary_error = SummaryNonMonotonicCommit commit_ts commit_ts

definition summary_index_new :: "nat \<Rightarrow> summary_index option" where
  "summary_index_new shard_count =
     (if 0 < shard_count
      then Some \<lparr>si_shards = replicate shard_count \<lparr>ss_summaries = [], ss_last_commit_ts = commit_ts_zero\<rparr>,
                 si_durable_ts = 0, si_conflict_horizon = 0\<rparr>
      else None)"

definition si_shard_index :: "(txn_id \<Rightarrow> u64) \<Rightarrow> summary_index \<Rightarrow> txn_id \<Rightarrow> nat" where
  "si_shard_index h ix t = unat (h t) mod length (si_shards ix)"

definition summary_push :: "summary_shard \<Rightarrow> committed_txn_summary \<Rightarrow> summary_error + summary_shard" where
  "summary_push shard s =
     (if cts_commit_ts s < ss_last_commit_ts shard
      then Inl (SummaryNonMonotonicCommit (ss_last_commit_ts shard) (cts_commit_ts s))
      else Inr (shard\<lparr>ss_last_commit_ts := cts_commit_ts s, ss_summaries := ss_summaries shard @ [s]\<rparr>))"

definition summary_gc :: "summary_shard \<Rightarrow> commit_ts \<Rightarrow> summary_shard" where
  "summary_gc shard horizon =
     shard\<lparr>ss_summaries := dropWhile (\<lambda>s. cts_commit_ts s \<le> horizon) (ss_summaries shard)\<rparr>"

definition si_register_commit ::
  "(txn_id \<Rightarrow> u64) \<Rightarrow> summary_index \<Rightarrow> committed_txn_summary \<Rightarrow> summary_index \<times> (summary_error + unit)" where
  "si_register_commit h ix s =
     (if cts_commit_ts s < si_durable_ts ix
      then (ix, Inl (SummaryNonMonotonicCommit (si_durable_ts ix) (cts_commit_ts s)))
      else
        (let i = si_shard_index h ix (cts_txn_id s)
         in case summary_push (si_shards ix ! i) s of
              Inl err \<Rightarrow> (ix, Inl err)
            | Inr shard \<Rightarrow>
                (ix\<lparr>si_shards := (si_shards ix)[i := shard],
                    si_durable_ts := bump_atomic_max (si_durable_ts ix) (cts_commit_ts s)\<rparr>, Inr ())))"

definition si_advance_horizon :: "summary_index \<Rightarrow> commit_ts \<Rightarrow> summary_index \<times> commit_ts" where
  "si_advance_horizon ix target =
     (let horizon = bump_atomic_max (si_conflict_horizon ix) target
      in (ix\<lparr>si_conflict_horizon := horizon,
             si_shards := map (\<lambda>shard. summary_gc shard horizon) (si_shards ix)\<rparr>, horizon))"

definition newer_summaries :: "summary_index \<Rightarrow> read_ts \<Rightarrow> committed_txn_summary list" where
  "newer_summaries ix rts =
     concat (map (\<lambda>shard. filter (\<lambda>s. rts < cts_commit_ts s) (ss_summaries shard)) (si_shards ix))"

definition summaries_after :: "summary_index \<Rightarrow> read_ts \<Rightarrow> committed_txn_summary list" where
  "summaries_after ix rts =
     sort_key (\<lambda>s. [unat (cts_commit_ts s), unat (cts_txn_id s)]) (newer_summaries ix rts)"

definition select_earlier_conflict ::
  "committed_txn_conflict option \<Rightarrow> committed_txn_conflict \<Rightarrow> committed_txn_conflict option" where
  "select_earlier_conflict slot c =
     (case slot of
        None \<Rightarrow> Some c
      | Some current \<Rightarrow>
          (if ctc_commit_ts c < ctc_commit_ts current \<or>
              (ctc_commit_ts c = ctc_commit_ts current \<and> ctc_txn_id c < ctc_txn_id current)
           then Some c else Some current))"

text \<open>The conflicts of one summary, in the order the nested loops meet them.\<close>

definition conflicts_of ::
  "committed_txn_summary \<Rightarrow> read_dependency list \<Rightarrow> lock_resource list \<Rightarrow> committed_txn_conflict list" where
  "conflicts_of s deps ws =
     concat (map (\<lambda>d. map (\<lambda>w. \<lparr>ctc_txn_id = cts_txn_id s, ctc_read_ts = cts_read_ts s,
                                ctc_commit_ts = cts_commit_ts s, ctc_dependency = d, ctc_write = w\<rparr>)
                        (filter (conflicts_with_write d) ws)) deps)"

definition first_write_conflict_for_reads ::
  "summary_index \<Rightarrow> read_ts \<Rightarrow> read_dependency list \<Rightarrow> committed_txn_conflict option" where
  "first_write_conflict_for_reads ix rts reads =
     (if reads = [] then None
      else fold (\<lambda>c best. select_earlier_conflict best c)
             (concat (map (\<lambda>s. conflicts_of s reads (cts_write_set s)) (newer_summaries ix rts))) None)"

definition first_read_conflict_for_writes ::
  "summary_index \<Rightarrow> read_ts \<Rightarrow> lock_resource list \<Rightarrow> committed_txn_conflict option" where
  "first_read_conflict_for_writes ix rts writes =
     (if writes = [] then None
      else fold (\<lambda>c best. select_earlier_conflict best c)
             (concat (map (\<lambda>s. conflicts_of s (crs_dependencies (cts_read_set s)) writes)
                (newer_summaries ix rts))) None)"

section \<open>What the index holds\<close>

definition si_logged :: "summary_index \<Rightarrow> (commit_ts \<times> committed_txn_summary) set" where
  "si_logged ix = (\<lambda>s. (cts_commit_ts s, s)) ` (\<Union>shard \<in> set (si_shards ix). set (ss_summaries shard))"

definition summary_shard_ok :: "commit_ts \<Rightarrow> summary_shard \<Rightarrow> bool" where
  "summary_shard_ok durable shard \<longleftrightarrow>
     sorted (map cts_commit_ts (ss_summaries shard)) \<and> ss_last_commit_ts shard \<le> durable \<and>
     (\<forall>s \<in> set (ss_summaries shard). cts_commit_ts s \<le> ss_last_commit_ts shard)"

definition si_ok :: "summary_index \<Rightarrow> bool" where
  "si_ok ix \<longleftrightarrow> si_shards ix \<noteq> [] \<and> (\<forall>shard \<in> set (si_shards ix). summary_shard_ok (si_durable_ts ix) shard)"

lemma si_new_ok: "summary_index_new n = Some ix \<Longrightarrow> si_ok ix \<and> si_logged ix = {} \<and> si_conflict_horizon ix = 0"
  by (auto simp: summary_index_new_def si_ok_def si_logged_def summary_shard_ok_def commit_ts_zero_def split: if_splits)

lemma summary_push_ok:
  assumes "summary_shard_ok (cts_commit_ts s) shard"
  shows "\<exists>shard'. summary_push shard s = Inr shard' \<and> summary_shard_ok (cts_commit_ts s) shard' \<and>
    ss_summaries shard' = ss_summaries shard @ [s]"
proof -
  have "\<forall>s' \<in> set (ss_summaries shard). cts_commit_ts s' \<le> cts_commit_ts s"
    using assms order_trans by (auto simp: summary_shard_ok_def)
  then show ?thesis using assms by (auto simp: summary_push_def summary_shard_ok_def sorted_append)
qed

lemma si_register_ok:
  assumes "si_ok ix" "si_register_commit h ix s = (ix', res)"
  shows "si_ok ix' \<and> si_conflict_horizon ix' = si_conflict_horizon ix \<and>
    (if cts_commit_ts s < si_durable_ts ix
     then ix' = ix \<and> res = Inl (SummaryNonMonotonicCommit (si_durable_ts ix) (cts_commit_ts s))
     else res = Inr () \<and> si_durable_ts ix' = cts_commit_ts s \<and> si_logged ix' = insert (cts_commit_ts s, s) (si_logged ix))"
proof (cases "cts_commit_ts s < si_durable_ts ix")
  case True
  with assms show ?thesis by (auto simp: si_register_commit_def)
next
  case False
  let ?i = "si_shard_index h ix (cts_txn_id s)"
  have i: "?i < length (si_shards ix)" using assms(1) by (simp add: si_ok_def si_shard_index_def)
  have ok: "\<forall>shard \<in> set (si_shards ix). summary_shard_ok (cts_commit_ts s) shard"
    using assms(1) False by (auto simp: si_ok_def summary_shard_ok_def)
  then have "summary_shard_ok (cts_commit_ts s) (si_shards ix ! ?i)" using i by simp
  from summary_push_ok [OF this] obtain shard where
    push: "summary_push (si_shards ix ! ?i) s = Inr shard" and shard: "summary_shard_ok (cts_commit_ts s) shard"
    and es: "ss_summaries shard = ss_summaries (si_shards ix ! ?i) @ [s]" by blast
  have ix': "ix' = ix\<lparr>si_shards := (si_shards ix)[?i := shard], si_durable_ts := cts_commit_ts s\<rparr>" "res = Inr ()"
    using assms(2) False by (auto simp: si_register_commit_def push bump_atomic_max_def Let_def)
  have "(\<Union>shard \<in> set (si_shards ix'). set (ss_summaries shard)) =
      insert s (\<Union>shard \<in> set (si_shards ix). set (ss_summaries shard))"
    using UN_list_update [OF i, of "\<lambda>shard. set (ss_summaries shard)" shard s] by (simp add: ix' es)
  moreover have "\<forall>shard \<in> set (si_shards ix'). summary_shard_ok (cts_commit_ts s) shard"
    using ok shard by (auto simp: ix' dest!: set_update_subset_insert [THEN subsetD])
  ultimately show ?thesis using False assms(1) by (simp add: ix' si_ok_def si_logged_def)
qed

lemma si_advance_ok:
  assumes "si_ok ix"
  shows "si_ok (fst (si_advance_horizon ix t)) \<and>
    si_conflict_horizon (fst (si_advance_horizon ix t)) = max (si_conflict_horizon ix) t \<and>
    si_logged (fst (si_advance_horizon ix t)) = {x \<in> si_logged ix. max (si_conflict_horizon ix) t < fst x}"
proof -
  let ?hz = "max (si_conflict_horizon ix) t"
  have gc: "ss_summaries (summary_gc shard ?hz) = filter (\<lambda>s. ?hz < cts_commit_ts s) (ss_summaries shard)"
    if "shard \<in> set (si_shards ix)" for shard
    using assms that dropWhile_sorted [of cts_commit_ts "ss_summaries shard" ?hz]
    by (simp add: si_ok_def summary_shard_ok_def summary_gc_def)
  have "summary_shard_ok (si_durable_ts ix) (summary_gc shard ?hz)" if "shard \<in> set (si_shards ix)" for shard
  proof -
    have "ss_last_commit_ts (summary_gc shard ?hz) = ss_last_commit_ts shard" by (simp add: summary_gc_def)
    with assms that gc [OF that] show ?thesis by (simp add: si_ok_def summary_shard_ok_def sorted_map_filter)
  qed
  then have "si_ok (fst (si_advance_horizon ix t))"
    using assms by (simp add: si_ok_def si_advance_horizon_def Let_def bump_atomic_max_eq)
  moreover have "si_logged (fst (si_advance_horizon ix t)) = {x \<in> si_logged ix. ?hz < fst x}"
    by (auto simp: si_logged_def si_advance_horizon_def Let_def bump_atomic_max_eq gc image_iff)
  ultimately show ?thesis by (simp add: si_advance_horizon_def Let_def bump_atomic_max_eq)
qed

section \<open>Queries\<close>

lemma from_frozen_conflicting [simp]:
  "conflicting (crs_dependencies (from_frozen rs)) w = conflicting (frs_dependencies rs) w"
  using compact_read_dependencies_exact [of "frs_dependencies rs" w]
  by (simp add: from_frozen_def case_prod_beta)

lemma set_newer_summaries:
  "set (newer_summaries ix rts) = {s. (cts_commit_ts s, s) \<in> si_logged ix \<and> rts < cts_commit_ts s}"
  by (auto simp: newer_summaries_def si_logged_def image_iff)

definition earlier_or_same :: "committed_txn_conflict \<Rightarrow> committed_txn_conflict \<Rightarrow> bool" where
  "earlier_or_same a b \<longleftrightarrow>
     ctc_commit_ts a < ctc_commit_ts b \<or> ctc_commit_ts a = ctc_commit_ts b \<and> ctc_txn_id a \<le> ctc_txn_id b"

lemma earlier_or_same_trans: "earlier_or_same a b \<Longrightarrow> earlier_or_same b c \<Longrightarrow> earlier_or_same a c"
  by (auto simp: earlier_or_same_def)

lemma select_earlier:
  "\<exists>d. select_earlier_conflict slot c = Some d \<and> (d = c \<or> slot = Some d) \<and> earlier_or_same d c \<and>
     (\<forall>e. slot = Some e \<longrightarrow> earlier_or_same d e)"
  by (cases slot) (auto simp: select_earlier_conflict_def earlier_or_same_def)

lemma fold_select_Some:
  "\<exists>d. fold (\<lambda>c best. select_earlier_conflict best c) cs (Some e) = Some d \<and> d \<in> insert e (set cs) \<and>
     (\<forall>c \<in> insert e (set cs). earlier_or_same d c)"
proof (induction cs arbitrary: e)
  case (Cons c cs)
  obtain f where f: "select_earlier_conflict (Some e) c = Some f" "f = c \<or> f = e" "earlier_or_same f c" "earlier_or_same f e"
    using select_earlier [of "Some e" c] by auto
  obtain d where d: "fold (\<lambda>c best. select_earlier_conflict best c) cs (Some f) = Some d"
    "d \<in> insert f (set cs)" "\<forall>c \<in> insert f (set cs). earlier_or_same d c"
    using Cons.IH [of f] by blast
  have "earlier_or_same d f" using d(3) by simp
  then have "earlier_or_same d c" "earlier_or_same d e" using f(3,4) earlier_or_same_trans by blast+
  with d f(1,2) show ?case by auto
qed (simp add: earlier_or_same_def)

lemma fold_select:
  "(fold (\<lambda>c best. select_earlier_conflict best c) cs None = None \<longleftrightarrow> cs = []) \<and>
   (fold (\<lambda>c best. select_earlier_conflict best c) cs None = Some d \<longrightarrow>
      d \<in> set cs \<and> (\<forall>c \<in> set cs. earlier_or_same d c))"
proof (cases cs)
  case (Cons c rest)
  have "select_earlier_conflict None c = Some c" by (simp add: select_earlier_conflict_def)
  with fold_select_Some [of rest c] show ?thesis by (auto simp: Cons)
qed simp

lemma set_conflicts_of:
  "c \<in> set (conflicts_of s deps ws) \<longleftrightarrow>
     ctc_txn_id c = cts_txn_id s \<and> ctc_read_ts c = cts_read_ts s \<and> ctc_commit_ts c = cts_commit_ts s \<and>
     ctc_dependency c \<in> set deps \<and> ctc_write c \<in> set ws \<and> conflicts_with_write (ctc_dependency c) (ctc_write c)"
  by (cases c) (auto simp: conflicts_of_def image_iff)

lemma conflicts_of_Nil: "conflicts_of s deps ws = [] \<longleftrightarrow> (\<forall>w \<in> set ws. \<not> conflicting deps w)"
  by (auto simp: conflicts_of_def conflicting_iff filter_empty_conv)

lemma first_write_conflict_iff:
  "first_write_conflict_for_reads ix rts reads \<noteq> None \<longleftrightarrow>
     (\<exists>s. (cts_commit_ts s, s) \<in> si_logged ix \<and> rts < cts_commit_ts s \<and>
        (\<exists>w \<in> set (cts_write_set s). conflicting reads w))"
proof (cases "reads = []")
  case False
  then show ?thesis
    using fold_select [of "concat (map (\<lambda>s. conflicts_of s reads (cts_write_set s)) (newer_summaries ix rts))"]
    by (auto simp: first_write_conflict_for_reads_def set_newer_summaries conflicts_of_Nil)
qed (simp add: first_write_conflict_for_reads_def)

lemma first_read_conflict_iff:
  "first_read_conflict_for_writes ix rts writes \<noteq> None \<longleftrightarrow>
     (\<exists>s. (cts_commit_ts s, s) \<in> si_logged ix \<and> rts < cts_commit_ts s \<and>
        (\<exists>w \<in> set writes. conflicting (crs_dependencies (cts_read_set s)) w))"
proof (cases "writes = []")
  case False
  then show ?thesis
    using fold_select [of "concat (map (\<lambda>s. conflicts_of s (crs_dependencies (cts_read_set s)) writes) (newer_summaries ix rts))"]
    by (auto simp: first_read_conflict_for_writes_def set_newer_summaries conflicts_of_Nil)
qed (simp add: first_read_conflict_for_writes_def)

section \<open>The contract\<close>

definition si_register :: "(txn_id \<Rightarrow> u64) \<Rightarrow> summary_index \<Rightarrow> committed_txn_summary \<Rightarrow> summary_index \<times> bool" where
  "si_register h ix s = (case si_register_commit h ix s of (ix', res) \<Rightarrow> (ix', \<not> isl res))"

definition si_advance :: "summary_index \<Rightarrow> commit_ts \<Rightarrow> summary_index" where
  "si_advance ix t = fst (si_advance_horizon ix t)"

definition si_items :: "committed_txn_summary \<Rightarrow> (commit_ts \<times> committed_txn_summary) set" where
  "si_items s = {(cts_commit_ts s, s)}"

interpretation summary_log: commit_log si_ok si_logged si_conflict_horizon si_items "si_register h" si_advance for h
proof
  fix ix c ix' accepted
  assume "si_ok ix" "si_register h ix c = (ix', accepted)"
  then show "si_ok ix' \<and> si_conflict_horizon ix' = si_conflict_horizon ix \<and>
      si_logged ix' = (if accepted then si_logged ix \<union> si_items c else si_logged ix)"
    using si_register_ok [of ix h c]
    by (auto simp: si_register_def si_items_def split: prod.splits if_splits)
next
  fix ix t
  assume "si_ok ix"
  then show "si_ok (si_advance ix t) \<and> si_conflict_horizon (si_advance ix t) = max (si_conflict_horizon ix) t \<and>
      si_logged (si_advance ix t) = {x \<in> si_logged ix. si_conflict_horizon (si_advance ix t) < fst x}"
    using si_advance_ok [of ix t] by (simp add: si_advance_def)
qed

definition si_run ::
  "(txn_id \<Rightarrow> u64) \<Rightarrow> committed_txn_summary log_op list \<Rightarrow> summary_index \<Rightarrow> summary_index" where
  "si_run h ops ix = fold (log_apply (si_register h) si_advance) ops ix"

definition si_history ::
  "(txn_id \<Rightarrow> u64) \<Rightarrow> committed_txn_summary log_op list \<Rightarrow> summary_index \<Rightarrow> committed_txn_summary set" where
  "si_history h ops ix = snd ` log_history (si_register h) si_advance si_items ops ix"

lemma si_run_ok:
  assumes "summary_index_new n = Some ix0"
  shows "si_ok (si_run h ops ix0)"
    "(cts_commit_ts s, s) \<in> si_logged (si_run h ops ix0) \<Longrightarrow> s \<in> si_history h ops ix0"
    "s \<in> si_history h ops ix0 \<Longrightarrow> si_conflict_horizon (si_run h ops ix0) < cts_commit_ts s \<Longrightarrow>
       (cts_commit_ts s, s) \<in> si_logged (si_run h ops ix0)"
proof -
  have ok: "si_ok ix0" and empty: "si_logged ix0 = {}" using si_new_ok [OF assms] by auto
  have items: "fst x = cts_commit_ts (snd x)" if "x \<in> log_history (si_register h) si_advance si_items ops ix" for x ix
    using that by (induction ops arbitrary: ix) (auto simp: si_items_def split: log_op.splits if_splits)
  show "si_ok (si_run h ops ix0)" using summary_log.log_run_ok [OF ok] by (simp add: si_run_def)
  note logged = summary_log.logged_run [OF ok, of h ops]
  show "(cts_commit_ts s, s) \<in> si_logged (si_run h ops ix0) \<Longrightarrow> s \<in> si_history h ops ix0"
    using logged empty by (force simp: si_run_def si_history_def)
  assume s: "s \<in> si_history h ops ix0" "si_conflict_horizon (si_run h ops ix0) < cts_commit_ts s"
  then have "(cts_commit_ts s, s) \<in> log_history (si_register h) si_advance si_items ops ix0"
    using items by (force simp: si_history_def)
  with logged s(2) show "(cts_commit_ts s, s) \<in> si_logged (si_run h ops ix0)" by (auto simp: si_run_def)
qed

lemma search_history:
  assumes "summary_index_new n = Some ix0" "ix = si_run h ops ix0" "si_conflict_horizon ix \<le> rts"
  shows "(cts_commit_ts s, s) \<in> si_logged ix \<and> rts < cts_commit_ts s \<longleftrightarrow>
      s \<in> si_history h ops ix0 \<and> rts < cts_commit_ts s"
    "first_write_conflict_for_reads ix rts reads \<noteq> None \<longleftrightarrow>
      (\<exists>s \<in> si_history h ops ix0. rts < cts_commit_ts s \<and> (\<exists>w \<in> set (cts_write_set s). conflicting reads w))"
    "first_read_conflict_for_writes ix rts writes \<noteq> None \<longleftrightarrow>
      (\<exists>s \<in> si_history h ops ix0. rts < cts_commit_ts s \<and>
         (\<exists>w \<in> set writes. conflicting (crs_dependencies (cts_read_set s)) w))"
proof -
  have logged: "(cts_commit_ts s, s) \<in> si_logged ix \<and> rts < cts_commit_ts s \<longleftrightarrow>
      s \<in> si_history h ops ix0 \<and> rts < cts_commit_ts s" for s
    using si_run_ok(2,3) [OF assms(1), of s h ops] assms(2,3) order.strict_trans1 by blast
  then show "(cts_commit_ts s, s) \<in> si_logged ix \<and> rts < cts_commit_ts s \<longleftrightarrow>
      s \<in> si_history h ops ix0 \<and> rts < cts_commit_ts s" .
  show "first_write_conflict_for_reads ix rts reads \<noteq> None \<longleftrightarrow>
      (\<exists>s \<in> si_history h ops ix0. rts < cts_commit_ts s \<and> (\<exists>w \<in> set (cts_write_set s). conflicting reads w))"
    unfolding first_write_conflict_iff using logged by blast
  show "first_read_conflict_for_writes ix rts writes \<noteq> None \<longleftrightarrow>
      (\<exists>s \<in> si_history h ops ix0. rts < cts_commit_ts s \<and>
         (\<exists>w \<in> set writes. conflicting (crs_dependencies (cts_read_set s)) w))"
    unfolding first_read_conflict_iff using logged by blast
qed

section \<open>Properties\<close>

text \<open>What a reported conflict says of a commit: its fields are the commit's, and its dependency and its write are
  one of the given reads and one of the given writes that conflict.\<close>

definition reports ::
  "committed_txn_conflict \<Rightarrow> committed_txn_summary \<Rightarrow> read_dependency list \<Rightarrow> lock_resource list \<Rightarrow> bool" where
  "reports c s deps ws \<longleftrightarrow>
     ctc_txn_id c = cts_txn_id s \<and> ctc_read_ts c = cts_read_ts s \<and> ctc_commit_ts c = cts_commit_ts s \<and>
     ctc_dependency c \<in> set deps \<and> ctc_write c \<in> set ws \<and> conflicts_with_write (ctc_dependency c) (ctc_write c)"

text \<open>A commit at the reported position or after it, in the order of commit timestamps and then transaction ids.\<close>

definition not_before :: "committed_txn_summary \<Rightarrow> committed_txn_conflict \<Rightarrow> bool" where
  "not_before s c \<longleftrightarrow>
     ctc_commit_ts c < cts_commit_ts s \<or> ctc_commit_ts c = cts_commit_ts s \<and> ctc_txn_id c \<le> cts_txn_id s"

lemma search_reports:
  assumes found: "fold (\<lambda>c best. select_earlier_conflict best c)
      (concat (map (\<lambda>s. conflicts_of s (deps s) (ws s)) (newer_summaries ix rts))) None = Some c"
    and logged: "\<And>s. (cts_commit_ts s, s) \<in> si_logged ix \<and> rts < cts_commit_ts s \<longleftrightarrow> s \<in> hist \<and> rts < cts_commit_ts s"
  shows "(\<exists>s \<in> hist. rts < cts_commit_ts s \<and> reports c s (deps s) (ws s)) \<and>
    (\<forall>s \<in> hist. rts < cts_commit_ts s \<and> (\<exists>w \<in> set (ws s). conflicting (deps s) w) \<longrightarrow> not_before s c)"
proof -
  let ?cs = "concat (map (\<lambda>s. conflicts_of s (deps s) (ws s)) (newer_summaries ix rts))"
  have best: "c \<in> set ?cs" "\<forall>d \<in> set ?cs. earlier_or_same c d" using fold_select [of ?cs c] found by auto
  have newer: "set (newer_summaries ix rts) = {s \<in> hist. rts < cts_commit_ts s}"
    using logged by (auto simp: set_newer_summaries)
  have "not_before s c" if s: "s \<in> hist" "rts < cts_commit_ts s" "\<exists>w \<in> set (ws s). conflicting (deps s) w" for s
  proof -
    have "conflicts_of s (deps s) (ws s) \<noteq> []" using s(3) conflicts_of_Nil by blast
    then obtain d where d: "d \<in> set (conflicts_of s (deps s) (ws s))"
      by (cases "conflicts_of s (deps s) (ws s)") auto
    then have "d \<in> set ?cs" using newer s(1,2) by auto
    with best(2) d show ?thesis by (auto simp: earlier_or_same_def not_before_def set_conflicts_of)
  qed
  with best(1) newer show ?thesis by (fastforce simp: reports_def set_conflicts_of)
qed

text \<open>\<^bold>\<open>C21.\<close> The searches of the committed summaries are exact.  For a snapshot at or above the horizon,
  in every state of the index, the search for writes over the reads of a transaction finds something
  iff some commit newer than the snapshot wrote what it read, and the search for reads under its writes
  iff some newer commit's read set, compressed or not, conflicts with what it writes.  What either search finds is
  a conflict of a registered commit newer than the snapshot, with that commit's transaction and timestamps, a
  dependency and a write of the two sides that do conflict, and every other newer commit that conflicts has a later
  commit timestamp, or the same one and no smaller transaction id.\<close>

theorem summary_search_exact:
  assumes "summary_index_new n = Some ix0" "ix = si_run h ops ix0" "si_conflict_horizon ix \<le> rts"
  shows "(first_write_conflict_for_reads ix rts reads \<noteq> None \<longleftrightarrow>
      (\<exists>s \<in> si_history h ops ix0. rts < cts_commit_ts s \<and> (\<exists>w \<in> set (cts_write_set s). conflicting reads w))) \<and>
    (first_read_conflict_for_writes ix rts writes \<noteq> None \<longleftrightarrow>
      (\<exists>s \<in> si_history h ops ix0. rts < cts_commit_ts s \<and>
         (\<exists>w \<in> set writes. conflicting (crs_dependencies (cts_read_set s)) w))) \<and>
    (\<forall>c. first_write_conflict_for_reads ix rts reads = Some c \<longrightarrow>
      (\<exists>s \<in> si_history h ops ix0. rts < cts_commit_ts s \<and> reports c s reads (cts_write_set s)) \<and>
      (\<forall>s \<in> si_history h ops ix0. rts < cts_commit_ts s \<and> (\<exists>w \<in> set (cts_write_set s). conflicting reads w) \<longrightarrow>
         not_before s c)) \<and>
    (\<forall>c. first_read_conflict_for_writes ix rts writes = Some c \<longrightarrow>
      (\<exists>s \<in> si_history h ops ix0. rts < cts_commit_ts s \<and> reports c s (crs_dependencies (cts_read_set s)) writes) \<and>
      (\<forall>s \<in> si_history h ops ix0. rts < cts_commit_ts s \<and>
         (\<exists>w \<in> set writes. conflicting (crs_dependencies (cts_read_set s)) w) \<longrightarrow> not_before s c))"
proof (intro conjI allI impI)
  note logged = search_history(1) [OF assms]
  fix c
  show "\<exists>s \<in> si_history h ops ix0. rts < cts_commit_ts s \<and> reports c s reads (cts_write_set s)"
    "\<forall>s \<in> si_history h ops ix0. rts < cts_commit_ts s \<and> (\<exists>w \<in> set (cts_write_set s). conflicting reads w) \<longrightarrow> not_before s c"
    if "first_write_conflict_for_reads ix rts reads = Some c"
    using search_reports [OF _ logged, of "\<lambda>_. reads" cts_write_set c] that
    by (simp_all add: first_write_conflict_for_reads_def split: if_splits)
  show "\<exists>s \<in> si_history h ops ix0. rts < cts_commit_ts s \<and> reports c s (crs_dependencies (cts_read_set s)) writes"
    "\<forall>s \<in> si_history h ops ix0. rts < cts_commit_ts s \<and>
       (\<exists>w \<in> set writes. conflicting (crs_dependencies (cts_read_set s)) w) \<longrightarrow> not_before s c"
    if "first_read_conflict_for_writes ix rts writes = Some c"
    using search_reports [OF _ logged, of "\<lambda>s. crs_dependencies (cts_read_set s)" "\<lambda>_. writes" c] that
    by (simp_all add: first_read_conflict_for_writes_def split: if_splits)
qed (use search_history(2,3) [OF assms] in blast)+

text \<open>Transaction 4 commits at 20 having written table 3; a reader of the table since 10 finds it.\<close>

definition demo_summaries :: summary_index where
  "demo_summaries = the (summary_index_new 2)"

abbreviation demo_commit :: committed_txn_summary where
  "demo_commit \<equiv> summary_new 4 10 20 [LR_Table \<lparr>ns_tenant_id = 0, ns_database_id = 7\<rparr> 3] (from_dependencies [])"

theorem summary_search_exact_witness:
  "first_write_conflict_for_reads (si_run (\<lambda>_. 0) [Log_Register demo_commit, Log_Advance 10] demo_summaries) 10
     [RD_Table 3] \<noteq> None"
proof -
  have new: "summary_index_new 2 = Some demo_summaries" by (simp add: demo_summaries_def summary_index_new_def)
  let ?ops = "[Log_Register demo_commit, Log_Advance 10]"
  have horizon: "si_conflict_horizon (si_run (\<lambda>_. 0) ?ops demo_summaries) \<le> 10"
    by (simp add: si_run_def si_advance_def si_advance_horizon_def si_register_def si_register_commit_def
        summary_push_def summary_new_def demo_summaries_def summary_index_new_def bump_atomic_max_def
        si_shard_index_def commit_ts_zero_def Let_def)
  have "demo_commit \<in> si_history (\<lambda>_. 0) ?ops demo_summaries"
    by (simp add: si_history_def si_register_def si_register_commit_def summary_push_def summary_new_def
        demo_summaries_def summary_index_new_def si_shard_index_def commit_ts_zero_def si_items_def Let_def)
  moreover have "\<exists>w \<in> set (cts_write_set demo_commit). conflicting [RD_Table 3] w" "10 < cts_commit_ts demo_commit"
    by (simp_all add: summary_new_def write_matches_table_def)
  ultimately show ?thesis
    using summary_search_exact [OF new refl horizon, of "[RD_Table 3]"] by blast
qed

end
