(* ===== verification/Write_Conflict_Index.thy ===== *)
theory Write_Conflict_Index
  imports Commit_Log Lock_Resource
begin

text \<open>
  The index of committed writes (\<open>write_conflict_index.rs\<close>), which a committing transaction asks
  for writes newer than its snapshot.  Each write is placed in several shards, chosen by hashing, as
  a fine, a summary or a coarse entry; a query probes some shards for some kinds.

  \<open>h\<close> is the standard library's hash of the tuples the source hashes, which \<open>shard_key\<close> lists.  The
  active transactions' read watermark is an argument of \<open>advance_horizon_with_confirmed_active_rw\<close>.
\<close>

unbundle bit_operations_syntax

section \<open>State\<close>

datatype conflict_entry_kind = Fine | FineSummary | Coarse

record conflict_entry =
  ce_commit_ts :: commit_ts
  ce_resource :: lock_resource
  ce_kind :: conflict_entry_kind

record conflict_shard =
  cs_entries :: "conflict_entry list"
  cs_last_commit_ts :: commit_ts

record write_conflict_index =
  wi_shards :: "conflict_shard list"
  wi_durable_ts :: commit_ts
  wi_conflict_horizon :: commit_ts
  wi_entry_count :: u64
  wi_fine_entry_count :: u64
  wi_fine_summary_entry_count :: u64
  wi_coarse_entry_count :: u64

datatype write_conflict_index_error =
  EmptyWriteSet
| NonMonotonicCommit commit_ts commit_ts

record conflict_match =
  cm_commit_ts :: commit_ts
  cm_resource :: lock_resource

record conflict_placement =
  cp_shard_index :: nat
  cp_kind :: conflict_entry_kind
  cp_resource :: lock_resource

record conflict_probe =
  pr_shard_index :: nat
  pr_kind_mask :: "8 word"

fun kind_bit :: "conflict_entry_kind \<Rightarrow> 8 word" where
  "kind_bit Fine = 0b001"
| "kind_bit FineSummary = 0b010"
| "kind_bit Coarse = 0b100"

definition wci_new :: "nat \<Rightarrow> write_conflict_index option" where
  "wci_new shard_count =
     (if 0 < shard_count
      then Some \<lparr>wi_shards = replicate shard_count \<lparr>cs_entries = [], cs_last_commit_ts = commit_ts_zero\<rparr>,
                 wi_durable_ts = 0, wi_conflict_horizon = 0, wi_entry_count = 0, wi_fine_entry_count = 0,
                 wi_fine_summary_entry_count = 0, wi_coarse_entry_count = 0\<rparr>
      else None)"

section \<open>Choosing shards\<close>

datatype shard_key =
  SK_Resource lock_resource
| SK_Bucket lock_namespace tbl_id u64 nat
| SK_Row lock_namespace tbl_id u64 u64 u32 nat
| SK_Database lock_namespace
| SK_Table lock_namespace tbl_id
| SK_Tablet lock_namespace tbl_id u64

definition hash_to_index :: "(shard_key \<Rightarrow> u64) \<Rightarrow> shard_key \<Rightarrow> nat \<Rightarrow> nat" where
  "hash_to_index h key n = unat (h key) mod n"

definition ordered_hash_bucket :: "u64 \<Rightarrow> nat \<Rightarrow> nat" where
  "ordered_hash_bucket k n = unat k * n div 2 ^ 64"

fun is_fine_resource :: "lock_resource \<Rightarrow> bool" where
  "is_fine_resource (LR_PrimaryKey _ _ _ _) = True"
| "is_fine_resource (LR_RowId _ _ _ _ _ _) = True"
| "is_fine_resource (LR_Range _ _ _ _ _) = True"
| "is_fine_resource _ = False"

definition database_summary_shard :: "(shard_key \<Rightarrow> u64) \<Rightarrow> nat \<Rightarrow> lock_namespace \<Rightarrow> nat" where
  "database_summary_shard h n ns = hash_to_index h (SK_Database ns) n"

definition table_summary_shard :: "(shard_key \<Rightarrow> u64) \<Rightarrow> nat \<Rightarrow> lock_namespace \<Rightarrow> tbl_id \<Rightarrow> nat" where
  "table_summary_shard h n ns t = hash_to_index h (SK_Table ns t) n"

definition tablet_summary_shard ::
  "(shard_key \<Rightarrow> u64) \<Rightarrow> nat \<Rightarrow> lock_namespace \<Rightarrow> tbl_id \<Rightarrow> u64 \<Rightarrow> nat" where
  "tablet_summary_shard h n ns t b = hash_to_index h (SK_Tablet ns t b) n"

fun coarse_shard :: "(shard_key \<Rightarrow> u64) \<Rightarrow> nat \<Rightarrow> lock_resource \<Rightarrow> nat" where
  "coarse_shard h n (LR_Database ns) = database_summary_shard h n ns"
| "coarse_shard h n (LR_Table ns t) = table_summary_shard h n ns t"
| "coarse_shard h n (LR_Predicate ns t _) = table_summary_shard h n ns t"
| "coarse_shard h n (LR_Tablet ns t b) = tablet_summary_shard h n ns t b"
| "coarse_shard h n r = hash_to_index h (SK_Resource r) n"

definition range_bucket_shard ::
  "(shard_key \<Rightarrow> u64) \<Rightarrow> nat \<Rightarrow> lock_namespace \<Rightarrow> tbl_id \<Rightarrow> u64 \<Rightarrow> nat \<Rightarrow> nat" where
  "range_bucket_shard h n ns t b bucket = hash_to_index h (SK_Bucket ns t b bucket) n"

definition primary_key_bucket_shard ::
  "(shard_key \<Rightarrow> u64) \<Rightarrow> nat \<Rightarrow> lock_namespace \<Rightarrow> tbl_id \<Rightarrow> u64 \<Rightarrow> u64 \<Rightarrow> nat" where
  "primary_key_bucket_shard h n ns t b k = hash_to_index h (SK_Bucket ns t b (ordered_hash_bucket k n)) n"

definition hash_buckets_for_range :: "nat \<Rightarrow> u64 \<Rightarrow> u64 \<Rightarrow> nat list" where
  "hash_buckets_for_range n start_hash end_hash =
     (let start = ordered_hash_bucket start_hash n; end = ordered_hash_bucket end_hash n
      in if start \<le> end then [start..<Suc end] else [start..<n] @ [0..<Suc end])"

fun fine_shards :: "(shard_key \<Rightarrow> u64) \<Rightarrow> nat \<Rightarrow> lock_resource \<Rightarrow> nat list" where
  "fine_shards h n (LR_PrimaryKey ns t b k) = [primary_key_bucket_shard h n ns t b k]"
| "fine_shards h n (LR_Range ns t b s e) = map (range_bucket_shard h n ns t b) (hash_buckets_for_range n s e)"
| "fine_shards h n (LR_RowId ns t b rs sg off) =
     [hash_to_index h (SK_Row ns t b rs sg (ordered_hash_bucket (ucast off) n)) n]"
| "fine_shards h n r = [coarse_shard h n r]"

definition placement :: "nat \<Rightarrow> conflict_entry_kind \<Rightarrow> lock_resource \<Rightarrow> conflict_placement" where
  "placement i k r = \<lparr>cp_shard_index = i, cp_kind = k, cp_resource = r\<rparr>"

definition placements_for_write :: "(shard_key \<Rightarrow> u64) \<Rightarrow> nat \<Rightarrow> lock_resource \<Rightarrow> conflict_placement list" where
  "placements_for_write h n r =
     (if is_fine_resource r
      then map (\<lambda>i. placement i Fine r) (fine_shards h n r) @
           [placement (database_summary_shard h n (lr_namespace r)) FineSummary r] @
           (case lr_table_id r of
              Some t \<Rightarrow> [placement (table_summary_shard h n (lr_namespace r) t) FineSummary r]
            | None \<Rightarrow> [])
      else [placement (coarse_shard h n r) Coarse r])"

fun push_probe :: "conflict_probe list \<Rightarrow> nat \<Rightarrow> 8 word \<Rightarrow> conflict_probe list" where
  "push_probe [] i bits = [\<lparr>pr_shard_index = i, pr_kind_mask = bits\<rparr>]"
| "push_probe (p # ps) i bits =
     (if pr_shard_index p = i then (p\<lparr>pr_kind_mask := (pr_kind_mask p OR bits)\<rparr>) # ps
      else p # push_probe ps i bits)"

definition probes_for_query :: "(shard_key \<Rightarrow> u64) \<Rightarrow> nat \<Rightarrow> lock_resource \<Rightarrow> conflict_probe list" where
  "probes_for_query h n r =
     (let ns = lr_namespace r;
          table = (\<lambda>ps bits. case lr_table_id r of
                     Some t \<Rightarrow> push_probe ps (table_summary_shard h n ns t) bits
                   | None \<Rightarrow> ps);
          tablet = (\<lambda>ps. case tablet_identity r of
                     Some (t, b) \<Rightarrow> push_probe ps (tablet_summary_shard h n ns t b) (kind_bit Coarse)
                   | None \<Rightarrow> ps);
          probes =
            (if is_fine_resource r
             then tablet (table (push_probe (fold (\<lambda>i ps. push_probe ps i (kind_bit Fine)) (fine_shards h n r) [])
                       (database_summary_shard h n ns) (kind_bit Coarse)) (kind_bit Coarse))
             else tablet (table (push_probe (push_probe [] (database_summary_shard h n ns) (kind_bit Coarse))
                       (coarse_shard h n r) (kind_bit Coarse OR kind_bit FineSummary))
                       (kind_bit Coarse OR kind_bit FineSummary)))
      in sort_key pr_shard_index probes)"

section \<open>Shards\<close>

definition shard_push ::
  "conflict_shard \<Rightarrow> commit_ts \<Rightarrow> lock_resource \<Rightarrow> conflict_entry_kind
     \<Rightarrow> write_conflict_index_error + conflict_shard" where
  "shard_push shard ts r k =
     (if ts < cs_last_commit_ts shard then Inl (NonMonotonicCommit (cs_last_commit_ts shard) ts)
      else Inr (shard\<lparr>cs_last_commit_ts := ts,
             cs_entries := cs_entries shard @ [\<lparr>ce_commit_ts = ts, ce_resource = r, ce_kind = k\<rparr>]\<rparr>))"

definition shard_first_conflict ::
  "conflict_shard \<Rightarrow> read_ts \<Rightarrow> lock_resource \<Rightarrow> 8 word \<Rightarrow> conflict_entry option" where
  "shard_first_conflict shard rts r bits =
     List.find (\<lambda>e. rts < ce_commit_ts e \<and> kind_bit (ce_kind e) AND bits \<noteq> 0 \<and>
                    conflicts_with (ce_resource e) r) (cs_entries shard)"

text \<open>Collecting garbage pops the front while it is old; the popped entries are counted.\<close>

definition shard_gc :: "conflict_shard \<Rightarrow> commit_ts \<Rightarrow> conflict_shard \<times> conflict_entry list" where
  "shard_gc shard horizon =
     (shard\<lparr>cs_entries := dropWhile (\<lambda>e. ce_commit_ts e \<le> horizon) (cs_entries shard)\<rparr>,
      takeWhile (\<lambda>e. ce_commit_ts e \<le> horizon) (cs_entries shard))"

section \<open>Operations\<close>

definition bump_kind :: "conflict_entry_kind \<Rightarrow> u64 \<Rightarrow> write_conflict_index \<Rightarrow> write_conflict_index" where
  "bump_kind k d ix =
     (case k of
        Fine \<Rightarrow> ix\<lparr>wi_fine_entry_count := wi_fine_entry_count ix + d\<rparr>
      | FineSummary \<Rightarrow> ix\<lparr>wi_fine_summary_entry_count := wi_fine_summary_entry_count ix + d\<rparr>
      | Coarse \<Rightarrow> ix\<lparr>wi_coarse_entry_count := wi_coarse_entry_count ix + d\<rparr>)"

definition record_entry_added :: "conflict_entry_kind \<Rightarrow> write_conflict_index \<Rightarrow> write_conflict_index" where
  "record_entry_added k ix = bump_kind k 1 (ix\<lparr>wi_entry_count := wi_entry_count ix + 1\<rparr>)"

definition count_kind :: "conflict_entry_kind \<Rightarrow> conflict_entry list \<Rightarrow> u64" where
  "count_kind k es = of_nat (length (filter (\<lambda>e. ce_kind e = k) es))"

definition record_entries_removed :: "conflict_entry list \<Rightarrow> write_conflict_index \<Rightarrow> write_conflict_index" where
  "record_entries_removed removed ix =
     (if removed = [] then ix
      else ix\<lparr>wi_entry_count := wi_entry_count ix - of_nat (length removed),
              wi_fine_entry_count := wi_fine_entry_count ix - count_kind Fine removed,
              wi_fine_summary_entry_count := wi_fine_summary_entry_count ix - count_kind FineSummary removed,
              wi_coarse_entry_count := wi_coarse_entry_count ix - count_kind Coarse removed\<rparr>)"

text \<open>The order of placements is the derived one: shard, kind, resource.\<close>

fun kind_rank :: "conflict_entry_kind \<Rightarrow> nat" where
  "kind_rank Fine = 0"
| "kind_rank FineSummary = 1"
| "kind_rank Coarse = 2"

definition placement_key :: "conflict_placement \<Rightarrow> nat list" where
  "placement_key p = cp_shard_index p # kind_rank (cp_kind p) # lr_key (cp_resource p)"

fun push_placements ::
  "commit_ts \<Rightarrow> conflict_placement list \<Rightarrow> write_conflict_index
     \<Rightarrow> write_conflict_index \<times> (write_conflict_index_error + unit)" where
  "push_placements ts [] ix = (ix, Inr ())"
| "push_placements ts (p # ps) ix =
     (case shard_push (wi_shards ix ! cp_shard_index p) ts (cp_resource p) (cp_kind p) of
        Inl err \<Rightarrow> (ix, Inl err)
      | Inr shard \<Rightarrow>
          push_placements ts ps
            (record_entry_added (cp_kind p) (ix\<lparr>wi_shards := (wi_shards ix)[cp_shard_index p := shard]\<rparr>)))"

definition wci_register_commit ::
  "(shard_key \<Rightarrow> u64) \<Rightarrow> write_conflict_index \<Rightarrow> commit_ts \<Rightarrow> lock_resource list
     \<Rightarrow> write_conflict_index \<times> (write_conflict_index_error + nat)" where
  "wci_register_commit h ix ts ws =
     (if ws = [] then (ix, Inl EmptyWriteSet)
      else if ts < wi_durable_ts ix then (ix, Inl (NonMonotonicCommit (wi_durable_ts ix) ts))
      else
        (let writes = sort_dedup ws;
             placements = remdups_adj (sort_key placement_key
               (concat (map (placements_for_write h (length (wi_shards ix))) writes)))
         in case push_placements ts placements ix of
              (ix', Inl err) \<Rightarrow> (ix', Inl err)
            | (ix', Inr _) \<Rightarrow>
                (ix'\<lparr>wi_durable_ts := bump_atomic_max (wi_durable_ts ix') ts\<rparr>, Inr (length writes))))"

definition select_earlier_match :: "conflict_match option \<Rightarrow> conflict_match \<Rightarrow> conflict_match option" where
  "select_earlier_match slot c =
     (case slot of
        None \<Rightarrow> Some c
      | Some current \<Rightarrow>
          (if cm_commit_ts c < cm_commit_ts current \<or>
              (cm_commit_ts c = cm_commit_ts current \<and> cm_resource c < cm_resource current)
           then Some c else Some current))"

definition probe_conflict ::
  "write_conflict_index \<Rightarrow> read_ts \<Rightarrow> lock_resource \<Rightarrow> conflict_probe \<Rightarrow> conflict_match option
     \<Rightarrow> conflict_match option" where
  "probe_conflict ix rts w p best =
     (case shard_first_conflict (wi_shards ix ! pr_shard_index p) rts w (pr_kind_mask p) of
        None \<Rightarrow> best
      | Some e \<Rightarrow> select_earlier_match best \<lparr>cm_commit_ts = ce_commit_ts e, cm_resource = ce_resource e\<rparr>)"

definition wci_first_conflict ::
  "(shard_key \<Rightarrow> u64) \<Rightarrow> write_conflict_index \<Rightarrow> read_ts \<Rightarrow> lock_resource list \<Rightarrow> conflict_match option" where
  "wci_first_conflict h ix rts ws =
     fold (\<lambda>w best. fold (probe_conflict ix rts w) (probes_for_query h (length (wi_shards ix)) w) best) ws None"

definition wci_has_conflict :: "(shard_key \<Rightarrow> u64) \<Rightarrow> write_conflict_index \<Rightarrow> read_ts \<Rightarrow> lock_resource list \<Rightarrow> bool" where
  "wci_has_conflict h ix rts ws \<longleftrightarrow> wci_first_conflict h ix rts ws \<noteq> None"

fun gc_shards :: "commit_ts \<Rightarrow> nat list \<Rightarrow> write_conflict_index \<Rightarrow> write_conflict_index" where
  "gc_shards horizon [] ix = ix"
| "gc_shards horizon (i # is) ix =
     (case shard_gc (wi_shards ix ! i) horizon of
        (shard, removed) \<Rightarrow>
          gc_shards horizon is (record_entries_removed removed (ix\<lparr>wi_shards := (wi_shards ix)[i := shard]\<rparr>)))"

definition wci_advance_horizon :: "write_conflict_index \<Rightarrow> commit_ts \<Rightarrow> write_conflict_index \<times> commit_ts" where
  "wci_advance_horizon ix target =
     (let horizon = bump_atomic_max (wi_conflict_horizon ix) target
      in (gc_shards horizon [0..<length (wi_shards ix)] (ix\<lparr>wi_conflict_horizon := horizon\<rparr>), horizon))"

definition wci_advance_horizon_with_confirmed_active_rw ::
  "write_conflict_index \<Rightarrow> commit_ts \<Rightarrow> read_ts \<Rightarrow> write_conflict_index \<times> commit_ts" where
  "wci_advance_horizon_with_confirmed_active_rw ix published oldest_active_rw =
     wci_advance_horizon ix
       (if oldest_active_rw = MAX_TRANSACTION_ID then published else min published oldest_active_rw)"

end
