(* ===== verification/Conflict_Index_Safety.thy ===== *)
theory Conflict_Index_Safety
  imports Write_Conflict_Index
begin

text \<open>
  Correctness of the index of committed writes, for every hash function: which shards a query has to
  probe, the invariant of the shards and its counters, soundness and completeness of queries, and the
  conflicts the probes miss.  The index is an instance of the contract \<open>commit_log\<close>.
\<close>

unbundle bit_operations_syntax

section \<open>Buckets\<close>

lemma ordered_hash_bucket_mono: "a \<le> b \<Longrightarrow> ordered_hash_bucket a n \<le> ordered_hash_bucket b n"
  by (simp add: ordered_hash_bucket_def div_le_mono word_le_nat_alt)

lemma ordered_hash_bucket_less: "0 < n \<Longrightarrow> ordered_hash_bucket k n < n"
proof -
  assume "0 < n"
  have "unat k < 2 ^ 64" using unsigned_less [of k, where ?'a = nat] by simp
  with \<open>0 < n\<close> show ?thesis by (simp add: ordered_hash_bucket_def less_mult_imp_div_less)
qed

text \<open>A wrapped range whose end points share a bucket.\<close>

definition wraps_within_bucket :: "nat \<Rightarrow> u64 \<Rightarrow> u64 \<Rightarrow> bool" where
  "wraps_within_bucket n s e \<longleftrightarrow> e < s \<and> ordered_hash_bucket s n = ordered_hash_bucket e n"

lemma bucket_in_range:
  assumes "hash_in_range k s e" "0 < n" "\<not> wraps_within_bucket n s e"
  shows "ordered_hash_bucket k n \<in> set (hash_buckets_for_range n s e)"
proof (cases "s \<le> e")
  case True
  with assms(1) have "s \<le> k" "k \<le> e" by (simp_all add: hash_in_range_def)
  then have "ordered_hash_bucket s n \<le> ordered_hash_bucket k n" "ordered_hash_bucket k n \<le> ordered_hash_bucket e n"
    by (simp_all add: ordered_hash_bucket_mono)
  then show ?thesis by (auto simp: hash_buckets_for_range_def Let_def)
next
  case False
  with assms(3) have "ordered_hash_bucket e n < ordered_hash_bucket s n"
    using ordered_hash_bucket_mono [OF order.strict_implies_order, of e s n] by (auto simp: wraps_within_bucket_def not_le)
  moreover from False assms(1) have "s \<le> k \<or> k \<le> e" by (simp add: hash_in_range_def)
  then have "ordered_hash_bucket s n \<le> ordered_hash_bucket k n \<or> ordered_hash_bucket k n \<le> ordered_hash_bucket e n"
    using ordered_hash_bucket_mono by blast
  ultimately show ?thesis
    using ordered_hash_bucket_less [OF assms(2), of k] by (auto simp: hash_buckets_for_range_def Let_def)
qed

section \<open>Probes\<close>

definition probed :: "conflict_probe list \<Rightarrow> nat \<Rightarrow> conflict_entry_kind \<Rightarrow> bool" where
  "probed ps i k \<longleftrightarrow> (\<exists>p \<in> set ps. pr_shard_index p = i \<and> kind_bit k AND pr_kind_mask p \<noteq> 0)"

lemma probed_Nil [simp]: "\<not> probed [] i k"
  by (simp add: probed_def)

lemma and_or_nonzero: "a AND (b OR c) \<noteq> 0 \<longleftrightarrow> a AND b \<noteq> 0 \<or> a AND c \<noteq> (0 :: 8 word)"
  by (auto simp: bit_eq_iff bit_simps)

lemma probed_push [simp]:
  "probed (push_probe ps i bits) j k \<longleftrightarrow> probed ps j k \<or> i = j \<and> kind_bit k AND bits \<noteq> 0"
proof (induction ps)
  case (Cons p ps)
  then show ?case by (auto simp: probed_def and_or_nonzero)
qed (simp add: probed_def)

lemma probed_fold_push [simp]:
  "probed (fold (\<lambda>i ps. push_probe ps i bits) is ps) j k \<longleftrightarrow>
     probed ps j k \<or> j \<in> set is \<and> kind_bit k AND bits \<noteq> 0"
  by (induction "is" arbitrary: ps) auto

lemma kind_bit_and [simp]:
  "kind_bit k AND kind_bit k' \<noteq> 0 \<longleftrightarrow> k = k'"
  by (cases k; cases k') simp_all

lemma kind_bit_and_or [simp]:
  "kind_bit k AND (kind_bit a OR kind_bit b) \<noteq> 0 \<longleftrightarrow> k = a \<or> k = b"
  by (simp add: and_or_nonzero)

lemma probed_sort [simp]: "probed (sort_key f ps) i k = probed ps i k"
  by (simp add: probed_def)

lemma probed_query:
  "probed (probes_for_query h n q) i k \<longleftrightarrow>
     (if is_fine_resource q
      then k = Fine \<and> i \<in> set (fine_shards h n q) \<or>
           k = Coarse \<and> i = database_summary_shard h n (lr_namespace q) \<or>
           k = Coarse \<and> (\<exists>t. lr_table_id q = Some t \<and> i = table_summary_shard h n (lr_namespace q) t)
      else k = Coarse \<and> i = database_summary_shard h n (lr_namespace q) \<or>
           k \<noteq> Fine \<and> i = coarse_shard h n q \<or>
           k \<noteq> Fine \<and> (\<exists>t. lr_table_id q = Some t \<and> i = table_summary_shard h n (lr_namespace q) t)) \<or>
     k = Coarse \<and> (\<exists>t b. tablet_identity q = Some (t, b) \<and> i = tablet_summary_shard h n (lr_namespace q) t b)"
proof -
  have notfine: "k \<noteq> Fine \<longleftrightarrow> k = Coarse \<or> k = FineSummary" by (cases k) simp_all
  show ?thesis
  proof (cases "tablet_identity q")
    case None
    then show ?thesis
      unfolding notfine
      by (cases "is_fine_resource q"; cases "lr_table_id q") (simp_all add: probes_for_query_def Let_def del: kind_bit.simps push_probe.simps, (blast+)?)
  next
    case (Some x)
    obtain t b where "x = (t, b)" by (cases x)
    with Some show ?thesis
      unfolding notfine
      by (cases "is_fine_resource q"; cases "lr_table_id q") (simp_all add: probes_for_query_def Let_def del: kind_bit.simps push_probe.simps, (blast+)?)
  qed
qed

text \<open>The pairs of a registered and a queried resource for which the probes are enough.\<close>

fun range_ok :: "nat \<Rightarrow> lock_resource \<Rightarrow> bool" where
  "range_ok n (LR_Range _ _ _ s e) = (\<not> wraps_within_bucket n s e)"
| "range_ok n _ = True"

fun probe_covers :: "nat \<Rightarrow> lock_resource \<Rightarrow> lock_resource \<Rightarrow> bool" where
  "probe_covers n r (LR_Database _) = (is_fine_resource r \<or> (\<exists>ns. r = LR_Database ns))"
| "probe_covers n r (LR_Table _ _) = (\<not> is_tablet r)"
| "probe_covers n r (LR_Predicate _ _ _) = (\<not> is_tablet r)"
| "probe_covers n r q = (is_fine_resource r \<and> is_fine_resource q \<longrightarrow> r = q \<or> range_ok n r \<and> range_ok n q)"

definition found_by :: "(shard_key \<Rightarrow> u64) \<Rightarrow> nat \<Rightarrow> lock_resource \<Rightarrow> lock_resource \<Rightarrow> bool" where
  "found_by h n r q \<longleftrightarrow>
     (\<exists>p \<in> set (placements_for_write h n r). probed (probes_for_query h n q) (cp_shard_index p) (cp_kind p))"

lemma found_by_bucket:
  assumes "0 < n" "hash_in_range k s e" "\<not> wraps_within_bucket n s e"
  shows "primary_key_bucket_shard h n ns t b k \<in> set (fine_shards h n (LR_Range ns t b s e))"
  using bucket_in_range [OF assms(2,1,3)]
  by (auto simp: primary_key_bucket_shard_def range_bucket_shard_def)

lemma fine_found:
  assumes "0 < n" "conflicts_with r q" "r = q \<or> range_ok n r \<and> range_ok n q" "is_fine_resource r" "is_fine_resource q"
  shows "\<exists>i \<in> set (fine_shards h n r). i \<in> set (fine_shards h n q)"
proof (cases "r = q")
  case True
  have "fine_shards h n q \<noteq> []"
    by (cases q) (auto simp: hash_buckets_for_range_def Let_def)
  with True show ?thesis by (metis list.set_intros(1) neq_Nil_conv)
next
  case False
  with assms(2) have ns: "lr_namespace r = lr_namespace q" and arms: "conflict_arms r q"
    by (auto simp: conflicts_with_def split: if_splits)
  note ranges = assms(3) [simplified False, simplified]
  show ?thesis
  proof (cases r)
    case r: (LR_PrimaryKey ns t b k)
    show ?thesis
    proof (cases q)
      case (LR_Range ns' t' b' s e)
      then show ?thesis using ns arms ranges found_by_bucket [OF assms(1)] by (simp add: r)
    qed (use arms assms(5) False ns in \<open>simp_all add: r\<close>)
  next
    case r: (LR_Range ns t b s e)
    show ?thesis
    proof (cases q)
      case (LR_PrimaryKey ns' t' b' k)
      then show ?thesis using ns arms ranges found_by_bucket [OF assms(1)] by (simp add: r)
    next
      case (LR_Range ns' t' b' s' e')
      with arms r obtain k where "hash_in_range k s e" "hash_in_range k s' e'"
        by (auto elim: ranges_overlapE)
      moreover have same: "ns' = ns" "t' = t" "b' = b" using ns arms by (simp_all add: LR_Range r)
      ultimately have "primary_key_bucket_shard h n ns t b k \<in> set (fine_shards h n r)"
        "primary_key_bucket_shard h n ns t b k \<in> set (fine_shards h n q)"
        unfolding r LR_Range same using ranges
        by (intro found_by_bucket [OF assms(1)]; simp add: r LR_Range)+
      then show ?thesis by blast
    qed (use arms assms(5) in \<open>simp_all add: r\<close>)
  next
    case r: (LR_RowId ns t b rs sg off)
    show ?thesis by (cases q) (use arms assms(5) in \<open>simp_all add: r\<close>)
  qed (use assms(4) in simp_all)
qed

lemma probes_cover:
  assumes "0 < n" "conflicts_with r q" "probe_covers n r q"
  shows "found_by h n r q"
proof -
  have ns: "lr_namespace r = lr_namespace q" by (rule conflicts_with_namespace [OF assms(2)])
  have arms: "r = q \<or> conflict_arms r q" using assms(2) by (auto simp: conflicts_with_def split: if_splits)
  show ?thesis
  proof (cases "is_fine_resource r \<and> is_fine_resource q")
    case True
    then have "r = q \<or> range_ok n r \<and> range_ok n q" using assms(3) by (cases q) auto
    with True fine_found [OF assms(1,2)] obtain i where
      "i \<in> set (fine_shards h n r)" "i \<in> set (fine_shards h n q)" by blast
    moreover have "placement i Fine r \<in> set (placements_for_write h n r)" if "i \<in> set (fine_shards h n r)"
      using True that by (simp add: placements_for_write_def)
    ultimately show ?thesis
      unfolding found_by_def using True probed_query [of h n q i Fine]
      by (intro bexI [of _ "placement i Fine r"]) (simp_all add: placement_def)
  next
    case False
    with ns arms assms(3) show ?thesis
      unfolding found_by_def probed_query
      by (cases r; cases q) (auto simp: placements_for_write_def placement_def)
  qed
qed

section \<open>What the index holds\<close>

definition stored :: "write_conflict_index \<Rightarrow> (nat \<times> conflict_entry) set" where
  "stored ix = {(i, e). i < length (wi_shards ix) \<and> e \<in> set (cs_entries (wi_shards ix ! i))}"

definition wci_logged :: "write_conflict_index \<Rightarrow> (commit_ts \<times> lock_resource) set" where
  "wci_logged ix = (\<lambda>(i, e). (ce_commit_ts e, ce_resource e)) ` stored ix"

definition shard_ok :: "commit_ts \<Rightarrow> conflict_shard \<Rightarrow> bool" where
  "shard_ok durable shard \<longleftrightarrow>
     sorted (map ce_commit_ts (cs_entries shard)) \<and> cs_last_commit_ts shard \<le> durable \<and>
     (\<forall>e \<in> set (cs_entries shard). ce_commit_ts e \<le> cs_last_commit_ts shard)"

text \<open>An entry is stored in all places of its write or in none.\<close>

definition wci_ok :: "(shard_key \<Rightarrow> u64) \<Rightarrow> write_conflict_index \<Rightarrow> bool" where
  "wci_ok h ix \<longleftrightarrow>
     wi_shards ix \<noteq> [] \<and> (\<forall>shard \<in> set (wi_shards ix). shard_ok (wi_durable_ts ix) shard) \<and>
     (\<forall>(i, e) \<in> stored ix. \<forall>p \<in> set (placements_for_write h (length (wi_shards ix)) (ce_resource e)).
        (cp_shard_index p, e\<lparr>ce_kind := cp_kind p\<rparr>) \<in> stored ix)"

lemma hash_to_index_less: "0 < n \<Longrightarrow> hash_to_index h key n < n"
  by (simp add: hash_to_index_def)

lemma shards_in_range:
  assumes "0 < n"
  shows "database_summary_shard h n ns < n" "table_summary_shard h n ns t < n" "tablet_summary_shard h n ns t b < n"
    "coarse_shard h n r < n" "\<forall>i \<in> set (fine_shards h n r). i < n"
proof -
  show db: "database_summary_shard h n ns < n" "table_summary_shard h n ns t < n" "tablet_summary_shard h n ns t b < n" for ns t b
    using assms by (simp_all add: database_summary_shard_def table_summary_shard_def tablet_summary_shard_def
        hash_to_index_less)
  show coarse: "coarse_shard h n r < n" for r
    using assms by (cases r) (simp_all add: db hash_to_index_less)
  show "\<forall>i \<in> set (fine_shards h n r). i < n"
    using assms
    by (cases r) (simp_all add: coarse [simplified] db primary_key_bucket_shard_def range_bucket_shard_def hash_to_index_less)
qed

lemma placements_in_range:
  assumes "0 < n" "p \<in> set (placements_for_write h n r)"
  shows "cp_shard_index p < n \<and> cp_resource p = r"
  using assms shards_in_range [OF assms(1)]
  by (auto simp: placements_for_write_def placement_def split: if_splits option.splits)

lemma placements_nonempty: "placements_for_write h n r \<noteq> []"
  by (simp add: placements_for_write_def)

definition entry_of :: "commit_ts \<Rightarrow> conflict_placement \<Rightarrow> nat \<times> conflict_entry" where
  "entry_of ts p = (cp_shard_index p, \<lparr>ce_commit_ts = ts, ce_resource = cp_resource p, ce_kind = cp_kind p\<rparr>)"

lemma record_entry_added_fields [simp]:
  "wi_shards (record_entry_added k ix) = wi_shards ix"
  "wi_durable_ts (record_entry_added k ix) = wi_durable_ts ix"
  "wi_conflict_horizon (record_entry_added k ix) = wi_conflict_horizon ix"
  by (simp_all add: record_entry_added_def bump_kind_def split: conflict_entry_kind.split)

lemma stored_cong: "wi_shards ix' = wi_shards ix \<Longrightarrow> stored ix' = stored ix"
  by (simp add: stored_def)

lemma stored_update:
  assumes "i < length (wi_shards ix)"
  shows "stored (ix\<lparr>wi_shards := (wi_shards ix)[i := shard]\<rparr>) =
    {(j, e) \<in> stored ix. j \<noteq> i} \<union> Pair i ` set (cs_entries shard)"
  using assms by (auto simp: stored_def nth_list_update split: if_splits)

lemma stored_push:
  assumes "i < length (wi_shards ix)" "cs_entries shard = cs_entries (wi_shards ix ! i) @ [e]"
  shows "stored (ix\<lparr>wi_shards := (wi_shards ix)[i := shard]\<rparr>) = insert (i, e) (stored ix)"
  using assms(1) by (auto simp: stored_update assms(2)) (auto simp: stored_def)

lemma shard_push_ok:
  assumes "shard_ok ts shard"
  obtains shard' where "shard_push shard ts r k = Inr shard'" "shard_ok ts shard'"
    "cs_entries shard' = cs_entries shard @ [\<lparr>ce_commit_ts = ts, ce_resource = r, ce_kind = k\<rparr>]"
proof -
  have le: "cs_last_commit_ts shard \<le> ts" "\<forall>e \<in> set (cs_entries shard). ce_commit_ts e \<le> ts"
    using assms order_trans by (auto simp: shard_ok_def)
  define shard' where "shard' = shard\<lparr>cs_last_commit_ts := ts,
      cs_entries := cs_entries shard @ [\<lparr>ce_commit_ts = ts, ce_resource = r, ce_kind = k\<rparr>]\<rparr>"
  have "shard_push shard ts r k = Inr shard'" using le by (simp add: shard_push_def shard'_def not_less)
  moreover have "shard_ok ts shard'" using assms le by (simp add: shard_ok_def shard'_def sorted_append)
  ultimately show thesis by (rule that) (simp add: shard'_def)
qed

lemma push_placements_ok:
  assumes "\<forall>shard \<in> set (wi_shards ix). shard_ok ts shard" "\<forall>p \<in> set ps. cp_shard_index p < length (wi_shards ix)"
  shows "\<exists>ix'. push_placements ts ps ix = (ix', Inr ()) \<and> length (wi_shards ix') = length (wi_shards ix) \<and>
    (\<forall>shard \<in> set (wi_shards ix'). shard_ok ts shard) \<and> stored ix' = stored ix \<union> entry_of ts ` set ps \<and>
    wi_durable_ts ix' = wi_durable_ts ix \<and> wi_conflict_horizon ix' = wi_conflict_horizon ix"
  using assms
proof (induction ps arbitrary: ix)
  case (Cons p ps)
  let ?i = "cp_shard_index p"
  have i: "?i < length (wi_shards ix)" using Cons.prems(2) by simp
  then have "shard_ok ts (wi_shards ix ! ?i)" using Cons.prems(1) nth_mem by blast
  then obtain shard where push: "shard_push (wi_shards ix ! ?i) ts (cp_resource p) (cp_kind p) = Inr shard"
    and ok: "shard_ok ts shard"
    and es: "cs_entries shard = cs_entries (wi_shards ix ! ?i) @ [snd (entry_of ts p)]"
    by (rule shard_push_ok) (auto simp: entry_of_def)
  define ix1 where "ix1 = record_entry_added (cp_kind p) (ix\<lparr>wi_shards := (wi_shards ix)[?i := shard]\<rparr>)"
  have "stored ix1 = stored (ix\<lparr>wi_shards := (wi_shards ix)[?i := shard]\<rparr>)"
    by (rule stored_cong) (simp add: ix1_def)
  then have st: "stored ix1 = insert (entry_of ts p) (stored ix)"
    by (simp add: stored_push [OF i es] entry_of_def)
  have "\<forall>shard \<in> set (wi_shards ix1). shard_ok ts shard"
    using Cons.prems(1) ok by (auto simp: ix1_def dest!: set_update_subset_insert [THEN subsetD])
  moreover have "\<forall>p \<in> set ps. cp_shard_index p < length (wi_shards ix1)"
    using Cons.prems(2) by (simp add: ix1_def)
  moreover note IH = Cons.IH [of ix1]
  moreover have "push_placements ts (p # ps) ix = push_placements ts ps ix1"
    by (simp add: push ix1_def)
  ultimately show ?case
    using st by (auto simp: ix1_def)
qed simp


lemma wci_new_ok:
  assumes "wci_new n = Some ix"
  shows "wci_ok h ix \<and> wci_logged ix = {} \<and> wi_conflict_horizon ix = 0"
  using assms
  by (auto simp: wci_new_def wci_ok_def wci_logged_def stored_def shard_ok_def commit_ts_zero_def split: if_splits)

lemma register_commit_ok:
  assumes "wci_ok h ix" "wci_register_commit h ix ts ws = (ix', res)"
  shows "wci_ok h ix' \<and> wi_conflict_horizon ix' = wi_conflict_horizon ix \<and>
    length (wi_shards ix') = length (wi_shards ix) \<and>
    (if ws = [] then ix' = ix \<and> res = Inl EmptyWriteSet
     else if ts < wi_durable_ts ix then ix' = ix \<and> res = Inl (NonMonotonicCommit (wi_durable_ts ix) ts)
     else res = Inr (card (set ws)) \<and> wi_durable_ts ix' = ts \<and> wci_logged ix' = wci_logged ix \<union> Pair ts ` set ws)"
proof (cases "ws = [] \<or> ts < wi_durable_ts ix")
  case True
  with assms show ?thesis by (auto simp: wci_register_commit_def)
next
  case False
  let ?n = "length (wi_shards ix)"
  define ps where "ps = remdups_adj (sort_key placement_key (concat (map (placements_for_write h ?n) (sort_dedup ws))))"
  have n: "0 < ?n" using assms(1) by (simp add: wci_ok_def)
  have set_ps: "set ps = (\<Union>w \<in> set ws. set (placements_for_write h ?n w))" by (simp add: ps_def)
  have range: "\<forall>p \<in> set ps. cp_shard_index p < ?n" using placements_in_range [OF n] by (auto simp: set_ps)
  have shards: "\<forall>shard \<in> set (wi_shards ix). shard_ok ts shard"
    using assms(1) False by (auto simp: wci_ok_def shard_ok_def)
  obtain ix1 where ix1: "push_placements ts ps ix = (ix1, Inr ())" "length (wi_shards ix1) = ?n"
    "\<forall>shard \<in> set (wi_shards ix1). shard_ok ts shard" "stored ix1 = stored ix \<union> entry_of ts ` set ps"
    "wi_durable_ts ix1 = wi_durable_ts ix" "wi_conflict_horizon ix1 = wi_conflict_horizon ix"
    using push_placements_ok [OF shards range] by blast
  have "wci_register_commit h ix ts ws =
      (ix1\<lparr>wi_durable_ts := bump_atomic_max (wi_durable_ts ix1) ts\<rparr>, Inr (length (sort_dedup ws)))"
    using False ix1(1) by (simp add: wci_register_commit_def ps_def)
  moreover have "bump_atomic_max (wi_durable_ts ix1) ts = ts"
    using False ix1(5) by (auto simp: bump_atomic_max_def)
  ultimately have res: "ix' = ix1\<lparr>wi_durable_ts := ts\<rparr>" "res = Inr (card (set ws))"
    using assms(2) distinct_card [of "sort_dedup ws"] by auto
  have st: "stored ix' = stored ix \<union> entry_of ts ` set ps"
    using ix1(4) stored_cong [of ix' ix1] by (simp add: res)
  have closed: "(cp_shard_index p, e\<lparr>ce_kind := cp_kind p\<rparr>) \<in> stored ix'"
    if "(i, e) \<in> stored ix'" "p \<in> set (placements_for_write h ?n (ce_resource e))" for i e p
  proof (cases "(i, e) \<in> stored ix")
    case True
    with assms(1) that(2) show ?thesis unfolding st wci_ok_def by blast
  next
    case False
    with that(1) obtain w q where w: "w \<in> set ws" "q \<in> set (placements_for_write h ?n w)" "(i, e) = entry_of ts q"
      by (auto simp: st set_ps)
    then have "ce_resource e = w" "ce_commit_ts e = ts" using placements_in_range [OF n w(2)] by (auto simp: entry_of_def)
    with that(2) w(1) have "(cp_shard_index p, e\<lparr>ce_kind := cp_kind p\<rparr>) = entry_of ts p" "p \<in> set ps"
      using placements_in_range [OF n, of p h w] by (auto simp: entry_of_def set_ps)
    then show ?thesis by (auto simp: st)
  qed
  have "(\<lambda>(i, e). (ce_commit_ts e, ce_resource e)) ` entry_of ts ` set ps = Pair ts ` set ws"
  proof -
    have "cp_resource ` set (placements_for_write h ?n w) = {w}" for w
      using placements_in_range [OF n] placements_nonempty [of h ?n w] by (fastforce simp: image_iff neq_Nil_conv)
    then have "cp_resource ` set ps = set ws" by (simp add: set_ps image_UN)
    moreover have "(\<lambda>(i, e). (ce_commit_ts e, ce_resource e)) ` entry_of ts ` set ps = Pair ts ` cp_resource ` set ps"
      by (simp add: image_image entry_of_def)
    ultimately show ?thesis by simp
  qed
  then have "wci_logged ix' = wci_logged ix \<union> Pair ts ` set ws"
    by (simp add: wci_logged_def st image_Un)
  then show ?thesis
    using False ix1 res closed n by (auto simp: wci_ok_def split: prod.splits)
qed


lemma record_entries_removed_fields [simp]:
  "wi_shards (record_entries_removed removed ix) = wi_shards ix"
  "wi_durable_ts (record_entries_removed removed ix) = wi_durable_ts ix"
  "wi_conflict_horizon (record_entries_removed removed ix) = wi_conflict_horizon ix"
  by (simp_all add: record_entries_removed_def)

lemma shard_gc_ok:
  assumes "shard_ok durable shard" "shard_gc shard horizon = (shard', removed)"
  shows "shard_ok durable shard' \<and> cs_entries shard' = filter (\<lambda>e. horizon < ce_commit_ts e) (cs_entries shard)"
proof -
  have shard': "shard' = shard\<lparr>cs_entries := filter (\<lambda>e. horizon < ce_commit_ts e) (cs_entries shard)\<rparr>"
    using assms dropWhile_sorted [of ce_commit_ts "cs_entries shard"] by (simp add: shard_gc_def shard_ok_def)
  show ?thesis using assms(1) by (auto simp: shard' shard_ok_def sorted_map_filter)
qed

lemma gc_shards_ok:
  assumes "\<forall>shard \<in> set (wi_shards ix). shard_ok durable shard" "\<forall>i \<in> set is. i < length (wi_shards ix)"
  shows "length (wi_shards (gc_shards horizon is ix)) = length (wi_shards ix) \<and>
    (\<forall>shard \<in> set (wi_shards (gc_shards horizon is ix)). shard_ok durable shard) \<and>
    stored (gc_shards horizon is ix) = {(i, e) \<in> stored ix. i \<in> set is \<longrightarrow> horizon < ce_commit_ts e} \<and>
    wi_durable_ts (gc_shards horizon is ix) = wi_durable_ts ix \<and>
    wi_conflict_horizon (gc_shards horizon is ix) = wi_conflict_horizon ix"
  using assms
proof (induction "is" arbitrary: ix)
  case (Cons i "is")
  obtain shard removed where gc: "shard_gc (wi_shards ix ! i) horizon = (shard, removed)"
    by (cases "shard_gc (wi_shards ix ! i) horizon")
  have i: "i < length (wi_shards ix)" using Cons.prems(2) by simp
  have "shard_ok durable (wi_shards ix ! i)" using Cons.prems(1) i nth_mem by blast
  note ok = shard_gc_ok [OF this gc]
  define ix1 where "ix1 = record_entries_removed removed (ix\<lparr>wi_shards := (wi_shards ix)[i := shard]\<rparr>)"
  have loop: "gc_shards horizon (i # is) ix = gc_shards horizon is ix1" by (simp add: gc ix1_def)
  have "stored ix1 = stored (ix\<lparr>wi_shards := (wi_shards ix)[i := shard]\<rparr>)"
    by (rule stored_cong) (simp add: ix1_def)
  also have "\<dots> = {(j, e) \<in> stored ix. j = i \<longrightarrow> horizon < ce_commit_ts e}"
    unfolding stored_update [OF i] using ok i by (auto simp: stored_def)
  finally have st: "stored ix1 = {(j, e) \<in> stored ix. j = i \<longrightarrow> horizon < ce_commit_ts e}" .
  have "\<forall>shard \<in> set (wi_shards ix1). shard_ok durable shard"
    using Cons.prems(1) ok by (auto simp: ix1_def dest!: set_update_subset_insert [THEN subsetD])
  moreover have "\<forall>i \<in> set is. i < length (wi_shards ix1)" using Cons.prems(2) by (simp add: ix1_def)
  moreover have "wi_durable_ts ix1 = wi_durable_ts ix" "wi_conflict_horizon ix1 = wi_conflict_horizon ix"
    "length (wi_shards ix1) = length (wi_shards ix)" by (simp_all add: ix1_def)
  ultimately show ?case
    unfolding loop using Cons.IH [of ix1] st by auto
qed simp

lemma advance_horizon_ok:
  assumes "wci_ok h ix"
  shows "wci_ok h (fst (wci_advance_horizon ix t)) \<and>
    wi_conflict_horizon (fst (wci_advance_horizon ix t)) = max (wi_conflict_horizon ix) t \<and>
    wi_durable_ts (fst (wci_advance_horizon ix t)) = wi_durable_ts ix \<and>
    length (wi_shards (fst (wci_advance_horizon ix t))) = length (wi_shards ix) \<and>
    wci_logged (fst (wci_advance_horizon ix t)) = {x \<in> wci_logged ix. max (wi_conflict_horizon ix) t < fst x}"
proof -
  define hz where "hz = max (wi_conflict_horizon ix) t"
  define ix1 where "ix1 = ix\<lparr>wi_conflict_horizon := hz\<rparr>"
  define ix2 where "ix2 = gc_shards hz [0..<length (wi_shards ix)] ix1"
  have adv: "fst (wci_advance_horizon ix t) = ix2"
    by (simp add: wci_advance_horizon_def Let_def bump_atomic_max_eq hz_def ix1_def ix2_def)
  have shards: "\<forall>shard \<in> set (wi_shards ix1). shard_ok (wi_durable_ts ix) shard"
    using assms by (simp add: ix1_def wci_ok_def)
  have gc: "length (wi_shards ix2) = length (wi_shards ix)"
    "\<forall>shard \<in> set (wi_shards ix2). shard_ok (wi_durable_ts ix) shard"
    "stored ix2 = {(i, e) \<in> stored ix. hz < ce_commit_ts e}"
    "wi_durable_ts ix2 = wi_durable_ts ix" "wi_conflict_horizon ix2 = hz"
    using gc_shards_ok [OF shards, of "[0..<length (wi_shards ix)]" hz] stored_cong [of ix1 ix]
    by (auto simp: ix2_def ix1_def) (auto simp: stored_def)
  have "(cp_shard_index p, e\<lparr>ce_kind := cp_kind p\<rparr>) \<in> stored ix2"
    if "(i, e) \<in> stored ix2" "p \<in> set (placements_for_write h (length (wi_shards ix)) (ce_resource e))" for i e p
    using assms that unfolding gc(3) wci_ok_def by fastforce
  moreover have "wi_shards ix2 \<noteq> []" using assms gc(1) by (auto simp: wci_ok_def)
  ultimately have "wci_ok h ix2"
    unfolding wci_ok_def gc(1,4) using gc(2) by blast
  moreover have "wci_logged ix2 = {x \<in> wci_logged ix. hz < fst x}"
    by (auto simp: wci_logged_def gc(3))
  ultimately show ?thesis using gc by (simp add: adv hz_def)
qed


section \<open>Queries\<close>

text \<open>The hits of a query, one for each probe of each write.\<close>

definition hit :: "(shard_key \<Rightarrow> u64) \<Rightarrow> write_conflict_index \<Rightarrow> read_ts \<Rightarrow> lock_resource \<Rightarrow> conflict_entry \<Rightarrow> bool" where
  "hit h ix rts w e \<longleftrightarrow> (\<exists>p \<in> set (probes_for_query h (length (wi_shards ix)) w).
     shard_first_conflict (wi_shards ix ! pr_shard_index p) rts w (pr_kind_mask p) = Some e)"

definition best_among :: "conflict_entry set \<Rightarrow> conflict_match option \<Rightarrow> bool" where
  "best_among es best \<longleftrightarrow>
     (case best of
        None \<Rightarrow> es = {}
      | Some m \<Rightarrow> (\<exists>e \<in> es. cm_commit_ts m = ce_commit_ts e \<and> cm_resource m = ce_resource e) \<and>
          (\<forall>e \<in> es. cm_commit_ts m \<le> ce_commit_ts e))"

lemma best_among_select:
  assumes "best_among es best"
  shows "best_among (insert e es) (select_earlier_match best \<lparr>cm_commit_ts = ce_commit_ts e, cm_resource = ce_resource e\<rparr>)"
proof (cases best)
  case None
  with assms show ?thesis by (simp add: best_among_def select_earlier_match_def)
next
  case (Some m)
  with assms show ?thesis
    by (auto simp: best_among_def select_earlier_match_def not_less less_imp_le order_trans
        dest: order.strict_implies_order)
qed

lemma best_among_probes:
  assumes "best_among es best"
  shows "best_among (es \<union> {e. \<exists>p \<in> set ps.
      shard_first_conflict (wi_shards ix ! pr_shard_index p) rts w (pr_kind_mask p) = Some e})
    (fold (probe_conflict ix rts w) ps best)"
  using assms
proof (induction ps arbitrary: es best)
  case (Cons p ps)
  show ?case
  proof (cases "shard_first_conflict (wi_shards ix ! pr_shard_index p) rts w (pr_kind_mask p)")
    case None
    with Cons.IH [OF Cons.prems] show ?thesis by (simp add: probe_conflict_def)
  next
    case (Some e)
    note IH = Cons.IH [OF best_among_select [OF Cons.prems, of e]]
    have "es \<union> {e. \<exists>p \<in> set (p # ps). shard_first_conflict (wi_shards ix ! pr_shard_index p) rts w (pr_kind_mask p) = Some e} =
      insert e es \<union> {e. \<exists>p \<in> set ps. shard_first_conflict (wi_shards ix ! pr_shard_index p) rts w (pr_kind_mask p) = Some e}"
      using Some by auto
    with IH Some show ?thesis by (simp add: probe_conflict_def)
  qed
qed simp

lemma best_among_writes:
  assumes "best_among es best"
  shows "best_among (es \<union> {e. \<exists>w \<in> set ws. hit h ix rts w e})
    (fold (\<lambda>w best. fold (probe_conflict ix rts w) (probes_for_query h (length (wi_shards ix)) w) best) ws best)"
  using assms
proof (induction ws arbitrary: es best)
  case (Cons w ws)
  have "es \<union> {e. \<exists>w \<in> set (w # ws). hit h ix rts w e} = (es \<union> {e. hit h ix rts w e}) \<union> {e. \<exists>w \<in> set ws. hit h ix rts w e}"
    by auto
  with Cons.IH [OF best_among_probes [OF Cons.prems, where ps = "probes_for_query h (length (wi_shards ix)) w"
          and ix = ix and rts = rts and w = w, folded hit_def]] show ?case by simp
qed simp

lemma first_conflict_best: "best_among {e. \<exists>w \<in> set ws. hit h ix rts w e} (wci_first_conflict h ix rts ws)"
  using best_among_writes [of "{}" None ws h ix rts] by (simp add: wci_first_conflict_def best_among_def)

lemma probe_in_range:
  assumes "0 < n" "probed (probes_for_query h n q) i k"
  shows "i < n"
  using assms(2) shards_in_range [OF assms(1)] unfolding probed_query by (auto split: if_splits)

lemma kind_mask_and: "kind_bit k AND bits \<noteq> 0 \<Longrightarrow> p \<in> set ps \<Longrightarrow> pr_kind_mask p = bits \<Longrightarrow> probed ps (pr_shard_index p) k"
  by (auto simp: probed_def)

lemma hit_sound:
  assumes "wci_ok h ix" "hit h ix rts w e"
  shows "(ce_commit_ts e, ce_resource e) \<in> wci_logged ix \<and> rts < ce_commit_ts e \<and> conflicts_with (ce_resource e) w"
proof -
  let ?n = "length (wi_shards ix)"
  from assms(2) obtain p where p: "p \<in> set (probes_for_query h ?n w)"
    "shard_first_conflict (wi_shards ix ! pr_shard_index p) rts w (pr_kind_mask p) = Some e"
    by (auto simp: hit_def)
  then have e: "e \<in> set (cs_entries (wi_shards ix ! pr_shard_index p))" "rts < ce_commit_ts e"
    "kind_bit (ce_kind e) AND pr_kind_mask p \<noteq> 0" "conflicts_with (ce_resource e) w"
    by (auto simp: shard_first_conflict_def dest!: find_SomeD)
  have "pr_shard_index p < ?n"
    using probe_in_range [OF _ kind_mask_and [OF e(3) p(1) refl]] assms(1) by (simp add: wci_ok_def)
  with e show ?thesis by (force simp: wci_logged_def stored_def)
qed

lemma find_sorted:
  assumes "sorted (map f xs)" "x \<in> set xs" "P x"
  shows "\<exists>y. List.find P xs = Some y \<and> f y \<le> (f x :: u64)"
  using assms by (induction xs) auto

lemma hit_complete:
  assumes "wci_ok h ix" "(ts, r) \<in> wci_logged ix" "rts < ts" "conflicts_with r w" "probe_covers (length (wi_shards ix)) r w"
  shows "\<exists>e. hit h ix rts w e \<and> ce_commit_ts e \<le> ts"
proof -
  let ?n = "length (wi_shards ix)"
  have n: "0 < ?n" using assms(1) by (simp add: wci_ok_def)
  from assms(2) obtain i e where e: "(i, e) \<in> stored ix" "ce_commit_ts e = ts" "ce_resource e = r"
    by (auto simp: wci_logged_def)
  from probes_cover [OF n assms(4,5), of h] obtain q where
    q: "q \<in> set (placements_for_write h ?n r)" "probed (probes_for_query h ?n w) (cp_shard_index q) (cp_kind q)"
    by (auto simp: found_by_def)
  from q(2) obtain p where p: "p \<in> set (probes_for_query h ?n w)" "pr_shard_index p = cp_shard_index q"
    "kind_bit (cp_kind q) AND pr_kind_mask p \<noteq> 0" by (auto simp: probed_def)
  define e' where "e' = e\<lparr>ce_kind := cp_kind q\<rparr>"
  have "(cp_shard_index q, e') \<in> stored ix"
    using assms(1) e q(1) unfolding wci_ok_def e'_def by blast
  then have mem: "e' \<in> set (cs_entries (wi_shards ix ! pr_shard_index p))" and "pr_shard_index p < ?n"
    by (simp_all add: stored_def p(2))
  then have sorted: "sorted (map ce_commit_ts (cs_entries (wi_shards ix ! pr_shard_index p)))"
    using assms(1) by (simp add: wci_ok_def shard_ok_def)
  have match: "rts < ce_commit_ts e' \<and> kind_bit (ce_kind e') AND pr_kind_mask p \<noteq> 0 \<and> conflicts_with (ce_resource e') w"
    using assms(3,4) e p(3) by (simp add: e'_def)
  have "\<exists>y. shard_first_conflict (wi_shards ix ! pr_shard_index p) rts w (pr_kind_mask p) = Some y \<and>
      ce_commit_ts y \<le> ce_commit_ts e'"
    unfolding shard_first_conflict_def by (rule find_sorted [OF sorted mem]) (rule match)
  with p(1) e show ?thesis by (auto simp: hit_def e'_def)
qed


section \<open>Counters\<close>

definition counts_exact :: "write_conflict_index \<Rightarrow> bool" where
  "counts_exact ix \<longleftrightarrow>
     wi_entry_count ix = sum_list (map (\<lambda>s. of_nat (length (cs_entries s))) (wi_shards ix)) \<and>
     wi_fine_entry_count ix = sum_list (map (\<lambda>s. count_kind Fine (cs_entries s)) (wi_shards ix)) \<and>
     wi_fine_summary_entry_count ix = sum_list (map (\<lambda>s. count_kind FineSummary (cs_entries s)) (wi_shards ix)) \<and>
     wi_coarse_entry_count ix = sum_list (map (\<lambda>s. count_kind Coarse (cs_entries s)) (wi_shards ix))"

lemma sum_list_update_group:
  fixes f :: "'a \<Rightarrow> 'b::ab_group_add"
  assumes "i < length xs"
  shows "sum_list (map f (xs[i := y])) = sum_list (map f xs) + (f y - f (xs ! i))"
  using assms
proof (induction xs arbitrary: i)
  case (Cons x xs)
  then show ?case by (cases i) (simp_all add: algebra_simps)
qed simp

lemma count_kind_append [simp]: "count_kind k (xs @ ys) = count_kind k xs + count_kind k ys"
  by (simp add: count_kind_def)

lemma count_kind_split: "count_kind k (dropWhile P es) = count_kind k es - count_kind k (takeWhile P es)"
proof -
  have "count_kind k es = count_kind k (takeWhile P es @ dropWhile P es)" by simp
  then show ?thesis unfolding count_kind_append by simp
qed

lemma length_split: "(of_nat (length (dropWhile P es)) :: u64) = of_nat (length es) - of_nat (length (takeWhile P es))"
proof -
  have "length es = length (takeWhile P es @ dropWhile P es)" by simp
  then show ?thesis unfolding length_append by simp
qed

lemma counts_push:
  assumes "counts_exact ix" "i < length (wi_shards ix)" "cs_entries shard = cs_entries (wi_shards ix ! i) @ [e]" "ce_kind e = k"
  shows "counts_exact (record_entry_added k (ix\<lparr>wi_shards := (wi_shards ix)[i := shard]\<rparr>))"
  using assms
  by (cases k) (simp_all add: counts_exact_def record_entry_added_def bump_kind_def sum_list_update_group count_kind_def)

lemma counts_push_placements:
  assumes "counts_exact ix" "\<forall>p \<in> set ps. cp_shard_index p < length (wi_shards ix)"
  shows "counts_exact (fst (push_placements ts ps ix))"
  using assms
proof (induction ps arbitrary: ix)
  case (Cons p ps)
  show ?case
  proof (cases "shard_push (wi_shards ix ! cp_shard_index p) ts (cp_resource p) (cp_kind p)")
    case (Inl err)
    with Cons.prems show ?thesis by simp
  next
    case (Inr shard)
    then have "cs_entries shard = cs_entries (wi_shards ix ! cp_shard_index p) @ [snd (entry_of ts p)]"
      by (auto simp: shard_push_def entry_of_def split: if_splits)
    then have "counts_exact (record_entry_added (cp_kind p) (ix\<lparr>wi_shards := (wi_shards ix)[cp_shard_index p := shard]\<rparr>))"
      using Cons.prems by (intro counts_push) (auto simp: entry_of_def)
    with Cons.IH Cons.prems(2) Inr show ?thesis by simp
  qed
qed simp

lemma counts_gc:
  assumes "counts_exact ix" "\<forall>i \<in> set is. i < length (wi_shards ix)"
  shows "counts_exact (gc_shards horizon is ix)"
  using assms
proof (induction "is" arbitrary: ix)
  case (Cons i "is")
  obtain shard removed where gc: "shard_gc (wi_shards ix ! i) horizon = (shard, removed)"
    by (cases "shard_gc (wi_shards ix ! i) horizon")
  define ix1 where "ix1 = record_entries_removed removed (ix\<lparr>wi_shards := (wi_shards ix)[i := shard]\<rparr>)"
  have i: "i < length (wi_shards ix)" using Cons.prems(2) by simp
  have es: "cs_entries shard = dropWhile (\<lambda>e. ce_commit_ts e \<le> horizon) (cs_entries (wi_shards ix ! i))"
    "removed = takeWhile (\<lambda>e. ce_commit_ts e \<le> horizon) (cs_entries (wi_shards ix ! i))"
    using gc by (auto simp: shard_gc_def)
  have "counts_exact ix1"
    using Cons.prems(1) i
    by (auto simp: counts_exact_def ix1_def record_entries_removed_def sum_list_update_group count_kind_split
        length_split es) (simp_all add: count_kind_def)
  with Cons.IH [of ix1] Cons.prems(2) show ?case by (simp add: gc flip: ix1_def) (simp add: ix1_def)
qed simp

lemma counts_register:
  assumes "counts_exact ix" "wci_ok h ix"
  shows "counts_exact (fst (wci_register_commit h ix ts ws))"
proof -
  let ?n = "length (wi_shards ix)"
  let ?ps = "remdups_adj (sort_key placement_key (concat (map (placements_for_write h ?n) (sort_dedup ws))))"
  have n: "0 < ?n" using assms(2) by (simp add: wci_ok_def)
  have "\<forall>p \<in> set ?ps. cp_shard_index p < ?n" using placements_in_range [OF n] by auto
  from counts_push_placements [OF assms(1) this, of ts] assms(1) show ?thesis
    by (auto simp: wci_register_commit_def Let_def counts_exact_def split: prod.splits sum.splits)
qed

lemma counts_advance: "counts_exact ix \<Longrightarrow> counts_exact (fst (wci_advance_horizon ix t))"
  using counts_gc [of "ix\<lparr>wi_conflict_horizon := h\<rparr>" "[0..<length (wi_shards ix)]" for h]
  by (simp add: wci_advance_horizon_def Let_def counts_exact_def)


section \<open>The contract\<close>

definition wci_items :: "commit_ts \<times> lock_resource list \<Rightarrow> (commit_ts \<times> lock_resource) set" where
  "wci_items c = Pair (fst c) ` set (snd c)"

definition wci_register ::
  "(shard_key \<Rightarrow> u64) \<Rightarrow> write_conflict_index \<Rightarrow> commit_ts \<times> lock_resource list \<Rightarrow> write_conflict_index \<times> bool" where
  "wci_register h ix c =
     (case wci_register_commit h ix (fst c) (snd c) of (ix', res) \<Rightarrow> (ix', \<not> isl res))"

definition wci_advance :: "write_conflict_index \<Rightarrow> commit_ts \<Rightarrow> write_conflict_index" where
  "wci_advance ix t = fst (wci_advance_horizon ix t)"

interpretation write_log: commit_log
  "\<lambda>ix. wci_ok h ix \<and> counts_exact ix \<and> length (wi_shards ix) = n" wci_logged wi_conflict_horizon wci_items
  "wci_register h" wci_advance for h n
proof
  fix ix c ix' accepted
  assume ok: "wci_ok h ix \<and> counts_exact ix \<and> length (wi_shards ix) = n" and reg: "wci_register h ix c = (ix', accepted)"
  obtain res where res: "wci_register_commit h ix (fst c) (snd c) = (ix', res)" "accepted = (\<not> isl res)"
    using reg by (auto simp: wci_register_def split: prod.splits)
  note step = register_commit_ok [OF conjunct1 [OF ok] res(1)]
  have "counts_exact ix'" using counts_register [of ix h "fst c" "snd c"] ok res(1) by simp
  with step ok show "(wci_ok h ix' \<and> counts_exact ix' \<and> length (wi_shards ix') = n) \<and>
      wi_conflict_horizon ix' = wi_conflict_horizon ix \<and>
      wci_logged ix' = (if accepted then wci_logged ix \<union> wci_items c else wci_logged ix)"
    by (auto simp: res(2) wci_items_def split: if_splits)
next
  fix ix t
  assume ok: "wci_ok h ix \<and> counts_exact ix \<and> length (wi_shards ix) = n"
  show "(wci_ok h (wci_advance ix t) \<and> counts_exact (wci_advance ix t) \<and> length (wi_shards (wci_advance ix t)) = n) \<and>
      wi_conflict_horizon (wci_advance ix t) = max (wi_conflict_horizon ix) t \<and>
      wci_logged (wci_advance ix t) = {x \<in> wci_logged ix. wi_conflict_horizon (wci_advance ix t) < fst x}"
    using advance_horizon_ok [of h ix t] counts_advance [of ix t] ok by (simp add: wci_advance_def)
qed

section \<open>Properties\<close>

definition wci_run ::
  "(shard_key \<Rightarrow> u64) \<Rightarrow> (commit_ts \<times> lock_resource list) log_op list \<Rightarrow> write_conflict_index \<Rightarrow> write_conflict_index" where
  "wci_run h ops ix = fold (log_apply (wci_register h) wci_advance) ops ix"

definition wci_history ::
  "(shard_key \<Rightarrow> u64) \<Rightarrow> (commit_ts \<times> lock_resource list) log_op list \<Rightarrow> write_conflict_index
     \<Rightarrow> (commit_ts \<times> lock_resource) set" where
  "wci_history h ops ix = log_history (wci_register h) wci_advance wci_items ops ix"

lemma counts_exact_new: "wci_new n = Some ix \<Longrightarrow> counts_exact ix \<and> length (wi_shards ix) = n"
  by (auto simp: wci_new_def counts_exact_def count_kind_def sum_list_replicate split: if_splits)

lemma wci_run_ok:
  assumes "wci_new n = Some ix0"
  shows "wci_ok h (wci_run h ops ix0) \<and> counts_exact (wci_run h ops ix0) \<and> length (wi_shards (wci_run h ops ix0)) = n"
    "wci_logged (wci_run h ops ix0) \<subseteq> wci_history h ops ix0"
    "{x \<in> wci_history h ops ix0. wi_conflict_horizon (wci_run h ops ix0) < fst x} \<subseteq> wci_logged (wci_run h ops ix0)"
proof -
  have ok: "wci_ok h ix0 \<and> counts_exact ix0 \<and> length (wi_shards ix0) = n" and "wci_logged ix0 = {}"
    using wci_new_ok [OF assms] counts_exact_new [OF assms] by auto
  then show "wci_ok h (wci_run h ops ix0) \<and> counts_exact (wci_run h ops ix0) \<and> length (wi_shards (wci_run h ops ix0)) = n"
    "wci_logged (wci_run h ops ix0) \<subseteq> wci_history h ops ix0"
    "{x \<in> wci_history h ops ix0. wi_conflict_horizon (wci_run h ops ix0) < fst x} \<subseteq> wci_logged (wci_run h ops ix0)"
    using write_log.log_run_ok [OF ok, of ops] write_log.logged_run [OF ok, of ops]
    by (simp_all add: wci_run_def wci_history_def)
qed

text \<open>\<^bold>\<open>C19.\<close> Reported conflicts are real: whatever the hash function, a conflict the index reports is a
  write some commit registered, newer than the snapshot, on a resource that conflicts with one of the
  queried ones.\<close>

theorem first_conflict_sound:
  assumes "wci_new n = Some ix0" "wci_first_conflict h (wci_run h ops ix0) rts ws = Some m"
  shows "(cm_commit_ts m, cm_resource m) \<in> wci_history h ops ix0 \<and> rts < cm_commit_ts m \<and>
    (\<exists>w \<in> set ws. conflicts_with (cm_resource m) w)"
proof -
  note run = wci_run_ok [OF assms(1), of h ops]
  obtain w e where e: "w \<in> set ws" "hit h (wci_run h ops ix0) rts w e"
    "cm_commit_ts m = ce_commit_ts e" "cm_resource m = ce_resource e"
    using first_conflict_best [of ws h "wci_run h ops ix0" rts] assms(2) by (auto simp: best_among_def)
  with hit_sound [OF conjunct1 [OF run(1)] e(2)] run(2) show ?thesis by auto
qed

text \<open>\<^bold>\<open>C18.\<close> Conflicts are found.  For a snapshot at or above the horizon, every registered write newer
  than the snapshot that conflicts with a queried resource makes the query report a conflict no later
  than it, whatever the hash function and the number of shards, provided the probes cover the pair:
  they do not cover a query for a whole database against coarse writes below it, a query for a table
  or predicate against writes of a tablet, and distinct fine resources of which one is a wrapped range
  that starts and ends in one bucket.\<close>

theorem first_conflict_complete:
  assumes "wci_new n = Some ix0" "(ts, r) \<in> wci_history h ops ix0" "w \<in> set ws"
    "conflicts_with r w" "probe_covers n r w" "wi_conflict_horizon (wci_run h ops ix0) \<le> rts" "rts < ts"
  shows "\<exists>m. wci_first_conflict h (wci_run h ops ix0) rts ws = Some m \<and> cm_commit_ts m \<le> ts"
proof -
  note run = wci_run_ok [OF assms(1), of h ops]
  let ?ix = "wci_run h ops ix0"
  have "wi_conflict_horizon ?ix < ts" using assms(6,7) by (rule order.strict_trans1)
  then have "(ts, r) \<in> wci_logged ?ix" using run(3) assms(2) by auto
  from hit_complete [OF conjunct1 [OF run(1)] this assms(7,4)] run(1) assms(5) obtain e where
    "hit h ?ix rts w e" "ce_commit_ts e \<le> ts" by auto
  with assms(3) first_conflict_best [of ws h ?ix rts] show ?thesis
    by (cases "wci_first_conflict h ?ix rts ws") (auto simp: best_among_def intro: order_trans)
qed

text \<open>\<^bold>\<open>C22.\<close> The counters the index keeps for monitoring are exact in every state: the number of entries,
  in all and of each kind, as a 64-bit number.\<close>

theorem conflict_index_counts_exact:
  assumes "wci_new n = Some ix0"
  shows "wi_entry_count (wci_run h ops ix0) =
      sum_list (map (\<lambda>s. of_nat (length (cs_entries s))) (wi_shards (wci_run h ops ix0))) \<and>
    wi_fine_entry_count (wci_run h ops ix0) =
      sum_list (map (\<lambda>s. count_kind Fine (cs_entries s)) (wi_shards (wci_run h ops ix0))) \<and>
    wi_fine_summary_entry_count (wci_run h ops ix0) =
      sum_list (map (\<lambda>s. count_kind FineSummary (cs_entries s)) (wi_shards (wci_run h ops ix0))) \<and>
    wi_coarse_entry_count (wci_run h ops ix0) =
      sum_list (map (\<lambda>s. count_kind Coarse (cs_entries s)) (wi_shards (wci_run h ops ix0)))"
  using wci_run_ok(1) [OF assms, of h ops] by (simp add: counts_exact_def)


section \<open>Witnesses and missed conflicts\<close>

text \<open>Four shards and a hash function that keeps the kinds of keys apart.\<close>

fun demo_shard_hash :: "shard_key \<Rightarrow> u64" where
  "demo_shard_hash (SK_Resource _) = 3"
| "demo_shard_hash (SK_Bucket _ _ _ bucket) = of_nat bucket"
| "demo_shard_hash (SK_Row _ _ _ _ _ bucket) = of_nat bucket"
| "demo_shard_hash (SK_Database _) = 0"
| "demo_shard_hash (SK_Table _ _) = 1"
| "demo_shard_hash (SK_Tablet _ _ _) = 2"

definition demo_wci :: write_conflict_index where
  "demo_wci = the (wci_new 4)"

abbreviation demo_ns :: lock_namespace where
  "demo_ns \<equiv> \<lparr>ns_tenant_id = 0, ns_database_id = 7\<rparr>"

lemma demo_wci: "wci_new 4 = Some demo_wci"
  by (simp add: demo_wci_def wci_new_def)

lemma four_shards: "replicate 4 x = [x, x, x, x]"
  by (simp add: eval_nat_numeral)

lemmas wci_eval = demo_wci_def wci_new_def four_shards wci_run_def wci_register_def wci_register_commit_def
  wci_first_conflict_def
  probe_conflict_def shard_first_conflict_def select_earlier_match_def probes_for_query_def placements_for_write_def
  placement_def shard_push_def record_entry_added_def bump_kind_def sort_dedup_def placement_key_def
  database_summary_shard_def table_summary_shard_def tablet_summary_shard_def range_bucket_shard_def
  primary_key_bucket_shard_def hash_buckets_for_range_def ordered_hash_bucket_def hash_to_index_def
  commit_ts_zero_def bump_atomic_max_def Let_def conflicts_with_def hash_in_range_def

theorem first_conflict_sound_witness:
  "\<exists>m. wci_first_conflict demo_shard_hash (wci_run demo_shard_hash [Log_Register (10, [LR_Table demo_ns 3])] demo_wci) 5
      [LR_PrimaryKey demo_ns 3 1 9] = Some m \<and>
    (cm_commit_ts m, cm_resource m) \<in> wci_history demo_shard_hash [Log_Register (10, [LR_Table demo_ns 3])] demo_wci"
proof -
  have "wci_first_conflict demo_shard_hash (wci_run demo_shard_hash [Log_Register (10, [LR_Table demo_ns 3])] demo_wci) 5
      [LR_PrimaryKey demo_ns 3 1 9] = Some \<lparr>cm_commit_ts = 10, cm_resource = LR_Table demo_ns 3\<rparr>"
    by (simp add: wci_eval)
  with first_conflict_sound [OF demo_wci this] show ?thesis by auto
qed

text \<open>Three examples of conflicts the index misses.  After a commit that wrote a whole table, an older
  transaction that writes the database is not told; after one that wrote a tablet, neither is one that
  writes its table; after one that wrote a key, neither is one that writes a wrapped range of hashes
  that holds the key but starts and ends in the same bucket.\<close>

lemma missed_conflicts:
  "conflicts_with (LR_Table demo_ns 3) (LR_Database demo_ns) \<and>
   wci_first_conflict demo_shard_hash (wci_run demo_shard_hash [Log_Register (10, [LR_Table demo_ns 3])] demo_wci) 5
     [LR_Database demo_ns] = None \<and>
   conflicts_with (LR_Tablet demo_ns 3 1) (LR_Table demo_ns 3) \<and>
   wci_first_conflict demo_shard_hash (wci_run demo_shard_hash [Log_Register (10, [LR_Tablet demo_ns 3 1])] demo_wci) 5
     [LR_Table demo_ns 3] = None \<and>
   conflicts_with (LR_PrimaryKey demo_ns 3 1 (2 ^ 63)) (LR_Range demo_ns 3 1 5 4) \<and>
   wci_first_conflict demo_shard_hash
     (wci_run demo_shard_hash [Log_Register (10, [LR_PrimaryKey demo_ns 3 1 (2 ^ 63)])] demo_wci) 5
     [LR_Range demo_ns 3 1 5 4] = None"
  by (intro conjI) (simp_all add: wci_eval)


lemma wci_horizon:
  assumes "wci_ok h ix"
  shows "wi_conflict_horizon (wci_run h [Log_Register c, Log_Advance t] ix) = max (wi_conflict_horizon ix) t"
proof -
  note reg = register_commit_ok [OF assms prod.collapse [symmetric], of "fst c" "snd c"]
  show ?thesis
    using advance_horizon_ok [OF conjunct1 [OF reg], of t] reg
    by (simp add: wci_run_def wci_register_def wci_advance_def case_prod_beta)
qed

theorem first_conflict_complete_witness:
  "\<exists>m. wci_first_conflict demo_shard_hash (wci_run demo_shard_hash
       [Log_Register (10, [LR_Range demo_ns 3 1 5 100]), Log_Advance 6] demo_wci) 7
     [LR_PrimaryKey demo_ns 3 1 9] = Some m \<and> cm_commit_ts m \<le> 10"
proof (rule first_conflict_complete [OF demo_wci, where ts = 10 and r = "LR_Range demo_ns 3 1 5 100"
      and w = "LR_PrimaryKey demo_ns 3 1 9"])
  show "(10, LR_Range demo_ns 3 1 5 100) \<in> wci_history demo_shard_hash
      [Log_Register (10, [LR_Range demo_ns 3 1 5 100]), Log_Advance 6] demo_wci"
    by (simp add: wci_history_def wci_items_def wci_eval)
  show "wi_conflict_horizon (wci_run demo_shard_hash
      [Log_Register (10, [LR_Range demo_ns 3 1 5 100]), Log_Advance 6] demo_wci) \<le> 7"
    using wci_new_ok [OF demo_wci, of demo_shard_hash] by (simp add: wci_horizon)
qed (simp_all add: wci_eval wraps_within_bucket_def)

theorem conflict_index_counts_exact_witness:
  "wi_entry_count (wci_run demo_shard_hash [Log_Register (10, [LR_Table demo_ns 3]), Log_Advance 10] demo_wci) =
     sum_list (map (\<lambda>s. of_nat (length (cs_entries s)))
       (wi_shards (wci_run demo_shard_hash [Log_Register (10, [LR_Table demo_ns 3]), Log_Advance 10] demo_wci)))"
  using conflict_index_counts_exact [OF demo_wci, of demo_shard_hash "[Log_Register (10, [LR_Table demo_ns 3]), Log_Advance 10]"]
  by blast

end
