(* ===== verification/Commit_Frontier.thy ===== *)
theory Commit_Frontier
  imports Commit_Log
begin

text \<open>
  The frontier of durable and published commits (\<open>commit/frontier.rs\<close>): the largest durable and
  published commit, the bytes in between, the first commit whose publication failed, and waiting for
  a commit to be published.  The first part takes each method as one step; the second splits waiting
  and publishing into their accesses to shared state, in any interleaving.
\<close>

section \<open>State\<close>

datatype publish_failure_cause =
  Phase1 u64 u32 string
| Submit u64 u32 string
| Apply u64 u32 string

record publish_failure =
  pf_first_blocked_commit_ts :: commit_ts
  pf_cause :: publish_failure_cause

record frontier_metrics =
  fm_wait_count :: u64
  fm_wait_wake_count :: u64
  fm_notify_all_count :: u64
  fm_notify_suppressed_count :: u64
  fm_publish_failure_count :: u64

definition NO_FAILURE_WATERMARK :: u64 where
  "NO_FAILURE_WATERMARK = 0"

definition NO_STALE_BYTES :: u64 where
  "NO_STALE_BYTES = - 1"

record commit_frontier =
  cf_durable_commit_id :: commit_ts
  cf_published_commit_id :: commit_ts
  cf_durable_commit_bytes :: u64
  cf_published_commit_bytes :: u64
  cf_stale_bytes_at_poison :: u64
  cf_publish_failure_watermark :: u64
  cf_publish_failure :: "publish_failure option"
  cf_waiter_count :: nat
  cf_metrics :: frontier_metrics

definition frontier_new :: commit_frontier where
  "frontier_new =
     \<lparr>cf_durable_commit_id = 0, cf_published_commit_id = 0, cf_durable_commit_bytes = 0,
      cf_published_commit_bytes = 0, cf_stale_bytes_at_poison = NO_STALE_BYTES,
      cf_publish_failure_watermark = NO_FAILURE_WATERMARK, cf_publish_failure = None, cf_waiter_count = 0,
      cf_metrics = \<lparr>fm_wait_count = 0, fm_wait_wake_count = 0, fm_notify_all_count = 0,
        fm_notify_suppressed_count = 0, fm_publish_failure_count = 0\<rparr>\<rparr>"

text \<open>A durable handle: its commit timestamp and the bytes of its record.\<close>

record frontier_handle =
  fh_commit_ts :: commit_ts
  fh_commit_record_bytes :: u32

section \<open>Operations\<close>

text \<open>\<open>fetch_max_relaxed\<close> is the same loop as \<open>bump_atomic_max\<close> without a result.\<close>

definition fetch_max_relaxed :: "u64 \<Rightarrow> u64 \<Rightarrow> u64" where
  "fetch_max_relaxed current candidate = (if current < candidate then candidate else current)"

definition notify_waiters :: "commit_frontier \<Rightarrow> commit_frontier" where
  "notify_waiters f =
     (if 0 < cf_waiter_count f
      then f\<lparr>cf_metrics := (cf_metrics f)\<lparr>fm_notify_all_count := fm_notify_all_count (cf_metrics f) + 1\<rparr>\<rparr>
      else f\<lparr>cf_metrics := (cf_metrics f)\<lparr>fm_notify_suppressed_count := fm_notify_suppressed_count (cf_metrics f) + 1\<rparr>\<rparr>)"

definition sync_commit_ids :: "commit_frontier \<Rightarrow> commit_ts \<Rightarrow> commit_ts \<Rightarrow> commit_frontier" where
  "sync_commit_ids f durable published =
     notify_waiters (f\<lparr>cf_durable_commit_id := fetch_max_relaxed (cf_durable_commit_id f) (max durable published),
       cf_published_commit_id := fetch_max_relaxed (cf_published_commit_id f) published\<rparr>)"

definition sync_durable_commit_id :: "commit_frontier \<Rightarrow> commit_ts \<Rightarrow> commit_frontier" where
  "sync_durable_commit_id f durable =
     f\<lparr>cf_durable_commit_id := fetch_max_relaxed (cf_durable_commit_id f) durable\<rparr>"

definition mark_durable :: "commit_frontier \<Rightarrow> frontier_handle \<Rightarrow> commit_frontier" where
  "mark_durable f handle =
     f\<lparr>cf_durable_commit_id := fetch_max_relaxed (cf_durable_commit_id f) (fh_commit_ts handle),
       cf_durable_commit_bytes := cf_durable_commit_bytes f + ucast (fh_commit_record_bytes handle)\<rparr>"

definition mark_published :: "commit_frontier \<Rightarrow> frontier_handle \<Rightarrow> commit_frontier" where
  "mark_published f handle =
     notify_waiters (f\<lparr>cf_published_commit_id := fetch_max_relaxed (cf_published_commit_id f) (fh_commit_ts handle),
       cf_published_commit_bytes := cf_published_commit_bytes f + ucast (fh_commit_record_bytes handle)\<rparr>)"

definition mark_publish_failed :: "commit_frontier \<Rightarrow> commit_ts \<Rightarrow> publish_failure_cause \<Rightarrow> commit_frontier" where
  "mark_publish_failed f ts cause =
     (if (case cf_publish_failure f of None \<Rightarrow> False | Some failure \<Rightarrow> pf_first_blocked_commit_ts failure \<le> ts)
      then f
      else
        (let stale_lag = u64_saturating_sub (cf_durable_commit_bytes f) (cf_published_commit_bytes f)
         in notify_waiters
              (f\<lparr>cf_stale_bytes_at_poison :=
                   (if cf_stale_bytes_at_poison f = NO_STALE_BYTES then stale_lag else cf_stale_bytes_at_poison f),
                 cf_publish_failure := Some \<lparr>pf_first_blocked_commit_ts = ts, pf_cause = cause\<rparr>,
                 cf_publish_failure_watermark := ts,
                 cf_metrics := (cf_metrics f)\<lparr>fm_publish_failure_count := fm_publish_failure_count (cf_metrics f) + 1\<rparr>\<rparr>)))"

definition is_poisoned :: "commit_frontier \<Rightarrow> bool" where
  "is_poisoned f \<longleftrightarrow> cf_publish_failure_watermark f \<noteq> NO_FAILURE_WATERMARK"

definition durable_to_published_bytes_lag :: "commit_frontier \<Rightarrow> u64 option" where
  "durable_to_published_bytes_lag f =
     (if is_poisoned f then None
      else Some (u64_saturating_sub (cf_durable_commit_bytes f) (cf_published_commit_bytes f)))"

definition stale_bytes_at_poison :: "commit_frontier \<Rightarrow> u64 option" where
  "stale_bytes_at_poison f =
     (if cf_stale_bytes_at_poison f = NO_STALE_BYTES then None else Some (cf_stale_bytes_at_poison f))"

definition publish_failure_watermark :: "commit_frontier \<Rightarrow> commit_ts option" where
  "publish_failure_watermark f =
     (if cf_publish_failure_watermark f = NO_FAILURE_WATERMARK then None else Some (cf_publish_failure_watermark f))"

definition failure_at_or_below :: "commit_frontier \<Rightarrow> commit_ts \<Rightarrow> publish_failure option" where
  "failure_at_or_below f floor =
     (if cf_publish_failure_watermark f \<noteq> NO_FAILURE_WATERMARK \<and> cf_publish_failure_watermark f \<le> floor
      then cf_publish_failure f else None)"

definition is_published_or_failed :: "commit_frontier \<Rightarrow> commit_ts \<Rightarrow> publish_failure + bool" where
  "is_published_or_failed f floor =
     (if floor \<le> cf_published_commit_id f then Inr True
      else (case failure_at_or_below f floor of
              Some failure \<Rightarrow> Inl failure
            | None \<Rightarrow> Inr False))"

section \<open>Runs of the frontier\<close>

datatype frontier_op =
  Sync_Ids commit_ts commit_ts
| Sync_Durable commit_ts
| Durable frontier_handle
| Published frontier_handle
| Failed commit_ts publish_failure_cause

fun frontier_apply :: "frontier_op \<Rightarrow> commit_frontier \<Rightarrow> commit_frontier" where
  "frontier_apply (Sync_Ids d p) f = sync_commit_ids f d p"
| "frontier_apply (Sync_Durable d) f = sync_durable_commit_id f d"
| "frontier_apply (Durable handle) f = mark_durable f handle"
| "frontier_apply (Published handle) f = mark_published f handle"
| "frontier_apply (Failed ts cause) f = mark_publish_failed f ts cause"

fun published_ids :: "frontier_op \<Rightarrow> commit_ts list" where
  "published_ids (Sync_Ids d p) = [p]"
| "published_ids (Published handle) = [fh_commit_ts handle]"
| "published_ids _ = []"

fun durable_ids :: "frontier_op \<Rightarrow> commit_ts list" where
  "durable_ids (Sync_Ids d p) = [d, p]"
| "durable_ids (Sync_Durable d) = [d]"
| "durable_ids (Durable handle) = [fh_commit_ts handle]"
| "durable_ids _ = []"

fun failed_ids :: "frontier_op \<Rightarrow> commit_ts list" where
  "failed_ids (Failed ts cause) = [ts]"
| "failed_ids _ = []"

definition frontier_run :: "frontier_op list \<Rightarrow> commit_frontier" where
  "frontier_run ops = fold frontier_apply ops frontier_new"

lemma fetch_max_relaxed_eq: "fetch_max_relaxed a b = max a b"
  by (auto simp: fetch_max_relaxed_def max_def)

lemma notify_waiters_fields [simp]:
  "cf_durable_commit_id (notify_waiters f) = cf_durable_commit_id f"
  "cf_published_commit_id (notify_waiters f) = cf_published_commit_id f"
  "cf_durable_commit_bytes (notify_waiters f) = cf_durable_commit_bytes f"
  "cf_published_commit_bytes (notify_waiters f) = cf_published_commit_bytes f"
  "cf_publish_failure (notify_waiters f) = cf_publish_failure f"
  "cf_publish_failure_watermark (notify_waiters f) = cf_publish_failure_watermark f"
  "cf_waiter_count (notify_waiters f) = cf_waiter_count f"
  by (simp_all add: notify_waiters_def)

lemma frontier_run_snoc [simp]: "frontier_run (ops @ [op]) = frontier_apply op (frontier_run ops)"
  by (simp add: frontier_run_def)

lemma frontier_run_Nil [simp]: "frontier_run [] = frontier_new"
  by (simp add: frontier_run_def)

lemma fold_max_snoc: "fold max (xs @ ys) (a :: u64) = fold max ys (fold max xs a)"
  by simp

text \<open>The failure kept is the earliest, and the watermark is its timestamp.\<close>

definition failure_is_first :: "commit_ts list \<Rightarrow> commit_frontier \<Rightarrow> bool" where
  "failure_is_first failed f \<longleftrightarrow>
     (case cf_publish_failure f of
        None \<Rightarrow> failed = [] \<and> cf_publish_failure_watermark f = NO_FAILURE_WATERMARK
      | Some failure \<Rightarrow> pf_first_blocked_commit_ts failure \<in> set failed \<and>
          (\<forall>ts \<in> set failed. pf_first_blocked_commit_ts failure \<le> ts) \<and>
          cf_publish_failure_watermark f = pf_first_blocked_commit_ts failure)"

lemma failure_is_first_step:
  assumes "failure_is_first failed f"
  shows "failure_is_first (failed @ failed_ids op) (frontier_apply op f)"
proof (cases op)
  case (Failed ts cause)
  show ?thesis
  proof (cases "cf_publish_failure f")
    case None
    with assms Failed show ?thesis
      by (simp add: failure_is_first_def mark_publish_failed_def Let_def)
  next
    case (Some failure)
    show ?thesis
    proof (cases "pf_first_blocked_commit_ts failure \<le> ts")
      case True
      with assms Failed Some show ?thesis by (simp add: failure_is_first_def mark_publish_failed_def)
    next
      case False
      with assms Failed Some show ?thesis
        by (force simp: failure_is_first_def mark_publish_failed_def Let_def)
    qed
  qed
qed (use assms in \<open>simp_all add: failure_is_first_def sync_commit_ids_def sync_durable_commit_id_def mark_durable_def
    mark_published_def split: option.splits\<close>)

lemma frontier_run_ids:
  "cf_published_commit_id (frontier_run ops) = fold max (concat (map published_ids ops)) 0 \<and>
   cf_durable_commit_id (frontier_run ops) = fold max (concat (map durable_ids ops)) 0 \<and>
   failure_is_first (concat (map failed_ids ops)) (frontier_run ops)"
proof (induction ops rule: rev_induct)
  case (snoc op ops)
  have ids: "cf_published_commit_id (frontier_apply op f) = fold max (published_ids op) (cf_published_commit_id f) \<and>
      cf_durable_commit_id (frontier_apply op f) = fold max (durable_ids op) (cf_durable_commit_id f)" for f
    by (cases op) (simp_all add: sync_commit_ids_def sync_durable_commit_id_def mark_durable_def mark_published_def
        mark_publish_failed_def fetch_max_relaxed_eq Let_def max.assoc max.commute max.left_commute)
  from snoc failure_is_first_step [of "concat (map failed_ids ops)" "frontier_run ops" op] show ?case
    by (simp add: ids)
qed (simp add: frontier_new_def failure_is_first_def)

section \<open>Waiting and publishing, interleaved\<close>

text \<open>A thread that waits for a commit, by the accesses of \<open>wait_for_published_at_least\<close> to shared
  state: the first check, registering, taking the mutex, the check of the loop, and waiting on the
  condition variable, which gives the mutex up and blocks in one step and is left only when notified.\<close>

datatype waiter_pc =
  W_Start | W_Register | W_Lock | W_Check | W_Wait | W_Blocked | W_Woken | W_Returned "publish_failure + unit"

text \<open>A thread that publishes, by the accesses of \<open>mark_published\<close>: the identifier, the bytes, and the
  notification, which is suppressed when no waiter is registered.  It never takes the waiters' mutex.\<close>

datatype publisher_pc = P_Store frontier_handle | P_Bytes frontier_handle | P_Notify | P_Done

record frontier_threads =
  ft_frontier :: commit_frontier
  ft_mutex_held :: bool
  ft_waiter :: waiter_pc
  ft_publisher :: publisher_pc

inductive waiter_step :: "commit_ts \<Rightarrow> frontier_threads \<Rightarrow> frontier_threads \<Rightarrow> bool" for floor where
  start_ready:
    "ft_waiter s = W_Start \<Longrightarrow> is_published_or_failed (ft_frontier s) floor = Inr True \<Longrightarrow>
       waiter_step floor s (s\<lparr>ft_waiter := W_Returned (Inr ())\<rparr>)"
| start_failed:
    "ft_waiter s = W_Start \<Longrightarrow> is_published_or_failed (ft_frontier s) floor = Inl failure \<Longrightarrow>
       waiter_step floor s (s\<lparr>ft_waiter := W_Returned (Inl failure)\<rparr>)"
| start_wait:
    "ft_waiter s = W_Start \<Longrightarrow> is_published_or_failed (ft_frontier s) floor = Inr False \<Longrightarrow>
       waiter_step floor s (s\<lparr>ft_waiter := W_Register\<rparr>)"
| register:
    "ft_waiter s = W_Register \<Longrightarrow>
       waiter_step floor s (s\<lparr>ft_waiter := W_Lock, ft_frontier := (ft_frontier s)\<lparr>
         cf_waiter_count := fetch_add (cf_waiter_count (ft_frontier s)) 1\<rparr>\<rparr>)"
| lock:
    "ft_waiter s = W_Lock \<Longrightarrow> \<not> ft_mutex_held s \<Longrightarrow>
       waiter_step floor s (s\<lparr>ft_waiter := W_Check, ft_mutex_held := True\<rparr>)"
| check_ready:
    "ft_waiter s = W_Check \<Longrightarrow> is_published_or_failed (ft_frontier s) floor = Inr True \<Longrightarrow>
       waiter_step floor s (s\<lparr>ft_waiter := W_Returned (Inr ()), ft_mutex_held := False, ft_frontier := (ft_frontier s)\<lparr>
         cf_waiter_count := fetch_sub (cf_waiter_count (ft_frontier s)) 1\<rparr>\<rparr>)"
| check_failed:
    "ft_waiter s = W_Check \<Longrightarrow> is_published_or_failed (ft_frontier s) floor = Inl failure \<Longrightarrow>
       waiter_step floor s (s\<lparr>ft_waiter := W_Returned (Inl failure), ft_mutex_held := False, ft_frontier := (ft_frontier s)\<lparr>
         cf_waiter_count := fetch_sub (cf_waiter_count (ft_frontier s)) 1\<rparr>\<rparr>)"
| check_again:
    "ft_waiter s = W_Check \<Longrightarrow> is_published_or_failed (ft_frontier s) floor = Inr False \<Longrightarrow>
       waiter_step floor s (s\<lparr>ft_waiter := W_Wait\<rparr>)"
| wait:
    "ft_waiter s = W_Wait \<Longrightarrow> waiter_step floor s (s\<lparr>ft_waiter := W_Blocked, ft_mutex_held := False\<rparr>)"
| woken:
    "ft_waiter s = W_Woken \<Longrightarrow> \<not> ft_mutex_held s \<Longrightarrow>
       waiter_step floor s (s\<lparr>ft_waiter := W_Check, ft_mutex_held := True\<rparr>)"

inductive publisher_step :: "frontier_threads \<Rightarrow> frontier_threads \<Rightarrow> bool" where
  store:
    "ft_publisher s = P_Store handle \<Longrightarrow>
       publisher_step s (s\<lparr>ft_publisher := P_Bytes handle, ft_frontier := (ft_frontier s)\<lparr>
         cf_published_commit_id := fetch_max_relaxed (cf_published_commit_id (ft_frontier s)) (fh_commit_ts handle)\<rparr>\<rparr>)"
| bytes:
    "ft_publisher s = P_Bytes handle \<Longrightarrow>
       publisher_step s (s\<lparr>ft_publisher := P_Notify, ft_frontier := (ft_frontier s)\<lparr>
         cf_published_commit_bytes := cf_published_commit_bytes (ft_frontier s) + ucast (fh_commit_record_bytes handle)\<rparr>\<rparr>)"
| notify:
    "ft_publisher s = P_Notify \<Longrightarrow>
       publisher_step s (s\<lparr>ft_publisher := P_Done, ft_frontier := notify_waiters (ft_frontier s),
         ft_waiter := (if 0 < cf_waiter_count (ft_frontier s) \<and> ft_waiter s = W_Blocked then W_Woken else ft_waiter s)\<rparr>)"

definition threads_step :: "commit_ts \<Rightarrow> frontier_threads \<Rightarrow> frontier_threads \<Rightarrow> bool" where
  "threads_step floor s s' \<longleftrightarrow> waiter_step floor s s' \<or> publisher_step s s'"

definition threads_init :: "frontier_handle \<Rightarrow> frontier_threads" where
  "threads_init handle =
     \<lparr>ft_frontier = frontier_new, ft_mutex_held = False, ft_waiter = W_Start, ft_publisher = P_Store handle\<rparr>"

inductive_simps waiter_step_iff: "waiter_step floor s s'"

inductive_simps publisher_step_iff: "publisher_step s s'"

section \<open>Properties\<close>

text \<open>\<^bold>\<open>C24.\<close> What a waiter is told.  After any sequence of operations, asking for a commit answers that
  it is published iff some operation published it or a later one, and otherwise that publishing failed
  iff publishing it or an earlier one failed, with the earliest failure of all; the durable frontier is
  the largest commit made durable.  (Zero is no commit and never fails.)\<close>

theorem frontier_wait_outcome:
  assumes "0 \<notin> set (concat (map failed_ids ops))"
  shows "(is_published_or_failed (frontier_run ops) floor = Inr True \<longleftrightarrow>
      floor \<le> fold max (concat (map published_ids ops)) 0) \<and>
    (isl (is_published_or_failed (frontier_run ops) floor) \<longleftrightarrow>
      \<not> floor \<le> fold max (concat (map published_ids ops)) 0 \<and>
      (\<exists>ts \<in> set (concat (map failed_ids ops)). ts \<le> floor)) \<and>
    (\<forall>failure. is_published_or_failed (frontier_run ops) floor = Inl failure \<longrightarrow>
      pf_first_blocked_commit_ts failure = Min (set (concat (map failed_ids ops)))) \<and>
    cf_durable_commit_id (frontier_run ops) = fold max (concat (map durable_ids ops)) 0"
proof -
  let ?f = "frontier_run ops" and ?failed = "concat (map failed_ids ops)"
  note ids = frontier_run_ids [of ops]
  show ?thesis
  proof (cases "cf_publish_failure ?f")
    case None
    with ids show ?thesis
      by (auto simp: is_published_or_failed_def failure_at_or_below_def failure_is_first_def)
  next
    case (Some failure)
    let ?ts = "pf_first_blocked_commit_ts failure"
    have first: "?ts \<in> set ?failed" "\<forall>ts \<in> set ?failed. ?ts \<le> ts" "cf_publish_failure_watermark ?f = ?ts"
      using ids Some by (simp_all add: failure_is_first_def)
    then have "?ts \<noteq> NO_FAILURE_WATERMARK" using assms by (auto simp: NO_FAILURE_WATERMARK_def)
    then have below: "failure_at_or_below ?f floor = (if ?ts \<le> floor then Some failure else None)"
      by (simp add: failure_at_or_below_def first(3) Some)
    have "(\<exists>ts \<in> set ?failed. ts \<le> floor) \<longleftrightarrow> ?ts \<le> floor"
      using first(1,2) order_trans by blast
    moreover have "Min (set ?failed) = ?ts" using first(1,2) by (intro Min_eqI) auto
    ultimately show ?thesis using ids by (auto simp: is_published_or_failed_def below)
  qed
qed

theorem frontier_wait_outcome_witness:
  "is_published_or_failed (frontier_run [Published \<lparr>fh_commit_ts = 6, fh_commit_record_bytes = 100\<rparr>,
     Failed 8 (Apply 0 0 ''tablet''), Failed 7 (Submit 0 0 ''submit'')]) 5 = Inr True \<and>
   isl (is_published_or_failed (frontier_run [Published \<lparr>fh_commit_ts = 6, fh_commit_record_bytes = 100\<rparr>,
     Failed 8 (Apply 0 0 ''tablet''), Failed 7 (Submit 0 0 ''submit'')]) 9)"
  using frontier_wait_outcome [of "[Published \<lparr>fh_commit_ts = 6, fh_commit_record_bytes = 100\<rparr>,
      Failed 8 (Apply 0 0 ''tablet''), Failed 7 (Submit 0 0 ''submit'')]" 5]
    frontier_wait_outcome [of "[Published \<lparr>fh_commit_ts = 6, fh_commit_record_bytes = 100\<rparr>,
      Failed 8 (Apply 0 0 ''tablet''), Failed 7 (Submit 0 0 ''submit'')]" 9]
  by simp

text \<open>\<^bold>\<open>C25.\<close> A wake-up can be lost.  The publisher stores the identifier and notifies without the mutex
  that the waiter holds between its check and blocking.  So there is an interleaving of a waiter for
  commit 5 and the publisher of commit 5 that ends with the commit published, the publisher done, the
  waiter blocked, and no thread able to take a step.\<close>

theorem publish_wakeup_lost:
  "\<exists>s. rtranclp (threads_step 5) (threads_init \<lparr>fh_commit_ts = 5, fh_commit_record_bytes = 64\<rparr>) s \<and>
     ft_waiter s = W_Blocked \<and> ft_publisher s = P_Done \<and> 5 \<le> cf_published_commit_id (ft_frontier s) \<and>
     (\<forall>s'. \<not> threads_step 5 s s')"
proof -
  let ?handle = "\<lparr>fh_commit_ts = 5, fh_commit_record_bytes = 64\<rparr>"
  define s0 where "s0 = threads_init ?handle"
  define s1 where "s1 = s0\<lparr>ft_waiter := W_Register\<rparr>"
  define s2 where "s2 = s1\<lparr>ft_waiter := W_Lock, ft_frontier := (ft_frontier s1)\<lparr>
    cf_waiter_count := fetch_add (cf_waiter_count (ft_frontier s1)) 1\<rparr>\<rparr>"
  define s3 where "s3 = s2\<lparr>ft_waiter := W_Check, ft_mutex_held := True\<rparr>"
  define s4 where "s4 = s3\<lparr>ft_waiter := W_Wait\<rparr>"
  define s5 where "s5 = s4\<lparr>ft_publisher := P_Bytes ?handle, ft_frontier := (ft_frontier s4)\<lparr>
    cf_published_commit_id := fetch_max_relaxed (cf_published_commit_id (ft_frontier s4)) (fh_commit_ts ?handle)\<rparr>\<rparr>"
  define s6 where "s6 = s5\<lparr>ft_publisher := P_Notify, ft_frontier := (ft_frontier s5)\<lparr>
    cf_published_commit_bytes := cf_published_commit_bytes (ft_frontier s5) + ucast (fh_commit_record_bytes ?handle)\<rparr>\<rparr>"
  define s7 where "s7 = s6\<lparr>ft_publisher := P_Done, ft_frontier := notify_waiters (ft_frontier s6),
    ft_waiter := (if 0 < cf_waiter_count (ft_frontier s6) \<and> ft_waiter s6 = W_Blocked then W_Woken else ft_waiter s6)\<rparr>"
  define s8 where "s8 = s7\<lparr>ft_waiter := W_Blocked, ft_mutex_held := False\<rparr>"
  note defs = s0_def threads_init_def s1_def s2_def s3_def s4_def s5_def s6_def s7_def
  have pending: "is_published_or_failed frontier_new 5 = Inr False"
    by (simp add: is_published_or_failed_def failure_at_or_below_def frontier_new_def)
  have "waiter_step 5 s0 s1" unfolding s1_def
    by (rule start_wait) (simp_all add: s0_def threads_init_def pending)
  moreover have "waiter_step 5 s1 s2" unfolding s2_def by (rule register) (simp add: s1_def)
  moreover have "waiter_step 5 s2 s3" unfolding s3_def by (rule lock) (simp_all add: defs)
  moreover have "waiter_step 5 s3 s4" unfolding s4_def
    by (rule check_again) (simp_all add: defs is_published_or_failed_def failure_at_or_below_def frontier_new_def)
  moreover have "publisher_step s4 s5" unfolding s5_def by (rule store) (simp add: defs)
  moreover have "publisher_step s5 s6" unfolding s6_def by (rule bytes) (simp add: defs)
  moreover have "publisher_step s6 s7" unfolding s7_def by (rule notify) (simp add: defs)
  moreover have "waiter_step 5 s7 s8" unfolding s8_def by (rule wait) (simp add: defs)
  ultimately have steps: "threads_step 5 s0 s1" "threads_step 5 s1 s2" "threads_step 5 s2 s3" "threads_step 5 s3 s4"
    "threads_step 5 s4 s5" "threads_step 5 s5 s6" "threads_step 5 s6 s7" "threads_step 5 s7 s8"
    by (simp_all add: threads_step_def)
  note add_step = rtranclp.rtrancl_into_rtrancl [where r = "threads_step 5"]
  have "rtranclp (threads_step 5) s0 s8"
    by (rule add_step [OF add_step [OF add_step [OF add_step [OF add_step [OF add_step [OF add_step
      [OF r_into_rtranclp [where r = "threads_step 5", OF steps(1)] steps(2)] steps(3)] steps(4)] steps(5)] steps(6)] steps(7)] steps(8)])
  moreover have "ft_waiter s8 = W_Blocked" "ft_publisher s8 = P_Done" "5 \<le> cf_published_commit_id (ft_frontier s8)"
    by (simp_all add: s8_def defs frontier_new_def fetch_max_relaxed_def)
  ultimately show ?thesis
    by (intro exI [of _ s8]) (simp add: s0_def threads_step_def waiter_step_iff publisher_step_iff)
qed

end
