(* ===== verification/Ssi_Validator.thy ===== *)
theory Ssi_Validator
  imports Commit_Request Committed_Summary Conflict_Index_Safety Commit_Frontier
begin

text \<open>
  Validation of serializable commits (\<open>ssi_validator.rs\<close>) and the functions of the transaction manager
  (\<open>storage/src/transaction/manager.rs\<close>) that register commits, validate them, fence them and advance
  the conflict horizon.  \<open>h\<close> is the hash of a transaction id and \<open>hk\<close> that of a shard key.
\<close>

section \<open>The validator\<close>

record ssi_validation_outcome =
  svo_validation_epoch :: u64
  svo_ssi_effect_epoch :: u64
  svo_rw_conflict_in :: bool
  svo_rw_conflict_out :: bool
  svo_active_conflict_count :: nat
  svo_coarse_scan_marker_conflict :: bool
  svo_committed_write_conflict :: "committed_txn_conflict option"
  svo_committed_read_conflict :: "committed_txn_conflict option"
  svo_active_read_conflict :: "active_read_conflict option"

definition outcome_snapshot :: "u64 \<Rightarrow> ssi_validation_outcome" where
  "outcome_snapshot epoch =
     \<lparr>svo_validation_epoch = epoch, svo_ssi_effect_epoch = 0, svo_rw_conflict_in = False, svo_rw_conflict_out = False,
      svo_active_conflict_count = 0, svo_coarse_scan_marker_conflict = False, svo_committed_write_conflict = None,
      svo_committed_read_conflict = None, svo_active_read_conflict = None\<rparr>"

datatype ssi_validation_error =
  DangerousStructure txn_id ssi_txn_state "committed_txn_conflict option" "committed_txn_conflict option"
    "active_read_conflict option" bool

fun error_coarse_scan_marker_conflict :: "ssi_validation_error \<Rightarrow> bool" where
  "error_coarse_scan_marker_conflict (DangerousStructure _ _ _ _ _ coarse) = coarse"

definition conflict_is_coarse :: "committed_txn_conflict option \<Rightarrow> bool" where
  "conflict_is_coarse c = (case c of Some d \<Rightarrow> ctc_is_coarse_scan_marker d | None \<Rightarrow> False)"

text \<open>The marks for a committed write over what the transaction read, and for an incoming conflict,
  each with the coarse mark when the conflict is with a whole scan.\<close>

definition mark_out_if :: "(txn_id \<Rightarrow> u64) \<Rightarrow> bool \<Rightarrow> bool \<Rightarrow> txn_id \<Rightarrow> read_dependency_index \<Rightarrow> read_dependency_index" where
  "mark_out_if h found coarse t ix =
     (if found
      then let ix1 = fst (mark_txn_conflict_out h ix t)
           in if coarse then fst (mark_txn_coarse_scan_conflict h ix1 t) else ix1
      else ix)"

definition mark_in_if :: "(txn_id \<Rightarrow> u64) \<Rightarrow> bool \<Rightarrow> bool \<Rightarrow> txn_id \<Rightarrow> read_dependency_index \<Rightarrow> read_dependency_index" where
  "mark_in_if h found coarse t ix =
     (if found
      then let ix1 = fst (mark_txn_conflict_in h ix t)
           in if coarse then fst (mark_txn_coarse_scan_conflict h ix1 t) else ix1
      else ix)"

definition validate_commit ::
  "(txn_id \<Rightarrow> u64) \<Rightarrow> read_dependency_index \<Rightarrow> summary_index \<Rightarrow> commit_plan \<Rightarrow> lock_resource list
     \<Rightarrow> read_dependency_index \<times> (ssi_validation_error + ssi_validation_outcome)" where
  "validate_commit h ix sums plan ws =
     (if pl_isolation plan \<noteq> Serializable then (ix, Inr (outcome_snapshot (ri_state_epoch ix)))
      else
        (let t = pl_txn_id plan;
             cw = first_write_conflict_for_reads sums (pl_read_ts plan) (frs_dependencies (pl_frozen_read_set plan));
             ix1 = mark_out_if h (cw \<noteq> None) (conflict_is_coarse cw) t ix;
             cr = first_read_conflict_for_writes sums (pl_read_ts plan) ws;
             ix2 = mark_in_if h (cr \<noteq> None) (conflict_is_coarse cr) t ix1;
             (ix3, eff) = mark_write_conflicts ix2 t ws;
             ix4 = mark_in_if h (awe_writer_has_conflict_in eff) (awe_coarse_scan_marker_conflict eff) t ix3;
             st = ssi_state h ix4 t;
             (ix5, state) = (if ssi_rw_conflict_in st \<and> ssi_rw_conflict_out st then mark_txn_dangerous h ix4 t
                             else (ix4, st));
             validation_epoch = max (ri_state_epoch ix5) (ri_state_epoch ix);
             coarse = (ssi_coarse_scan_marker_conflict state \<or> conflict_is_coarse cw \<or> conflict_is_coarse cr \<or>
                       awe_coarse_scan_marker_conflict eff)
         in if ssi_dangerous_structure state
            then (ix5, Inl (DangerousStructure t state cw cr (awe_first_conflict eff) coarse))
            else (ix5, Inr
              \<lparr>svo_validation_epoch = validation_epoch,
               svo_ssi_effect_epoch = max validation_epoch (awe_ssi_effect_epoch eff),
               svo_rw_conflict_in = ssi_rw_conflict_in state, svo_rw_conflict_out = ssi_rw_conflict_out state,
               svo_active_conflict_count = awe_matched_txn_count eff, svo_coarse_scan_marker_conflict = coarse,
               svo_committed_write_conflict = cw, svo_committed_read_conflict = cr,
               svo_active_read_conflict = awe_first_conflict eff\<rparr>)))"

section \<open>The transaction manager\<close>

text \<open>The parts of the manager these functions use.\<close>

record txn_manager =
  tm_write_conflict_index :: write_conflict_index
  tm_read_dependency_index :: read_dependency_index
  tm_committed_txn_summaries :: summary_index
  tm_commit_frontier :: commit_frontier
  tm_abort_exact :: u64
  tm_abort_coarse :: u64

datatype manager_error =
  SummaryFailed summary_error
| ConflictSetFailed write_conflict_index_error
| SerializationFailure ssi_validation_error

definition sync_durable_if :: "bool \<Rightarrow> commit_ts \<Rightarrow> txn_manager \<Rightarrow> txn_manager" where
  "sync_durable_if advance ts m =
     (if advance then m\<lparr>tm_commit_frontier := sync_durable_commit_id (tm_commit_frontier m) ts\<rparr> else m)"

definition register_summary ::
  "(txn_id \<Rightarrow> u64) \<Rightarrow> txn_manager \<Rightarrow> committed_txn_summary \<Rightarrow> bool \<Rightarrow> txn_manager \<times> (manager_error + unit)" where
  "register_summary h m s advance =
     (case si_register_commit h (tm_committed_txn_summaries m) s of
        (sums, Inl err) \<Rightarrow> (m\<lparr>tm_committed_txn_summaries := sums\<rparr>, Inl (SummaryFailed err))
      | (sums, Inr _) \<Rightarrow>
          (sync_durable_if advance (cts_commit_ts s) (m\<lparr>tm_committed_txn_summaries := sums\<rparr>), Inr ()))"

definition register_committed_transaction_summary_inner ::
  "(txn_id \<Rightarrow> u64) \<Rightarrow> (shard_key \<Rightarrow> u64) \<Rightarrow> txn_manager \<Rightarrow> commit_ts \<Rightarrow> txn_id \<Rightarrow> read_ts \<Rightarrow> lock_resource list
     \<Rightarrow> frozen_read_set \<Rightarrow> bool \<Rightarrow> txn_manager \<times> (manager_error + unit)" where
  "register_committed_transaction_summary_inner h hk m ts t rts ws reads advance =
     (if ws = [] then register_summary h m (summary_new t rts ts [] reads) advance
      else
        (case wci_register_commit hk (tm_write_conflict_index m) ts ws of
           (wci, Inl err) \<Rightarrow> (m\<lparr>tm_write_conflict_index := wci\<rparr>, Inl (ConflictSetFailed err))
         | (wci, Inr _) \<Rightarrow>
             register_summary h (m\<lparr>tm_write_conflict_index := wci\<rparr>) (summary_new t rts ts ws reads) advance))"

definition register_committed_transaction_summary ::
  "(txn_id \<Rightarrow> u64) \<Rightarrow> (shard_key \<Rightarrow> u64) \<Rightarrow> txn_manager \<Rightarrow> commit_ts \<Rightarrow> txn_id \<Rightarrow> read_ts \<Rightarrow> lock_resource list
     \<Rightarrow> frozen_read_set \<Rightarrow> txn_manager \<times> (manager_error + unit)" where
  "register_committed_transaction_summary h hk m ts t rts ws reads =
     register_committed_transaction_summary_inner h hk m ts t rts ws reads True"

definition register_committed_write_set ::
  "(txn_id \<Rightarrow> u64) \<Rightarrow> (shard_key \<Rightarrow> u64) \<Rightarrow> txn_manager \<Rightarrow> commit_ts \<Rightarrow> lock_resource list
     \<Rightarrow> txn_manager \<times> (manager_error + unit)" where
  "register_committed_write_set h hk m ts ws =
     register_committed_transaction_summary h hk m ts 0 ts ws frozen_empty"

definition count_ssi_abort :: "bool \<Rightarrow> txn_manager \<Rightarrow> txn_manager" where
  "count_ssi_abort coarse m =
     (if coarse then m\<lparr>tm_abort_coarse := tm_abort_coarse m + 1\<rparr> else m\<lparr>tm_abort_exact := tm_abort_exact m + 1\<rparr>)"

definition validate_serializable_commit ::
  "(txn_id \<Rightarrow> u64) \<Rightarrow> txn_manager \<Rightarrow> commit_plan \<Rightarrow> lock_resource list
     \<Rightarrow> txn_manager \<times> (manager_error + ssi_validation_outcome)" where
  "validate_serializable_commit h m plan ws =
     (if pl_isolation plan \<noteq> Serializable
      then (m, Inr (outcome_snapshot (ri_state_epoch (tm_read_dependency_index m))))
      else
        (case validate_commit h (tm_read_dependency_index m) (tm_committed_txn_summaries m) plan ws of
           (ix, Inr outcome) \<Rightarrow> (m\<lparr>tm_read_dependency_index := ix\<rparr>, Inr outcome)
         | (ix, Inl err) \<Rightarrow>
             (count_ssi_abort (error_coarse_scan_marker_conflict err) (m\<lparr>tm_read_dependency_index := ix\<rparr>),
              Inl (SerializationFailure err))))"

text \<open>The fence at sequencing time, for a plan validated at an epoch; the result is the epoch the
  transaction's state has since reached.\<close>

definition ssi_final_fence_reason ::
  "(txn_id \<Rightarrow> u64) \<Rightarrow> txn_manager \<Rightarrow> commit_plan \<Rightarrow> u64 \<Rightarrow> txn_manager \<times> u64 option" where
  "ssi_final_fence_reason h m plan validation_epoch =
     (if pl_isolation plan \<noteq> Serializable then (m, None)
      else
        (let state = ssi_state h (tm_read_dependency_index m) (pl_txn_id plan)
         in if ssi_state_epoch state \<le> validation_epoch then (m, None)
            else (count_ssi_abort (ssi_coarse_scan_marker_conflict state) m, Some (ssi_state_epoch state))))"

definition advance_conflict_horizon :: "txn_manager \<Rightarrow> commit_ts \<Rightarrow> read_ts \<Rightarrow> txn_manager \<times> commit_ts" where
  "advance_conflict_horizon m published oldest_active_rw =
     (case wci_advance_horizon_with_confirmed_active_rw (tm_write_conflict_index m) published oldest_active_rw of
        (wci, horizon) \<Rightarrow>
          (m\<lparr>tm_write_conflict_index := wci,
             tm_committed_txn_summaries := fst (si_advance_horizon (tm_committed_txn_summaries m) horizon)\<rparr>, horizon))"

section \<open>What the marks do\<close>

text \<open>Two states of the index in which the same transactions have read the same.\<close>

definition same_readers :: "(txn_id \<Rightarrow> u64) \<Rightarrow> read_dependency_index \<Rightarrow> read_dependency_index \<Rightarrow> bool" where
  "same_readers h ix ix' \<longleftrightarrow>
     (\<forall>u. rd_dependencies h ix' u = rd_dependencies h ix u \<and> (ri_get h ix' u = None \<longleftrightarrow> ri_get h ix u = None))"

lemma same_readers_trans: "same_readers h a b \<Longrightarrow> same_readers h b c \<Longrightarrow> same_readers h a c"
  by (simp add: same_readers_def)

lemma ri_get_mark_txn_state:
  assumes "rd_ok h base ix"
  shows "ri_get h (fst (mark_txn_state h ix t f)) u =
    (if u = t then map_option (\<lambda>rs. rs\<lparr>ars_ssi := (f (ars_ssi rs))\<lparr>ssi_state_epoch := ri_state_epoch ix + 1\<rparr>\<rparr>) (ri_get h ix t)
     else ri_get h ix u)"
proof (cases "ri_get h ix t")
  case (Some rs)
  have wf: "rd_wf h base (ix\<lparr>ri_state_epoch := ri_state_epoch ix + 1\<rparr>)"
    using assms rd_wf_cong [of "ix\<lparr>ri_state_epoch := ri_state_epoch ix + 1\<rparr>" ix h base] by (simp add: rd_ok_def)
  show ?thesis
    using Some ri_get_cong [of "ix\<lparr>ri_state_epoch := ri_state_epoch ix + 1\<rparr>" ix h u]
    by (simp add: mark_txn_state_def bump_epoch_def Let_def ri_get_put [OF wf])
qed (auto simp: mark_txn_state_def)

lemma mark_txn_state_same_readers:
  assumes "rd_ok h base ix"
  shows "same_readers h ix (fst (mark_txn_state h ix t f))"
  by (simp add: same_readers_def rd_dependencies_def ri_get_mark_txn_state [OF assms] split: option.split)

lemma ssi_state_mark_txn_state:
  assumes "rd_ok h base ix" "ri_get h ix t \<noteq> None"
  shows "ssi_state h (fst (mark_txn_state h ix t f)) t = (f (ssi_state h ix t))\<lparr>ssi_state_epoch := ri_state_epoch ix + 1\<rparr>"
  using assms(2) by (auto simp: ssi_state_def ri_get_mark_txn_state [OF assms(1)])

lemma snd_mark_txn_state:
  assumes "rd_ok h base ix"
  shows "snd (mark_txn_state h ix t f) = ssi_state h (fst (mark_txn_state h ix t f)) t"
proof (cases "ri_get h ix t")
  case (Some rs)
  have "snd (mark_txn_state h ix t f) = (f (ars_ssi rs))\<lparr>ssi_state_epoch := ri_state_epoch ix + 1\<rparr>"
    by (simp add: mark_txn_state_def Some bump_epoch_def Let_def)
  with Some ssi_state_mark_txn_state [OF assms, of t f] show ?thesis by (simp add: ssi_state_def)
qed (simp add: mark_txn_state_def ssi_state_def)

lemmas mark_defs = mark_txn_conflict_in_def mark_txn_conflict_out_def mark_txn_coarse_scan_conflict_def
  mark_txn_dangerous_def

lemma mark_if_ok:
  assumes "rd_ok h base ix"
  shows "rd_ok h base (mark_in_if h found coarse t ix) \<and> same_readers h ix (mark_in_if h found coarse t ix)"
    "rd_ok h base (mark_out_if h found coarse t ix) \<and> same_readers h ix (mark_out_if h found coarse t ix)"
proof -
  have two: "rd_ok h base (fst (mark_txn_state h (fst (mark_txn_state h ix t f)) t g)) \<and>
      same_readers h ix (fst (mark_txn_state h (fst (mark_txn_state h ix t f)) t g))" for f g
  proof -
    have ok: "rd_ok h base (fst (mark_txn_state h ix t f))" using mark_txn_state_ok [OF assms] by blast
    show ?thesis
      using mark_txn_state_ok [OF ok] mark_txn_state_same_readers [OF assms] mark_txn_state_same_readers [OF ok]
        same_readers_trans by blast
  qed
  show "rd_ok h base (mark_in_if h found coarse t ix) \<and> same_readers h ix (mark_in_if h found coarse t ix)"
    "rd_ok h base (mark_out_if h found coarse t ix) \<and> same_readers h ix (mark_out_if h found coarse t ix)"
    using assms two mark_txn_state_ok [OF assms] mark_txn_state_same_readers [OF assms]
    by (auto simp: mark_in_if_def mark_out_if_def mark_defs Let_def same_readers_def)
qed

text \<open>The flags the verdict depends on.\<close>

definition ssi_flags :: "(txn_id \<Rightarrow> u64) \<Rightarrow> read_dependency_index \<Rightarrow> txn_id \<Rightarrow> bool \<times> bool \<times> bool" where
  "ssi_flags h ix t =
     (ssi_rw_conflict_in (ssi_state h ix t), ssi_rw_conflict_out (ssi_state h ix t),
      ssi_dangerous_structure (ssi_state h ix t))"

lemma mark_if_flags:
  assumes "rd_ok h base ix" "ri_get h ix t \<noteq> None" "ssi_flags h ix t = (i, out, d)"
  shows "ssi_flags h (mark_in_if h found coarse t ix) t = (i \<or> found, out, d)"
    "ssi_flags h (mark_out_if h found coarse t ix) t = (i, out \<or> found, d)"
proof -
  have reg: "ri_get h (fst (mark_txn_state h ix t f)) t \<noteq> None" for f
    using assms(2) by (simp add: ri_get_mark_txn_state [OF assms(1)])
  have ok: "rd_ok h base (fst (mark_txn_state h ix t f))" for f using mark_txn_state_ok [OF assms(1)] by blast
  show "ssi_flags h (mark_in_if h found coarse t ix) t = (i \<or> found, out, d)"
    "ssi_flags h (mark_out_if h found coarse t ix) t = (i, out \<or> found, d)"
    using assms(3)
    by (simp_all add: ssi_flags_def mark_in_if_def mark_out_if_def mark_defs Let_def
        ssi_state_mark_txn_state [OF assms(1,2)] ssi_state_mark_txn_state [OF ok reg])
qed

text \<open>Marking the readers of one's own writes leaves the writer's flags alone.\<close>

lemma mark_write_conflicts_flags:
  assumes "rd_ok h base ix" "mark_write_conflicts ix t ws = (ix', eff)"
  shows "rd_ok h base ix' \<and> same_readers h ix ix' \<and> ssi_flags h ix' t = ssi_flags h ix t \<and>
    awe_writer_has_conflict_in eff = (\<exists>u w. u \<noteq> t \<and> w \<in> set ws \<and> conflicting (rd_dependencies h ix u) w)"
proof -
  note marked = mark_write_conflicts_marks [OF assms]
  have rel: "rel_option (marks t ws u) (ri_get h ix u) (ri_get h ix' u)" for u using marked by blast
  have "rd_dependencies h ix' u = rd_dependencies h ix u \<and> (ri_get h ix' u = None \<longleftrightarrow> ri_get h ix u = None)" for u
    using rel [of u] by (cases "ri_get h ix u"; cases "ri_get h ix' u")
      (auto simp: rd_dependencies_def marks_def same_reads_def)
  moreover have "ssi_flags h ix' t = ssi_flags h ix t"
    using rel [of t] by (cases "ri_get h ix t"; cases "ri_get h ix' t")
      (auto simp: ssi_flags_def ssi_state_def marks_def is_reader_def)
  moreover have "awe_writer_has_conflict_in eff = (\<exists>u w. u \<noteq> t \<and> w \<in> set ws \<and> conflicting (rd_dependencies h ix u) w)"
    using marked by (fastforce simp: is_reader_def rd_dependencies_def split: option.splits)
  ultimately show ?thesis using marked by (simp add: same_readers_def)
qed

text \<open>The verdict is the danger of the state after all marks.\<close>

definition marked_index ::
  "(txn_id \<Rightarrow> u64) \<Rightarrow> read_dependency_index \<Rightarrow> summary_index \<Rightarrow> commit_plan \<Rightarrow> lock_resource list
     \<Rightarrow> read_dependency_index" where
  "marked_index h ix sums plan ws =
     (let t = pl_txn_id plan;
          cw = first_write_conflict_for_reads sums (pl_read_ts plan) (frs_dependencies (pl_frozen_read_set plan));
          cr = first_read_conflict_for_writes sums (pl_read_ts plan) ws;
          (ix3, eff) = mark_write_conflicts (mark_in_if h (cr \<noteq> None) (conflict_is_coarse cr) t
             (mark_out_if h (cw \<noteq> None) (conflict_is_coarse cw) t ix)) t ws
      in mark_in_if h (awe_writer_has_conflict_in eff) (awe_coarse_scan_marker_conflict eff) t ix3)"

lemma validate_commit_isl:
  assumes "pl_isolation plan = Serializable" "st = ssi_state h (marked_index h ix sums plan ws) (pl_txn_id plan)"
  shows "isl (snd (validate_commit h ix sums plan ws)) \<longleftrightarrow>
    ssi_dangerous_structure (if ssi_rw_conflict_in st \<and> ssi_rw_conflict_out st
      then snd (mark_txn_dangerous h (marked_index h ix sums plan ws) (pl_txn_id plan)) else st)"
  unfolding validate_commit_def assms(2) marked_index_def Let_def
  by (simp add: assms(1) case_prod_beta)

lemma marked_index_flags:
  assumes "rd_ok h base ix" "ri_get h ix (pl_txn_id plan) \<noteq> None" "ssi_flags h ix (pl_txn_id plan) = (i, out, d)"
  shows "rd_ok h base (marked_index h ix sums plan ws) \<and> same_readers h ix (marked_index h ix sums plan ws) \<and>
    ssi_flags h (marked_index h ix sums plan ws) (pl_txn_id plan) =
      (i \<or> first_read_conflict_for_writes sums (pl_read_ts plan) ws \<noteq> None \<or>
         (\<exists>u w. u \<noteq> pl_txn_id plan \<and> w \<in> set ws \<and> conflicting (rd_dependencies h ix u) w),
       out \<or> first_write_conflict_for_reads sums (pl_read_ts plan) (frs_dependencies (pl_frozen_read_set plan)) \<noteq> None, d)"
proof -
  let ?t = "pl_txn_id plan"
  define cw where "cw = first_write_conflict_for_reads sums (pl_read_ts plan) (frs_dependencies (pl_frozen_read_set plan))"
  define cr where "cr = first_read_conflict_for_writes sums (pl_read_ts plan) ws"
  define ix1 where "ix1 = mark_out_if h (cw \<noteq> None) (conflict_is_coarse cw) ?t ix"
  define ix2 where "ix2 = mark_in_if h (cr \<noteq> None) (conflict_is_coarse cr) ?t ix1"
  obtain ix3 eff where wc: "mark_write_conflicts ix2 ?t ws = (ix3, eff)" by (cases "mark_write_conflicts ix2 ?t ws")
  define ix4 where "ix4 = mark_in_if h (awe_writer_has_conflict_in eff) (awe_coarse_scan_marker_conflict eff) ?t ix3"
  have marked: "marked_index h ix sums plan ws = ix4"
    using wc by (simp add: marked_index_def ix4_def ix2_def ix1_def cw_def cr_def)
  have ok1: "rd_ok h base ix1 \<and> same_readers h ix ix1" unfolding ix1_def by (rule mark_if_ok(2) [OF assms(1)])
  have ok2: "rd_ok h base ix2 \<and> same_readers h ix1 ix2" unfolding ix2_def using mark_if_ok(1) ok1 by blast
  note ok3 = mark_write_conflicts_flags [OF conjunct1 [OF ok2] wc]
  have ok4: "rd_ok h base ix4 \<and> same_readers h ix3 ix4" unfolding ix4_def using mark_if_ok(1) ok3 by blast
  have same: "same_readers h ix ix2" "same_readers h ix ix4" using ok1 ok2 ok3 ok4 same_readers_trans by blast+
  have reg: "ri_get h ix1 ?t \<noteq> None" "ri_get h ix3 ?t \<noteq> None"
    using assms(2) ok1 ok2 ok3 by (simp_all add: same_readers_def)
  have "ssi_flags h ix1 ?t = (i, out \<or> cw \<noteq> None, d)"
    using mark_if_flags(2) [OF assms] by (simp add: ix1_def)
  from mark_if_flags(1) [OF conjunct1 [OF ok1] reg(1) this]
  have "ssi_flags h ix3 ?t = (i \<or> cr \<noteq> None, out \<or> cw \<noteq> None, d)" using ok3 by (simp add: ix2_def)
  from mark_if_flags(1) [OF conjunct1 [OF ok3] reg(2) this] show ?thesis
    using ok3 ok4 same unfolding marked by (simp add: ix4_def cw_def cr_def same_readers_def)
qed

lemma validate_commit_verdict:
  assumes "rd_ok h base ix" "ri_get h ix (pl_txn_id plan) \<noteq> None" "pl_isolation plan = Serializable"
    "ssi_flags h ix (pl_txn_id plan) = (i, out, d)"
  shows "isl (snd (validate_commit h ix sums plan ws)) \<longleftrightarrow>
    d \<or> (i \<or> first_read_conflict_for_writes sums (pl_read_ts plan) ws \<noteq> None \<or>
         (\<exists>u w. u \<noteq> pl_txn_id plan \<and> w \<in> set ws \<and> conflicting (rd_dependencies h ix u) w)) \<and>
        (out \<or> first_write_conflict_for_reads sums (pl_read_ts plan) (frs_dependencies (pl_frozen_read_set plan)) \<noteq> None)"
proof -
  let ?m = "marked_index h ix sums plan ws" and ?t = "pl_txn_id plan"
  note flags = marked_index_flags [OF assms(1,2,4), of sums ws]
  have "ri_get h ?m ?t \<noteq> None" using flags assms(2) by (simp add: same_readers_def)
  then have "ssi_dangerous_structure (snd (mark_txn_dangerous h ?m ?t))"
    unfolding mark_txn_dangerous_def snd_mark_txn_state [OF conjunct1 [OF flags]]
    by (simp add: ssi_state_mark_txn_state [OF conjunct1 [OF flags]])
  with flags show ?thesis unfolding validate_commit_isl [OF assms(3) refl] by (auto simp: ssi_flags_def)
qed

text \<open>A transaction the index does not know collects no marks.\<close>

lemma validate_commit_unregistered:
  assumes "rd_ok h base ix" "ri_get h ix (pl_txn_id plan) = None"
  shows "\<not> isl (snd (validate_commit h ix sums plan ws))"
proof (cases "pl_isolation plan = Serializable")
  case True
  let ?t = "pl_txn_id plan"
  have noop: "mark_in_if h found coarse ?t ix' = ix'" "mark_out_if h found coarse ?t ix' = ix'"
    if "ri_get h ix' ?t = None" for found coarse ix'
    using that by (simp_all add: mark_in_if_def mark_out_if_def mark_defs mark_txn_state_def)
  obtain ix3 eff where wc: "mark_write_conflicts ix ?t ws = (ix3, eff)" by (cases "mark_write_conflicts ix ?t ws")
  have "ri_get h ix3 ?t = None"
    using mark_write_conflicts_flags [OF assms(1) wc] assms(2) by (simp add: same_readers_def)
  then have "ssi_state h (marked_index h ix sums plan ws) ?t = ssi_default"
    by (simp add: marked_index_def noop assms(2) wc Let_def ssi_state_def)
  then show ?thesis unfolding validate_commit_isl [OF True refl] by (simp add: ssi_default_def)
qed (simp add: validate_commit_def)

section \<open>Properties\<close>

text \<open>\<^bold>\<open>C20.\<close> The verdict on a serializable commit.  For an index of active reads and one of committed
  summaries in any state, and a snapshot at or above the horizon, a commit is refused iff its
  transaction is registered and was found dangerous earlier, or has both an outgoing and an incoming
  conflict: outgoing if marked before, or some commit newer than its snapshot wrote what it read;
  incoming if marked before, or some newer commit or another active transaction read what it writes.\<close>

theorem validate_commit_exact:
  assumes "rd_index_new n per_txn global_budget = Some ix0" "ix = rd_run h base ops ix0"
    "summary_index_new k = Some sums0" "sums = si_run h log sums0" "si_conflict_horizon sums \<le> pl_read_ts plan"
    "pl_isolation plan = Serializable" "t = pl_txn_id plan"
    "newer = {s \<in> si_history h log sums0. pl_read_ts plan < cts_commit_ts s}"
  shows "isl (snd (validate_commit h ix sums plan ws)) \<longleftrightarrow>
    ri_get h ix t \<noteq> None \<and>
    (ssi_dangerous_structure (ssi_state h ix t) \<or>
     (ssi_rw_conflict_out (ssi_state h ix t) \<or>
      (\<exists>s \<in> newer. \<exists>w \<in> set (cts_write_set s). conflicting (frs_dependencies (pl_frozen_read_set plan)) w)) \<and>
     (ssi_rw_conflict_in (ssi_state h ix t) \<or>
      (\<exists>s \<in> newer. \<exists>w \<in> set ws. conflicting (crs_dependencies (cts_read_set s)) w) \<or>
      (\<exists>u w. u \<noteq> t \<and> w \<in> set ws \<and> conflicting (rd_dependencies h ix u) w)))"
proof (cases "ri_get h ix t = None")
  case True
  have "rd_ok h base ix" unfolding assms(2) using rd_ok_new [OF assms(1)] rd_run_ok by blast
  with True show ?thesis using validate_commit_unregistered assms(7) by blast
next
  case False
  have ok: "rd_ok h base ix" unfolding assms(2) using rd_ok_new [OF assms(1)] rd_run_ok by blast
  show ?thesis
    unfolding validate_commit_verdict [OF ok False [unfolded assms(7)] assms(6) ssi_flags_def]
      search_history(2,3) [OF assms(3,4,5)]
    using False by (auto simp: assms(7,8))
qed

end
