(* ===== verification/Ssi_Executions.thy ===== *)
theory Ssi_Executions
  imports Ssi_Validator
begin

text \<open>
  Executions of the transaction manager on concrete transactions: the commit path the session takes,
  and what the validation of serializable transactions lets through.
\<close>

section \<open>The commit path\<close>

text \<open>The commit of a transaction as the session runs it: validate, fence, register the commit and
  release the reads.\<close>

definition commit_serializable ::
  "(txn_id \<Rightarrow> u64) \<Rightarrow> (shard_key \<Rightarrow> u64) \<Rightarrow> commit_plan \<Rightarrow> lock_resource list \<Rightarrow> commit_ts \<Rightarrow> txn_manager
     \<Rightarrow> txn_manager \<times> bool" where
  "commit_serializable h hk plan ws ts m =
     (case validate_serializable_commit h m plan ws of
        (m1, Inl err) \<Rightarrow> (m1, False)
      | (m1, Inr outcome) \<Rightarrow>
          (case ssi_final_fence_reason h m1 plan (svo_validation_epoch outcome) of
             (m2, Some epoch) \<Rightarrow> (m2, False)
           | (m2, None) \<Rightarrow>
               (case register_committed_transaction_summary h hk m2 ts (pl_txn_id plan) (pl_read_ts plan) ws
                       (pl_frozen_read_set plan) of
                  (m3, res) \<Rightarrow>
                    (m3\<lparr>tm_read_dependency_index := fst (release_transaction h (tm_read_dependency_index m3) (pl_txn_id plan))\<rparr>,
                     \<not> isl res))))"

definition read_by :: "(txn_id \<Rightarrow> u64) \<Rightarrow> txn_id \<Rightarrow> read_ts \<Rightarrow> read_dependency list \<Rightarrow> txn_manager \<Rightarrow> txn_manager" where
  "read_by h t rts ds m =
     m\<lparr>tm_read_dependency_index := rd_run h 64 [Register t rts, Record_Batch t ds] (tm_read_dependency_index m)\<rparr>"

definition demo_manager :: txn_manager where
  "demo_manager = \<lparr>tm_write_conflict_index = demo_wci, tm_read_dependency_index = demo_index,
     tm_committed_txn_summaries = demo_summaries, tm_commit_frontier = frontier_new, tm_abort_exact = 0, tm_abort_coarse = 0\<rparr>"

definition demo_plan :: "txn_id \<Rightarrow> read_ts \<Rightarrow> read_dependency list \<Rightarrow> commit_plan" where
  "demo_plan t rts ds = \<lparr>pl_database_id = 7, pl_txn_id = t, pl_read_ts = rts, pl_isolation = Serializable,
     pl_frozen_read_set = from_dependencies ds, pl_lock_set = [], pl_participants = []\<rparr>"

abbreviation demo_key :: "u64 \<Rightarrow> lock_resource" where
  "demo_key k \<equiv> LR_PrimaryKey demo_ns 3 1 k"

abbreviation demo_read :: "u64 \<Rightarrow> read_dependency" where
  "demo_read k \<equiv> RD_KeyRange 3 k k"

abbreviation demo_h :: "txn_id \<Rightarrow> u64" where
  "demo_h \<equiv> \<lambda>_. 0"

definition after_w :: "txn_manager \<times> bool" where
  "after_w = commit_serializable demo_h demo_shard_hash (demo_plan 1 5 []) [demo_key 100] 10
     (read_by demo_h 2 5 [demo_read 100] (read_by demo_h 1 5 [] demo_manager))"

definition after_r :: "txn_manager \<times> bool" where
  "after_r = commit_serializable demo_h demo_shard_hash (demo_plan 2 5 [demo_read 100]) [demo_key 200] 11
     (read_by demo_h 3 10 [demo_read 100] (fst after_w))"

definition after_x :: "txn_manager \<times> bool" where
  "after_x = commit_serializable demo_h demo_shard_hash (demo_plan 3 10 [demo_read 100, demo_read 200]) [demo_key 300] 12
     (read_by demo_h 3 10 [demo_read 200] (fst after_r))"

lemmas ssi_eval = commit_serializable_def read_by_def demo_plan_def validate_serializable_commit_def validate_commit_def
  ssi_final_fence_reason_def register_committed_transaction_summary_def register_committed_transaction_summary_inner_def
  register_summary_def sync_durable_if_def sync_durable_commit_id_def fetch_max_relaxed_def
  mark_in_if_def mark_out_if_def mark_defs mark_txn_state_def conflict_is_coarse_def
  mark_write_conflicts_def mark_reader_def effects_default_def select_earlier_active_conflict_def
  first_write_conflict_for_reads_def first_read_conflict_for_writes_def newer_summaries_def conflicts_of_def
  select_earlier_conflict_def ctc_is_coarse_scan_marker_def si_register_commit_def summary_push_def summary_new_def
  from_frozen_def compact_read_dependencies_def from_dependencies_def ssi_state_def ssi_default_def
  si_shard_index_def release_transaction_def ri_remove_def frontier_new_def demo_summaries_def summary_index_new_def
  ars_frozen_read_set_def

lemma two_shards: "replicate 2 x = [x, x]"
  by (simp add: eval_nat_numeral)

section \<open>Properties\<close>

text \<open>A transaction that writes what a committed one read and read what it wrote is refused.\<close>

theorem validate_commit_exact_witness:
  "isl (snd (validate_commit demo_h (rd_run demo_h 64 [Register 2 10, Record_Batch 2 [demo_read 100]] demo_index)
     (si_run demo_h [Log_Register (summary_new 1 5 20 [demo_key 100] (from_dependencies [demo_read 200]))] demo_summaries)
     (demo_plan 2 10 [demo_read 100]) [demo_key 200]))"
proof -
  have sums: "summary_index_new 2 = Some demo_summaries" by (simp add: demo_summaries_def summary_index_new_def)
  let ?s = "summary_new 1 5 20 [demo_key 100] (from_dependencies [demo_read 200])"
  let ?ix = "rd_run demo_h 64 [Register 2 10, Record_Batch 2 [demo_read 100]] demo_index"
  have horizon: "si_conflict_horizon (si_run demo_h [Log_Register ?s] demo_summaries) \<le> pl_read_ts (demo_plan 2 10 [demo_read 100])"
    by (simp add: si_run_def si_register_def ssi_eval two_shards commit_ts_zero_def Let_def)
  have hist: "si_history demo_h [Log_Register ?s] demo_summaries = {?s}"
    by (simp add: si_history_def si_register_def si_items_def ssi_eval two_shards commit_ts_zero_def Let_def)
  let ?plan = "demo_plan 2 10 [demo_read 100]"
  have newer: "?s \<in> {s \<in> si_history demo_h [Log_Register ?s] demo_summaries. pl_read_ts ?plan < cts_commit_ts s}"
    by (simp add: hist demo_plan_def) (simp add: summary_new_def)
  have "ri_get demo_h ?ix (pl_txn_id ?plan) \<noteq> None" by (simp add: rd_eval demo_plan_def)
  moreover have "\<exists>w \<in> set [demo_key 200]. conflicting (crs_dependencies (cts_read_set ?s)) w"
    by (simp add: summary_new_def from_dependencies_def hash_in_range_def)
  moreover have "\<exists>w \<in> set (cts_write_set ?s). conflicting (frs_dependencies (pl_frozen_read_set ?plan)) w"
    by (simp add: summary_new_def sort_dedup_def demo_plan_def from_dependencies_def hash_in_range_def)
  moreover have "pl_isolation ?plan = Serializable" by (simp add: demo_plan_def)
  note exact = validate_commit_exact [OF demo_index refl sums refl horizon this refl refl,
      of 64 "[Register 2 10, Record_Batch 2 [demo_read 100]]" "[demo_key 200]"]
  ultimately show ?thesis using newer by (intro iffD2 [OF exact]) blast
qed

text \<open>An example: a serialization anomaly with a committed pivot is accepted.  \<open>W\<close> writes \<open>a\<close> and commits at 10.
  \<open>R\<close>, on snapshot 5, read the old \<open>a\<close>, writes \<open>b\<close> and commits at 11.  \<open>X\<close>, on snapshot 10, has read the
  new \<open>a\<close> and then reads the old \<open>b\<close> and commits at 12.  All three pass validation and the fence, but
  \<open>R\<close> precedes \<open>W\<close>, \<open>W\<close> precedes \<open>X\<close> and \<open>X\<close> precedes \<open>R\<close> in every equivalent serial order.  (\<open>a\<close>
  and \<open>b\<close> are the keys 100 and 200.)\<close>

lemma committed_pivot_accepted:
  "snd after_w \<and> snd after_r \<and> snd after_x \<and>
   conflicts_with_write (demo_read 100) (demo_key 100) \<and> (5 :: read_ts) < 10 \<and>
   conflicts_with_write (demo_read 200) (demo_key 200) \<and> (10 :: read_ts) < 11"
  unfolding after_x_def after_r_def after_w_def demo_manager_def
  by (simp add: ssi_eval rd_eval wci_eval two_shards)

text \<open>A transaction that starts after commit 10 is published is registered as active with start 11 and
  reads at 10; meanwhile another one that started then reads key 200, writes key 100 and commits at 11.\<close>

definition skew_start :: read_ts where
  "skew_start = u64_saturating_add 10 1"

definition skew_plan :: commit_plan where
  "skew_plan = demo_plan 2 (visible_before_start skew_start) [demo_read 100]"

definition skew_manager :: txn_manager where
  "skew_manager = read_by demo_h 2 skew_start [demo_read 100]
     (fst (commit_serializable demo_h demo_shard_hash (demo_plan 1 (visible_before_start skew_start) [demo_read 200])
        [demo_key 100] 11 (read_by demo_h 1 skew_start [demo_read 200] demo_manager)))"

text \<open>An example: advancing the conflict horizon to the start of the oldest active transaction forgets a commit it
  must still be checked against: the transaction reads one below its start, so a commit at its start is
  newer than its snapshot.  The write skew of the two transactions is refused before the horizon is
  advanced and accepted after.\<close>

lemma horizon_forgets_concurrent_commit:
  "isl (snd (validate_serializable_commit demo_h skew_manager skew_plan [demo_key 200])) \<and>
   \<not> isl (snd (validate_serializable_commit demo_h (fst (advance_conflict_horizon skew_manager 11 skew_start)) skew_plan
     [demo_key 200]))"
  unfolding skew_manager_def skew_plan_def skew_start_def demo_manager_def
  by (simp add: ssi_eval rd_eval wci_eval two_shards visible_before_start_def u64_saturating_sub_def advance_conflict_horizon_def
      wci_advance_horizon_with_confirmed_active_rw_def wci_advance_horizon_def si_advance_horizon_def summary_gc_def
      shard_gc_def record_entries_removed_def count_kind_def MAX_TRANSACTION_ID_def upt_rec)

end
