(* ===== verification/Backpressure.thy ===== *)
theory Backpressure
  imports Commit_Request Commit_Frontier
begin

text \<open>
  Backpressure on commits (\<open>commit/sequencer/backpressure.rs\<close>): a commit is turned away while too many
  durable commits are unpublished, in all or for one of its required participants.  The wall clock is an
  argument, \<open>now\<close>.
\<close>

section \<open>The controller\<close>

definition DEFAULT_MAX_UNPUBLISHED_COMMITS :: u64 where
  "DEFAULT_MAX_UNPUBLISHED_COMMITS = 1024"

definition DEFAULT_MAX_PARTICIPANT_APPLY_LAG :: u64 where
  "DEFAULT_MAX_PARTICIPANT_APPLY_LAG = 1024"

record backpressure_options =
  bo_max_unpublished_commits :: u64
  bo_max_participant_apply_lag :: u64

definition backpressure_options_default :: backpressure_options where
  "backpressure_options_default =
     \<lparr>bo_max_unpublished_commits = DEFAULT_MAX_UNPUBLISHED_COMMITS,
      bo_max_participant_apply_lag = DEFAULT_MAX_PARTICIPANT_APPLY_LAG\<rparr>"

datatype backpressure_error =
  GlobalLag commit_ts commit_ts u64 u64
| ParticipantLag participant_descriptor commit_ts commit_ts u64 u64

record participant_lag_state =
  pls_durable_ts :: commit_ts
  pls_published_ts :: commit_ts

definition lag_default :: participant_lag_state where
  "lag_default = \<lparr>pls_durable_ts = 0, pls_published_ts = 0\<rparr>"

record backpressure =
  bp_options :: backpressure_options
  bp_durable_ts :: u64
  bp_published_ts :: u64
  bp_durable_observed_ms :: u64
  bp_published_observed_ms :: u64
  bp_throttle_count :: u64
  bp_participant_lag :: "(participant_descriptor \<times> participant_lag_state) list"

definition backpressure_new :: "backpressure_options \<Rightarrow> backpressure" where
  "backpressure_new opts =
     \<lparr>bp_options = opts, bp_durable_ts = 0, bp_published_ts = 0, bp_durable_observed_ms = 0,
      bp_published_observed_ms = 0, bp_throttle_count = 0, bp_participant_lag = []\<rparr>"

definition sync_frontiers :: "u64 \<Rightarrow> backpressure \<Rightarrow> commit_ts \<Rightarrow> commit_ts \<Rightarrow> backpressure" where
  "sync_frontiers now c durable published =
     c\<lparr>bp_durable_ts := fetch_max_relaxed (bp_durable_ts c) durable,
       bp_published_ts := fetch_max_relaxed (bp_published_ts c) published,
       bp_durable_observed_ms := fetch_max_relaxed (bp_durable_observed_ms c) now,
       bp_published_observed_ms := fetch_max_relaxed (bp_published_observed_ms c) now\<rparr>"

definition lag_of :: "participant_lag_state \<Rightarrow> u64" where
  "lag_of s = u64_saturating_sub (pls_durable_ts s) (pls_published_ts s)"

text \<open>The first required participant whose lag is at the limit.\<close>

fun participant_over ::
  "u64 \<Rightarrow> (participant_descriptor \<times> participant_lag_state) list \<Rightarrow> participant_descriptor list
     \<Rightarrow> (participant_descriptor \<times> participant_lag_state) option" where
  "participant_over limit lags [] = None"
| "participant_over limit lags (d # ds) =
     (if \<not> descriptor_is_required d then participant_over limit lags ds
      else (case map_of lags d of
              None \<Rightarrow> participant_over limit lags ds
            | Some s \<Rightarrow> (if limit \<le> lag_of s then Some (d, s) else participant_over limit lags ds)))"

definition admit :: "backpressure \<Rightarrow> commit_plan \<Rightarrow> backpressure \<times> (backpressure_error + unit)" where
  "admit c plan =
     (let lag = u64_saturating_sub (bp_durable_ts c) (bp_published_ts c);
          throttled = c\<lparr>bp_throttle_count := bp_throttle_count c + 1\<rparr>;
          limit = bo_max_unpublished_commits (bp_options c);
          plimit = bo_max_participant_apply_lag (bp_options c)
      in if 0 < limit \<and> limit \<le> lag
         then (throttled, Inl (GlobalLag (bp_durable_ts c) (bp_published_ts c) lag limit))
         else if 0 < plimit
         then (case participant_over plimit (bp_participant_lag c) (pl_participants plan) of
                 Some (d, s) \<Rightarrow>
                   (throttled, Inl (ParticipantLag d (pls_durable_ts s) (pls_published_ts s) (lag_of s) plimit))
               | None \<Rightarrow> (c, Inr ()))
         else (c, Inr ()))"

definition lag_entry :: "(participant_descriptor \<times> participant_lag_state) list \<Rightarrow> participant_descriptor \<Rightarrow> participant_lag_state" where
  "lag_entry lags d = (case map_of lags d of Some s \<Rightarrow> s | None \<Rightarrow> lag_default)"

definition raise_durable ::
  "commit_ts \<Rightarrow> participant_descriptor \<Rightarrow> (participant_descriptor \<times> participant_lag_state) list
     \<Rightarrow> (participant_descriptor \<times> participant_lag_state) list" where
  "raise_durable ts d lags =
     AList.update d ((lag_entry lags d)\<lparr>pls_durable_ts := max (pls_durable_ts (lag_entry lags d)) ts\<rparr>) lags"

definition raise_published ::
  "commit_ts \<Rightarrow> participant_descriptor \<Rightarrow> (participant_descriptor \<times> participant_lag_state) list
     \<Rightarrow> (participant_descriptor \<times> participant_lag_state) list" where
  "raise_published ts d lags =
     AList.update d ((lag_entry lags d)\<lparr>pls_published_ts := max (pls_published_ts (lag_entry lags d)) ts\<rparr>) lags"

definition record_durable :: "u64 \<Rightarrow> backpressure \<Rightarrow> commit_ts \<Rightarrow> participant_descriptor list \<Rightarrow> backpressure" where
  "record_durable now c ts ds =
     c\<lparr>bp_durable_ts := fetch_max_relaxed (bp_durable_ts c) ts,
       bp_durable_observed_ms := fetch_max_relaxed (bp_durable_observed_ms c) now,
       bp_participant_lag := fold (raise_durable ts) (filter descriptor_is_required ds) (bp_participant_lag c)\<rparr>"

definition record_published :: "u64 \<Rightarrow> backpressure \<Rightarrow> commit_ts \<Rightarrow> participant_descriptor list \<Rightarrow> backpressure" where
  "record_published now c ts ds =
     c\<lparr>bp_published_ts := fetch_max_relaxed (bp_published_ts c) ts,
       bp_published_observed_ms := fetch_max_relaxed (bp_published_observed_ms c) now,
       bp_participant_lag := filter (\<lambda>(d, s). pls_published_ts s < pls_durable_ts s)
         (fold (raise_published ts) (filter descriptor_is_required ds) (bp_participant_lag c))\<rparr>"

section \<open>Runs of the controller\<close>

datatype bp_op =
  Bp_Durable u64 commit_ts "participant_descriptor list"
| Bp_Published u64 commit_ts "participant_descriptor list"
| Bp_Sync u64 commit_ts commit_ts
| Bp_Admit commit_plan

fun bp_apply :: "bp_op \<Rightarrow> backpressure \<Rightarrow> backpressure" where
  "bp_apply (Bp_Durable now ts ds) c = record_durable now c ts ds"
| "bp_apply (Bp_Published now ts ds) c = record_published now c ts ds"
| "bp_apply (Bp_Sync now durable published) c = sync_frontiers now c durable published"
| "bp_apply (Bp_Admit plan) c = fst (admit c plan)"

definition bp_run :: "bp_op list \<Rightarrow> backpressure_options \<Rightarrow> backpressure" where
  "bp_run ops opts = fold bp_apply ops (backpressure_new opts)"

lemma fold_update_keys:
  "distinct (map fst lags) \<Longrightarrow> distinct (map fst (fold (\<lambda>d lags. AList.update d (f d lags) lags) ds lags))"
  by (induction ds arbitrary: lags) (auto intro: distinct_update)

lemma bp_apply_distinct: "distinct (map fst (bp_participant_lag c)) \<Longrightarrow> distinct (map fst (bp_participant_lag (bp_apply op c)))"
proof (cases op)
  case (Bp_Admit plan)
  moreover assume "distinct (map fst (bp_participant_lag c))"
  ultimately show ?thesis by (simp add: admit_def Let_def split: option.split)
qed (simp_all add: record_durable_def record_published_def sync_frontiers_def raise_durable_def [abs_def]
    raise_published_def [abs_def] fold_update_keys distinct_map_filter)

lemma bp_run_distinct: "distinct (map fst (bp_participant_lag (bp_run ops opts)))"
proof -
  have "distinct (map fst (bp_participant_lag c)) \<Longrightarrow> distinct (map fst (bp_participant_lag (fold bp_apply ops c)))" for c
    by (induction ops arbitrary: c) (simp_all add: bp_apply_distinct)
  then show ?thesis by (simp add: bp_run_def backpressure_new_def)
qed

lemma bp_run_options: "bp_options (bp_run ops opts) = opts"
proof -
  have "bp_options (bp_apply op c) = bp_options c" for op c
    by (cases op) (simp_all add: record_durable_def record_published_def sync_frontiers_def admit_def Let_def split: option.split)
  then have "bp_options (fold bp_apply ops c) = bp_options c" for c by (induction ops arbitrary: c) simp_all
  then show ?thesis by (simp add: bp_run_def backpressure_new_def)
qed

lemma fold_raise_durable:
  "lag_entry (fold (raise_durable ts) ds lags) d =
     (if d \<in> set ds then (lag_entry lags d)\<lparr>pls_durable_ts := max (pls_durable_ts (lag_entry lags d)) ts\<rparr> else lag_entry lags d)"
  "map_of (fold (raise_durable ts) ds lags) d \<noteq> None \<longleftrightarrow> d \<in> set ds \<or> map_of lags d \<noteq> None"
  by (induction ds arbitrary: lags) (auto simp: raise_durable_def lag_entry_def update_conv' max.assoc)

lemma fold_raise_published:
  "lag_entry (fold (raise_published ts) ds lags) d =
     (if d \<in> set ds then (lag_entry lags d)\<lparr>pls_published_ts := max (pls_published_ts (lag_entry lags d)) ts\<rparr> else lag_entry lags d)"
  by (induction ds arbitrary: lags) (auto simp: raise_published_def lag_entry_def update_conv' max.assoc)

lemma published_entry_dropped:
  assumes "distinct (map fst (bp_participant_lag c))" "descriptor_is_required d" "d \<in> set ds"
    "pls_durable_ts (lag_entry (bp_participant_lag c) d) \<le> t0"
  shows "map_of (bp_participant_lag (record_published now c t0 ds)) d = None"
proof -
  let ?lags = "fold (raise_published t0) (filter descriptor_is_required ds) (bp_participant_lag c)"
  let ?ahead = "\<lambda>(d, s). pls_published_ts s < pls_durable_ts s"
  have dist: "distinct (map fst ?lags)" using fold_update_keys [OF assms(1)] by (simp add: raise_published_def [abs_def])
  have entry: "lag_entry ?lags d = (lag_entry (bp_participant_lag c) d)\<lparr>pls_published_ts :=
      max (pls_published_ts (lag_entry (bp_participant_lag c) d)) t0\<rparr>"
    using assms(2,3) by (simp add: fold_raise_published)
  have "(d, s) \<notin> set (filter ?ahead ?lags)" for s
  proof
    assume s: "(d, s) \<in> set (filter ?ahead ?lags)"
    then have "map_of ?lags d = Some s" using dist by simp
    then have "s = lag_entry ?lags d" by (simp add: lag_entry_def)
    then show False using s entry assms(4) by (auto simp: max_def split: if_splits)
  qed
  then show ?thesis by (auto simp: record_published_def map_of_eq_None_iff)
qed

lemma participant_over_finds:
  assumes "d \<in> set ds" "descriptor_is_required d" "map_of lags d = Some s" "limit \<le> lag_of s"
  shows "\<exists>x. participant_over limit lags ds = Some x"
  using assms by (induction ds) (auto split: option.split)

lemma participant_over_first:
  assumes "participant_over limit lags before = None" "descriptor_is_required d" "map_of lags d = Some s" "limit \<le> lag_of s"
  shows "participant_over limit lags (before @ d # rest) = Some (d, s)"
  using assms by (induction before) (auto split: if_splits option.splits)

section \<open>Properties\<close>

text \<open>\<^bold>\<open>C31.\<close> A participant that catches up is throttled by its next commit.  In every state of the controller, with any
  other participants, when a publication covers all durable commits of a required participant its entry is
  dropped, and its next durable commit starts an entry at published timestamp zero, so that the whole commit
  timestamp counts as its lag although one commit is unpublished.  If that timestamp has reached the limit
  for participants, as every later timestamp has, every plan with the participant is refused; and if the limit for all commits does not
  refuse it and no participant listed before it is over its limit, the error reports the timestamp as the lag.\<close>

theorem caught_up_participant_throttled:
  assumes "c = bp_run ops opts" "descriptor_is_required d" "d \<in> set ds" "d \<in> set ds'"
    "pls_durable_ts (lag_entry (bp_participant_lag c) d) \<le> t0"
    "c' = record_durable now' (record_published now c t0 ds) t1 ds'"
    "0 < bo_max_participant_apply_lag opts" "bo_max_participant_apply_lag opts \<le> t1"
    "pl_participants plan = before @ d # rest"
  shows "map_of (bp_participant_lag c') d = Some \<lparr>pls_durable_ts = t1, pls_published_ts = 0\<rparr> \<and>
    isl (snd (admit c' plan)) \<and>
    ((bo_max_unpublished_commits opts = 0 \<or>
       u64_saturating_sub (bp_durable_ts c') (bp_published_ts c') < bo_max_unpublished_commits opts) \<and>
     participant_over (bo_max_participant_apply_lag opts) (bp_participant_lag c') before = None \<longrightarrow>
     snd (admit c' plan) = Inl (ParticipantLag d t1 0 t1 (bo_max_participant_apply_lag opts)))"
proof -
  let ?lags = "bp_participant_lag (record_published now c t0 ds)" and ?s = "\<lparr>pls_durable_ts = t1, pls_published_ts = 0\<rparr>"
  have "distinct (map fst (bp_participant_lag c))" unfolding assms(1) by (rule bp_run_distinct)
  from published_entry_dropped [OF this assms(2,3,5)] have "lag_entry ?lags d = lag_default" by (simp add: lag_entry_def)
  moreover have lags: "bp_participant_lag c' = fold (raise_durable t1) (filter descriptor_is_required ds') ?lags"
    by (simp add: assms(6) record_durable_def)
  ultimately have "lag_entry (bp_participant_lag c') d = ?s" "map_of (bp_participant_lag c') d \<noteq> None"
    using assms(2,4) fold_raise_durable [of t1 "filter descriptor_is_required ds'" ?lags d] by (simp_all add: lag_default_def)
  then have entry: "map_of (bp_participant_lag c') d = Some ?s" by (auto simp: lag_entry_def split: option.splits)
  have opts: "bp_options c' = opts"
    by (simp add: assms(1,6) record_durable_def record_published_def bp_run_options)
  have lag: "bo_max_participant_apply_lag opts \<le> lag_of ?s" using assms(8) by (simp add: lag_of_def u64_saturating_sub_def)
  obtain x where "participant_over (bo_max_participant_apply_lag opts) (bp_participant_lag c') (pl_participants plan) = Some x"
    using participant_over_finds [OF _ assms(2) entry lag, of "pl_participants plan"] assms(9) by auto
  then have refused: "isl (snd (admit c' plan))" using assms(7) by (cases x) (simp add: admit_def opts Let_def)
  have "snd (admit c' plan) = Inl (ParticipantLag d t1 0 t1 (bo_max_participant_apply_lag opts))"
    if "bo_max_unpublished_commits opts = 0 \<or>
       u64_saturating_sub (bp_durable_ts c') (bp_published_ts c') < bo_max_unpublished_commits opts"
      "participant_over (bo_max_participant_apply_lag opts) (bp_participant_lag c') before = None"
    using participant_over_first [OF that(2) assms(2) entry lag, of rest, folded assms(9)] that(1) assms(7)
    by (auto simp: admit_def opts Let_def lag_of_def u64_saturating_sub_def)
  with entry refused show ?thesis by blast
qed

theorem caught_up_participant_throttled_witness:
  "\<exists>d plan. snd (admit (record_durable 3 (record_published 2 (bp_run [Bp_Durable 1 1999 [d]] backpressure_options_default)
       1999 [d]) 2000 [d]) plan) = Inl (ParticipantLag d 2000 0 2000 1024)"
proof -
  let ?d = "descriptor_new 1 PK_Storage (resource_key_database PK_Storage 9)"
  let ?plan = "\<lparr>pl_database_id = 9, pl_txn_id = 1, pl_read_ts = 5, pl_isolation = Snapshot, pl_frozen_read_set = frozen_empty,
    pl_lock_set = [], pl_participants = [?d]\<rparr>"
  let ?c = "bp_run [Bp_Durable 1 1999 [?d]] backpressure_options_default"
  let ?c' = "record_durable 3 (record_published 2 ?c 1999 [?d]) 2000 [?d]"
  note defs = bp_run_def record_durable_def record_published_def backpressure_new_def fetch_max_relaxed_def raise_durable_def
    lag_entry_def lag_default_def backpressure_options_default_def DEFAULT_MAX_UNPUBLISHED_COMMITS_def
    DEFAULT_MAX_PARTICIPANT_APPLY_LAG_def u64_saturating_sub_def
  have req: "descriptor_is_required ?d" by (simp add: descriptor_is_required_def descriptor_new_def with_descriptor_version_def)
  have le: "pls_durable_ts (lag_entry (bp_participant_lag ?c) ?d) \<le> 1999" using req by (simp add: defs)
  have glob: "u64_saturating_sub (bp_durable_ts ?c') (bp_published_ts ?c') < bo_max_unpublished_commits backpressure_options_default"
    by (simp add: defs)
  from caught_up_participant_throttled [OF refl req _ _ le refl, of "[?d]" "[?d]" 2000 ?plan "[]" "[]" 3 2] glob
  have "snd (admit ?c' ?plan) = Inl (ParticipantLag ?d 2000 0 2000 1024)"
    by (simp add: backpressure_options_default_def DEFAULT_MAX_PARTICIPANT_APPLY_LAG_def)
  then show ?thesis by blast
qed

end
