(* ===== verification/Active_Registry.thy ===== *)
theory Active_Registry
  imports Txn_Types
begin

text \<open>
  The registry of active transactions (\<open>active.rs\<close>): slots in shards that hold each active
  transaction's snapshot, and the watermarks below which nothing active reads.  The lifecycle
  (\<open>lifecycle.rs\<close>) gives scans its barrier exclusively; the mutations share it, each on the slot
  of its own handle and on counters that commute, and each is one step of the model.
\<close>

section \<open>State\<close>

datatype active_txn_state = TS_Empty | TS_ReadOnly | TS_ReadWrite | TS_Frozen | TS_Ending

definition ts_from_raw :: "u8 \<Rightarrow> active_txn_state" where
  "ts_from_raw raw =
     (if raw = 1 then TS_ReadOnly else if raw = 2 then TS_ReadWrite else if raw = 3 then TS_Frozen
      else if raw = 4 then TS_Ending else TS_Empty)"

fun ts_is_active :: "active_txn_state \<Rightarrow> bool" where
  "ts_is_active TS_ReadOnly = True"
| "ts_is_active TS_ReadWrite = True"
| "ts_is_active TS_Frozen = True"
| "ts_is_active _ = False"

datatype registry_error = InvalidShard | NoSlotAvailable | StaleHandle | ReleasedHandle | InvalidState

record txn_watermarks =
  wm_oldest_active_txn_id :: txn_id
  wm_oldest_active_read_ts :: read_ts
  wm_oldest_active_start_ts :: read_ts
  wm_active_count :: u64
  wm_oldest_active_rw_read_ts :: read_ts
  wm_oldest_active_rw_start_ts :: read_ts
  wm_active_rw_count :: u64
  wm_epoch :: u64

definition watermarks_none :: "u64 \<Rightarrow> txn_watermarks" where
  "watermarks_none epoch =
     \<lparr>wm_oldest_active_txn_id = MAX_TRANSACTION_ID, wm_oldest_active_read_ts = MAX_TRANSACTION_ID,
      wm_oldest_active_start_ts = MAX_TRANSACTION_ID, wm_active_count = 0,
      wm_oldest_active_rw_read_ts = MAX_TRANSACTION_ID, wm_oldest_active_rw_start_ts = MAX_TRANSACTION_ID,
      wm_active_rw_count = 0, wm_epoch = epoch\<rparr>"

record txn_slot =
  sl_generation :: u64
  sl_txn_id :: txn_id
  sl_read_ts :: read_ts
  sl_start_ts :: read_ts
  sl_state :: active_txn_state
  sl_is_read_write :: bool
  sl_last_seen_epoch :: u64

definition slot_empty :: txn_slot where
  "slot_empty = \<lparr>sl_generation = 0, sl_txn_id = 0, sl_read_ts = MAX_TRANSACTION_ID, sl_start_ts = MAX_TRANSACTION_ID,
     sl_state = TS_Empty, sl_is_read_write = False, sl_last_seen_epoch = 0\<rparr>"

text \<open>The free slots are a stack whose top is the last element.\<close>

record txn_shard =
  sh_slots :: "txn_slot list"
  sh_free_slots :: "nat list"
  sh_summary :: txn_watermarks

definition shard_new :: "nat \<Rightarrow> txn_shard" where
  "shard_new n = \<lparr>sh_slots = replicate n slot_empty, sh_free_slots = rev [0 ..< n], sh_summary = watermarks_none 0\<rparr>"

text \<open>The cached watermarks of the registry are one record here, whose epoch is the watermark epoch.\<close>

record txn_registry =
  rg_shards :: "txn_shard list"
  rg_next_shard :: nat
  rg_watermarks :: txn_watermarks
  rg_dirty_epoch :: u64
  rg_confirmed_epoch :: u64

definition registry_new :: "nat \<Rightarrow> nat \<Rightarrow> txn_registry option" where
  "registry_new shard_count slots_per_shard =
     (if 0 < shard_count \<and> 0 < slots_per_shard
      then Some \<lparr>rg_shards = replicate shard_count (shard_new slots_per_shard), rg_next_shard = 0,
                 rg_watermarks = watermarks_none 0, rg_dirty_epoch = 0, rg_confirmed_epoch = - 1\<rparr>
      else None)"

record slot_ref =
  sr_shard_index :: nat
  sr_slot_index :: nat
  sr_generation :: u64

section \<open>Operations\<close>

definition mark_changed :: "txn_registry \<Rightarrow> txn_registry" where
  "mark_changed rg = rg\<lparr>rg_dirty_epoch := rg_dirty_epoch rg + 1\<rparr>"

definition lower_atomic_min :: "u64 \<Rightarrow> u64 \<Rightarrow> u64" where
  "lower_atomic_min current candidate = (if candidate < current then candidate else current)"

definition put_slot :: "txn_registry \<Rightarrow> nat \<Rightarrow> nat \<Rightarrow> txn_slot \<Rightarrow> txn_registry" where
  "put_slot rg j i s =
     rg\<lparr>rg_shards := (rg_shards rg)[j := (rg_shards rg ! j)\<lparr>sh_slots := (sh_slots (rg_shards rg ! j))[i := s]\<rparr>]\<rparr>"

definition put_free :: "txn_registry \<Rightarrow> nat \<Rightarrow> nat list \<Rightarrow> txn_registry" where
  "put_free rg j free = rg\<lparr>rg_shards := (rg_shards rg)[j := (rg_shards rg ! j)\<lparr>sh_free_slots := free\<rparr>]\<rparr>"

definition lower_watermarks :: "txn_id \<Rightarrow> read_ts \<Rightarrow> read_ts \<Rightarrow> txn_watermarks \<Rightarrow> txn_watermarks" where
  "lower_watermarks t rts sts w =
     w\<lparr>wm_active_count := wm_active_count w + 1,
       wm_oldest_active_txn_id := lower_atomic_min (wm_oldest_active_txn_id w) t,
       wm_oldest_active_read_ts := lower_atomic_min (wm_oldest_active_read_ts w) rts,
       wm_oldest_active_start_ts := lower_atomic_min (wm_oldest_active_start_ts w) sts\<rparr>"

definition lower_rw_watermarks :: "read_ts \<Rightarrow> read_ts \<Rightarrow> txn_watermarks \<Rightarrow> txn_watermarks" where
  "lower_rw_watermarks rts sts w =
     w\<lparr>wm_active_rw_count := wm_active_rw_count w + 1,
       wm_oldest_active_rw_read_ts := lower_atomic_min (wm_oldest_active_rw_read_ts w) rts,
       wm_oldest_active_rw_start_ts := lower_atomic_min (wm_oldest_active_rw_start_ts w) sts\<rparr>"

definition allocate_on_shard ::
  "txn_registry \<Rightarrow> nat \<Rightarrow> txn_id \<Rightarrow> read_ts \<Rightarrow> read_ts \<Rightarrow> bool \<Rightarrow> txn_registry \<times> (registry_error + slot_ref option)" where
  "allocate_on_shard rg j t rts sts rw =
     (if length (rg_shards rg) \<le> j then (rg, Inl InvalidShard)
      else
        (let free = sh_free_slots (rg_shards rg ! j)
         in if free = [] then (rg, Inr None)
            else
              (let i = last free;
                   generation = sl_generation (sh_slots (rg_shards rg ! j) ! i) + 1;
                   s = \<lparr>sl_generation = generation, sl_txn_id = t, sl_read_ts = rts, sl_start_ts = sts,
                        sl_state = (if rw then TS_ReadWrite else TS_ReadOnly), sl_is_read_write = rw,
                        sl_last_seen_epoch = wm_epoch (rg_watermarks rg)\<rparr>;
                   rg1 = put_slot (put_free rg j (butlast free)) j i s;
                   w = lower_watermarks t rts sts (rg_watermarks rg)
               in (rg1\<lparr>rg_watermarks := (if rw then lower_rw_watermarks rts sts w else w)\<rparr>,
                   Inr (Some \<lparr>sr_shard_index = j, sr_slot_index = i, sr_generation = generation\<rparr>)))))"

fun allocate_from ::
  "txn_registry \<Rightarrow> nat list \<Rightarrow> txn_id \<Rightarrow> read_ts \<Rightarrow> read_ts \<Rightarrow> bool \<Rightarrow> txn_registry \<times> (registry_error + slot_ref)" where
  "allocate_from rg [] t rts sts rw = (rg, Inl NoSlotAvailable)"
| "allocate_from rg (j # js) t rts sts rw =
     (case allocate_on_shard rg j t rts sts rw of
        (rg', Inl err) \<Rightarrow> (rg', Inl err)
      | (rg', Inr (Some r)) \<Rightarrow> (rg', Inr r)
      | (rg', Inr None) \<Rightarrow> allocate_from rg' js t rts sts rw)"

definition register_inner ::
  "txn_registry \<Rightarrow> txn_id \<Rightarrow> read_ts \<Rightarrow> read_ts \<Rightarrow> bool \<Rightarrow> txn_registry \<times> (registry_error + slot_ref)" where
  "register_inner rg t rts sts rw =
     (let n = length (rg_shards rg); start = rg_next_shard rg mod n
      in allocate_from (rg\<lparr>rg_next_shard := fetch_add (rg_next_shard rg) 1\<rparr>)
           (map (\<lambda>offset. (start + offset) mod n) [0 ..< n]) t rts sts rw)"

definition registered :: "txn_registry \<times> (registry_error + slot_ref) \<Rightarrow> txn_registry \<times> (registry_error + slot_ref)" where
  "registered out = (case out of (rg, Inl err) \<Rightarrow> (rg, Inl err) | (rg, Inr r) \<Rightarrow> (mark_changed rg, Inr r))"

definition register_active ::
  "txn_registry \<Rightarrow> txn_id \<Rightarrow> read_ts \<Rightarrow> read_ts \<Rightarrow> txn_registry \<times> (registry_error + slot_ref)" where
  "register_active rg t rts sts = registered (register_inner rg t rts sts False)"

definition register_with_read_ts ::
  "txn_registry \<Rightarrow> txn_id \<Rightarrow> read_ts \<Rightarrow> txn_registry \<times> (registry_error + slot_ref)" where
  "register_with_read_ts rg t rts = registered (register_inner rg t rts rts False)"

definition register_read_write ::
  "txn_registry \<Rightarrow> txn_id \<Rightarrow> read_ts \<Rightarrow> read_ts \<Rightarrow> txn_registry \<times> (registry_error + slot_ref)" where
  "register_read_write rg t rts sts = registered (register_inner rg t rts sts True)"

text \<open>A registration on a given shard, with no other shard tried.\<close>

definition slot_or_full :: "txn_registry \<times> (registry_error + slot_ref option) \<Rightarrow> txn_registry \<times> (registry_error + slot_ref)" where
  "slot_or_full out =
     (case out of
        (rg, Inl err) \<Rightarrow> (rg, Inl err)
      | (rg, Inr None) \<Rightarrow> (rg, Inl NoSlotAvailable)
      | (rg, Inr (Some r)) \<Rightarrow> (rg, Inr r))"

definition try_register_on_shard ::
  "txn_registry \<Rightarrow> nat \<Rightarrow> txn_id \<Rightarrow> read_ts \<Rightarrow> read_ts \<Rightarrow> txn_registry \<times> (registry_error + slot_ref)" where
  "try_register_on_shard rg j t rts sts = registered (slot_or_full (allocate_on_shard rg j t rts sts False))"

definition try_register_read_write_on_shard ::
  "txn_registry \<Rightarrow> nat \<Rightarrow> txn_id \<Rightarrow> read_ts \<Rightarrow> read_ts \<Rightarrow> txn_registry \<times> (registry_error + slot_ref)" where
  "try_register_read_write_on_shard rg j t rts sts = registered (slot_or_full (allocate_on_shard rg j t rts sts True))"

definition find_slot :: "txn_registry \<Rightarrow> slot_ref \<Rightarrow> registry_error + txn_slot" where
  "find_slot rg r =
     (if length (rg_shards rg) \<le> sr_shard_index r then Inl InvalidShard
      else if length (sh_slots (rg_shards rg ! sr_shard_index r)) \<le> sr_slot_index r then Inl StaleHandle
      else (let s = sh_slots (rg_shards rg ! sr_shard_index r) ! sr_slot_index r
            in if sl_generation s \<noteq> sr_generation r then Inl StaleHandle else Inr s))"

definition promote_slot :: "txn_registry \<Rightarrow> slot_ref \<Rightarrow> txn_registry \<times> (registry_error + unit)" where
  "promote_slot rg r =
     (case find_slot rg r of
        Inl err \<Rightarrow> (rg, Inl err)
      | Inr s \<Rightarrow>
          (let seen = s\<lparr>sl_is_read_write := True, sl_last_seen_epoch := wm_epoch (rg_watermarks rg)\<rparr>
           in case sl_state s of
                TS_ReadWrite \<Rightarrow> (put_slot rg (sr_shard_index r) (sr_slot_index r) seen, Inr ())
              | TS_ReadOnly \<Rightarrow>
                  (mark_changed ((put_slot rg (sr_shard_index r) (sr_slot_index r) (seen\<lparr>sl_state := TS_ReadWrite\<rparr>))
                     \<lparr>rg_watermarks := lower_rw_watermarks (sl_read_ts s) (sl_start_ts s) (rg_watermarks rg)\<rparr>), Inr ())
              | _ \<Rightarrow> (rg, Inl InvalidState)))"

definition freeze_slot :: "txn_registry \<Rightarrow> slot_ref \<Rightarrow> txn_registry \<times> (registry_error + unit)" where
  "freeze_slot rg r =
     (case find_slot rg r of
        Inl err \<Rightarrow> (rg, Inl err)
      | Inr s \<Rightarrow>
          (if ts_is_active (sl_state s)
           then (put_slot rg (sr_shard_index r) (sr_slot_index r) (s\<lparr>sl_state := TS_Frozen\<rparr>), Inr ())
           else (rg, Inl InvalidState)))"

definition release_slot :: "txn_registry \<Rightarrow> slot_ref \<Rightarrow> txn_registry \<times> (registry_error + unit)" where
  "release_slot rg r =
     (case find_slot rg r of
        Inl err \<Rightarrow> (rg, Inl err)
      | Inr s \<Rightarrow>
          (let j = sr_shard_index r; i = sr_slot_index r
           in if sl_state s = TS_Empty then (put_slot rg j i (s\<lparr>sl_state := TS_Ending\<rparr>), Inl StaleHandle)
              else
                (let rg1 = put_slot rg j i (s\<lparr>sl_is_read_write := False, sl_txn_id := 0, sl_read_ts := MAX_TRANSACTION_ID,
                       sl_start_ts := MAX_TRANSACTION_ID, sl_last_seen_epoch := wm_epoch (rg_watermarks rg),
                       sl_state := TS_Empty\<rparr>);
                     rg2 = put_free rg1 j (sh_free_slots (rg_shards rg1 ! j) @ [i]);
                     w = (rg_watermarks rg)\<lparr>wm_active_count := wm_active_count (rg_watermarks rg) - 1\<rparr>;
                     w' = (if sl_is_read_write s then w\<lparr>wm_active_rw_count := wm_active_rw_count w - 1\<rparr> else w)
                 in (mark_changed (rg2\<lparr>rg_watermarks := w'\<rparr>), Inr ()))))"

section \<open>Handles\<close>

text \<open>A handle is the slot it refers to until it is promoted or released.\<close>

type_synonym txn_handle = "slot_ref option"

definition handle_promote ::
  "txn_registry \<Rightarrow> txn_handle \<Rightarrow> (txn_registry \<times> txn_handle) \<times> (registry_error + txn_handle)" where
  "handle_promote rg h =
     (case h of
        None \<Rightarrow> ((rg, None), Inl ReleasedHandle)
      | Some r \<Rightarrow>
          (case promote_slot rg r of
             (rg', Inl err) \<Rightarrow> ((rg', Some r), Inl err)
           | (rg', Inr _) \<Rightarrow> ((rg', None), Inr (Some r))))"

definition handle_freeze :: "txn_registry \<Rightarrow> txn_handle \<Rightarrow> txn_registry \<times> (registry_error + unit)" where
  "handle_freeze rg h = (case h of None \<Rightarrow> (rg, Inl ReleasedHandle) | Some r \<Rightarrow> freeze_slot rg r)"

definition release_handle_slot :: "txn_registry \<Rightarrow> txn_handle \<Rightarrow> (txn_registry \<times> txn_handle) \<times> (registry_error + unit)" where
  "release_handle_slot rg h =
     (case h of
        None \<Rightarrow> ((rg, None), Inl ReleasedHandle)
      | Some r \<Rightarrow> (case release_slot rg r of (rg', out) \<Rightarrow> ((rg', None), out)))"

definition handle_info :: "txn_registry \<Rightarrow> txn_handle \<Rightarrow> registry_error + txn_slot" where
  "handle_info rg h = (case h of None \<Rightarrow> Inl ReleasedHandle | Some r \<Rightarrow> find_slot rg r)"

section \<open>Scanning\<close>

text \<open>One slot in the scan of a shard, and one shard in the scan of the registry.\<close>

definition scan_slot :: "txn_slot \<Rightarrow> txn_watermarks \<Rightarrow> txn_watermarks" where
  "scan_slot s w =
     (if \<not> ts_is_active (sl_state s) then w
      else
        (let w1 = w\<lparr>wm_oldest_active_txn_id := min (wm_oldest_active_txn_id w) (sl_txn_id s),
                     wm_oldest_active_read_ts := min (wm_oldest_active_read_ts w) (sl_read_ts s),
                     wm_oldest_active_start_ts := min (wm_oldest_active_start_ts w) (sl_start_ts s),
                     wm_active_count := wm_active_count w + 1\<rparr>
         in if \<not> sl_is_read_write s then w1
            else w1\<lparr>wm_oldest_active_rw_read_ts := min (wm_oldest_active_rw_read_ts w1) (sl_read_ts s),
                     wm_oldest_active_rw_start_ts := min (wm_oldest_active_rw_start_ts w1) (sl_start_ts s),
                     wm_active_rw_count := wm_active_rw_count w1 + 1\<rparr>))"

definition scan_shard :: "u64 \<Rightarrow> txn_shard \<Rightarrow> txn_watermarks" where
  "scan_shard epoch shard = fold scan_slot (sh_slots shard) (watermarks_none epoch)"

definition merge_watermarks :: "txn_watermarks \<Rightarrow> txn_watermarks \<Rightarrow> txn_watermarks" where
  "merge_watermarks s w =
     w\<lparr>wm_oldest_active_txn_id := min (wm_oldest_active_txn_id w) (wm_oldest_active_txn_id s),
       wm_oldest_active_read_ts := min (wm_oldest_active_read_ts w) (wm_oldest_active_read_ts s),
       wm_oldest_active_start_ts := min (wm_oldest_active_start_ts w) (wm_oldest_active_start_ts s),
       wm_active_count := wm_active_count w + wm_active_count s,
       wm_oldest_active_rw_read_ts := min (wm_oldest_active_rw_read_ts w) (wm_oldest_active_rw_read_ts s),
       wm_oldest_active_rw_start_ts := min (wm_oldest_active_rw_start_ts w) (wm_oldest_active_rw_start_ts s),
       wm_active_rw_count := wm_active_rw_count w + wm_active_rw_count s\<rparr>"

definition scan_and_publish :: "txn_registry \<Rightarrow> txn_registry \<times> txn_watermarks" where
  "scan_and_publish rg =
     (let epoch = wm_epoch (rg_watermarks rg) + 1;
          shards = map (\<lambda>shard. shard\<lparr>sh_summary := scan_shard epoch shard\<rparr>) (rg_shards rg);
          global = fold (\<lambda>shard. merge_watermarks (sh_summary shard)) shards (watermarks_none epoch)
      in (rg\<lparr>rg_shards := shards, rg_watermarks := global\<rparr>, global))"

definition scan_and_confirm :: "txn_registry \<Rightarrow> txn_registry \<times> txn_watermarks" where
  "scan_and_confirm rg =
     (case scan_and_publish rg of (rg', w) \<Rightarrow> (rg'\<lparr>rg_confirmed_epoch := rg_dirty_epoch rg'\<rparr>, w))"

definition confirmed_scan_and_publish :: "txn_registry \<Rightarrow> txn_registry \<times> txn_watermarks" where
  "confirmed_scan_and_publish rg =
     (if rg_confirmed_epoch rg = rg_dirty_epoch rg then (rg, rg_watermarks rg) else scan_and_confirm rg)"

definition contains_transaction :: "txn_registry \<Rightarrow> txn_id \<Rightarrow> bool" where
  "contains_transaction rg t \<longleftrightarrow>
     list_ex (\<lambda>shard. list_ex (\<lambda>s. ts_is_active (sl_state s) \<and> sl_txn_id s = t) (sh_slots shard)) (rg_shards rg)"

end
