(* ===== verification/Slot_Registry.thy ===== *)
theory Slot_Registry
  imports Prelude
begin

text \<open>
  What the two sharded registries of the transaction crate share: shards of slots with a stack of free
  slots each, handles that own a slot until they are released, and watermarks over the held handles that
  a scan confirms.  The locale states what a registry provides (its table of slots, its epochs and what
  its watermarks promise) and proves how allocating, changing and releasing a slot and confirming a scan
  keep the invariant.
\<close>

section \<open>Tables of slots\<close>

text \<open>Each shard has its slots and the indices of the free ones, the top of the stack last.\<close>

type_synonym 's slot_table = "('s list \<times> nat list) list"

definition in_table :: "'s slot_table \<Rightarrow> nat \<times> nat \<Rightarrow> bool" where
  "in_table T pos \<longleftrightarrow> fst pos < length T \<and> snd pos < length (fst (T ! fst pos))"

definition table_slot :: "'s slot_table \<Rightarrow> nat \<times> nat \<Rightarrow> 's" where
  "table_slot T pos = fst (T ! fst pos) ! snd pos"

definition table_free :: "'s slot_table \<Rightarrow> nat \<Rightarrow> nat list" where
  "table_free T j = snd (T ! j)"

definition set_slot :: "'s slot_table \<Rightarrow> nat \<times> nat \<Rightarrow> 's \<Rightarrow> 's slot_table" where
  "set_slot T pos s = T[fst pos := ((fst (T ! fst pos))[snd pos := s], snd (T ! fst pos))]"

definition set_free :: "'s slot_table \<Rightarrow> nat \<Rightarrow> nat list \<Rightarrow> 's slot_table" where
  "set_free T j free = T[j := (fst (T ! j), free)]"

lemma table_slot_set_slot:
  "in_table T pos \<Longrightarrow> table_slot (set_slot T pos s) pos' = (if pos' = pos then s else table_slot T pos')"
  by (cases "fst pos' = fst pos") (auto simp: in_table_def table_slot_def set_slot_def prod_eq_iff)

lemma table_free_set_slot [simp]: "table_free (set_slot T pos s) j = table_free T j"
  by (cases "j = fst pos"; cases "fst pos < length T") (auto simp: table_free_def set_slot_def list_update_beyond)

lemma in_table_set_slot [simp]: "in_table (set_slot T pos s) pos' = in_table T pos'"
  by (cases "fst pos' = fst pos") (auto simp: in_table_def set_slot_def)

lemma length_set_slot [simp]: "length (set_slot T pos s) = length T"
  by (simp add: set_slot_def)

lemma table_slot_set_free [simp]: "table_slot (set_free T j free) pos = table_slot T pos"
  by (cases "fst pos = j"; cases "j < length T") (auto simp: table_slot_def set_free_def list_update_beyond)

lemma table_free_set_free: "j < length T \<Longrightarrow> table_free (set_free T j free) j' = (if j' = j then free else table_free T j')"
  by (simp add: table_free_def set_free_def nth_list_update)

lemma in_table_set_free [simp]: "in_table (set_free T j free) pos = in_table T pos"
  by (cases "fst pos = j") (auto simp: in_table_def set_free_def)

lemma length_set_free [simp]: "length (set_free T j free) = length T"
  by (simp add: set_free_def)

text \<open>What the slots of a table hold together.\<close>

definition table_items :: "('s \<Rightarrow> 'a multiset) \<Rightarrow> 's slot_table \<Rightarrow> 'a multiset" where
  "table_items items T = (\<Sum>s \<leftarrow> concat (map fst T). items s)"

lemma sum_list_update_add:
  "i < length xs \<Longrightarrow> sum_list (map f (xs[i := x])) + f (xs ! i) = sum_list (map f xs) + (f x :: 'a multiset)"
proof (induction xs arbitrary: i)
  case (Cons y xs)
  show ?case
  proof (cases i)
    case (Suc k)
    with Cons.IH [of k] Cons.prems show ?thesis by (simp add: ac_simps)
  qed (simp add: ac_simps)
qed simp

lemma sum_list_concat: "sum_list (map f (concat xss)) = sum_list (map (\<lambda>xs. sum_list (map f xs)) xss)"
  by (induction xss) simp_all

lemma sum_list_empty: "\<forall>x \<in> set xs. f x = {#} \<Longrightarrow> (\<Sum>x \<leftarrow> xs. f x) = {#}"
  by (induction xs) simp_all

lemma table_items_empty: "\<forall>shard \<in> set T. \<forall>s \<in> set (fst shard). items s = {#} \<Longrightarrow> table_items items T = {#}"
  unfolding table_items_def by (rule sum_list_empty) auto

lemma table_items_alt: "table_items items T = (\<Sum>shard \<leftarrow> T. \<Sum>s \<leftarrow> fst shard. items s)"
  by (simp add: table_items_def sum_list_concat comp_def)

lemma table_items_set_slot:
  assumes "in_table T pos"
  shows "table_items items (set_slot T pos s) + items (table_slot T pos) = table_items items T + items s"
proof -
  let ?f = "\<lambda>shard :: 'a list \<times> nat list. \<Sum>s \<leftarrow> fst shard. items s"
  let ?shard = "T ! fst pos" and ?shard' = "((fst (T ! fst pos))[snd pos := s], snd (T ! fst pos))"
  have outer: "table_items items (set_slot T pos s) + ?f ?shard = table_items items T + ?f ?shard'"
    using sum_list_update_add [of "fst pos" T ?f ?shard'] assms by (simp add: table_items_alt set_slot_def in_table_def)
  have inner: "?f ?shard' + items (table_slot T pos) = ?f ?shard + items s"
    using sum_list_update_add [of "snd pos" "fst ?shard" items s] assms by (simp add: in_table_def table_slot_def)
  have "table_items items (set_slot T pos s) + items (table_slot T pos) + (?f ?shard + ?f ?shard') =
      (table_items items (set_slot T pos s) + ?f ?shard) + (?f ?shard' + items (table_slot T pos))"
    by (simp only: ac_simps)
  also have "\<dots> = table_items items T + items s + (?f ?shard + ?f ?shard')"
    unfolding outer inner by (simp only: ac_simps)
  finally show ?thesis by (simp only: add_right_cancel)
qed

lemma table_items_set_free [simp]: "table_items items (set_free T j free) = table_items items T"
proof -
  have "map fst (set_free T j free) = map fst T"
    by (cases "j < length T") (simp_all add: set_free_def map_update list_update_same_conv list_update_beyond)
  then show ?thesis by (simp add: table_items_def)
qed

text \<open>Free slots hold nothing.\<close>

definition free_ok :: "('s \<Rightarrow> 'a multiset) \<Rightarrow> 's slot_table \<Rightarrow> bool" where
  "free_ok items T \<longleftrightarrow> (\<forall>j < length T. distinct (table_free T j) \<and>
     (\<forall>i \<in> set (table_free T j). in_table T (j, i) \<and> items (table_slot T (j, i)) = {#}))"

lemma free_okD:
  assumes "free_ok items T" "j < length T"
  shows "distinct (table_free T j)" "i \<in> set (table_free T j) \<Longrightarrow> in_table T (j, i)"
    "i \<in> set (table_free T j) \<Longrightarrow> items (table_slot T (j, i)) = {#}"
  using assms by (simp_all add: free_ok_def)

lemma free_ok_set_slot:
  assumes ok: "free_ok items T" and pos: "in_table T (j, i)"
    and busy: "items (table_slot T (j, i)) \<noteq> {#} \<or> i \<notin> set (table_free T j)"
  shows "free_ok items (set_slot T (j, i) s)"
  unfolding free_ok_def length_set_slot table_free_set_slot in_table_set_slot
proof (intro allI impI conjI ballI)
  fix j' assume j': "j' < length T"
  show "distinct (table_free T j')" by (rule free_okD(1) [OF ok j'])
  fix i' assume i': "i' \<in> set (table_free T j')"
  show "in_table T (j', i')" by (rule free_okD(2) [OF ok j' i'])
  have "(j', i') \<noteq> (j, i)" using busy i' free_okD(3) [OF ok j' i'] by auto
  then show "items (table_slot (set_slot T (j, i) s) (j', i')) = {#}"
    using free_okD(3) [OF ok j' i'] by (auto simp: table_slot_set_slot [OF pos])
qed

lemma free_ok_set_free:
  assumes ok: "free_ok items T" and j: "j < length T" and "distinct free"
    "\<forall>i \<in> set free. in_table T (j, i) \<and> items (table_slot T (j, i)) = {#}"
  shows "free_ok items (set_free T j free)"
  unfolding free_ok_def length_set_free table_slot_set_free in_table_set_free table_free_set_free [OF j]
  using assms by (auto simp: free_ok_def)

section \<open>Registries\<close>

text \<open>\<open>items\<close> says what a slot holds, \<open>holds s r a\<close> that slot \<open>s\<close> holds item \<open>a\<close> under handle \<open>r\<close>; \<open>safe\<close>
  and \<open>exact\<close> are what the watermarks of the registry promise about a multiset of items.\<close>

locale slot_registry =
  fixes table :: "'g \<Rightarrow> 's slot_table"
    and items :: "'s \<Rightarrow> 'a multiset"
    and holds :: "'s \<Rightarrow> 'r \<Rightarrow> 'a \<Rightarrow> bool"
    and pos :: "'r \<Rightarrow> nat \<times> nat"
    and dirty :: "'g \<Rightarrow> u64"
    and confirmed :: "'g \<Rightarrow> u64"
    and safe :: "'g \<Rightarrow> 'a multiset \<Rightarrow> bool"
    and exact :: "'g \<Rightarrow> 'a multiset \<Rightarrow> bool"
  assumes holds_item: "holds s r a \<Longrightarrow> items s = {#a#}"
    and exact_safe: "exact g A \<Longrightarrow> safe g A"
begin

definition held_ok :: "'s slot_table \<Rightarrow> ('r \<times> 'a) list \<Rightarrow> bool" where
  "held_ok T held \<longleftrightarrow> distinct (map (pos \<circ> fst) held) \<and> table_items items T = mset (map snd held) \<and>
     (\<forall>(r, a) \<in> set held. in_table T (pos r) \<and> holds (table_slot T (pos r)) r a)"

definition base :: "'g \<Rightarrow> ('r \<times> 'a) list \<Rightarrow> bool" where
  "base g held \<longleftrightarrow> table g \<noteq> [] \<and> free_ok items (table g) \<and> held_ok (table g) held \<and> safe g (mset (map snd held))"

definition ok :: "nat \<Rightarrow> 'g \<Rightarrow> ('r \<times> 'a) list \<Rightarrow> bool" where
  "ok n g held \<longleftrightarrow> base g held \<and> unat (dirty g) \<le> n \<and> (confirmed g = - 1 \<or> confirmed g \<le> dirty g) \<and>
     (confirmed g = dirty g \<longrightarrow> exact g (mset (map snd held)))"

lemma held_okD:
  assumes "held_ok T held" "(r, a) \<in> set held"
  shows "in_table T (pos r)" "holds (table_slot T (pos r)) r a"
  using assms by (auto simp: held_ok_def)

lemma held_elsewhere:
  assumes "held_ok T (xs @ (r, a) # ys)" "(r', b) \<in> set (xs @ ys)"
  shows "pos r' \<noteq> pos r"
proof -
  have "(pos \<circ> fst) (r', b) \<in> (pos \<circ> fst) ` set (xs @ ys)" using assms(2) by (rule imageI)
  moreover have "pos r \<notin> (pos \<circ> fst) ` set (xs @ ys)" using assms(1) by (auto simp: held_ok_def)
  ultimately show ?thesis by (metis comp_apply fst_conv)
qed

text \<open>A change of the slot of one handle leaves the slots of the others.\<close>

lemma others_kept:
  assumes "held_ok T (xs @ (r, a) # ys)" "(r', b) \<in> set (xs @ ys)"
  shows "in_table T (pos r') \<and> holds (table_slot (set_slot T (pos r) s) (pos r')) r' b"
proof -
  have in_held: "(r, a) \<in> set (xs @ (r, a) # ys)" "(r', b) \<in> set (xs @ (r, a) # ys)" using assms(2) by auto
  show ?thesis
    using held_okD [OF assms(1) in_held(1)] held_okD [OF assms(1) in_held(2)] held_elsewhere [OF assms]
    by (simp add: table_slot_set_slot)
qed

lemma held_ok_set:
  assumes held: "held_ok T (xs @ (r, a) # ys)" and now: "zs = [] \<and> items s = {#} \<or> (\<exists>a'. zs = [(r, a')] \<and> holds s r a')"
  shows "held_ok (set_slot T (pos r) s) (xs @ zs @ ys)"
proof -
  let ?T = "set_slot T (pos r) s"
  have in_held: "(r, a) \<in> set (xs @ (r, a) # ys)" by simp
  note r = held_okD [OF held in_held]
  have "items s = mset (map snd zs)" using now holds_item by auto
  then have "table_items items ?T + {#a#} = table_items items T + mset (map snd zs)"
    using table_items_set_slot [OF r(1), of items s] holds_item [OF r(2)] by simp
  then have "table_items items ?T = mset (map snd (xs @ zs @ ys))" using held by (simp add: held_ok_def)
  moreover have "distinct (map (pos \<circ> fst) (xs @ zs @ ys))"
    using held now by (elim disjE exE conjE) (simp_all add: held_ok_def)
  moreover have "in_table ?T (pos r') \<and> holds (table_slot ?T (pos r')) r' b" if "(r', b) \<in> set (xs @ zs @ ys)" for r' b
  proof (cases "(r', b) \<in> set zs")
    case True
    then show ?thesis using now r(1) by (auto simp: table_slot_set_slot)
  next
    case False
    then show ?thesis using that others_kept [OF held, of r' b s] by auto
  qed
  ultimately show ?thesis unfolding held_ok_def by auto
qed

lemma held_ok_add:
  assumes held: "held_ok T held" and r: "in_table T (pos r)" "items (table_slot T (pos r)) = {#}" and s: "holds s r a"
  shows "held_ok (set_slot T (pos r) s) ((r, a) # held)"
proof -
  let ?T = "set_slot T (pos r) s"
  have "table_items items ?T = table_items items T + {#a#}"
    using table_items_set_slot [OF r(1), of items s] r(2) holds_item [OF s] by simp
  moreover have elsewhere: "pos r' \<noteq> pos r" if "(r', b) \<in> set held" for r' b
    using holds_item [OF held_okD(2) [OF held that]] r(2) by auto
  moreover have "in_table ?T (pos r') \<and> holds (table_slot ?T (pos r')) r' b" if "(r', b) \<in> set held" for r' b
    using held_okD [OF held that] elsewhere [OF that] r(1) by (simp add: table_slot_set_slot)
  moreover have "table_slot ?T (pos r) = s" using r(1) by (simp add: table_slot_set_slot)
  moreover have "pos r \<notin> (pos \<circ> fst) ` set held" using elsewhere by force
  ultimately show ?thesis unfolding held_ok_def using held r(1) s by (auto simp: held_ok_def)
qed

text \<open>Taking the top free slot of a shard, changing a held slot and giving it back.\<close>

lemma base_allocate:
  assumes base: "base g held" and j: "j < length (table g)" and free: "table_free (table g) j \<noteq> []"
    and r: "pos r = (j, last (table_free (table g) j))" and s: "holds s r a"
    and table: "table g' = set_slot (set_free (table g) j (butlast (table_free (table g) j))) (pos r) s"
    and safe: "safe g (mset (map snd held)) \<Longrightarrow> safe g' (add_mset a (mset (map snd held)))"
  shows "base g' ((r, a) # held)"
proof -
  let ?T = "table g" and ?free = "table_free (table g) j"
  let ?U = "set_free ?T j (butlast ?free)"
  have ok: "free_ok items ?T" and held: "held_ok ?T held" using base by (simp_all add: base_def)
  note shard = free_okD [OF ok j]
  have top: "in_table ?T (pos r)" "items (table_slot ?T (pos r)) = {#}"
    using shard(2,3) [OF last_in_set [OF free]] by (simp_all add: r)
  have "last ?free \<notin> set (butlast ?free)"
    using shard(1) free by (metis append_butlast_last_id distinct_butlast not_distinct_conv_prefix)
  moreover have ok0: "free_ok items ?U"
    using shard by (intro free_ok_set_free [OF ok j]) (auto simp: distinct_butlast dest: in_set_butlastD)
  ultimately have "free_ok items (table g')"
    unfolding table r using top(1) by (intro free_ok_set_slot) (simp_all add: r table_free_set_free [OF j])
  moreover have "held_ok ?U held" using held by (simp add: held_ok_def)
  then have "held_ok (table g') ((r, a) # held)"
    unfolding table using top s by (intro held_ok_add) simp_all
  moreover have "table g' \<noteq> []" using j by (metis length_0_conv length_set_free length_set_slot not_less_zero table)
  moreover have "safe g' (add_mset a (mset (map snd held)))" using base safe by (simp add: base_def)
  ultimately show ?thesis by (simp add: base_def)
qed

lemma base_change:
  assumes base: "base g (xs @ (r, a) # ys)" and s: "holds s r a'" and table: "table g' = set_slot (table g) (pos r) s"
    and safe: "\<And>A. safe g (add_mset a A) \<Longrightarrow> safe g' (add_mset a' A)"
  shows "base g' (xs @ (r, a') # ys)"
proof -
  have held: "held_ok (table g) (xs @ (r, a) # ys)" using base by (simp add: base_def)
  note now = held_okD [OF held, of r a, simplified]
  have "free_ok items (table g')"
    unfolding table using base now holds_item [OF now(2)]
    by (cases "pos r") (auto simp: base_def intro!: free_ok_set_slot)
  moreover have "held_ok (table g') (xs @ [(r, a')] @ ys)" unfolding table using s by (intro held_ok_set [OF held]) simp
  moreover have "table g' \<noteq> []" using base by (metis base_def length_0_conv length_set_slot table)
  ultimately show ?thesis using base safe [of "mset (map snd (xs @ ys))"] by (simp add: base_def)
qed

lemma base_release:
  assumes base: "base g (xs @ (r, a) # ys)" and s: "items s = {#}" and r: "pos r = (j, i)"
    and table: "table g' = set_free (set_slot (table g) (pos r) s) j (table_free (table g) j @ [i])"
    and safe: "\<And>A. safe g (add_mset a A) \<Longrightarrow> safe g' A"
  shows "base g' (xs @ ys)"
proof -
  let ?T = "set_slot (table g) (pos r) s"
  have held: "held_ok (table g) (xs @ (r, a) # ys)" and ok: "free_ok items (table g)" using base by (simp_all add: base_def)
  note now = held_okD [OF held, of r a, simplified]
  have j: "j < length (table g)" using now(1) by (simp add: r in_table_def)
  have busy: "i \<notin> set (table_free (table g) j)"
    using free_okD(3) [OF ok j, of i] holds_item [OF now(2)] by (auto simp: r)
  have "free_ok items ?T" unfolding r using now(1) busy by (intro free_ok_set_slot [OF ok]) (simp_all add: r)
  then have "free_ok items (table g')"
    unfolding table using j busy now(1) free_okD [OF ok j] s
    by (intro free_ok_set_free) (auto simp: table_slot_set_slot r)
  moreover have "held_ok ?T (xs @ [] @ ys)" using s by (intro held_ok_set [OF held]) simp
  then have "held_ok (table g') (xs @ ys)" by (simp add: held_ok_def table)
  moreover have "table g' \<noteq> []" using base by (metis base_def length_0_conv length_set_free length_set_slot table)
  ultimately show ?thesis using base safe [of "mset (map snd (xs @ ys))"] by (simp add: base_def)
qed

lemma ok_later: "ok n g held \<Longrightarrow> ok (Suc n) g held"
  by (simp add: ok_def)

text \<open>A change of the registry makes its watermarks unconfirmed, until a scan confirms them.\<close>

lemma ok_changed:
  assumes "ok n g held" "base g' held'" "dirty g' = dirty g + 1" "confirmed g' = confirmed g" "Suc n < 2 ^ 64 - 1"
  shows "ok (Suc n) g' held'"
proof -
  have small: "unat (dirty g) \<le> n" using assms(1) by (simp add: ok_def)
  then have next_epoch: "unat (dirty g + 1) = unat (dirty g) + 1"
    using assms(5) by (simp add: unat_word_ariths)
  have top: "unat (- 1 :: u64) = 2 ^ 64 - 1" by (simp add: unsigned_minus_1_eq_mask mask_eq_exp_minus_1)
  have "dirty g < dirty g + 1" using next_epoch by (simp add: word_less_nat_alt)
  moreover have "dirty g + 1 \<noteq> - 1"
  proof
    assume "dirty g + 1 = - 1"
    then have "unat (dirty g) + 1 = 2 ^ 64 - 1" using top next_epoch by (simp only:)
    with small assms(5) show False by linarith
  qed
  ultimately show ?thesis using assms next_epoch by (auto simp: ok_def)
qed

lemma ok_unchanged:
  assumes "ok n g held" "base g' held'" "dirty g' = dirty g" "confirmed g' = confirmed g"
    "exact g (mset (map snd held)) \<Longrightarrow> exact g' (mset (map snd held'))"
  shows "ok (Suc n) g' held'"
  using assms by (auto simp: ok_def)

lemma ok_scanned:
  assumes "ok n g held" "table g' = table g" "dirty g' = dirty g" "confirmed g' = dirty g"
    "exact g' (table_items items (table g))"
  shows "ok (Suc n) g' held"
proof -
  have "table_items items (table g) = mset (map snd held)" using assms(1) by (simp add: ok_def base_def held_ok_def)
  with assms exact_safe [of g'] show ?thesis by (auto simp: ok_def base_def)
qed

lemma ok_new:
  assumes "table g \<noteq> []" "free_ok items (table g)" "table_items items (table g) = {#}" "exact g {#}"
    "dirty g = 0" "confirmed g = - 1"
  shows "ok 0 g []"
  using assms exact_safe [of g] by (simp add: ok_def base_def held_ok_def)

end

end
