(* ===== verification/Registry_Safety.thy ===== *)
theory Registry_Safety
  imports Active_Registry Slot_Registry
begin

text \<open>
  The registry of active transactions against its specification: the multiset of the transactions whose
  handles are held.  In every reachable state the watermarks never exceed the snapshot of an active
  transaction, and confirmed ones are exact.
\<close>

section \<open>Active transactions\<close>

record active_txn =
  at_txn_id :: txn_id
  at_read_ts :: read_ts
  at_start_ts :: read_ts
  at_read_write :: bool

definition info_of :: "txn_slot \<Rightarrow> active_txn" where
  "info_of s = \<lparr>at_txn_id = sl_txn_id s, at_read_ts = sl_read_ts s, at_start_ts = sl_start_ts s,
     at_read_write = sl_is_read_write s\<rparr>"

abbreviation slot_active :: "txn_slot \<Rightarrow> bool" where
  "slot_active s \<equiv> ts_is_active (sl_state s)"

definition slot_txns :: "txn_slot \<Rightarrow> active_txn multiset" where
  "slot_txns s = (if slot_active s then {#info_of s#} else {#})"

definition reg_table :: "txn_registry \<Rightarrow> txn_slot slot_table" where
  "reg_table rg = map (\<lambda>shard. (sh_slots shard, sh_free_slots shard)) (rg_shards rg)"

section \<open>Watermarks\<close>

definition least :: "(active_txn \<Rightarrow> u64) \<Rightarrow> active_txn multiset \<Rightarrow> u64" where
  "least f A = Min (insert MAX_TRANSACTION_ID (f ` set_mset A))"

abbreviation rw_only :: "active_txn multiset \<Rightarrow> active_txn multiset" where
  "rw_only A \<equiv> filter_mset at_read_write A"

lemma min_MAX [simp]: "min MAX_TRANSACTION_ID x = x" "min x MAX_TRANSACTION_ID = x"
  by (simp_all add: MAX_TRANSACTION_ID_def min_def) (simp add: word_order.extremum_unique)

lemma least_empty [simp]: "least f {#} = MAX_TRANSACTION_ID"
  by (simp add: least_def)

lemma least_add [simp]: "least f (add_mset a A) = min (least f A) (f a)"
proof -
  have "insert MAX_TRANSACTION_ID (f ` set_mset (add_mset a A)) = insert (f a) (insert MAX_TRANSACTION_ID (f ` set_mset A))"
    by auto
  then show ?thesis unfolding least_def by (simp only: Min_insert [OF _ insert_not_empty] finite_insert finite_imageI
    finite_set_mset min.commute)
qed

lemma least_union [simp]: "least f (A + B) = min (least f A) (least f B)"
proof (induction B)
  case empty
  then show ?case by (simp add: MAX_TRANSACTION_ID_def min_def)
qed (simp add: min.assoc)

lemma least_mono: "B \<subseteq># A \<Longrightarrow> least f A \<le> least f B"
  unfolding least_def by (intro Min_antimono) (auto dest: mset_subset_eqD)

definition counts_ok :: "txn_watermarks \<Rightarrow> active_txn multiset \<Rightarrow> bool" where
  "counts_ok w A \<longleftrightarrow> wm_active_count w = of_nat (size A) \<and> wm_active_rw_count w = of_nat (size (rw_only A))"

text \<open>Watermarks that no active transaction is below.\<close>

definition marks_safe :: "txn_watermarks \<Rightarrow> active_txn multiset \<Rightarrow> bool" where
  "marks_safe w A \<longleftrightarrow> counts_ok w A \<and>
     wm_oldest_active_txn_id w \<le> least at_txn_id A \<and> wm_oldest_active_read_ts w \<le> least at_read_ts A \<and>
     wm_oldest_active_start_ts w \<le> least at_start_ts A \<and> wm_oldest_active_rw_read_ts w \<le> least at_read_ts (rw_only A) \<and>
     wm_oldest_active_rw_start_ts w \<le> least at_start_ts (rw_only A)"

definition marks_exact :: "txn_watermarks \<Rightarrow> active_txn multiset \<Rightarrow> bool" where
  "marks_exact w A \<longleftrightarrow> counts_ok w A \<and>
     wm_oldest_active_txn_id w = least at_txn_id A \<and> wm_oldest_active_read_ts w = least at_read_ts A \<and>
     wm_oldest_active_start_ts w = least at_start_ts A \<and> wm_oldest_active_rw_read_ts w = least at_read_ts (rw_only A) \<and>
     wm_oldest_active_rw_start_ts w = least at_start_ts (rw_only A)"

lemma marks_exact_safe: "marks_exact w A \<Longrightarrow> marks_safe w A"
  by (simp add: marks_exact_def marks_safe_def)

lemma lower_atomic_min_eq: "lower_atomic_min a b = min a b"
  by (auto simp: lower_atomic_min_def min_def)

lemma lower_watermarks_safe:
  assumes "marks_safe w A"
  shows "marks_safe (if rw then lower_rw_watermarks rts sts (lower_watermarks t rts sts w) else lower_watermarks t rts sts w)
    (add_mset \<lparr>at_txn_id = t, at_read_ts = rts, at_start_ts = sts, at_read_write = rw\<rparr> A)"
  using assms
  by (auto simp: marks_safe_def counts_ok_def lower_watermarks_def lower_rw_watermarks_def lower_atomic_min_eq
      min.coboundedI1)

lemma promote_watermarks_safe:
  assumes "marks_safe w (add_mset a A)" "\<not> at_read_write a"
  shows "marks_safe (lower_rw_watermarks (at_read_ts a) (at_start_ts a) w) (add_mset (a\<lparr>at_read_write := True\<rparr>) A)"
  using assms by (auto simp: marks_safe_def counts_ok_def lower_rw_watermarks_def lower_atomic_min_eq min.coboundedI1)

lemma release_watermarks_safe:
  assumes "marks_safe w (add_mset a A)"
    "w' = w\<lparr>wm_active_count := wm_active_count w - 1\<rparr>"
  shows "marks_safe (if at_read_write a then w'\<lparr>wm_active_rw_count := wm_active_rw_count w' - 1\<rparr> else w') A"
  using assms by (cases "at_read_write a") (auto simp: marks_safe_def counts_ok_def)

lemma scan_slots_exact:
  "marks_exact w A \<Longrightarrow> marks_exact (fold scan_slot ss w) (A + (\<Sum>s \<leftarrow> ss. slot_txns s))"
proof (induction ss arbitrary: w A)
  case (Cons s ss)
  have "marks_exact (scan_slot s w) (A + slot_txns s)"
    using Cons.prems by (auto simp: marks_exact_def counts_ok_def scan_slot_def slot_txns_def info_of_def Let_def)
  from Cons.IH [OF this] show ?case by (simp add: add.assoc)
qed simp

lemma scan_shard_exact: "marks_exact (scan_shard epoch shard) (\<Sum>s \<leftarrow> sh_slots shard. slot_txns s)"
  using scan_slots_exact [of "watermarks_none epoch" "{#}" "sh_slots shard"]
  by (simp add: scan_shard_def marks_exact_def counts_ok_def watermarks_none_def)

lemma merge_exact: "marks_exact s B \<Longrightarrow> marks_exact w A \<Longrightarrow> marks_exact (merge_watermarks s w) (A + B)"
  by (simp add: marks_exact_def counts_ok_def merge_watermarks_def)

lemma merge_shards_exact:
  "marks_exact w A \<Longrightarrow>
     marks_exact (fold (\<lambda>shard. merge_watermarks (scan_shard epoch shard)) shards w)
       (A + (\<Sum>shard \<leftarrow> shards. \<Sum>s \<leftarrow> sh_slots shard. slot_txns s))"
proof (induction shards arbitrary: w A)
  case (Cons shard shards)
  from Cons.IH [OF merge_exact [OF scan_shard_exact Cons.prems]] show ?case by (simp add: add.assoc)
qed simp

lemma scan_and_publish_exact:
  assumes "scan_and_publish rg = (rg', w)"
  shows "marks_exact w (table_items slot_txns (reg_table rg)) \<and> rg_watermarks rg' = w \<and> reg_table rg' = reg_table rg \<and>
    rg_dirty_epoch rg' = rg_dirty_epoch rg"
proof -
  let ?epoch = "wm_epoch (rg_watermarks rg) + 1"
  have "marks_exact (watermarks_none ?epoch) {#}"
    by (simp add: marks_exact_def counts_ok_def watermarks_none_def)
  from merge_shards_exact [OF this, of ?epoch "rg_shards rg"] assms show ?thesis
    by (auto simp: scan_and_publish_def Let_def table_items_alt reg_table_def comp_def fold_map)
qed

section \<open>The invariant\<close>

text \<open>The held handles are those given out and not released, each with its transaction.\<close>

type_synonym held_handles = "(slot_ref \<times> active_txn) list"

definition ref_pos :: "slot_ref \<Rightarrow> nat \<times> nat" where
  "ref_pos r = (sr_shard_index r, sr_slot_index r)"

text \<open>A slot that holds transaction \<open>a\<close> under handle \<open>r\<close>.\<close>

definition slot_holds :: "txn_slot \<Rightarrow> slot_ref \<Rightarrow> active_txn \<Rightarrow> bool" where
  "slot_holds s r a \<longleftrightarrow> sl_generation s = sr_generation r \<and> slot_active s \<and> info_of s = a \<and>
     (sl_state s = TS_ReadOnly \<longrightarrow> \<not> sl_is_read_write s) \<and> (sl_state s = TS_ReadWrite \<longrightarrow> sl_is_read_write s)"

interpretation active_reg: slot_registry reg_table slot_txns slot_holds ref_pos rg_dirty_epoch rg_confirmed_epoch
  "\<lambda>rg. marks_safe (rg_watermarks rg)" "\<lambda>rg. marks_exact (rg_watermarks rg)"
  by unfold_locales (auto simp: slot_holds_def slot_txns_def marks_exact_safe)

abbreviation ref_slot :: "txn_registry \<Rightarrow> slot_ref \<Rightarrow> txn_slot" where
  "ref_slot rg r \<equiv> sh_slots (rg_shards rg ! sr_shard_index r) ! sr_slot_index r"

lemma reg_table_simps [simp]:
  "length (reg_table rg) = length (rg_shards rg)" "reg_table (rg\<lparr>rg_watermarks := w\<rparr>) = reg_table rg"
  "reg_table (rg\<lparr>rg_next_shard := k\<rparr>) = reg_table rg" "reg_table (rg\<lparr>rg_dirty_epoch := d\<rparr>) = reg_table rg"
  "reg_table (rg\<lparr>rg_confirmed_epoch := d\<rparr>) = reg_table rg" "reg_table (mark_changed rg) = reg_table rg"
  by (simp_all add: reg_table_def mark_changed_def)

lemma reg_table_put_slot:
  "j < length (rg_shards rg) \<Longrightarrow> reg_table (put_slot rg j i s) = set_slot (reg_table rg) (j, i) s"
  by (simp add: reg_table_def put_slot_def set_slot_def map_update)

lemma reg_table_put_free:
  "j < length (rg_shards rg) \<Longrightarrow> reg_table (put_free rg j free) = set_free (reg_table rg) j free"
  by (simp add: reg_table_def put_free_def set_free_def map_update)

lemma reg_table_free: "j < length (rg_shards rg) \<Longrightarrow> table_free (reg_table rg) j = sh_free_slots (rg_shards rg ! j)"
  by (simp add: reg_table_def table_free_def)

lemma registry_fields [simp]:
  "rg_watermarks (put_slot rg j i s) = rg_watermarks rg" "rg_dirty_epoch (put_slot rg j i s) = rg_dirty_epoch rg"
  "rg_confirmed_epoch (put_slot rg j i s) = rg_confirmed_epoch rg" "length (rg_shards (put_slot rg j i s)) = length (rg_shards rg)"
  "rg_watermarks (put_free rg j fs) = rg_watermarks rg" "rg_dirty_epoch (put_free rg j fs) = rg_dirty_epoch rg"
  "rg_confirmed_epoch (put_free rg j fs) = rg_confirmed_epoch rg" "length (rg_shards (put_free rg j fs)) = length (rg_shards rg)"
  "rg_watermarks (mark_changed rg) = rg_watermarks rg" "rg_confirmed_epoch (mark_changed rg) = rg_confirmed_epoch rg"
  "rg_dirty_epoch (mark_changed rg) = rg_dirty_epoch rg + 1"
  by (simp_all add: put_slot_def put_free_def mark_changed_def)

lemma registry_new_ok:
  assumes "registry_new k l = Some rg"
  shows "active_reg.ok 0 rg []"
proof (rule active_reg.ok_new)
  have rg: "reg_table rg = replicate k (replicate l slot_empty, rev [0 ..< l])" "0 < k" "rg_watermarks rg = watermarks_none 0"
    "rg_dirty_epoch rg = 0" "rg_confirmed_epoch rg = - 1"
    using assms by (auto simp: registry_new_def shard_new_def reg_table_def split: if_splits)
  have empty: "slot_txns slot_empty = {#}" by (simp add: slot_txns_def slot_empty_def)
  show "reg_table rg \<noteq> []" "rg_dirty_epoch rg = 0" "rg_confirmed_epoch rg = - 1" using rg by simp_all
  show "free_ok slot_txns (reg_table rg)"
    unfolding rg by (auto simp: free_ok_def table_free_def in_table_def table_slot_def empty)
  show "table_items slot_txns (reg_table rg) = {#}"
    unfolding rg by (rule table_items_empty) (simp add: empty)
  show "marks_exact (rg_watermarks rg) {#}" unfolding rg by (simp add: marks_exact_def counts_ok_def watermarks_none_def)
qed

section \<open>Operations keep the invariant\<close>

text \<open>A handle that is held names a slot of its own generation.\<close>

lemma held_slot:
  assumes "active_reg.base rg (xs @ (r, a) # ys)"
  shows "find_slot rg r = Inr (ref_slot rg r)" "slot_holds (ref_slot rg r) r a" "sr_shard_index r < length (rg_shards rg)"
proof -
  have "active_reg.held_ok (reg_table rg) (xs @ (r, a) # ys)" using assms by (simp add: active_reg.base_def)
  note held = active_reg.held_okD [OF this, of r a, simplified]
  show j: "sr_shard_index r < length (rg_shards rg)" using held(1) by (simp add: in_table_def ref_pos_def)
  then have "table_slot (reg_table rg) (ref_pos r) = ref_slot rg r" by (simp add: table_slot_def ref_pos_def reg_table_def)
  with held(2) show holds: "slot_holds (ref_slot rg r) r a" by simp
  have "sr_slot_index r < length (sh_slots (rg_shards rg ! sr_shard_index r))"
    using held(1) j by (simp add: in_table_def ref_pos_def reg_table_def)
  with j holds show "find_slot rg r = Inr (ref_slot rg r)" by (auto simp: find_slot_def slot_holds_def Let_def)
qed

abbreviation txn_of :: "txn_id \<Rightarrow> read_ts \<Rightarrow> read_ts \<Rightarrow> bool \<Rightarrow> active_txn" where
  "txn_of t rts sts rw \<equiv> \<lparr>at_txn_id = t, at_read_ts = rts, at_start_ts = sts, at_read_write = rw\<rparr>"

abbreviation same_epochs :: "txn_registry \<Rightarrow> txn_registry \<Rightarrow> bool" where
  "same_epochs rg' rg \<equiv> rg_dirty_epoch rg' = rg_dirty_epoch rg \<and> rg_confirmed_epoch rg' = rg_confirmed_epoch rg"

lemma allocate_on_shard_ok:
  assumes base: "active_reg.base rg held" and out: "allocate_on_shard rg j t rts sts rw = (rg', Inr (Some r))"
  shows "active_reg.base rg' ((r, txn_of t rts sts rw) # held) \<and> same_epochs rg' rg"
proof -
  let ?free = "sh_free_slots (rg_shards rg ! j)"
  define s where "s = \<lparr>sl_generation = sr_generation r, sl_txn_id = t, sl_read_ts = rts, sl_start_ts = sts,
    sl_state = (if rw then TS_ReadWrite else TS_ReadOnly), sl_is_read_write = rw, sl_last_seen_epoch = wm_epoch (rg_watermarks rg)\<rparr>"
  define w where "w = (if rw then lower_rw_watermarks rts sts (lower_watermarks t rts sts (rg_watermarks rg))
    else lower_watermarks t rts sts (rg_watermarks rg))"
  have j: "j < length (rg_shards rg)" and free: "?free \<noteq> []" and r: "ref_pos r = (j, last ?free)"
    and rg': "rg' = (put_slot (put_free rg j (butlast ?free)) j (last ?free) s)\<lparr>rg_watermarks := w\<rparr>"
    using out by (auto simp: allocate_on_shard_def Let_def s_def w_def ref_pos_def split: if_splits)
  have "active_reg.base rg' ((r, txn_of t rts sts rw) # held)"
  proof (rule active_reg.base_allocate [OF base, where s = s and j = j])
    show "slot_holds s r (txn_of t rts sts rw)" by (simp add: s_def slot_holds_def info_of_def)
    show "reg_table rg' = set_slot (set_free (reg_table rg) j (butlast (table_free (reg_table rg) j))) (ref_pos r) s"
      using j by (simp add: rg' r reg_table_put_slot reg_table_put_free reg_table_free)
    show "marks_safe (rg_watermarks rg') (add_mset (txn_of t rts sts rw) (mset (map snd held)))"
      if "marks_safe (rg_watermarks rg) (mset (map snd held))"
      using lower_watermarks_safe [OF that] by (simp add: rg' w_def)
  qed (use j free r in \<open>simp_all add: reg_table_free\<close>)
  then show ?thesis by (simp add: rg')
qed

lemma allocate_on_shard_none:
  "allocate_on_shard rg j t rts sts rw = (rg', out) \<Longrightarrow> (\<And>r. out \<noteq> Inr (Some r)) \<Longrightarrow> rg' = rg"
  by (auto simp: allocate_on_shard_def Let_def split: if_splits)

lemma allocate_from_ok:
  assumes "active_reg.base rg held" "allocate_from rg js t rts sts rw = (rg', out)"
  shows "same_epochs rg' rg \<and>
    (case out of Inr r \<Rightarrow> active_reg.base rg' ((r, txn_of t rts sts rw) # held) | Inl err \<Rightarrow> rg' = rg)"
  using assms
proof (induction js)
  case (Cons j js)
  obtain rg1 res where step: "allocate_on_shard rg j t rts sts rw = (rg1, res)" by fastforce
  show ?case
  proof (cases "\<exists>r. res = Inr (Some r)")
    case True
    then obtain r where r: "res = Inr (Some r)" by blast
    with Cons.prems step have "rg' = rg1" "out = Inr r" by auto
    with allocate_on_shard_ok [OF Cons.prems(1) step [unfolded r]] show ?thesis by simp
  next
    case False
    then have "rg1 = rg" using allocate_on_shard_none [OF step] by blast
    with False Cons step show ?thesis by (cases res) (auto split: option.splits)
  qed
qed auto

lemma changed_ok:
  assumes "active_reg.base rg' held'" "same_epochs rg' rg" "active_reg.ok n rg held" "Suc n < 2 ^ 64 - 1"
  shows "active_reg.ok (Suc n) (mark_changed rg') held'"
proof (rule active_reg.ok_changed [OF assms(3) _ _ _ assms(4)])
  show "active_reg.base (mark_changed rg') held'" using assms(1) by (simp add: active_reg.base_def)
qed (use assms(2) in simp_all)

lemma next_shard_ok: "active_reg.ok n (rg\<lparr>rg_next_shard := k\<rparr>) held = active_reg.ok n rg held"
  by (simp add: active_reg.ok_def active_reg.base_def)

text \<open>The ways to register a transaction.\<close>

inductive register_call :: "txn_registry \<Rightarrow> active_txn \<Rightarrow> txn_registry \<times> (registry_error + slot_ref) \<Rightarrow> bool" where
  call_register: "register_call rg (txn_of t rts sts False) (register_active rg t rts sts)"
| call_with_read_ts: "register_call rg (txn_of t rts rts False) (register_with_read_ts rg t rts)"
| call_read_write: "register_call rg (txn_of t rts sts True) (register_read_write rg t rts sts)"
| call_on_shard: "register_call rg (txn_of t rts sts False) (try_register_on_shard rg j t rts sts)"
| call_read_write_on_shard: "register_call rg (txn_of t rts sts True) (try_register_read_write_on_shard rg j t rts sts)"

lemma register_inner_ok:
  assumes ok: "active_reg.ok n rg held" and n: "Suc n < 2 ^ 64 - 1"
    and out: "registered (register_inner rg t rts sts rw) = (rg', res)"
  shows "case res of Inr r \<Rightarrow> active_reg.ok (Suc n) rg' ((r, txn_of t rts sts rw) # held) | Inl err \<Rightarrow> active_reg.ok (Suc n) rg' held"
proof -
  let ?rg = "rg\<lparr>rg_next_shard := fetch_add (rg_next_shard rg) 1\<rparr>"
  have ok': "active_reg.ok n ?rg held" using ok by (simp add: next_shard_ok)
  obtain rg1 res1 where inner: "register_inner rg t rts sts rw = (rg1, res1)" by fastforce
  have "active_reg.base ?rg held" using ok' by (simp add: active_reg.ok_def)
  from allocate_from_ok [OF this inner [unfolded register_inner_def Let_def]]
  have step: "same_epochs rg1 ?rg \<and>
      (case res1 of Inr r \<Rightarrow> active_reg.base rg1 ((r, txn_of t rts sts rw) # held) | Inl err \<Rightarrow> rg1 = ?rg)" .
  show ?thesis
  proof (cases res1)
    case (Inl err)
    then show ?thesis using out inner step active_reg.ok_later [OF ok'] by (auto simp: registered_def)
  next
    case (Inr r)
    then show ?thesis using out inner step changed_ok [OF _ _ ok' n, of rg1] by (auto simp: registered_def)
  qed
qed

lemma on_shard_ok:
  assumes ok: "active_reg.ok n rg held" and n: "Suc n < 2 ^ 64 - 1"
    and out: "registered (slot_or_full (allocate_on_shard rg j t rts sts rw)) = (rg', res)"
  shows "case res of Inr r \<Rightarrow> active_reg.ok (Suc n) rg' ((r, txn_of t rts sts rw) # held) | Inl err \<Rightarrow> active_reg.ok (Suc n) rg' held"
proof -
  obtain rg1 res1 where step: "allocate_on_shard rg j t rts sts rw = (rg1, res1)" by fastforce
  have base: "active_reg.base rg held" using ok by (simp add: active_reg.ok_def)
  show ?thesis
  proof (cases "\<exists>r. res1 = Inr (Some r)")
    case True
    then obtain r where r: "res1 = Inr (Some r)" by blast
    from allocate_on_shard_ok [OF base step [unfolded r]] show ?thesis
      using out step r changed_ok [OF _ _ ok n, of rg1] by (auto simp: registered_def slot_or_full_def)
  next
    case False
    then have "rg1 = rg" using allocate_on_shard_none [OF step] by blast
    then show ?thesis using False out step active_reg.ok_later [OF ok]
      by (cases res1) (auto simp: registered_def slot_or_full_def split: option.splits)
  qed
qed

lemma register_call_ok:
  assumes "register_call rg a (rg', res)" "active_reg.ok n rg held" "Suc n < 2 ^ 64 - 1"
  shows "case res of Inr r \<Rightarrow> active_reg.ok (Suc n) rg' ((r, a) # held) | Inl err \<Rightarrow> active_reg.ok (Suc n) rg' held"
  using assms(1)
proof cases
  case (call_register t rts sts)
  then show ?thesis using register_inner_ok [OF assms(2,3)] by (metis register_active_def)
next
  case (call_with_read_ts t rts)
  then show ?thesis using register_inner_ok [OF assms(2,3)] by (metis register_with_read_ts_def)
next
  case (call_read_write t rts sts)
  then show ?thesis using register_inner_ok [OF assms(2,3)] by (metis register_read_write_def)
next
  case (call_on_shard t rts sts j)
  then show ?thesis using on_shard_ok [OF assms(2,3)] by (metis try_register_on_shard_def)
next
  case (call_read_write_on_shard t rts sts j)
  then show ?thesis using on_shard_ok [OF assms(2,3)] by (metis try_register_read_write_on_shard_def)
qed

text \<open>No operation on a held handle finds it stale.\<close>

lemma put_held:
  assumes base: "active_reg.base rg (xs @ (r, a) # ys)" and s: "slot_holds s r a'"
    and w: "\<And>A. marks_safe (rg_watermarks rg) (add_mset a A) \<Longrightarrow> marks_safe w (add_mset a' A)"
  shows "active_reg.base ((put_slot rg (sr_shard_index r) (sr_slot_index r) s)\<lparr>rg_watermarks := w\<rparr>) (xs @ (r, a') # ys)"
  using held_slot(3) [OF base] w
  by (intro active_reg.base_change [OF base s]) (simp_all add: reg_table_put_slot ref_pos_def)

lemma put_held_same:
  assumes "active_reg.ok n rg (xs @ (r, a) # ys)" "slot_holds s r a"
  shows "active_reg.ok (Suc n) (put_slot rg (sr_shard_index r) (sr_slot_index r) s) (xs @ (r, a) # ys)"
proof (rule active_reg.ok_unchanged [OF assms(1)])
  have base: "active_reg.base rg (xs @ (r, a) # ys)" using assms(1) by (simp add: active_reg.ok_def)
  show "active_reg.base (put_slot rg (sr_shard_index r) (sr_slot_index r) s) (xs @ (r, a) # ys)"
    using put_held [OF base assms(2), of "rg_watermarks rg"] by (simp add: active_reg.base_def)
qed simp_all

lemma promote_ok:
  assumes ok: "active_reg.ok n rg (xs @ (r, a) # ys)" and n: "Suc n < 2 ^ 64 - 1" and out: "promote_slot rg r = (rg', res)"
  shows "case res of Inr u \<Rightarrow> active_reg.ok (Suc n) rg' (xs @ (r, a\<lparr>at_read_write := True\<rparr>) # ys)
    | Inl err \<Rightarrow> err = InvalidState \<and> active_reg.ok (Suc n) rg' (xs @ (r, a) # ys)"
proof -
  let ?s = "ref_slot rg r"
  let ?seen = "?s\<lparr>sl_is_read_write := True, sl_last_seen_epoch := wm_epoch (rg_watermarks rg)\<rparr>"
  have base: "active_reg.base rg (xs @ (r, a) # ys)" using ok by (simp add: active_reg.ok_def)
  note r = held_slot [OF base]
  show ?thesis
  proof (cases "sl_state ?s")
    case TS_ReadWrite
    then have "a\<lparr>at_read_write := True\<rparr> = a" "slot_holds ?seen r a"
      using r(2) by (auto simp: slot_holds_def info_of_def)
    with out r(1) TS_ReadWrite put_held_same [OF ok] show ?thesis by (auto simp: promote_slot_def)
  next
    case TS_ReadOnly
    let ?a = "a\<lparr>at_read_write := True\<rparr>"
    let ?w = "lower_rw_watermarks (sl_read_ts ?s) (sl_start_ts ?s) (rg_watermarks rg)"
    have s: "slot_holds (?seen\<lparr>sl_state := TS_ReadWrite\<rparr>) r ?a" "\<not> at_read_write a"
      "sl_read_ts ?s = at_read_ts a" "sl_start_ts ?s = at_start_ts a"
      using TS_ReadOnly r(2) by (auto simp: slot_holds_def info_of_def)
    have "active_reg.base ((put_slot rg (sr_shard_index r) (sr_slot_index r) (?seen\<lparr>sl_state := TS_ReadWrite\<rparr>))\<lparr>rg_watermarks := ?w\<rparr>)
        (xs @ (r, ?a) # ys)"
      by (rule put_held [OF base s(1)]) (simp add: s promote_watermarks_safe)
    from changed_ok [OF this _ ok n] show ?thesis using out r(1) TS_ReadOnly by (auto simp: promote_slot_def)
  qed (use out r(1,2) active_reg.ok_later [OF ok] in \<open>auto simp: promote_slot_def slot_holds_def\<close>)
qed

lemma freeze_ok:
  assumes ok: "active_reg.ok n rg (xs @ (r, a) # ys)"
  shows "\<exists>rg'. freeze_slot rg r = (rg', Inr ()) \<and> active_reg.ok (Suc n) rg' (xs @ (r, a) # ys)"
proof -
  have "active_reg.base rg (xs @ (r, a) # ys)" using ok by (simp add: active_reg.ok_def)
  note r = held_slot [OF this]
  show ?thesis using put_held_same [OF ok, of "ref_slot rg r\<lparr>sl_state := TS_Frozen\<rparr>"] r(1,2)
    by (auto simp: freeze_slot_def slot_holds_def info_of_def)
qed

lemma release_ok:
  assumes ok: "active_reg.ok n rg (xs @ (r, a) # ys)" and n: "Suc n < 2 ^ 64 - 1"
  shows "\<exists>rg'. release_slot rg r = (rg', Inr ()) \<and> active_reg.ok (Suc n) rg' (xs @ ys)"
proof -
  let ?j = "sr_shard_index r" and ?i = "sr_slot_index r" and ?s = "ref_slot rg r"
  have base: "active_reg.base rg (xs @ (r, a) # ys)" using ok by (simp add: active_reg.ok_def)
  note r = held_slot [OF base]
  define s where "s = ?s\<lparr>sl_is_read_write := False, sl_txn_id := 0, sl_read_ts := MAX_TRANSACTION_ID,
    sl_start_ts := MAX_TRANSACTION_ID, sl_last_seen_epoch := wm_epoch (rg_watermarks rg), sl_state := TS_Empty\<rparr>"
  define rg1 where "rg1 = put_slot rg ?j ?i s"
  define rg2 where "rg2 = put_free rg1 ?j (sh_free_slots (rg_shards rg1 ! ?j) @ [?i])"
  define w where "w = (rg_watermarks rg)\<lparr>wm_active_count := wm_active_count (rg_watermarks rg) - 1\<rparr>"
  define w' where "w' = (if sl_is_read_write ?s then w\<lparr>wm_active_rw_count := wm_active_rw_count w - 1\<rparr> else w)"
  have out: "release_slot rg r = (mark_changed (rg2\<lparr>rg_watermarks := w'\<rparr>), Inr ())"
    using r(1,2) by (auto simp: release_slot_def Let_def slot_holds_def s_def rg1_def rg2_def w_def w'_def)
  have "active_reg.base (rg2\<lparr>rg_watermarks := w'\<rparr>) (xs @ ys)"
  proof (rule active_reg.base_release [OF base])
    show "slot_txns s = {#}" by (simp add: slot_txns_def s_def)
    show "ref_pos r = (?j, ?i)" by (simp add: ref_pos_def)
    show "reg_table (rg2\<lparr>rg_watermarks := w'\<rparr>) =
        set_free (set_slot (reg_table rg) (ref_pos r) s) ?j (table_free (reg_table rg) ?j @ [?i])"
      using r(3) by (simp add: rg2_def rg1_def ref_pos_def reg_table_put_free reg_table_put_slot reg_table_free
          flip: reg_table_free [of ?j rg1, unfolded rg1_def])
    show "marks_safe (rg_watermarks (rg2\<lparr>rg_watermarks := w'\<rparr>)) A" if "marks_safe (rg_watermarks rg) (add_mset a A)" for A
      using release_watermarks_safe [OF that w_def] r(2) by (auto simp: w'_def slot_holds_def info_of_def)
  qed
  from changed_ok [OF this _ ok n] out show ?thesis by (simp add: rg2_def rg1_def)
qed

lemma scan_and_confirm_ok:
  assumes ok: "active_reg.ok n rg held" and out: "scan_and_confirm rg = (rg', w)"
  shows "active_reg.ok (Suc n) rg' held \<and> rg_confirmed_epoch rg' = rg_dirty_epoch rg' \<and> rg_watermarks rg' = w"
proof -
  obtain rg1 where scan: "scan_and_publish rg = (rg1, w)" and rg': "rg' = rg1\<lparr>rg_confirmed_epoch := rg_dirty_epoch rg1\<rparr>"
    using out by (auto simp: scan_and_confirm_def split: prod.splits)
  from scan_and_publish_exact [OF scan] show ?thesis using active_reg.ok_scanned [OF ok, of rg'] by (simp add: rg')
qed

lemma confirmed_scan_ok:
  assumes "active_reg.ok n rg held" "confirmed_scan_and_publish rg = (rg', w)"
  shows "active_reg.ok (Suc n) rg' held \<and> rg_confirmed_epoch rg' = rg_dirty_epoch rg' \<and> rg_watermarks rg' = w"
  using assms scan_and_confirm_ok [OF assms(1), of rg' w] active_reg.ok_later [OF assms(1)]
  by (auto simp: confirmed_scan_and_publish_def split: if_splits)

section \<open>Runs\<close>

inductive registry_step :: "txn_registry \<times> held_handles \<Rightarrow> txn_registry \<times> held_handles \<Rightarrow> bool" where
  step_register: "register_call rg a (rg', Inr r) \<Longrightarrow> registry_step (rg, held) (rg', (r, a) # held)"
| step_register_refused: "register_call rg a (rg', Inl err) \<Longrightarrow> registry_step (rg, held) (rg', held)"
| step_promote: "promote_slot rg r = (rg', Inr ()) \<Longrightarrow>
    registry_step (rg, xs @ (r, a) # ys) (rg', xs @ (r, a\<lparr>at_read_write := True\<rparr>) # ys)"
| step_promote_refused: "promote_slot rg r = (rg', Inl err) \<Longrightarrow>
    registry_step (rg, xs @ (r, a) # ys) (rg', xs @ (r, a) # ys)"
| step_freeze: "freeze_slot rg r = (rg', out) \<Longrightarrow> registry_step (rg, xs @ (r, a) # ys) (rg', xs @ (r, a) # ys)"
| step_release: "release_slot rg r = (rg', out) \<Longrightarrow> registry_step (rg, xs @ (r, a) # ys) (rg', xs @ ys)"
| step_refresh: "scan_and_confirm rg = (rg', w) \<Longrightarrow> registry_step (rg, held) (rg', held)"
| step_confirm: "confirmed_scan_and_publish rg = (rg', w) \<Longrightarrow> registry_step (rg, held) (rg', held)"

lemma registry_step_ok:
  assumes "registry_step (rg, held) (rg', held')" "active_reg.ok n rg held" "Suc n < 2 ^ 64 - 1"
  shows "active_reg.ok (Suc n) rg' held'"
  using assms(1)
proof cases
  case (step_register a r)
  then show ?thesis using register_call_ok [OF _ assms(2,3)] by fastforce
next
  case (step_register_refused a err)
  then show ?thesis using register_call_ok [OF _ assms(2,3)] by fastforce
next
  case (step_promote r xs a ys)
  then show ?thesis using promote_ok [OF _ assms(3)] assms(2) by fastforce
next
  case (step_promote_refused r err xs a ys)
  then show ?thesis using promote_ok [OF _ assms(3)] assms(2) by fastforce
next
  case (step_freeze r out xs a ys)
  then show ?thesis using freeze_ok [of n rg xs r a ys] assms(2) by fastforce
next
  case (step_release r out xs a ys)
  then show ?thesis using release_ok [of n rg xs r a ys] assms(2,3) by fastforce
next
  case (step_refresh w)
  then show ?thesis using scan_and_confirm_ok [OF assms(2)] by blast
next
  case (step_confirm w)
  then show ?thesis using confirmed_scan_ok [OF assms(2)] by blast
qed

lemma registry_run_ok:
  assumes "(registry_step ^^ n) (rg0, []) (rg, held)" "registry_new shards slots = Some rg0" "n < 2 ^ 64 - 1"
  shows "active_reg.ok n rg held"
  using assms(1,3)
proof (induction n arbitrary: rg held)
  case 0
  then show ?case using registry_new_ok [OF assms(2)] by simp
next
  case (Suc n)
  from Suc.prems(1) obtain rg1 held1 where "(registry_step ^^ n) (rg0, []) (rg1, held1)" "registry_step (rg1, held1) (rg, held)"
    by auto
  with Suc registry_step_ok show ?case by (meson Suc_lessD)
qed

lemma least_le: "a \<in># A \<Longrightarrow> least f A \<le> f a"
  by (simp add: least_def)

lemma marks_safe_below:
  assumes "marks_safe w A" "a \<in># A"
  shows "wm_oldest_active_txn_id w \<le> at_txn_id a" "wm_oldest_active_read_ts w \<le> at_read_ts a"
    "wm_oldest_active_start_ts w \<le> at_start_ts a"
    "at_read_write a \<Longrightarrow> wm_oldest_active_rw_read_ts w \<le> at_read_ts a"
  using assms least_le [of a A] least_le [of a "rw_only A"] by (auto simp: marks_safe_def intro: order_trans)

section \<open>Properties\<close>

text \<open>\<^bold>\<open>C28.\<close> In every state the registry reaches before its epoch counter wraps, with any interleaving of
  registrations, promotions, freezes, releases and scans: the cached watermarks are at or below the snapshot
  of every transaction whose handle is held (and the read-write watermark at or below every read-write
  one's), the confirmed watermarks are exactly the minima and counts over the held handles, no two handles
  share a slot, and every held handle can be released.\<close>

theorem registry_watermarks_sound:
  assumes "registry_new shards slots = Some rg0" "(registry_step ^^ n) (rg0, []) (rg, held)" "n < 2 ^ 64 - 2"
  shows "(\<forall>(r, a) \<in> set held.
       wm_oldest_active_txn_id (rg_watermarks rg) \<le> at_txn_id a \<and> wm_oldest_active_read_ts (rg_watermarks rg) \<le> at_read_ts a \<and>
       wm_oldest_active_start_ts (rg_watermarks rg) \<le> at_start_ts a \<and>
       (at_read_write a \<longrightarrow> wm_oldest_active_rw_read_ts (rg_watermarks rg) \<le> at_read_ts a) \<and>
       (\<exists>rg'. release_slot rg r = (rg', Inr ()))) \<and>
    marks_exact (snd (confirmed_scan_and_publish rg)) (mset (map snd held)) \<and>
    distinct (map (ref_pos \<circ> fst) held)"
proof -
  have ok: "active_reg.ok n rg held" using registry_run_ok [OF assms(2,1)] assms(3) by simp
  then have base: "active_reg.base rg held" by (simp add: active_reg.ok_def)
  have "wm_oldest_active_txn_id (rg_watermarks rg) \<le> at_txn_id a \<and> wm_oldest_active_read_ts (rg_watermarks rg) \<le> at_read_ts a \<and>
      wm_oldest_active_start_ts (rg_watermarks rg) \<le> at_start_ts a \<and>
      (at_read_write a \<longrightarrow> wm_oldest_active_rw_read_ts (rg_watermarks rg) \<le> at_read_ts a) \<and>
      (\<exists>rg'. release_slot rg r = (rg', Inr ()))" if ra: "(r, a) \<in> set held" for r a
  proof -
    obtain xs ys where "held = xs @ (r, a) # ys" using ra by (meson split_list)
    then have "\<exists>rg'. release_slot rg r = (rg', Inr ())" using release_ok [of n rg xs r a ys] ok assms(3) by auto
    moreover have "marks_safe (rg_watermarks rg) (mset (map snd held))" "a \<in># mset (map snd held)"
      using base ra by (simp add: active_reg.base_def, force)
    note marks_safe_below [OF this]
    ultimately show ?thesis by blast
  qed
  moreover obtain rg' w where scan: "confirmed_scan_and_publish rg = (rg', w)" by fastforce
  moreover have "marks_exact w (mset (map snd held))"
    using confirmed_scan_ok [OF ok scan] by (auto simp: active_reg.ok_def)
  moreover have "distinct (map (ref_pos \<circ> fst) held)"
    using base by (simp add: active_reg.base_def active_reg.held_ok_def)
  ultimately show ?thesis by auto
qed

definition demo_registry :: txn_registry where
  "demo_registry = the (registry_new 1 2)"

definition demo_after :: txn_registry where
  "demo_after = fst (promote_slot (fst (register_active demo_registry 7 5 5)) \<lparr>sr_shard_index = 0, sr_slot_index = 0, sr_generation = 1\<rparr>)"

theorem registry_watermarks_sound_witness:
  "(registry_step ^^ 2) (demo_registry, [])
      (demo_after, [(\<lparr>sr_shard_index = 0, sr_slot_index = 0, sr_generation = 1\<rparr>, txn_of 7 5 5 True)]) \<and>
    wm_oldest_active_rw_read_ts (rg_watermarks demo_after) \<le> 5"
proof -
  let ?r = "\<lparr>sr_shard_index = 0, sr_slot_index = 0, sr_generation = 1\<rparr>"
  let ?rg = "fst (register_active demo_registry 7 5 5)"
  note eval = demo_after_def demo_registry_def registry_new_def shard_new_def register_active_def registered_def register_inner_def
    allocate_on_shard_def promote_slot_def find_slot_def put_slot_def put_free_def slot_empty_def mark_changed_def Let_def numeral_2_eq_2
  have new: "registry_new 1 2 = Some demo_registry" by (simp add: eval)
  have "register_active demo_registry 7 5 5 = (?rg, Inr ?r)" by (simp add: eval)
  then have "register_call demo_registry (txn_of 7 5 5 False) (?rg, Inr ?r)" by (metis call_register)
  from step_register [OF this, of "[]"] have one: "registry_step (demo_registry, []) (?rg, [(?r, txn_of 7 5 5 False)])" .
  have "promote_slot ?rg ?r = (demo_after, Inr ())" by (simp add: eval)
  from step_promote [OF this, of "[]" "txn_of 7 5 5 False" "[]"]
  have two: "registry_step (?rg, [(?r, txn_of 7 5 5 False)]) (demo_after, [(?r, txn_of 7 5 5 True)])" by simp
  from one two have run: "(registry_step ^^ 2) (demo_registry, []) (demo_after, [(?r, txn_of 7 5 5 True)])"
    by (auto simp: numeral_2_eq_2)
  from registry_watermarks_sound [OF new run] show ?thesis using run by simp
qed

end
