(* ===== verification/Predicate_Reads.thy ===== *)
theory Predicate_Reads
  imports Read_Dependency
begin

text \<open>
  Predicate normalisation (\<open>predicate.rs\<close>): a scan predicate becomes the read dependency its
  transaction records, or none when the normaliser finds that no row can satisfy it.  The lemmas give
  predicates a meaning on rows and show that the normaliser never loses a row.
\<close>

section \<open>Predicates\<close>

datatype predicate_value = PV_Null | PV_Bool bool | PV_I64 "64 word" | PV_U64 u64 | PV_Bytes "u8 list"

text \<open>The derived order: by constructor first, then by contents; \<open>i64\<close> is signed.\<close>

fun value_key :: "predicate_value \<Rightarrow> int list" where
  "value_key PV_Null = [0]"
| "value_key (PV_Bool b) = [1, of_bool b]"
| "value_key (PV_I64 i) = [2, sint i]"
| "value_key (PV_U64 u) = [3, uint u]"
| "value_key (PV_Bytes bs) = 4 # map uint bs"

lemma sint_inject: "sint a = sint b \<longleftrightarrow> a = b"
  by (metis scast_id scast_eq)

lemma value_key_inject: "value_key a = value_key b \<longleftrightarrow> a = b"
proof
  assume "value_key a = value_key b"
  then show "a = b"
    by (cases a; cases b) (auto simp: word_uint_eq_iff sint_inject inj_map_eq_map inj_def)
qed simp

instantiation predicate_value :: linorder
begin

definition less_eq_predicate_value :: "predicate_value \<Rightarrow> predicate_value \<Rightarrow> bool" where
  "less_eq_predicate_value a b \<longleftrightarrow> value_key a \<le> value_key b"

definition less_predicate_value :: "predicate_value \<Rightarrow> predicate_value \<Rightarrow> bool" where
  "less_predicate_value a b \<longleftrightarrow> value_key a < value_key b"

instance
proof
  fix a b c :: predicate_value
  show "(a < b) = (a \<le> b \<and> \<not> b \<le> a)"
    by (auto simp: less_predicate_value_def less_eq_predicate_value_def)
  show "a \<le> a" by (simp add: less_eq_predicate_value_def)
  show "a \<le> b \<Longrightarrow> b \<le> c \<Longrightarrow> a \<le> c" by (simp add: less_eq_predicate_value_def)
  show "a \<le> b \<Longrightarrow> b \<le> a \<Longrightarrow> a = b"
    by (simp add: less_eq_predicate_value_def flip: value_key_inject)
  show "a \<le> b \<or> b \<le> a" by (auto simp: less_eq_predicate_value_def)
qed

end

record predicate_bound =
  pb_value :: predicate_value
  pb_inclusive :: bool

datatype predicate_atom =
  PA_Equals u32 predicate_value
| PA_Range u32 "predicate_bound option" "predicate_bound option"
| PA_IsNull u32

datatype predicate_expr =
  PE_True | PE_False | PE_Atom predicate_atom | PE_And "predicate_expr list" | PE_Or "predicate_expr list" | PE_Unsupported

datatype fallback_scope = Fallback_Table | Fallback_Tablet u64

datatype predicate_term =
  PT_Equals u32 predicate_value
| PT_Range u32 "predicate_bound option" "predicate_bound option"
| PT_IsNull u32
| PT_OrBranch u64

record normalized_predicate =
  np_table_id :: tbl_id
  np_predicate_hash :: u64
  np_terms :: "predicate_term list"

datatype normalized_read = NR_NoRows | NR_Exact normalized_predicate | NR_Coarse read_dependency

datatype normalized_expr = NE_NoRows | NE_AllRows | NE_Exact "predicate_term list" | NE_Unsupported

text \<open>The derived order of terms, as a key compared lexicographically.\<close>

fun bound_key :: "predicate_bound option \<Rightarrow> int list list" where
  "bound_key None = [[0]]"
| "bound_key (Some b) = [[1], value_key (pb_value b), [of_bool (pb_inclusive b)]]"

fun term_key :: "predicate_term \<Rightarrow> int list list" where
  "term_key (PT_Equals c v) = [[0, uint c], value_key v]"
| "term_key (PT_Range c lo up) = [1, uint c] # bound_key lo @ bound_key up"
| "term_key (PT_IsNull c) = [[2, uint c]]"
| "term_key (PT_OrBranch p) = [[3, uint p]]"

definition sort_dedup_terms :: "predicate_term list \<Rightarrow> predicate_term list" where
  "sort_dedup_terms ts = remdups_adj (sort_key term_key ts)"

section \<open>The stable hash\<close>

definition FNV_OFFSET :: u64 where
  "FNV_OFFSET = 0xcbf29ce484222325"

definition FNV_PRIME :: u64 where
  "FNV_PRIME = 0x100000001b3"

unbundle bit_operations_syntax

definition write_u8 :: "u8 \<Rightarrow> u64 \<Rightarrow> u64" where
  "write_u8 v h = (h XOR ucast v) * FNV_PRIME"

definition to_le_bytes :: "u64 \<Rightarrow> u8 list" where
  "to_le_bytes v = map (\<lambda>i. ucast (drop_bit (8 * i) v)) [0 ..< 8]"

definition write_bytes :: "u8 list \<Rightarrow> u64 \<Rightarrow> u64" where
  "write_bytes bs h = fold write_u8 bs h"

definition write_u64 :: "u64 \<Rightarrow> u64 \<Rightarrow> u64" where
  "write_u64 v h = fold write_u8 (to_le_bytes v) h"

fun hash_value :: "predicate_value \<Rightarrow> u64 \<Rightarrow> u64" where
  "hash_value PV_Null h = write_u8 0 h"
| "hash_value (PV_Bool b) h = write_u8 (of_bool b) (write_u8 1 h)"
| "hash_value (PV_I64 i) h = write_u64 i (write_u8 2 h)"
| "hash_value (PV_U64 u) h = write_u64 u (write_u8 3 h)"
| "hash_value (PV_Bytes bs) h = write_bytes bs (write_u64 (of_nat (length bs)) (write_u8 4 h))"

fun hash_bound :: "predicate_bound option \<Rightarrow> u64 \<Rightarrow> u64" where
  "hash_bound (Some b) h = hash_value (pb_value b) (write_u8 (of_bool (pb_inclusive b)) (write_u8 1 h))"
| "hash_bound None h = write_u8 0 h"

fun hash_term :: "predicate_term \<Rightarrow> u64 \<Rightarrow> u64" where
  "hash_term (PT_Equals c v) h = hash_value v (write_u64 (ucast c) (write_u8 1 h))"
| "hash_term (PT_Range c lo up) h = hash_bound up (hash_bound lo (write_u64 (ucast c) (write_u8 2 h)))"
| "hash_term (PT_IsNull c) h = write_u64 (ucast c) (write_u8 3 h)"
| "hash_term (PT_OrBranch p) h = write_u64 p (write_u8 4 h)"

definition hash_terms :: "tbl_id \<Rightarrow> predicate_term list \<Rightarrow> u64" where
  "hash_terms t ts = fold hash_term ts (write_u64 (of_nat (length ts)) (write_u64 t (write_u8 1 FNV_OFFSET)))"

section \<open>Normalisation\<close>

fun strongest_lower :: "predicate_bound option \<Rightarrow> predicate_bound option \<Rightarrow> predicate_bound option" where
  "strongest_lower None b = b"
| "strongest_lower b None = b"
| "strongest_lower (Some l) (Some r) =
     (if pb_value l < pb_value r \<or> pb_value r = pb_value l \<and> \<not> pb_inclusive r then Some r else Some l)"

fun strongest_upper :: "predicate_bound option \<Rightarrow> predicate_bound option \<Rightarrow> predicate_bound option" where
  "strongest_upper None b = b"
| "strongest_upper b None = b"
| "strongest_upper (Some l) (Some r) =
     (if pb_value r < pb_value l \<or> pb_value r = pb_value l \<and> \<not> pb_inclusive r then Some r else Some l)"

fun range_is_contradictory :: "predicate_bound option \<Rightarrow> predicate_bound option \<Rightarrow> bool" where
  "range_is_contradictory (Some lo) (Some up) \<longleftrightarrow>
     pb_value up < pb_value lo \<or> pb_value lo = pb_value up \<and> (\<not> pb_inclusive lo \<or> \<not> pb_inclusive up)"
| "range_is_contradictory _ _ \<longleftrightarrow> False"

record column_range =
  cr_lower :: "predicate_bound option"
  cr_upper :: "predicate_bound option"

text \<open>The loop of \<open>merge_conjunctive_terms\<close>; the \<open>BTreeMap\<close> of ranges is an association list read in
  the order of its keys at the end.\<close>

fun merge_loop :: "predicate_term list \<Rightarrow> (u32 \<times> column_range) list \<Rightarrow> predicate_term list \<Rightarrow> normalized_expr" where
  "merge_loop merged ranges [] =
     NE_Exact (merged @ map (\<lambda>(c, r). PT_Range c (cr_lower r) (cr_upper r)) (sort_key fst ranges))"
| "merge_loop merged ranges (PT_Range c lo up # ts) =
     (let r = (case map_of ranges c of Some r \<Rightarrow> r | None \<Rightarrow> \<lparr>cr_lower = None, cr_upper = None\<rparr>);
          r' = \<lparr>cr_lower = strongest_lower (cr_lower r) lo, cr_upper = strongest_upper (cr_upper r) up\<rparr>
      in if range_is_contradictory (cr_lower r') (cr_upper r') then NE_NoRows
         else merge_loop merged (AList.update c r' ranges) ts)"
| "merge_loop merged ranges (other # ts) = merge_loop (merged @ [other]) ranges ts"

definition merge_conjunctive_terms :: "predicate_term list \<Rightarrow> normalized_expr" where
  "merge_conjunctive_terms ts = merge_loop [] [] ts"

fun normalize_atom :: "predicate_atom \<Rightarrow> normalized_expr" where
  "normalize_atom (PA_Equals c v) = NE_Exact [PT_Equals c v]"
| "normalize_atom (PA_Range c lo up) = (if range_is_contradictory lo up then NE_NoRows else NE_Exact [PT_Range c lo up])"
| "normalize_atom (PA_IsNull c) = NE_Exact [PT_IsNull c]"

text \<open>The loops over the children of a conjunction and of a disjunction, with the normal forms of the
  children in order.\<close>

fun normalize_and :: "predicate_term list \<Rightarrow> normalized_expr list \<Rightarrow> normalized_expr" where
  "normalize_and ts [] = (if ts = [] then NE_AllRows else merge_conjunctive_terms ts)"
| "normalize_and ts (NE_NoRows # es) = NE_NoRows"
| "normalize_and ts (NE_AllRows # es) = normalize_and ts es"
| "normalize_and ts (NE_Exact us # es) = normalize_and (ts @ us) es"
| "normalize_and ts (NE_Unsupported # es) = NE_Unsupported"

fun normalize_or :: "u64 list \<Rightarrow> normalized_expr list \<Rightarrow> normalized_expr" where
  "normalize_or hs [] = (if hs = [] then NE_NoRows else NE_Exact (map PT_OrBranch (sort_dedup hs)))"
| "normalize_or hs (NE_NoRows # es) = normalize_or hs es"
| "normalize_or hs (NE_AllRows # es) = NE_AllRows"
| "normalize_or hs (NE_Exact us # es) = normalize_or (hs @ [hash_terms 0 (sort_dedup_terms us)]) es"
| "normalize_or hs (NE_Unsupported # es) = NE_Unsupported"

primrec normalize_expr :: "predicate_expr \<Rightarrow> normalized_expr" where
  "normalize_expr PE_True = NE_AllRows"
| "normalize_expr PE_False = NE_NoRows"
| "normalize_expr (PE_Atom a) = normalize_atom a"
| "normalize_expr (PE_And cs) = normalize_and [] (map normalize_expr cs)"
| "normalize_expr (PE_Or cs) = normalize_or [] (map normalize_expr cs)"
| "normalize_expr PE_Unsupported = NE_Unsupported"

fun fallback_dependency :: "tbl_id \<Rightarrow> fallback_scope \<Rightarrow> read_dependency" where
  "fallback_dependency t Fallback_Table = RD_Table t"
| "fallback_dependency t (Fallback_Tablet b) = RD_Tablet t b 0 0 0"

definition normalize_predicate :: "tbl_id \<Rightarrow> fallback_scope \<Rightarrow> predicate_expr \<Rightarrow> normalized_read" where
  "normalize_predicate t fb e =
     (case normalize_expr e of
        NE_NoRows \<Rightarrow> NR_NoRows
      | NE_AllRows \<Rightarrow> NR_Coarse (fallback_dependency t fb)
      | NE_Exact ts \<Rightarrow>
          (let us = sort_dedup_terms ts
           in NR_Exact \<lparr>np_table_id = t, np_predicate_hash = hash_terms t us, np_terms = us\<rparr>)
      | NE_Unsupported \<Rightarrow> NR_Coarse (fallback_dependency t fb))"

definition np_read_dependency :: "normalized_predicate \<Rightarrow> read_dependency" where
  "np_read_dependency p = RD_Predicate (np_table_id p) (np_predicate_hash p)"

definition normalize_to_dependency :: "tbl_id \<Rightarrow> fallback_scope \<Rightarrow> predicate_expr \<Rightarrow> read_dependency option" where
  "normalize_to_dependency t fb e =
     (case normalize_predicate t fb e of
        NR_NoRows \<Rightarrow> None
      | NR_Exact p \<Rightarrow> Some (np_read_dependency p)
      | NR_Coarse d \<Rightarrow> Some d)"

section \<open>What a predicate means\<close>

text \<open>A row gives each column a value; \<open>u\<close> stands for what an unsupported predicate selects.\<close>

type_synonym row_values = "u32 \<Rightarrow> predicate_value"

fun meets_lower :: "predicate_bound option \<Rightarrow> predicate_value \<Rightarrow> bool" where
  "meets_lower None v = True"
| "meets_lower (Some b) v = (pb_value b < v \<or> pb_inclusive b \<and> pb_value b = v)"

fun meets_upper :: "predicate_bound option \<Rightarrow> predicate_value \<Rightarrow> bool" where
  "meets_upper None v = True"
| "meets_upper (Some b) v = (v < pb_value b \<or> pb_inclusive b \<and> v = pb_value b)"

fun atom_holds :: "predicate_atom \<Rightarrow> row_values \<Rightarrow> bool" where
  "atom_holds (PA_Equals c v) row = (row c = v)"
| "atom_holds (PA_Range c lo up) row = (meets_lower lo (row c) \<and> meets_upper up (row c))"
| "atom_holds (PA_IsNull c) row = (row c = PV_Null)"

primrec selects :: "(row_values \<Rightarrow> bool) \<Rightarrow> predicate_expr \<Rightarrow> row_values \<Rightarrow> bool" where
  "selects u PE_True row = True"
| "selects u PE_False row = False"
| "selects u (PE_Atom a) row = atom_holds a row"
| "selects u (PE_And cs) row = list_all (\<lambda>c. c) (map (\<lambda>c. selects u c row) cs)"
| "selects u (PE_Or cs) row = list_ex (\<lambda>c. c) (map (\<lambda>c. selects u c row) cs)"
| "selects u PE_Unsupported row = u row"

text \<open>What a term requires; a branch of a disjunction is kept as a hash and requires nothing.\<close>

fun term_holds :: "row_values \<Rightarrow> predicate_term \<Rightarrow> bool" where
  "term_holds row (PT_Equals c v) = (row c = v)"
| "term_holds row (PT_Range c lo up) = (meets_lower lo (row c) \<and> meets_upper up (row c))"
| "term_holds row (PT_IsNull c) = (row c = PV_Null)"
| "term_holds row (PT_OrBranch _) = True"

primrec or_free :: "predicate_expr \<Rightarrow> bool" where
  "or_free PE_True = True"
| "or_free PE_False = True"
| "or_free (PE_Atom _) = True"
| "or_free (PE_And cs) = list_all (\<lambda>c. c) (map or_free cs)"
| "or_free (PE_Or _) = False"
| "or_free PE_Unsupported = True"

section \<open>The normaliser loses no row\<close>

lemma lower_strongest: "meets_lower (strongest_lower a b) v \<longleftrightarrow> meets_lower a v \<and> meets_lower b v"
  by (cases a; cases b) auto

lemma upper_strongest: "meets_upper (strongest_upper a b) v \<longleftrightarrow> meets_upper a v \<and> meets_upper b v"
  by (cases a; cases b) auto

lemma contradictory_empty: "range_is_contradictory lo up \<Longrightarrow> meets_lower lo v \<Longrightarrow> \<not> meets_upper up v"
  by (cases lo; cases up) auto

definition in_range :: "row_values \<Rightarrow> u32 \<times> column_range \<Rightarrow> bool" where
  "in_range row cr = (meets_lower (cr_lower (snd cr)) (row (fst cr)) \<and> meets_upper (cr_upper (snd cr)) (row (fst cr)))"

lemma in_ranges_map_of:
  "distinct (keys_of ranges) \<Longrightarrow> (\<forall>cr \<in> set ranges. in_range row cr) \<longleftrightarrow> (\<forall>c r. map_of ranges c = Some r \<longrightarrow> in_range row (c, r))"
  by (auto simp flip: mem_alist_iff)

text \<open>What a normal form requires of a row.\<close>

fun form_holds :: "row_values \<Rightarrow> normalized_expr \<Rightarrow> bool" where
  "form_holds row NE_NoRows = False"
| "form_holds row NE_AllRows = True"
| "form_holds row (NE_Exact ts) = list_all (term_holds row) ts"
| "form_holds row NE_Unsupported = True"

lemma merge_loop_holds:
  "distinct (keys_of ranges) \<Longrightarrow>
     form_holds row (merge_loop merged ranges ts) \<longleftrightarrow>
       list_all (term_holds row) merged \<and> (\<forall>cr \<in> set ranges. in_range row cr) \<and> list_all (term_holds row) ts"
proof (induction merged ranges ts rule: merge_loop.induct)
  case (1 merged ranges)
  then show ?case by (simp add: list_all_iff in_range_def ball_Un case_prod_beta)
next
  case (2 merged ranges c lo up ts)
  let ?r = "case map_of ranges c of Some r \<Rightarrow> r | None \<Rightarrow> \<lparr>cr_lower = None, cr_upper = None\<rparr>"
  let ?r' = "\<lparr>cr_lower = strongest_lower (cr_lower ?r) lo, cr_upper = strongest_upper (cr_upper ?r) up\<rparr>"
  have r': "in_range row (c, ?r') \<longleftrightarrow> in_range row (c, ?r) \<and> term_holds row (PT_Range c lo up)"
    by (auto simp: in_range_def lower_strongest upper_strongest)
  have old: "(\<forall>cr \<in> set ranges. in_range row cr) \<longrightarrow> in_range row (c, ?r)"
    using "2.prems" by (auto simp: in_range_def split: option.split dest: map_of_SomeD)
  have new: "(\<forall>cr \<in> set (AList.update c ?r' ranges). in_range row cr) \<longleftrightarrow>
      (\<forall>cr \<in> set ranges. in_range row cr) \<and> term_holds row (PT_Range c lo up)"
  proof -
    have split: "(\<forall>d r. map_of ranges d = Some r \<longrightarrow> in_range row (d, r)) \<longleftrightarrow>
        (\<forall>r. map_of ranges c = Some r \<longrightarrow> in_range row (c, r)) \<and>
        (\<forall>d r. d \<noteq> c \<longrightarrow> map_of ranges d = Some r \<longrightarrow> in_range row (d, r))" by metis
    have "(\<forall>cr \<in> set (AList.update c ?r' ranges). in_range row cr) \<longleftrightarrow>
        in_range row (c, ?r') \<and> (\<forall>d r. d \<noteq> c \<longrightarrow> map_of ranges d = Some r \<longrightarrow> in_range row (d, r))"
      using "2.prems" by (subst in_ranges_map_of) (auto simp: distinct_update)
    also have "\<dots> \<longleftrightarrow> (\<forall>cr \<in> set ranges. in_range row cr) \<and> term_holds row (PT_Range c lo up)"
      unfolding r' in_ranges_map_of [OF "2.prems"] split by (cases "map_of ranges c") (auto simp: in_range_def)
    finally show ?thesis .
  qed
  show ?case
  proof (cases "range_is_contradictory (cr_lower ?r') (cr_upper ?r')")
    case True
    then have "\<not> in_range row (c, ?r')" using contradictory_empty by (auto simp: in_range_def)
    with True old r' show ?thesis by (auto simp: Let_def)
  next
    case False
    from "2.IH" [OF refl refl] False "2.prems" new show ?thesis by (auto simp: Let_def distinct_update)
  qed
qed auto

lemma merge_loop_form: "(\<exists>us. merge_loop merged ranges ts = NE_Exact us) \<or> merge_loop merged ranges ts = NE_NoRows"
  by (induction merged ranges ts rule: merge_loop.induct) (auto simp: Let_def)

lemma normalize_and_holds:
  "form_holds row (normalize_and ts es) \<longleftrightarrow>
     normalize_and ts es = NE_Unsupported \<or> list_all (term_holds row) ts \<and> list_all (form_holds row) es"
proof (induction ts es rule: normalize_and.induct)
  case (1 ts)
  then show ?case
    using merge_loop_holds [of "[]" row "[]" ts] merge_loop_form [of "[]" "[]" ts] by (auto simp: merge_conjunctive_terms_def)
qed auto

lemma normalize_and_supported:
  "normalize_and ts es \<noteq> NE_Unsupported \<Longrightarrow> NE_NoRows \<notin> set es \<Longrightarrow> NE_Unsupported \<notin> set es"
  by (induction ts es rule: normalize_and.induct) auto

lemma normalize_or_holds: "form_holds row (normalize_or hs es) \<longleftrightarrow> hs \<noteq> [] \<or> (\<exists>e \<in> set es. e \<noteq> NE_NoRows)"
  by (induction hs es rule: normalize_or.induct) (auto simp: list_all_iff)

lemma normalize_atom_holds: "form_holds row (normalize_atom a) = atom_holds a row"
  using contradictory_empty by (cases a) auto

lemma normalize_expr_complete: "selects u e row \<Longrightarrow> form_holds row (normalize_expr e)"
proof (induction e)
  case (PE_And cs)
  then show ?case by (auto simp: normalize_and_holds list_all_iff)
next
  case (PE_Or cs)
  then obtain c where "c \<in> set cs" "form_holds row (normalize_expr c)" by (auto simp: list_ex_iff)
  then show ?case by (force simp: normalize_or_holds)
qed (simp_all add: normalize_atom_holds)

lemma normalize_expr_exact:
  "or_free e \<Longrightarrow> normalize_expr e \<noteq> NE_Unsupported \<Longrightarrow> form_holds row (normalize_expr e) \<longleftrightarrow> selects u e row"
proof (induction e)
  case (PE_And cs)
  have "selects u (PE_And cs) row" if holds: "form_holds row (normalize_expr (PE_And cs))"
  proof -
    from holds PE_And.prems have all: "\<forall>c \<in> set cs. form_holds row (normalize_expr c)"
      by (simp add: normalize_and_holds list_all_iff)
    then have "NE_NoRows \<notin> set (map normalize_expr cs)" by auto
    from normalize_and_supported [OF _ this] PE_And.prems
    have supported: "NE_Unsupported \<notin> normalize_expr ` set cs" by simp
    have "selects u c row" if c: "c \<in> set cs" for c
    proof -
      have "or_free c" using PE_And.prems(1) c by (simp add: list_all_iff)
      moreover have "normalize_expr c \<noteq> NE_Unsupported" using supported imageI [OF c, of normalize_expr] by metis
      ultimately show ?thesis using PE_And.IH [OF c] all c by blast
    qed
    then show ?thesis by (simp add: list_all_iff)
  qed
  with normalize_expr_complete show ?case by blast
qed (simp_all add: normalize_atom_holds)

lemma set_sort_dedup_terms [simp]: "set (sort_dedup_terms ts) = set ts"
  by (simp add: sort_dedup_terms_def)

lemma write_matches_tablet_table: "write_matches_tablet w t b \<Longrightarrow> write_matches_table w t"
  by (cases w) (auto simp: write_matches_table_def)

abbreviation in_fallback_scope :: "tbl_id \<Rightarrow> fallback_scope \<Rightarrow> lock_resource \<Rightarrow> bool" where
  "in_fallback_scope t fb w \<equiv>
     (case fb of Fallback_Table \<Rightarrow> write_matches_table w t | Fallback_Tablet b \<Rightarrow> write_matches_tablet w t b)"

section \<open>Properties\<close>

text \<open>\<^bold>\<open>C32.\<close> A predicate read is protected.  If the normaliser says that a predicate reads no rows, no row
  satisfies it, whatever its unsupported parts select; otherwise the dependency it gives conflicts with
  every write in the table, or in the tablet when that is the scope of the scan.  For a predicate
  without disjunctions whose normal form is exact, the terms select exactly the rows of the predicate,
  after merging the ranges of each column.\<close>

theorem predicate_read_protected:
  "(case normalize_to_dependency t fb e of
      None \<Rightarrow> (\<nexists>row. selects u e row)
    | Some d \<Rightarrow> (\<forall>w. in_fallback_scope t fb w \<longrightarrow> conflicts_with_write d w)) \<and>
   (\<forall>p row. or_free e \<longrightarrow> normalize_predicate t fb e = NR_Exact p \<longrightarrow>
      (selects u e row \<longleftrightarrow> list_all (term_holds row) (np_terms p)))"
proof (cases "normalize_expr e")
  case NE_NoRows
  then show ?thesis
    using normalize_expr_complete [of u e] by (auto simp: normalize_to_dependency_def normalize_predicate_def)
next
  case (NE_Exact ts)
  then have "or_free e \<Longrightarrow> selects u e row \<longleftrightarrow> list_all (term_holds row) ts" for row
    using normalize_expr_exact [of e row u] by simp
  with NE_Exact show ?thesis
    by (auto simp: normalize_to_dependency_def normalize_predicate_def np_read_dependency_def Let_def list_all_iff
        dest: write_matches_tablet_table split: fallback_scope.splits)
qed (cases fb; simp add: normalize_to_dependency_def normalize_predicate_def)+

text \<open>The conjunction of two ranges on column 2 and an equality on column 1, in table 10.\<close>

definition demo_predicate :: predicate_expr where
  "demo_predicate = PE_And
     [PE_Atom (PA_Range 2 None (Some \<lparr>pb_value = PV_I64 100, pb_inclusive = False\<rparr>)),
      PE_Atom (PA_Range 2 (Some \<lparr>pb_value = PV_I64 10, pb_inclusive = True\<rparr>) None),
      PE_True, PE_Atom (PA_Equals 1 (PV_U64 7))]"

theorem predicate_read_protected_witness:
  "\<exists>d p. normalize_to_dependency 10 Fallback_Table demo_predicate = Some d \<and>
     conflicts_with_write d (LR_Table \<lparr>ns_tenant_id = 0, ns_database_id = 7\<rparr> 10) \<and>
     normalize_predicate 10 Fallback_Table demo_predicate = NR_Exact p \<and>
     list_all (term_holds (\<lambda>c. if c = 2 then PV_I64 50 else PV_U64 7)) (np_terms p)"
proof -
  let ?w = "LR_Table \<lparr>ns_tenant_id = 0, ns_database_id = 7\<rparr> 10" and ?row = "\<lambda>c. if c = 2 then PV_I64 50 else PV_U64 7"
  have form: "\<exists>ts. normalize_expr demo_predicate = NE_Exact ts"
    by (simp add: demo_predicate_def merge_conjunctive_terms_def Let_def less_predicate_value_def)
  then obtain d p where d: "normalize_to_dependency 10 Fallback_Table demo_predicate = Some d"
    and p: "normalize_predicate 10 Fallback_Table demo_predicate = NR_Exact p"
    by (auto simp: normalize_to_dependency_def normalize_predicate_def Let_def)
  have "in_fallback_scope 10 Fallback_Table ?w" "or_free demo_predicate" "selects (\<lambda>_. False) demo_predicate ?row"
    by (simp_all add: write_matches_table_def demo_predicate_def less_predicate_value_def)
  with predicate_read_protected [where t = 10 and fb = Fallback_Table and e = demo_predicate and u = "\<lambda>_. False"] d p show ?thesis
    by auto
qed

end
