(* ===== verification/Commit_Sequencer.thy ===== *)
theory Commit_Sequencer
  imports Commit_Request
begin

text \<open>
  The commit sequencer (\<open>commit/sequencer/mod.rs\<close>): group commit of validated plans, which assigns
  consecutive commit timestamps to the plans that pass the fence of their batch.  The final fence and
  the append to the log are arguments, as they are in the code; \<open>clock\<close> gives the microseconds since the
  batch began when its n-th plan is looked at, and \<open>fence_us\<close> those at its end.
\<close>

section \<open>Plans\<close>

record sequencer_options =
  so_max_group_commit_batch_size :: nat
  so_max_group_commit_fence_us :: u64
  so_adaptive_batch_sizing :: bool
  so_parallel_fence_groups :: bool

definition DEFAULT_MAX_GROUP_COMMIT_BATCH_SIZE :: nat where
  "DEFAULT_MAX_GROUP_COMMIT_BATCH_SIZE = 256"

definition DEFAULT_MAX_GROUP_COMMIT_FENCE_US :: u64 where
  "DEFAULT_MAX_GROUP_COMMIT_FENCE_US = 500"

definition options_default :: sequencer_options where
  "options_default =
     \<lparr>so_max_group_commit_batch_size = DEFAULT_MAX_GROUP_COMMIT_BATCH_SIZE,
      so_max_group_commit_fence_us = DEFAULT_MAX_GROUP_COMMIT_FENCE_US,
      so_adaptive_batch_sizing = False, so_parallel_fence_groups = False\<rparr>"

definition effective_batch_size :: "sequencer_options \<Rightarrow> nat" where
  "effective_batch_size opts = max (so_max_group_commit_batch_size opts) 1"

record sequencing_plan =
  sp_plan :: commit_plan
  sp_write_set :: "lock_resource list"
  sp_validation_epoch :: u64
  sp_ssi_effect_epoch :: u64
  sp_estimated_bytes :: nat

definition sequencing_plan_new :: "commit_plan \<Rightarrow> lock_resource list \<Rightarrow> sequencing_plan" where
  "sequencing_plan_new plan ws =
     \<lparr>sp_plan = plan, sp_write_set = ws, sp_validation_epoch = 0, sp_ssi_effect_epoch = 0, sp_estimated_bytes = 0\<rparr>"

definition write_set_from_lock_set :: "lock_request list \<Rightarrow> lock_resource list" where
  "write_set_from_lock_set locks = map req_resource (filter (\<lambda>r. is_commit_write (req_mode r)) locks)"

definition from_commit_plan :: "commit_plan \<Rightarrow> sequencing_plan" where
  "from_commit_plan plan = sequencing_plan_new plan (write_set_from_lock_set (pl_lock_set plan))"

definition with_validation_epoch :: "sequencing_plan \<Rightarrow> u64 \<Rightarrow> sequencing_plan" where
  "with_validation_epoch p epoch = p\<lparr>sp_validation_epoch := epoch\<rparr>"

definition with_ssi_effect_epoch :: "sequencing_plan \<Rightarrow> u64 \<Rightarrow> sequencing_plan" where
  "with_ssi_effect_epoch p epoch = p\<lparr>sp_ssi_effect_epoch := epoch\<rparr>"

definition with_estimated_bytes :: "sequencing_plan \<Rightarrow> nat \<Rightarrow> sequencing_plan" where
  "with_estimated_bytes p bytes = p\<lparr>sp_estimated_bytes := bytes\<rparr>"

datatype write_conflict_scope =
  Scope_Database | Scope_Schema | Scope_Table | Scope_Tablet | Scope_PrimaryKey | Scope_RowId | Scope_Range
| Scope_Predicate | Scope_CatalogObject | Scope_Mixed

datatype fence_reject_reason =
  BatchSizeLimit
| FenceBudgetExceeded u64 u64
| InBatchWriteConflict write_conflict_scope
| SsiEpochAdvanced u64 u64
| SsiStateEpochAdvanced u64 u64
| CommitTimestampExhausted

fun classify_scope :: "lock_resource \<Rightarrow> write_conflict_scope" where
  "classify_scope (LR_Database _) = Scope_Database"
| "classify_scope (LR_Schema _ _) = Scope_Schema"
| "classify_scope (LR_Table _ _) = Scope_Table"
| "classify_scope (LR_Tablet _ _ _) = Scope_Tablet"
| "classify_scope (LR_PrimaryKey _ _ _ _) = Scope_PrimaryKey"
| "classify_scope (LR_RowId _ _ _ _ _ _) = Scope_RowId"
| "classify_scope (LR_Range _ _ _ _ _) = Scope_Range"
| "classify_scope (LR_Predicate _ _ _) = Scope_Predicate"
| "classify_scope (LR_CatalogObject _ _ _) = Scope_CatalogObject"

definition for_pair :: "lock_resource \<Rightarrow> lock_resource \<Rightarrow> write_conflict_scope" where
  "for_pair l r = (if classify_scope l = classify_scope r then classify_scope l else Scope_Mixed)"

section \<open>The batch in flight\<close>

record in_flight_accepted_plan =
  ifa_txn_id :: txn_id
  ifa_read_ts :: read_ts
  ifa_commit_ts :: commit_ts
  ifa_write_set :: "lock_resource list"
  ifa_ssi_effect_epoch :: u64

record in_flight_batch =
  ifb_accepted :: "in_flight_accepted_plan list"
  ifb_write_set :: "lock_resource list"
  ifb_max_ssi_effect_epoch :: u64

definition in_flight_default :: in_flight_batch where
  "in_flight_default = \<lparr>ifb_accepted = [], ifb_write_set = [], ifb_max_ssi_effect_epoch = 0\<rparr>"

fun first_scope :: "lock_resource list \<Rightarrow> lock_resource \<Rightarrow> write_conflict_scope option" where
  "first_scope [] r = None"
| "first_scope (seen # rest) r = (if conflicts_with seen r then Some (for_pair seen r) else first_scope rest r)"

fun conflict_scope_with_write_set :: "in_flight_batch \<Rightarrow> lock_resource list \<Rightarrow> write_conflict_scope option" where
  "conflict_scope_with_write_set b [] = None"
| "conflict_scope_with_write_set b (r # rs) =
     (case first_scope (ifb_write_set b) r of Some s \<Rightarrow> Some s | None \<Rightarrow> conflict_scope_with_write_set b rs)"

definition conflicts_with_write_set :: "in_flight_batch \<Rightarrow> lock_resource list \<Rightarrow> bool" where
  "conflicts_with_write_set b ws \<longleftrightarrow> conflict_scope_with_write_set b ws \<noteq> None"

definition reject_reason_for :: "in_flight_batch \<Rightarrow> sequencing_plan \<Rightarrow> fence_reject_reason option" where
  "reject_reason_for b p =
     (if pl_isolation (sp_plan p) = Serializable \<and> sp_validation_epoch p < ifb_max_ssi_effect_epoch b
      then Some (SsiEpochAdvanced (sp_validation_epoch p) (ifb_max_ssi_effect_epoch b))
      else map_option InBatchWriteConflict (conflict_scope_with_write_set b (sp_write_set p)))"

definition in_flight_accept :: "in_flight_batch \<Rightarrow> sequencing_plan \<Rightarrow> commit_ts \<Rightarrow> in_flight_batch" where
  "in_flight_accept b p ts =
     \<lparr>ifb_accepted = ifb_accepted b @
        [\<lparr>ifa_txn_id = pl_txn_id (sp_plan p), ifa_read_ts = pl_read_ts (sp_plan p), ifa_commit_ts = ts,
          ifa_write_set = sp_write_set p, ifa_ssi_effect_epoch = sp_ssi_effect_epoch p\<rparr>],
      ifb_write_set = ifb_write_set b @ sp_write_set p,
      ifb_max_ssi_effect_epoch = max (ifb_max_ssi_effect_epoch b) (sp_ssi_effect_epoch p)\<rparr>"

section \<open>Metrics\<close>

record sequencer_metrics =
  sm_batches :: u64
  sm_accepted_plans :: u64
  sm_rejected_plans :: u64
  sm_append_failures :: u64
  sm_fence_duration_us_total :: u64
  sm_fence_duration_us_peak :: u64
  sm_reject_batch_size_limit :: u64
  sm_reject_fence_budget_exceeded :: u64
  sm_reject_in_batch_write_conflict :: u64
  sm_reject_ssi_epoch_advanced :: u64
  sm_reject_commit_timestamp_exhausted :: u64

definition metrics_default :: sequencer_metrics where
  "metrics_default = \<lparr>sm_batches = 0, sm_accepted_plans = 0, sm_rejected_plans = 0, sm_append_failures = 0,
     sm_fence_duration_us_total = 0, sm_fence_duration_us_peak = 0, sm_reject_batch_size_limit = 0,
     sm_reject_fence_budget_exceeded = 0, sm_reject_in_batch_write_conflict = 0, sm_reject_ssi_epoch_advanced = 0,
     sm_reject_commit_timestamp_exhausted = 0\<rparr>"

fun observe_reject :: "fence_reject_reason \<Rightarrow> sequencer_metrics \<Rightarrow> sequencer_metrics" where
  "observe_reject BatchSizeLimit m =
     m\<lparr>sm_reject_batch_size_limit := u64_saturating_add (sm_reject_batch_size_limit m) 1\<rparr>"
| "observe_reject (FenceBudgetExceeded _ _) m =
     m\<lparr>sm_reject_fence_budget_exceeded := u64_saturating_add (sm_reject_fence_budget_exceeded m) 1\<rparr>"
| "observe_reject (InBatchWriteConflict _) m =
     m\<lparr>sm_reject_in_batch_write_conflict := u64_saturating_add (sm_reject_in_batch_write_conflict m) 1\<rparr>"
| "observe_reject (SsiEpochAdvanced _ _) m =
     m\<lparr>sm_reject_ssi_epoch_advanced := u64_saturating_add (sm_reject_ssi_epoch_advanced m) 1\<rparr>"
| "observe_reject (SsiStateEpochAdvanced _ _) m =
     m\<lparr>sm_reject_ssi_epoch_advanced := u64_saturating_add (sm_reject_ssi_epoch_advanced m) 1\<rparr>"
| "observe_reject CommitTimestampExhausted m =
     m\<lparr>sm_reject_commit_timestamp_exhausted := u64_saturating_add (sm_reject_commit_timestamp_exhausted m) 1\<rparr>"

definition observe_batch :: "nat \<Rightarrow> fence_reject_reason list \<Rightarrow> u64 \<Rightarrow> sequencer_metrics \<Rightarrow> sequencer_metrics" where
  "observe_batch accepted reasons fence_us m =
     fold observe_reject reasons
       (m\<lparr>sm_batches := u64_saturating_add (sm_batches m) 1,
          sm_accepted_plans := u64_saturating_add (sm_accepted_plans m) (of_nat accepted),
          sm_rejected_plans := u64_saturating_add (sm_rejected_plans m) (of_nat (length reasons)),
          sm_fence_duration_us_total := u64_saturating_add (sm_fence_duration_us_total m) fence_us,
          sm_fence_duration_us_peak := max (sm_fence_duration_us_peak m) fence_us\<rparr>)"

section \<open>The sequencer\<close>

record sequencer =
  sq_options :: sequencer_options
  sq_next_commit_ts :: commit_ts
  sq_metrics :: sequencer_metrics

definition sequencer_new :: "commit_ts \<Rightarrow> sequencer_options \<Rightarrow> sequencer" where
  "sequencer_new next opts = \<lparr>sq_options = opts, sq_next_commit_ts = next, sq_metrics = metrics_default\<rparr>"

definition sequencer_with_next_commit_ts :: "commit_ts \<Rightarrow> sequencer" where
  "sequencer_with_next_commit_ts next = sequencer_new next options_default"

definition commit_ts_at :: "commit_ts \<Rightarrow> nat \<Rightarrow> commit_ts option" where
  "commit_ts_at base offset = (if unat base + offset < 2 ^ 64 then Some (base + of_nat offset) else None)"

definition sync_next_commit_ts_with :: "sequencer \<Rightarrow> commit_ts \<Rightarrow> sequencer" where
  "sync_next_commit_ts_with sq min_committed =
     (case commit_ts_at min_committed 1 of
        Some next \<Rightarrow> sq\<lparr>sq_next_commit_ts := max (sq_next_commit_ts sq) next\<rparr>
      | None \<Rightarrow> sq\<lparr>sq_next_commit_ts := - 1\<rparr>)"

definition advance_shadow_clock :: "commit_ts \<Rightarrow> commit_ts \<Rightarrow> nat \<Rightarrow> commit_ts" where
  "advance_shadow_clock current base n =
     (case commit_ts_at base n of Some next \<Rightarrow> max current next | None \<Rightarrow> - 1)"

type_synonym 's final_fence = "'s \<Rightarrow> sequencing_plan \<Rightarrow> in_flight_batch \<Rightarrow> 's \<times> fence_reject_reason option"

text \<open>The checks of one plan against the batch, then the final fence.\<close>

definition fence_plan ::
  "'s final_fence \<Rightarrow> 's \<Rightarrow> in_flight_batch \<Rightarrow> sequencing_plan \<Rightarrow> 's \<times> fence_reject_reason option" where
  "fence_plan fence st b p = (case reject_reason_for b p of Some reason \<Rightarrow> (st, Some reason) | None \<Rightarrow> fence st p b)"

text \<open>The loop of \<open>sequence_batch_with_fence\<close>; \<open>n\<close> counts the plans looked at.\<close>

fun batch_loop ::
  "sequencer_options \<Rightarrow> (nat \<Rightarrow> u64) \<Rightarrow> 's final_fence \<Rightarrow> commit_ts \<Rightarrow> nat \<Rightarrow> 's \<Rightarrow> in_flight_batch
     \<Rightarrow> (commit_ts \<times> sequencing_plan) list \<Rightarrow> (sequencing_plan \<times> fence_reject_reason) list \<Rightarrow> sequencing_plan list
     \<Rightarrow> 's \<times> (commit_ts \<times> sequencing_plan) list \<times> (sequencing_plan \<times> fence_reject_reason) list" where
  "batch_loop opts clock fence base n st b acc rej [] = (st, acc, rej)"
| "batch_loop opts clock fence base n st b acc rej (p # ps) =
     (if effective_batch_size opts \<le> length acc
      then batch_loop opts clock fence base (Suc n) st b acc (rej @ [(p, BatchSizeLimit)]) ps
      else if so_max_group_commit_fence_us opts \<le> clock n
      then batch_loop opts clock fence base (Suc n) st b acc
             (rej @ [(p, FenceBudgetExceeded (clock n) (so_max_group_commit_fence_us opts))]) ps
      else (case fence_plan fence st b p of
              (st', Some reason) \<Rightarrow> batch_loop opts clock fence base (Suc n) st' b acc (rej @ [(p, reason)]) ps
            | (st', None) \<Rightarrow>
                (case commit_ts_at base (length acc) of
                   None \<Rightarrow> batch_loop opts clock fence base (Suc n) st' b acc (rej @ [(p, CommitTimestampExhausted)]) ps
                 | Some ts \<Rightarrow>
                     batch_loop opts clock fence base (Suc n) st' (in_flight_accept b p ts) (acc @ [(ts, p)]) rej ps)))"

datatype 'e sequencer_error =
  SequencerAppend 'e commit_ts nat "(commit_ts \<times> sequencing_plan) list"
    "(sequencing_plan \<times> fence_reject_reason) list" u64

record sequenced_batch =
  sb_accepted :: "(commit_ts \<times> sequencing_plan) list"
  sb_rejected :: "(sequencing_plan \<times> fence_reject_reason) list"
  sb_fence_duration_us :: u64

definition count_append_failure :: "sequencer_metrics \<Rightarrow> sequencer_metrics" where
  "count_append_failure m = m\<lparr>sm_append_failures := u64_saturating_add (sm_append_failures m) 1\<rparr>"

definition sequence_batch_with_fence ::
  "sequencer \<Rightarrow> (nat \<Rightarrow> u64) \<Rightarrow> u64 \<Rightarrow> 's final_fence \<Rightarrow> 's \<Rightarrow> ((commit_ts \<times> sequencing_plan) list \<Rightarrow> 'e + unit)
     \<Rightarrow> sequencing_plan list \<Rightarrow> sequencer \<times> 's \<times> ('e sequencer_error + sequenced_batch)" where
  "sequence_batch_with_fence sq clock fence_us fence st write_log plans =
     (let base = sq_next_commit_ts sq;
          (st', acc, rej) = batch_loop (sq_options sq) clock fence base 0 st in_flight_default [] [] plans;
          observe = observe_batch (length acc) (map snd rej) fence_us;
          batch = \<lparr>sb_accepted = acc, sb_rejected = rej, sb_fence_duration_us = fence_us\<rparr>
      in if acc = [] then (sq\<lparr>sq_metrics := observe (sq_metrics sq)\<rparr>, st', Inr batch)
         else (case write_log acc of
                 Inr _ \<Rightarrow>
                   (sq\<lparr>sq_next_commit_ts := (case commit_ts_at base (length acc) of Some next \<Rightarrow> next | None \<Rightarrow> - 1),
                       sq_metrics := observe (sq_metrics sq)\<rparr>, st', Inr batch)
               | Inl err \<Rightarrow>
                   (sq\<lparr>sq_metrics := observe (count_append_failure (sq_metrics sq))\<rparr>, st',
                    Inl (SequencerAppend err base (length acc) acc rej fence_us))))"

definition sequence_batch ::
  "sequencer \<Rightarrow> (nat \<Rightarrow> u64) \<Rightarrow> u64 \<Rightarrow> ((commit_ts \<times> sequencing_plan) list \<Rightarrow> 'e + unit) \<Rightarrow> sequencing_plan list
     \<Rightarrow> sequencer \<times> unit \<times> ('e sequencer_error + sequenced_batch)" where
  "sequence_batch sq clock fence_us write_log plans =
     sequence_batch_with_fence sq clock fence_us (\<lambda>st _ _. (st, None)) () write_log plans"

section \<open>Ordered batches\<close>

record 'r ordered_plan =
  op_sequencing_plan :: sequencing_plan
  op_payload :: 'r

text \<open>The loop of \<open>sequence_ordered_batch\<close>, with the suffix that does not enter the batch.\<close>

fun ordered_loop ::
  "sequencer_options \<Rightarrow> (nat \<Rightarrow> u64) \<Rightarrow> 's final_fence \<Rightarrow> commit_ts \<Rightarrow> nat \<Rightarrow> 's \<Rightarrow> in_flight_batch
     \<Rightarrow> (commit_ts \<times> 'r ordered_plan) list \<Rightarrow> ('r ordered_plan \<times> fence_reject_reason) list \<Rightarrow> 'r ordered_plan list
     \<Rightarrow> 's \<times> (commit_ts \<times> 'r ordered_plan) list \<times> ('r ordered_plan \<times> fence_reject_reason) list \<times> 'r ordered_plan list" where
  "ordered_loop opts clock fence base n st b acc rej [] = (st, acc, rej, [])"
| "ordered_loop opts clock fence base n st b acc rej (p # ps) =
     (if effective_batch_size opts \<le> length acc then (st, acc, rej, p # ps)
      else if acc \<noteq> [] \<and> so_max_group_commit_fence_us opts \<le> clock n then (st, acc, rej, p # ps)
      else (case fence_plan fence st b (op_sequencing_plan p) of
              (st', Some reason) \<Rightarrow> ordered_loop opts clock fence base (Suc n) st' b acc (rej @ [(p, reason)]) ps
            | (st', None) \<Rightarrow>
                (case commit_ts_at base (length acc) of
                   None \<Rightarrow> ordered_loop opts clock fence base (Suc n) st' b acc (rej @ [(p, CommitTimestampExhausted)]) ps
                 | Some ts \<Rightarrow>
                     ordered_loop opts clock fence base (Suc n) st' (in_flight_accept b (op_sequencing_plan p) ts)
                       (acc @ [(ts, p)]) rej ps)))"

datatype ('e, 'a) append_error = AppendFailed 'e "'a list" | DurableCommitted 'e "'a list"

datatype ('e, 'a, 'r) ordered_error =
  OrderedAppend 'e bool commit_ts nat "'a list" "('r ordered_plan \<times> fence_reject_reason) list" "'r ordered_plan list" u64

record ('o, 'r) ordered_batch =
  ob_append_output :: "'o option"
  ob_rejected :: "('r ordered_plan \<times> fence_reject_reason) list"
  ob_deferred :: "'r ordered_plan list"
  ob_fence_duration_us :: u64

definition sequence_ordered_batch ::
  "sequencer \<Rightarrow> (nat \<Rightarrow> u64) \<Rightarrow> u64 \<Rightarrow> 's final_fence \<Rightarrow> 's \<Rightarrow> (commit_ts \<Rightarrow> 'r ordered_plan \<Rightarrow> 'a)
     \<Rightarrow> ('a list \<Rightarrow> ('e, 'a) append_error + 'o) \<Rightarrow> 'r ordered_plan list
     \<Rightarrow> sequencer \<times> 's \<times> (('e, 'a, 'r) ordered_error + ('o, 'r) ordered_batch)" where
  "sequence_ordered_batch sq clock fence_us fence st accept write_log plans =
     (let base = sq_next_commit_ts sq;
          (st', acc, rej, dfr) = ordered_loop (sq_options sq) clock fence base 0 st in_flight_default [] [] plans;
          accepted = map (\<lambda>(ts, p). accept ts p) acc;
          observe = observe_batch (length acc) (map snd rej) fence_us;
          advanced = advance_shadow_clock base base (length acc)
      in if acc = []
         then (sq\<lparr>sq_metrics := observe (sq_metrics sq)\<rparr>, st',
               Inr \<lparr>ob_append_output = None, ob_rejected = rej, ob_deferred = dfr, ob_fence_duration_us = fence_us\<rparr>)
         else (case write_log accepted of
                 Inr out \<Rightarrow>
                   (sq\<lparr>sq_next_commit_ts := advanced, sq_metrics := observe (sq_metrics sq)\<rparr>, st',
                    Inr \<lparr>ob_append_output = Some out, ob_rejected = rej, ob_deferred = dfr, ob_fence_duration_us = fence_us\<rparr>)
               | Inl (AppendFailed err back) \<Rightarrow>
                   (sq\<lparr>sq_metrics := observe (count_append_failure (sq_metrics sq))\<rparr>, st',
                    Inl (OrderedAppend err False base (length acc) back rej dfr fence_us))
               | Inl (DurableCommitted err back) \<Rightarrow>
                   (sq\<lparr>sq_next_commit_ts := advanced,
                       sq_metrics := observe (count_append_failure (sq_metrics sq))\<rparr>, st',
                    Inl (OrderedAppend err True base (length acc) back rej dfr fence_us))))"

section \<open>What a batch accepts\<close>

text \<open>A later plan of a batch is compatible with an earlier one if no resource they write conflicts and,
  when it is serializable, it was validated no earlier than the other's marks.\<close>

definition fence_compatible :: "sequencing_plan \<Rightarrow> sequencing_plan \<Rightarrow> bool" where
  "fence_compatible p q \<longleftrightarrow>
     (\<forall>r \<in> set (sp_write_set p). \<forall>r' \<in> set (sp_write_set q). \<not> conflicts_with r r') \<and>
     (pl_isolation (sp_plan q) = Serializable \<longrightarrow> sp_ssi_effect_epoch p \<le> sp_validation_epoch q)"

definition accepted_ok :: "commit_ts \<Rightarrow> (commit_ts \<times> sequencing_plan) list \<Rightarrow> bool" where
  "accepted_ok base acc \<longleftrightarrow>
     map (unat \<circ> fst) acc = [unat base ..< unat base + length acc] \<and> unat base + length acc \<le> 2 ^ 64 \<and>
     sorted_wrt fence_compatible (map snd acc)"

definition batch_ok :: "commit_ts \<Rightarrow> in_flight_batch \<Rightarrow> (commit_ts \<times> sequencing_plan) list \<Rightarrow> bool" where
  "batch_ok base b acc \<longleftrightarrow>
     accepted_ok base acc \<and> ifb_write_set b = concat (map (sp_write_set \<circ> snd) acc) \<and>
     (\<forall>p \<in> set (map snd acc). sp_ssi_effect_epoch p \<le> ifb_max_ssi_effect_epoch b)"

lemma batch_ok_default: "batch_ok base in_flight_default []"
  using unsigned_less [of base, where ?'a = nat] by (simp add: batch_ok_def accepted_ok_def in_flight_default_def)

lemma first_scope_None: "first_scope seen r = None \<longleftrightarrow> (\<forall>r' \<in> set seen. \<not> conflicts_with r' r)"
  by (induction seen) auto

lemma conflict_scope_None:
  "conflict_scope_with_write_set b ws = None \<longleftrightarrow> (\<forall>r \<in> set (ifb_write_set b). \<forall>r' \<in> set ws. \<not> conflicts_with r r')"
proof (induction ws)
  case (Cons r ws)
  then show ?case
    using first_scope_None [of "ifb_write_set b" r] by (cases "first_scope (ifb_write_set b) r") auto
qed simp

lemma commit_ts_at_Some:
  "commit_ts_at base n = Some ts \<longleftrightarrow> unat base + n < 2 ^ 64 \<and> unat ts = unat base + n"
proof -
  have "unat (base + of_nat n) = unat base + n" if "unat base + n < 2 ^ 64"
    using that by (simp add: unat_word_ariths unat_of_nat)
  then show ?thesis by (auto simp: commit_ts_at_def word_unat_eq_iff)
qed

lemma commit_ts_at_exists:
  "unat base + n < 2 ^ 64 \<Longrightarrow> \<exists>ts. commit_ts_at base n = Some ts \<and> unat ts = unat base + n"
  using commit_ts_at_Some [of base n "base + of_nat n"] by (auto simp: commit_ts_at_def)

lemma batch_ok_accept:
  assumes "batch_ok base b acc" "fence_plan fence st b p = (st', None)" "commit_ts_at base (length acc) = Some ts"
  shows "batch_ok base (in_flight_accept b p ts) (acc @ [(ts, p)])"
proof -
  have none: "reject_reason_for b p = None"
    using assms(2) by (auto simp: fence_plan_def split: option.splits)
  then have "fence_compatible q p" if "q \<in> set (map snd acc)" for q
    using that assms(1) order_trans
    by (fastforce simp: reject_reason_for_def conflict_scope_None fence_compatible_def batch_ok_def not_less split: if_splits)
  then have "sorted_wrt fence_compatible (map snd (acc @ [(ts, p)]))"
    using assms(1) by (simp add: sorted_wrt_append batch_ok_def accepted_ok_def)
  moreover have "unat base + length acc < 2 ^ 64" "unat ts = unat base + length acc"
    using assms(3) by (simp_all add: commit_ts_at_Some)
  ultimately show ?thesis
    using assms(1) by (auto simp: batch_ok_def accepted_ok_def in_flight_accept_def le_max_iff_disj)
qed

lemma batch_loop_ok:
  assumes "batch_loop opts clock fence base n st b acc rej ps = (st', acc', rej')" "batch_ok base b acc"
  shows "accepted_ok base acc' \<and> mset (map snd acc') + mset (map fst rej') = mset (map snd acc) + mset (map fst rej) + mset ps"
  using assms
proof (induction opts clock fence base n st b acc rej ps rule: batch_loop.induct)
  case (2 opts clock fence base n st b acc rej p ps)
  show ?case
  proof (cases "effective_batch_size opts \<le> length acc \<or> so_max_group_commit_fence_us opts \<le> clock n")
    case True
    with 2 show ?thesis by (auto split: if_splits)
  next
    case False
    obtain st1 r where f: "fence_plan fence st b p = (st1, r)" by (cases "fence_plan fence st b p")
    show ?thesis
    proof (cases r)
      case None
      show ?thesis
      proof (cases "commit_ts_at base (length acc)")
        case (Some ts)
        have "batch_ok base (in_flight_accept b p ts) (acc @ [(ts, p)])"
          using batch_ok_accept [OF "2.prems"(2) _ Some, of fence st p st1] f None by simp
        with 2 False f None Some show ?thesis by simp
      qed (use 2 False f None in simp)
    qed (use 2 False f in simp)
  qed
qed (auto simp: batch_ok_def)

abbreviation plans_of :: "(commit_ts \<times> 'r ordered_plan) list \<Rightarrow> (commit_ts \<times> sequencing_plan) list" where
  "plans_of acc \<equiv> map (\<lambda>(ts, p). (ts, op_sequencing_plan p)) acc"

lemma ordered_loop_ok:
  assumes "ordered_loop opts clock fence base n st b acc rej ps = (st', acc', rej', dfr)" "batch_ok base b (plans_of acc)"
  shows "accepted_ok base (plans_of acc') \<and>
    (\<exists>taken. ps = taken @ dfr \<and>
       mset (map snd acc') + mset (map fst rej') = mset (map snd acc) + mset (map fst rej) + mset taken \<and>
       (ps \<noteq> [] \<and> acc = [] \<longrightarrow> taken \<noteq> []))"
  using assms
proof (induction opts clock fence base n st b acc rej ps rule: ordered_loop.induct)
  case (2 opts clock fence base n st b acc rej p ps)
  show ?case
  proof (cases "effective_batch_size opts \<le> length acc \<or> acc \<noteq> [] \<and> so_max_group_commit_fence_us opts \<le> clock n")
    case True
    with "2.prems"(1) have "st' = st" "acc' = acc" "rej' = rej" "dfr = p # ps" by (auto split: if_splits)
    moreover have "acc \<noteq> []" using True by (auto simp: effective_batch_size_def)
    ultimately show ?thesis using "2.prems"(2) by (simp add: batch_ok_def)
  next
    case False
    obtain st1 r where f: "fence_plan fence st b (op_sequencing_plan p) = (st1, r)"
      by (cases "fence_plan fence st b (op_sequencing_plan p)")
    have step: ?thesis
      if "accepted_ok base (plans_of acc') \<and> (\<exists>taken. ps = taken @ dfr \<and>
         mset (map snd acc') + mset (map fst rej') = add_mset p (mset (map snd acc) + mset (map fst rej)) + mset taken)"
    proof -
      from that obtain taken where "accepted_ok base (plans_of acc')" "ps = taken @ dfr"
        "mset (map snd acc') + mset (map fst rej') = add_mset p (mset (map snd acc) + mset (map fst rej)) + mset taken" by blast
      then show ?thesis by (intro conjI exI [of _ "p # taken"]) simp_all
    qed
    note go = conjunct1 [OF False [unfolded de_Morgan_disj]] conjunct2 [OF False [unfolded de_Morgan_disj]]
    show ?thesis
    proof (cases r)
      case None
      show ?thesis
      proof (cases "commit_ts_at base (length acc)")
        case (Some ts)
        have "batch_ok base (in_flight_accept b (op_sequencing_plan p) ts) (plans_of (acc @ [(ts, p)]))"
          using batch_ok_accept [OF "2.prems"(2), of fence st "op_sequencing_plan p" st1 ts] f None Some by simp
        with "2.IH"(2) [OF go f [symmetric] None Some] "2.prems"(1) go f None Some show ?thesis
          by (intro step) auto
      next
        case no_ts: None
        show ?thesis
          using "2.IH"(1) [OF go f [symmetric] None no_ts] "2.prems" go f None no_ts by (intro step) auto
      qed
    next
      case (Some reason)
      show ?thesis
        using "2.IH"(3) [OF go f [symmetric] Some] "2.prems" go f Some by (intro step) auto
    qed
  qed
qed (auto simp: batch_ok_def)

end
