(* ===== verification/Commit_Queue.thy ===== *)
theory Commit_Queue
  imports Commit_Sequencer Commit_Frontier
begin

text \<open>
  The commit queue (\<open>commit/queue/mod.rs\<close>) and its policy (\<open>commit/queue/policy.rs\<close>): prepared commits
  wait in a queue, in a queue of deferred entries or in batches blocked on a fence, from which the one
  drain owner takes them.  Every operation holds the mutex of the queue, so each is one function here;
  \<open>now\<close> is the reading of the clock in microseconds.  What a job carries besides the fields the queue
  reads is the component \<open>pj_payload\<close>.
\<close>

section \<open>Policy\<close>

record batch_policy =
  bp_max_commit_batch_size :: nat
  bp_max_commit_batch_bytes :: u64
  bp_max_commit_fence_us :: u64
  bp_max_fence_rejects_per_drain :: nat
  bp_queue_head_wait_budget_us :: u64
  bp_drain_owner_coalesce_budget_us :: u64
  bp_target_batch_size :: nat
  bp_target_batch_bytes :: u64
  bp_adaptive_batch_sizing :: bool
  bp_max_commit_finalize_pipeline_depth :: nat
  bp_max_commit_finalize_phase1_shards :: nat
  bp_serializable_bypass_batch_budget :: u32
  bp_serializable_bypass_wait_budget_us :: u64
  bp_serializable_bypass_adaptive :: bool
  bp_serializable_bypass_min_batch_budget :: u32
  bp_serializable_bypass_max_batch_budget :: u32
  bp_max_commit_queue_depth :: nat
  bp_max_commit_queue_bytes :: u64
  bp_max_publish_lag_us :: u64
  bp_max_unpublished_commit_count :: u64
  bp_max_commit_finalize_queue_depth_reject :: nat
  bp_max_durable_to_published_bytes_lag :: u64
  bp_max_pending_fence_bytes :: u64
  bp_max_cleanup_queue_depth :: nat
  bp_max_cleanup_queue_bytes :: u64
  bp_min_cleanup_queue_reserved_slots :: nat
  bp_graceful_shutdown_timeout_us :: u64

definition policy_default :: batch_policy where
  "policy_default =
     \<lparr>bp_max_commit_batch_size = 256, bp_max_commit_batch_bytes = 8 * 1024 * 1024,
      bp_max_commit_fence_us = DEFAULT_MAX_GROUP_COMMIT_FENCE_US, bp_max_fence_rejects_per_drain = 256,
      bp_queue_head_wait_budget_us = 1000, bp_drain_owner_coalesce_budget_us = 500,
      bp_target_batch_size = 64, bp_target_batch_bytes = 2 * 1024 * 1024, bp_adaptive_batch_sizing = False,
      bp_max_commit_finalize_pipeline_depth = 1024, bp_max_commit_finalize_phase1_shards = 0,
      bp_serializable_bypass_batch_budget = 8, bp_serializable_bypass_wait_budget_us = 2000,
      bp_serializable_bypass_adaptive = False, bp_serializable_bypass_min_batch_budget = 1,
      bp_serializable_bypass_max_batch_budget = 64, bp_max_commit_queue_depth = 8192,
      bp_max_commit_queue_bytes = 512 * 1024 * 1024, bp_max_publish_lag_us = 0, bp_max_unpublished_commit_count = 1024,
      bp_max_commit_finalize_queue_depth_reject = 0, bp_max_durable_to_published_bytes_lag = 512 * 1024 * 1024,
      bp_max_pending_fence_bytes = 128 * 1024 * 1024, bp_max_cleanup_queue_depth = 0, bp_max_cleanup_queue_bytes = 0,
      bp_min_cleanup_queue_reserved_slots = 0, bp_graceful_shutdown_timeout_us = 30000000\<rparr>"

definition effective_target_batch_size :: "batch_policy \<Rightarrow> nat" where
  "effective_target_batch_size p = max 1 (min (bp_target_batch_size p) (max (bp_max_commit_batch_size p) 1))"

definition effective_target_batch_bytes :: "batch_policy \<Rightarrow> u64" where
  "effective_target_batch_bytes p = max 1 (min (bp_target_batch_bytes p) (max (bp_max_commit_batch_bytes p) 1))"

datatype queue_backpressure = QueueDepth nat nat | QueueRetainedBytes u64 u64

definition check_enqueue :: "batch_policy \<Rightarrow> nat \<Rightarrow> u64 \<Rightarrow> u64 \<Rightarrow> queue_backpressure + unit" where
  "check_enqueue p depth retained job_retained =
     (if 0 < bp_max_commit_queue_depth p \<and> bp_max_commit_queue_depth p \<le> depth
      then Inl (QueueDepth depth (bp_max_commit_queue_depth p))
      else
        (let projected = u64_saturating_add retained job_retained
         in if 0 < bp_max_commit_queue_bytes p \<and> bp_max_commit_queue_bytes p < projected
            then Inl (QueueRetainedBytes projected (bp_max_commit_queue_bytes p)) else Inr ()))"

record cleanup_snapshot =
  cs_depth :: nat
  cs_bytes :: u64
  cs_reserved_slots_available :: nat

record drain_input =
  di_frontier :: commit_frontier
  di_commit_finalize_queue_depth :: nat
  di_pending_fence_retained_bytes :: u64
  di_cleanup :: cleanup_snapshot

datatype drain_backpressure =
  UnpublishedCommitCount u64 u64
| DurableToPublishedBytes u64 u64
| CommitFinalizeQueueDepth nat nat
| PendingFenceBytes u64 u64
| CleanupQueueDepth nat nat
| CleanupQueueBytes u64 u64
| CleanupReservedSlots nat nat

text \<open>The frontier stands for its snapshot, which copies its fields.\<close>

definition check_drain :: "batch_policy \<Rightarrow> drain_input \<Rightarrow> drain_backpressure + unit" where
  "check_drain p i =
     (let unpublished = u64_saturating_sub (cf_durable_commit_id (di_frontier i)) (cf_published_commit_id (di_frontier i));
          lag = durable_to_published_bytes_lag (di_frontier i);
          cleanup = di_cleanup i
      in if 0 < bp_max_unpublished_commit_count p \<and> bp_max_unpublished_commit_count p \<le> unpublished
         then Inl (UnpublishedCommitCount unpublished (bp_max_unpublished_commit_count p))
         else if 0 < bp_max_durable_to_published_bytes_lag p \<and>
                 (case lag of None \<Rightarrow> False | Some bytes \<Rightarrow> bp_max_durable_to_published_bytes_lag p \<le> bytes)
         then Inl (DurableToPublishedBytes (the lag) (bp_max_durable_to_published_bytes_lag p))
         else if 0 < bp_max_commit_finalize_queue_depth_reject p \<and>
                 bp_max_commit_finalize_queue_depth_reject p \<le> di_commit_finalize_queue_depth i
         then Inl (CommitFinalizeQueueDepth (di_commit_finalize_queue_depth i) (bp_max_commit_finalize_queue_depth_reject p))
         else if 0 < bp_max_pending_fence_bytes p \<and> bp_max_pending_fence_bytes p \<le> di_pending_fence_retained_bytes i
         then Inl (PendingFenceBytes (di_pending_fence_retained_bytes i) (bp_max_pending_fence_bytes p))
         else if 0 < bp_max_cleanup_queue_depth p \<and> bp_max_cleanup_queue_depth p \<le> cs_depth cleanup
         then Inl (CleanupQueueDepth (cs_depth cleanup) (bp_max_cleanup_queue_depth p))
         else if 0 < bp_max_cleanup_queue_bytes p \<and> bp_max_cleanup_queue_bytes p \<le> cs_bytes cleanup
         then Inl (CleanupQueueBytes (cs_bytes cleanup) (bp_max_cleanup_queue_bytes p))
         else if cs_reserved_slots_available cleanup < bp_min_cleanup_queue_reserved_slots p
         then Inl (CleanupReservedSlots (cs_reserved_slots_available cleanup) (bp_min_cleanup_queue_reserved_slots p))
         else Inr ())"

definition fence_reject_reason_for_batch :: "batch_policy \<Rightarrow> nat \<Rightarrow> u64 \<Rightarrow> u64 \<Rightarrow> fence_reject_reason option" where
  "fence_reject_reason_for_batch p accepted bytes elapsed =
     (if max (bp_max_commit_batch_size p) 1 \<le> accepted then Some BatchSizeLimit
      else if bp_max_commit_batch_bytes p \<le> bytes then Some BatchSizeLimit
      else if bp_max_commit_fence_us p \<le> elapsed then Some (FenceBudgetExceeded elapsed (bp_max_commit_fence_us p))
      else None)"

section \<open>State\<close>

datatype drain_inline_policy = AllowInline | WakePoolOnly

record completion_handle =
  ch_slot_id :: u64

record 'p prepared_job =
  pj_sequencing_plan :: sequencing_plan
  pj_estimated_record_bytes :: u32
  pj_retained_bytes :: u64
  pj_payload :: 'p

record 'p queue_entry =
  qe_queue_seq :: u64
  qe_completion :: completion_handle
  qe_enqueued_at :: nat
  qe_job :: "'p prepared_job"

abbreviation qe_retained_bytes :: "'p queue_entry \<Rightarrow> u64" where
  "qe_retained_bytes e \<equiv> pj_retained_bytes (qe_job e)"

definition is_serializable :: "'p queue_entry \<Rightarrow> bool" where
  "is_serializable e \<longleftrightarrow> pl_isolation (sp_plan (pj_sequencing_plan (qe_job e))) = Serializable"

definition is_snapshot_only :: "'p queue_entry \<Rightarrow> bool" where
  "is_snapshot_only e \<longleftrightarrow> \<not> is_serializable e"

record 'p fence_blocked_batch =
  fb_required_registered_ts :: commit_ts
  fb_entries :: "'p queue_entry list"
  fb_original_head_seq :: u64
  fb_enqueued_at :: nat
  fb_bypass_epoch_at_block :: u64
  fb_bypass_batch_budget :: u32
  fb_retained_bytes :: u64

record pending_fence_guard =
  pg_batch_count :: nat
  pg_retained_bytes :: u64
  pg_min_remaining_bypass_batches :: u32
  pg_oldest_enqueued_at :: "nat option"

definition guard_default :: pending_fence_guard where
  "guard_default = \<lparr>pg_batch_count = 0, pg_retained_bytes = 0, pg_min_remaining_bypass_batches = - 1, pg_oldest_enqueued_at = None\<rparr>"

record queue_metrics =
  qm_enqueue_count :: u64
  qm_enqueue_reject_count :: u64
  qm_drain_owner_acquire_count :: u64
  qm_deferred_entry_count :: u64
  qm_pending_fence_block_count :: u64
  qm_pending_fence_ready_count :: u64
  qm_snapshot_bypass_count :: u64
  qm_snapshot_bypass_budget_block_count :: u64

definition queue_metrics_default :: queue_metrics where
  "queue_metrics_default =
     \<lparr>qm_enqueue_count = 0, qm_enqueue_reject_count = 0, qm_drain_owner_acquire_count = 0, qm_deferred_entry_count = 0,
      qm_pending_fence_block_count = 0, qm_pending_fence_ready_count = 0, qm_snapshot_bypass_count = 0,
      qm_snapshot_bypass_budget_block_count = 0\<rparr>"

text \<open>The queue with the state under its mutex.\<close>

record 'p commit_queue =
  cq_entries :: "'p queue_entry list"
  cq_deferred_entries :: "'p queue_entry list"
  cq_deferred_entries_bytes :: u64
  cq_pending_fence :: "'p fence_blocked_batch list"
  cq_pending_fence_guard :: pending_fence_guard
  cq_next_enqueue_seq :: u64
  cq_queue_retained_bytes :: u64
  cq_snapshot_bypass_epoch :: u64
  cq_ready_queued :: bool
  cq_closed :: bool
  cq_metrics :: queue_metrics
  cq_published_tail_seq :: u64
  cq_pending_fence_ready_epoch :: u64
  cq_drain_owner_active :: bool

definition commit_queue_new :: "'p commit_queue" where
  "commit_queue_new =
     \<lparr>cq_entries = [], cq_deferred_entries = [], cq_deferred_entries_bytes = 0, cq_pending_fence = [],
      cq_pending_fence_guard = guard_default, cq_next_enqueue_seq = 1, cq_queue_retained_bytes = 0,
      cq_snapshot_bypass_epoch = 0, cq_ready_queued = False, cq_closed = False, cq_metrics = queue_metrics_default,
      cq_published_tail_seq = 0, cq_pending_fence_ready_epoch = 0, cq_drain_owner_active = False\<rparr>"

section \<open>Operations of clients\<close>

abbreviation pending_entries :: "'p commit_queue \<Rightarrow> 'p queue_entry list" where
  "pending_entries q \<equiv> concat (map fb_entries (cq_pending_fence q))"

definition visible_depth :: "'p commit_queue \<Rightarrow> nat" where
  "visible_depth q =
     saturating_add (saturating_add (length (cq_entries q)) (length (cq_deferred_entries q)))
       (sum_list (map (\<lambda>b. length (fb_entries b)) (cq_pending_fence q)))"

definition bypass_remaining :: "u64 \<Rightarrow> 'p fence_blocked_batch \<Rightarrow> u32" where
  "bypass_remaining epoch b =
     (let spent = ucast (u64_saturating_sub epoch (fb_bypass_epoch_at_block b))
      in if spent \<le> fb_bypass_batch_budget b then fb_bypass_batch_budget b - spent else 0)"

definition recompute_pending_guard :: "batch_policy \<Rightarrow> 'p commit_queue \<Rightarrow> 'p commit_queue" where
  "recompute_pending_guard p q =
     (let batches = cq_pending_fence q
      in q\<lparr>cq_pending_fence_guard :=
         \<lparr>pg_batch_count = length batches,
          pg_retained_bytes = sum_list (map fb_retained_bytes batches),
          pg_min_remaining_bypass_batches =
            min (fold min (map (bypass_remaining (cq_snapshot_bypass_epoch q)) batches) (- 1))
                (bp_serializable_bypass_batch_budget p),
          pg_oldest_enqueued_at =
            (if batches = [] then None else Some (fold min (map fb_enqueued_at (tl batches)) (fb_enqueued_at (hd batches))))\<rparr>\<rparr>)"

datatype queue_error = QueueBackpressure queue_backpressure | QueueClosed

record queue_ticket =
  qt_queue_seq :: u64
  qt_completion :: completion_handle

definition count_enqueue_reject :: "'p commit_queue \<Rightarrow> 'p commit_queue" where
  "count_enqueue_reject q =
     q\<lparr>cq_metrics := (cq_metrics q)\<lparr>qm_enqueue_reject_count := u64_saturating_add (qm_enqueue_reject_count (cq_metrics q)) 1\<rparr>\<rparr>"

definition enqueue ::
  "nat \<Rightarrow> 'p commit_queue \<Rightarrow> 'p prepared_job \<Rightarrow> completion_handle \<Rightarrow> batch_policy \<Rightarrow> 'p commit_queue \<times> (queue_error + queue_ticket)" where
  "enqueue now q job completion p =
     (if cq_closed q then (count_enqueue_reject q, Inl QueueClosed)
      else (case check_enqueue p (visible_depth q) (cq_queue_retained_bytes q) (pj_retained_bytes job) of
              Inl err \<Rightarrow> (count_enqueue_reject q, Inl (QueueBackpressure err))
            | Inr _ \<Rightarrow>
                (let seq = cq_next_enqueue_seq q
                 in (q\<lparr>cq_next_enqueue_seq := u64_saturating_add seq 1,
                       cq_entries := cq_entries q @
                         [\<lparr>qe_queue_seq = seq, qe_completion = completion, qe_enqueued_at = now, qe_job = job\<rparr>],
                       cq_queue_retained_bytes := u64_saturating_add (cq_queue_retained_bytes q) (pj_retained_bytes job),
                       cq_metrics := (cq_metrics q)\<lparr>qm_enqueue_count := u64_saturating_add (qm_enqueue_count (cq_metrics q)) 1\<rparr>,
                       cq_published_tail_seq := seq\<rparr>,
                     Inr \<lparr>qt_queue_seq = seq, qt_completion = completion\<rparr>))))"

definition try_acquire_drain_owner :: "'p commit_queue \<Rightarrow> 'p commit_queue option" where
  "try_acquire_drain_owner q =
     (if cq_drain_owner_active q then None
      else Some (q\<lparr>cq_drain_owner_active := True,
        cq_metrics := (cq_metrics q)\<lparr>qm_drain_owner_acquire_count :=
          u64_saturating_add (qm_drain_owner_acquire_count (cq_metrics q)) 1\<rparr>\<rparr>))"

definition signal_drain_needed :: "'p commit_queue \<Rightarrow> drain_inline_policy \<Rightarrow> 'p commit_queue \<times> bool" where
  "signal_drain_needed q inline = (q\<lparr>cq_ready_queued := True\<rparr>, inline = AllowInline \<and> \<not> cq_drain_owner_active q)"

definition signal_pending_fence_ready :: "'p commit_queue \<Rightarrow> drain_inline_policy \<Rightarrow> 'p commit_queue \<times> bool" where
  "signal_pending_fence_ready q inline =
     signal_drain_needed (q\<lparr>cq_pending_fence_ready_epoch := cq_pending_fence_ready_epoch q + 1\<rparr>) inline"

definition close_and_drain_pending :: "'p commit_queue \<Rightarrow> 'p commit_queue \<times> completion_handle list" where
  "close_and_drain_pending q =
     (q\<lparr>cq_closed := True, cq_ready_queued := False, cq_entries := [], cq_deferred_entries := [], cq_pending_fence := [],
        cq_queue_retained_bytes := 0, cq_deferred_entries_bytes := 0, cq_pending_fence_guard := guard_default\<rparr>,
      map qe_completion (cq_entries q) @ map qe_completion (cq_deferred_entries q) @ map qe_completion (pending_entries q))"

definition has_pending_fence :: "'p commit_queue \<Rightarrow> bool" where
  "has_pending_fence q \<longleftrightarrow> cq_pending_fence q \<noteq> []"

definition has_ready_work :: "'p commit_queue \<Rightarrow> bool" where
  "has_ready_work q \<longleftrightarrow> cq_deferred_entries q \<noteq> [] \<or> cq_entries q \<noteq> [] \<or> cq_pending_fence q \<noteq> []"

section \<open>Operations of the drain owner\<close>

text \<open>The two loops of \<open>take_local_buffer\<close>; \<open>n\<close> is the room left in the buffer.\<close>

fun take_deferred :: "nat \<Rightarrow> 'p commit_queue \<Rightarrow> 'p commit_queue \<times> 'p queue_entry list" where
  "take_deferred 0 q = (q, [])"
| "take_deferred (Suc n) q =
     (case cq_deferred_entries q of
        [] \<Rightarrow> (q, [])
      | e # es \<Rightarrow>
          (case take_deferred n (q\<lparr>cq_deferred_entries := es,
               cq_deferred_entries_bytes := u64_saturating_sub (cq_deferred_entries_bytes q) (qe_retained_bytes e),
               cq_queue_retained_bytes := u64_saturating_sub (cq_queue_retained_bytes q) (qe_retained_bytes e)\<rparr>) of
             (q', taken) \<Rightarrow> (q', e # taken)))"

fun take_entries :: "u64 \<Rightarrow> nat \<Rightarrow> 'p commit_queue \<Rightarrow> 'p commit_queue \<times> 'p queue_entry list" where
  "take_entries tail_seq 0 q = (q, [])"
| "take_entries tail_seq (Suc n) q =
     (case cq_entries q of
        [] \<Rightarrow> (q, [])
      | e # es \<Rightarrow>
          (if tail_seq < qe_queue_seq e then (q, [])
           else (case take_entries tail_seq n (q\<lparr>cq_entries := es,
                    cq_queue_retained_bytes := u64_saturating_sub (cq_queue_retained_bytes q) (qe_retained_bytes e)\<rparr>) of
                   (q', taken) \<Rightarrow> (q', e # taken))))"

definition take_local_buffer :: "nat \<Rightarrow> 'p commit_queue \<Rightarrow> 'p commit_queue \<times> 'p queue_entry list" where
  "take_local_buffer max_entries q =
     (case take_deferred max_entries (q\<lparr>cq_ready_queued := False\<rparr>) of
        (q1, deferred) \<Rightarrow>
          (case take_entries (cq_published_tail_seq q) (max_entries - length deferred) q1 of
             (q2, taken) \<Rightarrow> (q2, deferred @ taken)))"

definition take_ready_pending_fence ::
  "commit_ts \<Rightarrow> batch_policy \<Rightarrow> 'p commit_queue \<Rightarrow> 'p commit_queue \<times> 'p queue_entry list option" where
  "take_ready_pending_fence registered p q =
     (case cq_pending_fence q of
        [] \<Rightarrow> (q, None)
      | b # bs \<Rightarrow>
          (if fb_required_registered_ts b \<le> registered
           then (recompute_pending_guard p
                   (q\<lparr>cq_pending_fence := bs,
                      cq_queue_retained_bytes := u64_saturating_sub (cq_queue_retained_bytes q) (fb_retained_bytes b),
                      cq_metrics := (cq_metrics q)\<lparr>qm_pending_fence_ready_count :=
                        u64_saturating_add (qm_pending_fence_ready_count (cq_metrics q)) 1\<rparr>\<rparr>), Some (fb_entries b))
           else (q, None)))"

definition retained_sum :: "'p queue_entry list \<Rightarrow> u64" where
  "retained_sum es = fold (\<lambda>e sum. u64_saturating_add sum (qe_retained_bytes e)) es 0"

definition block_on_fence ::
  "commit_ts \<Rightarrow> 'p queue_entry list \<Rightarrow> batch_policy \<Rightarrow> 'p commit_queue \<Rightarrow> 'p commit_queue" where
  "block_on_fence required es p q =
     (if es = [] then q
      else recompute_pending_guard p
        (q\<lparr>cq_queue_retained_bytes := u64_saturating_add (cq_queue_retained_bytes q) (retained_sum es),
           cq_pending_fence := cq_pending_fence q @
             [\<lparr>fb_required_registered_ts = required, fb_entries = es, fb_original_head_seq = qe_queue_seq (hd es),
               fb_enqueued_at = qe_enqueued_at (hd es), fb_bypass_epoch_at_block = cq_snapshot_bypass_epoch q,
               fb_bypass_batch_budget = bp_serializable_bypass_batch_budget p, fb_retained_bytes = retained_sum es\<rparr>],
           cq_metrics := (cq_metrics q)\<lparr>qm_pending_fence_block_count :=
             u64_saturating_add (qm_pending_fence_block_count (cq_metrics q)) 1\<rparr>\<rparr>))"

definition count_bypass_block :: "'p commit_queue \<Rightarrow> 'p commit_queue" where
  "count_bypass_block q =
     q\<lparr>cq_metrics := (cq_metrics q)\<lparr>qm_snapshot_bypass_budget_block_count :=
         u64_saturating_add (qm_snapshot_bypass_budget_block_count (cq_metrics q)) 1\<rparr>\<rparr>"

definition can_bypass_snapshot :: "batch_policy \<Rightarrow> nat \<Rightarrow> 'p commit_queue \<Rightarrow> 'p commit_queue \<times> bool" where
  "can_bypass_snapshot p now q =
     (if cq_pending_fence q = [] then (q, True)
      else if pg_min_remaining_bypass_batches (cq_pending_fence_guard q) = 0 then (count_bypass_block q, False)
      else (case pg_oldest_enqueued_at (cq_pending_fence_guard q) of
              None \<Rightarrow> (q, True)
            | Some oldest \<Rightarrow>
                (if unat (bp_serializable_bypass_wait_budget_us p) \<le> min (now - oldest) (2 ^ 64 - 1)
                 then (count_bypass_block q, False) else (q, True))))"

definition snapshot_bypass_conflicts_with_pending_head :: "'p queue_entry \<Rightarrow> 'p commit_queue \<Rightarrow> bool" where
  "snapshot_bypass_conflicts_with_pending_head e q =
     (if \<not> is_snapshot_only e then False
      else (case cq_pending_fence q of
              [] \<Rightarrow> False
            | b # _ \<Rightarrow>
                list_ex (\<lambda>pending.
                  list_ex (\<lambda>w. list_ex (\<lambda>c. conflicts_with w c) (sp_write_set (pj_sequencing_plan (qe_job e))))
                    (sp_write_set (pj_sequencing_plan (qe_job pending)))) (fb_entries b)))"

definition record_snapshot_bypass :: "batch_policy \<Rightarrow> 'p commit_queue \<Rightarrow> 'p commit_queue" where
  "record_snapshot_bypass p q =
     (if cq_pending_fence q = [] then q
      else recompute_pending_guard p
        (q\<lparr>cq_snapshot_bypass_epoch := u64_saturating_add (cq_snapshot_bypass_epoch q) 1,
           cq_pending_fence_guard := (cq_pending_fence_guard q)\<lparr>pg_min_remaining_bypass_batches :=
             (let n = pg_min_remaining_bypass_batches (cq_pending_fence_guard q) in if n = 0 then 0 else n - 1)\<rparr>,
           cq_metrics := (cq_metrics q)\<lparr>qm_snapshot_bypass_count :=
             u64_saturating_add (qm_snapshot_bypass_count (cq_metrics q)) 1\<rparr>\<rparr>))"

definition defer_entry :: "'p queue_entry \<Rightarrow> 'p commit_queue \<Rightarrow> 'p commit_queue" where
  "defer_entry e q =
     q\<lparr>cq_deferred_entries_bytes := u64_saturating_add (cq_deferred_entries_bytes q) (qe_retained_bytes e),
       cq_queue_retained_bytes := u64_saturating_add (cq_queue_retained_bytes q) (qe_retained_bytes e),
       cq_deferred_entries := cq_deferred_entries q @ [e],
       cq_metrics := (cq_metrics q)\<lparr>qm_deferred_entry_count := u64_saturating_add (qm_deferred_entry_count (cq_metrics q)) 1\<rparr>\<rparr>"

definition defer_entries :: "'p queue_entry list \<Rightarrow> 'p commit_queue \<Rightarrow> 'p commit_queue" where
  "defer_entries es q = fold defer_entry es q"

definition release_drain_owner :: "'p commit_queue \<Rightarrow> 'p commit_queue" where
  "release_drain_owner q = q\<lparr>cq_drain_owner_active := False\<rparr>"

end
