(* ===== verification/Durable_Append.thy ===== *)
theory Durable_Append
  imports Commit_Queue
begin

text \<open>
  Durable append of a sequenced batch (\<open>commit/durable_append.rs\<close>), the batch and handle types it makes
  (\<open>commit/durable_handle.rs\<close>) and the jobs it consumes (\<open>commit/job/mod.rs\<close>).  The journal is a
  parameter, as it is a trait in the code.  An append either hands out a handle for every job, or fails
  and leaves every job what its cleanup needs.  Where the code renders an error as text, the model keeps
  the error; \<open>'x\<close> stands for the release and publish closures of a job.
\<close>

section \<open>Batches and handles\<close>

definition checked_add :: "u64 \<Rightarrow> u64 \<Rightarrow> u64 option" where
  "checked_add a b = (if unat a + unat b < 2 ^ 64 then Some (a + b) else None)"

datatype handle_error =
  EmptyRecordBytes
| CommitRangeMismatch commit_ts commit_ts nat
| OffsetOutOfRange u32 nat
| LsnOverflow u64 u32
| CommitTsOverflow commit_ts u32

record durable_batch =
  db_first_lsn :: u64
  db_durable_batch_lsn :: u64
  db_durable_batch_size :: u64
  db_durable_batch_bytes :: u64
  db_commit_record_bytes_by_offset :: "u32 list"
  db_sync_latency_micros :: u64
  db_first_commit_ts :: commit_ts
  db_last_commit_ts :: commit_ts

definition durable_batch_new ::
  "u64 \<Rightarrow> u64 \<Rightarrow> u64 \<Rightarrow> u64 \<Rightarrow> u32 list \<Rightarrow> u64 \<Rightarrow> commit_ts \<Rightarrow> commit_ts \<Rightarrow> handle_error + durable_batch" where
  "durable_batch_new first_lsn batch_lsn batch_size batch_bytes bytes latency first_ts last_ts =
     (if bytes = [] then Inl EmptyRecordBytes
      else
        (let offset = of_nat (length bytes - 1)
         in if checked_add first_lsn offset = None then Inl (LsnOverflow first_lsn (ucast offset))
            else (case checked_add first_ts offset of
                    None \<Rightarrow> Inl (CommitTsOverflow first_ts (ucast offset))
                  | Some expected_last \<Rightarrow>
                      (if expected_last \<noteq> last_ts then Inl (CommitRangeMismatch first_ts last_ts (length bytes))
                       else Inr \<lparr>db_first_lsn = first_lsn, db_durable_batch_lsn = batch_lsn, db_durable_batch_size = batch_size,
                                 db_durable_batch_bytes = batch_bytes, db_commit_record_bytes_by_offset = bytes,
                                 db_sync_latency_micros = latency, db_first_commit_ts = first_ts,
                                 db_last_commit_ts = last_ts\<rparr>))))"

record durable_handle =
  dh_batch :: durable_batch
  dh_offset_in_batch :: u32

definition handle_at :: "durable_batch \<Rightarrow> u32 \<Rightarrow> handle_error + durable_handle" where
  "handle_at b offset =
     (if length (db_commit_record_bytes_by_offset b) \<le> unat offset
      then Inl (OffsetOutOfRange offset (length (db_commit_record_bytes_by_offset b)))
      else Inr \<lparr>dh_batch = b, dh_offset_in_batch = offset\<rparr>)"

text \<open>The checked additions of the accessors cannot fail for the handles of a batch (\<open>handle_in_batch\<close>
  below), so they are plain additions.\<close>

definition dh_commit_ts :: "durable_handle \<Rightarrow> commit_ts" where
  "dh_commit_ts h = db_first_commit_ts (dh_batch h) + ucast (dh_offset_in_batch h)"

definition dh_durable_lsn :: "durable_handle \<Rightarrow> u64" where
  "dh_durable_lsn h = db_first_lsn (dh_batch h) + ucast (dh_offset_in_batch h)"

definition dh_frontier_handle :: "durable_handle \<Rightarrow> frontier_handle" where
  "dh_frontier_handle h =
     \<lparr>fh_commit_ts = dh_commit_ts h,
      fh_commit_record_bytes = db_commit_record_bytes_by_offset (dh_batch h) ! unat (dh_offset_in_batch h)\<rparr>"

section \<open>Jobs\<close>

record 'c commit_record =
  rec_commit_id :: u64
  rec_content :: 'c

record 'x post_append =
  pa_ack_policy :: commit_ack_policy
  pa_completion :: completion_handle
  pa_actions :: 'x

record ('c, 'x) sequenced_job =
  sj_commit_ts :: commit_ts
  sj_record :: "'c commit_record option"
  sj_estimated_record_bytes :: u32
  sj_retained_bytes :: u64
  sj_post_append :: "'x post_append option"

record 'x durable_job =
  dj_commit_ts :: commit_ts
  dj_retained_bytes :: u64
  dj_ack_policy :: commit_ack_policy
  dj_completion :: completion_handle
  dj_actions :: 'x

datatype job_state_error =
  RecordAlreadyTaken commit_ts
| RecordNotAppended commit_ts
| PostAppendAlreadyTaken commit_ts
| HandleCommitTsMismatch commit_ts commit_ts

text \<open>What a prepared job carries for the append; \<open>content\<close> is the body \<open>into_record\<close> of the durable plan gives
  a record for its commit id.\<close>

record ('c, 'x) job_payload =
  jp_content :: "u64 \<Rightarrow> 'c"
  jp_ack_policy :: commit_ack_policy
  jp_actions :: 'x

definition into_sequenced ::
  "('c, 'x) job_payload prepared_job \<Rightarrow> commit_ts \<Rightarrow> completion_handle \<Rightarrow> ('c, 'x) sequenced_job" where
  "into_sequenced job ts completion =
     \<lparr>sj_commit_ts = ts, sj_record = Some \<lparr>rec_commit_id = ts, rec_content = jp_content (pj_payload job) ts\<rparr>,
      sj_estimated_record_bytes = pj_estimated_record_bytes job, sj_retained_bytes = pj_retained_bytes job,
      sj_post_append = Some \<lparr>pa_ack_policy = jp_ack_policy (pj_payload job), pa_completion = completion,
                             pa_actions = jp_actions (pj_payload job)\<rparr>\<rparr>"

definition take_record :: "('c, 'x) sequenced_job \<Rightarrow> ('c, 'x) sequenced_job \<times> (job_state_error + 'c commit_record)" where
  "take_record j =
     (case sj_record j of
        None \<Rightarrow> (j, Inl (RecordAlreadyTaken (sj_commit_ts j)))
      | Some r \<Rightarrow> (j\<lparr>sj_record := None\<rparr>, Inr r))"

definition take_durable_job ::
  "('c, 'x) sequenced_job \<Rightarrow> durable_handle \<Rightarrow> ('c, 'x) sequenced_job \<times> (job_state_error + 'x durable_job)" where
  "take_durable_job j h =
     (if sj_record j \<noteq> None then (j, Inl (RecordNotAppended (sj_commit_ts j)))
      else if dh_commit_ts h \<noteq> sj_commit_ts j then (j, Inl (HandleCommitTsMismatch (sj_commit_ts j) (dh_commit_ts h)))
      else (case sj_post_append j of
              None \<Rightarrow> (j, Inl (PostAppendAlreadyTaken (sj_commit_ts j)))
            | Some pa \<Rightarrow>
                (j\<lparr>sj_post_append := None\<rparr>,
                 Inr \<lparr>dj_commit_ts = sj_commit_ts j, dj_retained_bytes = sj_retained_bytes j,
                      dj_ack_policy = pa_ack_policy pa, dj_completion = pa_completion pa, dj_actions = pa_actions pa\<rparr>)))"

text \<open>\<open>cleanup_after_append_failure\<close> and \<open>cleanup_after_durable_ambiguous\<close>: what the bundles carry is the
  sidecar of the job.\<close>

definition take_cleanup :: "('c, 'x) sequenced_job \<Rightarrow> job_state_error + 'x post_append" where
  "take_cleanup j = (case sj_post_append j of None \<Rightarrow> Inl (PostAppendAlreadyTaken (sj_commit_ts j)) | Some pa \<Rightarrow> Inr pa)"

section \<open>Append\<close>

record append_result =
  ar_lsn :: u64
  ar_durable_batch_lsn :: u64
  ar_durable_batch_size :: u64
  ar_durable_batch_bytes :: u64
  ar_sync_latency_micros :: u64

datatype violation_kind =
  ResultCountMismatch nat nat
| NonContiguousLsn nat u64 u64
| InconsistentDurableBatchLsn nat u64 u64
| InconsistentDurableBatchSize nat u64 u64
| InconsistentDurableBatchBytes nat u64 u64
| InconsistentSyncLatencyMicros nat u64 u64
| DurableBatchInvalid handle_error
| DurableJobStateInvalid nat job_state_error

text \<open>The journal's own error and the internal errors of the wrapper.\<close>

datatype 'e append_cause =
  JournalFailed 'e
| EmptyAppendBatch
| TimestampRangeOverflow
| NonContiguousTimestamp nat commit_ts commit_ts
| RecordIdMismatch u64 commit_ts
| JobStateInvalid job_state_error

datatype 'e append_commit_error =
  AppendCommitFailed "'e append_cause"
| DurableProtocolViolation "commit_ts \<times> commit_ts" u64 violation_kind

record 'x append_batch =
  ab_handles :: "durable_handle list"
  ab_durable_jobs :: "'x durable_job list"
  ab_batch :: durable_batch

text \<open>The loop of \<open>collect_commit_ts\<close>; the list it collects is that of the jobs.\<close>

fun collect_commit_ts :: "commit_ts \<Rightarrow> nat \<Rightarrow> ('c, 'x) sequenced_job list \<Rightarrow> 'e append_commit_error + commit_ts list" where
  "collect_commit_ts first offset [] = Inr []"
| "collect_commit_ts first offset (j # js) =
     (case checked_add first (of_nat offset) of
        None \<Rightarrow> Inl (AppendCommitFailed TimestampRangeOverflow)
      | Some expected \<Rightarrow>
          (if sj_commit_ts j \<noteq> expected then Inl (AppendCommitFailed (NonContiguousTimestamp offset expected (sj_commit_ts j)))
           else (case collect_commit_ts first (Suc offset) js of
                   Inl err \<Rightarrow> Inl err | Inr ts \<Rightarrow> Inr (sj_commit_ts j # ts))))"

fun check_record_ids :: "('c, 'x) sequenced_job list \<Rightarrow> 'e append_commit_error option" where
  "check_record_ids [] = None"
| "check_record_ids (j # js) =
     (case sj_record j of
        None \<Rightarrow> Some (AppendCommitFailed (JobStateInvalid (RecordAlreadyTaken (sj_commit_ts j))))
      | Some r \<Rightarrow>
          (if rec_commit_id r = sj_commit_ts j then check_record_ids js
           else Some (AppendCommitFailed (RecordIdMismatch (rec_commit_id r) (sj_commit_ts j)))))"

fun take_records ::
  "('c, 'x) sequenced_job list \<Rightarrow> ('c, 'x) sequenced_job list \<times> ('e append_commit_error + 'c commit_record list)" where
  "take_records [] = ([], Inr [])"
| "take_records (j # js) =
     (case take_record j of
        (j', Inl err) \<Rightarrow> (j' # js, Inl (AppendCommitFailed (JobStateInvalid err)))
      | (j', Inr r) \<Rightarrow>
          (case take_records js of
             (js', Inl err) \<Rightarrow> (j' # js', Inl err)
           | (js', Inr rs) \<Rightarrow> (j' # js', Inr (r # rs))))"

definition protocol_violation ::
  "append_result list \<Rightarrow> commit_ts \<Rightarrow> commit_ts \<Rightarrow> violation_kind \<Rightarrow> 'e append_commit_error" where
  "protocol_violation results first_ts last_ts details =
     DurableProtocolViolation (first_ts, last_ts) (if results = [] then 0 else ar_durable_batch_lsn (last results)) details"

text \<open>\<open>protocol_error\<close> and \<open>job_state_protocol_error\<close>.\<close>

definition protocol_error :: "append_result list \<Rightarrow> commit_ts \<Rightarrow> violation_kind \<Rightarrow> 'e append_commit_error" where
  "protocol_error results first_ts details =
     protocol_violation results first_ts
       (case checked_add first_ts (of_nat (length results - 1)) of None \<Rightarrow> first_ts | Some ts \<Rightarrow> ts) details"

fun check_results :: "append_result \<Rightarrow> nat \<Rightarrow> append_result list \<Rightarrow> violation_kind option" where
  "check_results first offset [] = None"
| "check_results first offset (r # rs) =
     (let expected = u64_saturating_add (ar_lsn first) (of_nat offset)
      in if ar_lsn r \<noteq> expected then Some (NonContiguousLsn offset expected (ar_lsn r))
         else if ar_durable_batch_lsn r \<noteq> ar_durable_batch_lsn first
         then Some (InconsistentDurableBatchLsn offset (ar_durable_batch_lsn first) (ar_durable_batch_lsn r))
         else if ar_durable_batch_size r \<noteq> ar_durable_batch_size first
         then Some (InconsistentDurableBatchSize offset (ar_durable_batch_size first) (ar_durable_batch_size r))
         else if ar_durable_batch_bytes r \<noteq> ar_durable_batch_bytes first
         then Some (InconsistentDurableBatchBytes offset (ar_durable_batch_bytes first) (ar_durable_batch_bytes r))
         else if ar_sync_latency_micros r \<noteq> ar_sync_latency_micros first
         then Some (InconsistentSyncLatencyMicros offset (ar_sync_latency_micros first) (ar_sync_latency_micros r))
         else check_results first (Suc offset) rs)"

definition validate_append_results ::
  "append_result list \<Rightarrow> nat \<Rightarrow> commit_ts \<Rightarrow> commit_ts \<Rightarrow> 'e append_commit_error option" where
  "validate_append_results results expected_len first_ts last_ts =
     (if length results \<noteq> expected_len
      then Some (protocol_violation results first_ts last_ts (ResultCountMismatch expected_len (length results)))
      else map_option (protocol_violation results first_ts last_ts) (check_results (hd results) 0 results))"

fun take_durable_jobs ::
  "append_result list \<Rightarrow> commit_ts \<Rightarrow> durable_batch \<Rightarrow> nat \<Rightarrow> ('c, 'x) sequenced_job list
     \<Rightarrow> ('c, 'x) sequenced_job list \<times> ('e append_commit_error + (durable_handle \<times> 'x durable_job) list)" where
  "take_durable_jobs results first_ts b offset [] = ([], Inr [])"
| "take_durable_jobs results first_ts b offset (j # js) =
     (case handle_at b (of_nat offset) of
        Inl err \<Rightarrow> (j # js, Inl (protocol_error results first_ts (DurableBatchInvalid err)))
      | Inr h \<Rightarrow>
          (case take_durable_job j h of
             (j', Inl err) \<Rightarrow> (j' # js, Inl (protocol_error results first_ts (DurableJobStateInvalid offset err)))
           | (j', Inr d) \<Rightarrow>
               (case take_durable_jobs results first_ts b (Suc offset) js of
                  (js', Inl err) \<Rightarrow> (j' # js', Inl err)
                | (js', Inr ds) \<Rightarrow> (j' # js', Inr ((h, d) # ds)))))"

text \<open>The append changes the jobs in place, so they are part of what it returns.\<close>

definition append_durable_commit_batch ::
  "('c commit_record list \<Rightarrow> 'e + append_result list) \<Rightarrow> ('c, 'x) sequenced_job list
     \<Rightarrow> ('c, 'x) sequenced_job list \<times> ('e append_commit_error + 'x append_batch)" where
  "append_durable_commit_batch journal accepted =
     (if accepted = [] then (accepted, Inl (AppendCommitFailed EmptyAppendBatch))
      else (case collect_commit_ts (sj_commit_ts (hd accepted)) 0 accepted of
        Inl err \<Rightarrow> (accepted, Inl err)
      | Inr ts \<Rightarrow>
          (case check_record_ids accepted of
             Some err \<Rightarrow> (accepted, Inl err)
           | None \<Rightarrow>
               (case take_records accepted of
                  (jobs, Inl err) \<Rightarrow> (jobs, Inl err)
                | (jobs, Inr records) \<Rightarrow>
                    (case journal records of
                       Inl err \<Rightarrow> (jobs, Inl (AppendCommitFailed (JournalFailed err)))
                     | Inr results \<Rightarrow>
                         (case validate_append_results results (length accepted) (hd ts) (last ts) of
                            Some err \<Rightarrow> (jobs, Inl err)
                          | None \<Rightarrow>
                              (let r = hd results
                               in case durable_batch_new (ar_lsn r) (ar_durable_batch_lsn r) (ar_durable_batch_size r)
                                         (ar_durable_batch_bytes r) (map sj_estimated_record_bytes accepted)
                                         (ar_sync_latency_micros r) (hd ts) (last ts) of
                                    Inl err \<Rightarrow> (jobs, Inl (protocol_error results (hd ts) (DurableBatchInvalid err)))
                                  | Inr b \<Rightarrow>
                                      (case take_durable_jobs results (hd ts) b 0 jobs of
                                         (jobs', Inl err) \<Rightarrow> (jobs', Inl err)
                                       | (jobs', Inr ds) \<Rightarrow>
                                           (jobs', Inr \<lparr>ab_handles = map fst ds, ab_durable_jobs = map snd ds,
                                                        ab_batch = b\<rparr>)))))))))"

section \<open>What an append does\<close>

text \<open>Jobs as the sequencer hands them over: consecutive timestamps, each with its record and its sidecar.\<close>

definition ready_jobs :: "commit_ts \<Rightarrow> nat \<Rightarrow> ('c, 'x) sequenced_job list \<Rightarrow> bool" where
  "ready_jobs first offset js \<longleftrightarrow>
     map (unat \<circ> sj_commit_ts) js = [unat first + offset ..< unat first + offset + length js] \<and>
     (\<forall>j \<in> set js. map_option rec_commit_id (sj_record j) = Some (sj_commit_ts j) \<and> sj_post_append j \<noteq> None)"

text \<open>What the journal promises of its results: one per record, with consecutive positions and the same batch.\<close>

definition same_batch :: "append_result \<Rightarrow> append_result \<Rightarrow> bool" where
  "same_batch r r' \<longleftrightarrow> ar_durable_batch_lsn r = ar_durable_batch_lsn r' \<and> ar_durable_batch_size r = ar_durable_batch_size r' \<and>
     ar_durable_batch_bytes r = ar_durable_batch_bytes r' \<and> ar_sync_latency_micros r = ar_sync_latency_micros r'"

definition results_ok :: "nat \<Rightarrow> append_result list \<Rightarrow> bool" where
  "results_ok n rs \<longleftrightarrow> length rs = n \<and> map (unat \<circ> ar_lsn) rs = [unat (ar_lsn (hd rs)) ..< unat (ar_lsn (hd rs)) + n] \<and>
     (\<forall>r \<in> set rs. same_batch r (hd rs))"

abbreviation job_records :: "('c, 'x) sequenced_job list \<Rightarrow> 'c commit_record list" where
  "job_records js \<equiv> map (the \<circ> sj_record) js"

definition durable_of :: "('c, 'x) sequenced_job \<Rightarrow> 'x durable_job" where
  "durable_of j =
     \<lparr>dj_commit_ts = sj_commit_ts j, dj_retained_bytes = sj_retained_bytes j,
      dj_ack_policy = pa_ack_policy (the (sj_post_append j)), dj_completion = pa_completion (the (sj_post_append j)),
      dj_actions = pa_actions (the (sj_post_append j))\<rparr>"

lemma ready_jobs_Cons:
  "ready_jobs first offset (j # js) \<longleftrightarrow>
     unat (sj_commit_ts j) = unat first + offset \<and> map_option rec_commit_id (sj_record j) = Some (sj_commit_ts j) \<and>
     sj_post_append j \<noteq> None \<and> ready_jobs first (Suc offset) js"
  by (auto simp: ready_jobs_def upt_conv_Cons simp del: upt_Suc)

lemma u64_exact:
  assumes "unat (ts :: u64) = unat (first :: u64) + offset"
  shows "checked_add first (of_nat offset) = Some ts" "u64_saturating_add first (of_nat offset) = ts"
    "first + of_nat offset = ts"
proof -
  have small: "unat first + offset < 2 ^ 64" using assms unsigned_less [of ts, where ?'a = nat] by simp
  then have offset: "unat (of_nat offset :: u64) = offset" by (simp add: unat_of_nat)
  show sum: "first + of_nat offset = ts"
    using assms small offset by (simp add: word_unat_eq_iff unat_word_ariths)
  show "checked_add first (of_nat offset) = Some ts" "u64_saturating_add first (of_nat offset) = ts"
    using small offset sum by (simp_all add: checked_add_def u64_saturating_add_def)
qed

lemma unat_ucast_u32: "unat (ucast (x :: u32) :: u64) = unat x"
  using unsigned_less [of x, where ?'a = nat] by (simp add: unsigned_ucast_eq take_bit_nat_eq_self)

lemma counted_nth:
  assumes "map (unat \<circ> f) xs = [m ..< m + length xs]" "i < length xs"
  shows "unat (f (xs ! i)) = m + i"
proof -
  have "map (unat \<circ> f) xs ! i = [m ..< m + length xs] ! i" using assms(1) by (simp only:)
  then show ?thesis using assms(2) by (simp add: nth_upt)
qed

text \<open>The handle at an offset of a batch.\<close>

lemma handle_counted:
  assumes "unat (ts :: u64) = unat (first :: u64) + i" "i < 2 ^ 32"
  shows "first + ucast (of_nat i :: u32) = ts"
proof -
  have "(ucast (of_nat i :: u32) :: u64) = of_nat i"
    using assms(2) by (simp add: word_unat_eq_iff unat_ucast_u32 unat_of_nat)
  with u64_exact(3) [OF assms(1)] show ?thesis by simp
qed

lemma ready_jobs_last:
  assumes "ready_jobs first 0 js" "js \<noteq> []"
  shows "unat (sj_commit_ts (last js)) = unat first + (length js - 1)" "sj_commit_ts (hd js) = first"
proof -
  have ts: "map (unat \<circ> sj_commit_ts) js = [unat first ..< unat first + length js]"
    using assms(1) by (simp add: ready_jobs_def)
  have "last (map (unat \<circ> sj_commit_ts) js) = unat first + (length js - 1)" "hd (map (unat \<circ> sj_commit_ts) js) = unat first"
    unfolding ts using assms(2) by (simp_all add: last_conv_nth hd_conv_nth Suc_leI)
  with assms(2) show "unat (sj_commit_ts (last js)) = unat first + (length js - 1)" "sj_commit_ts (hd js) = first"
    by (simp_all add: last_map hd_map word_unat_eq_iff)
qed

lemma collect_commit_ts_ready: "ready_jobs first offset js \<Longrightarrow> collect_commit_ts first offset js = Inr (map sj_commit_ts js)"
  by (induction js arbitrary: offset) (auto simp: ready_jobs_Cons dest: u64_exact(1))

lemma check_record_ids_ready: "ready_jobs first offset js \<Longrightarrow> check_record_ids js = None"
  by (induction js arbitrary: offset) (auto simp: ready_jobs_Cons)

lemma take_records_ready:
  "ready_jobs first offset js \<Longrightarrow> take_records js = (map (\<lambda>j. j\<lparr>sj_record := None\<rparr>) js, Inr (job_records js))"
  by (induction js arbitrary: offset) (auto simp: ready_jobs_Cons take_record_def)

lemma check_results_iff:
  "check_results first offset rs = None \<longleftrightarrow>
     map ar_lsn rs = map (\<lambda>i. u64_saturating_add (ar_lsn first) (of_nat i)) [offset ..< offset + length rs] \<and>
     (\<forall>r \<in> set rs. same_batch r first)"
proof (induction rs arbitrary: offset)
  case (Cons r rs)
  show ?case by (auto simp: Cons.IH upt_conv_Cons same_batch_def Let_def simp del: upt_Suc)
qed simp

text \<open>Every handle of a batch has a timestamp and a position in range.\<close>

lemma handle_in_batch:
  assumes "durable_batch_new lsn bl bs bb bytes us first_ts last_ts = Inr b" "handle_at b offset = Inr h" "length bytes \<le> 2 ^ 64"
  shows "checked_add (db_first_commit_ts b) (ucast offset) = Some (dh_commit_ts h)"
    "checked_add (db_first_lsn b) (ucast offset) = Some (dh_durable_lsn h)"
proof -
  let ?n = "of_nat (length bytes - 1) :: u64"
  have b: "db_first_commit_ts b = first_ts" "db_first_lsn b = lsn" "db_commit_record_bytes_by_offset b = bytes"
    and room: "unat lsn + unat ?n < 2 ^ 64" "unat first_ts + unat ?n < 2 ^ 64" and "bytes \<noteq> []"
    using assms(1) by (auto simp: durable_batch_new_def checked_add_def Let_def split: if_splits)
  have h: "dh_batch h = b" "dh_offset_in_batch h = offset" and "unat offset < length bytes"
    using assms(2) b by (auto simp: handle_at_def split: if_splits)
  moreover have "unat ?n = length bytes - 1" using assms(3) \<open>bytes \<noteq> []\<close> by (cases bytes) (auto simp: unat_of_nat)
  moreover have "unat (ucast offset :: u64) = unat offset" by (rule unat_ucast_u32)
  ultimately have "unat lsn + unat (ucast offset :: u64) < 2 ^ 64" "unat first_ts + unat (ucast offset :: u64) < 2 ^ 64"
    using room by linarith+
  then show "checked_add (db_first_commit_ts b) (ucast offset) = Some (dh_commit_ts h)"
    "checked_add (db_first_lsn b) (ucast offset) = Some (dh_durable_lsn h)"
    using h b by (simp_all add: checked_add_def dh_commit_ts_def dh_durable_lsn_def)
qed

lemma take_durable_jobs_ready:
  assumes "ready_jobs (db_first_commit_ts b) offset js"
    "offset + length js \<le> length (db_commit_record_bytes_by_offset b)" "offset + length js \<le> 2 ^ 32"
  shows "take_durable_jobs results first_ts b offset (map (\<lambda>j. j\<lparr>sj_record := None\<rparr>) js) =
    (map (\<lambda>j. j\<lparr>sj_record := None, sj_post_append := None\<rparr>) js,
     Inr (map (\<lambda>(i, j). (\<lparr>dh_batch = b, dh_offset_in_batch = of_nat i\<rparr>, durable_of j)) (enumerate offset js)))"
  using assms
proof (induction js arbitrary: offset)
  case (Cons j js)
  let ?h = "\<lparr>dh_batch = b, dh_offset_in_batch = of_nat offset\<rparr>"
  have offset: "unat (of_nat offset :: u32) = offset" using Cons.prems(3) by (simp add: unat_of_nat)
  then have handle: "handle_at b (of_nat offset) = Inr ?h" using Cons.prems(2) by (simp add: handle_at_def)
  have job: "unat (sj_commit_ts j) = unat (db_first_commit_ts b) + offset" "sj_post_append j \<noteq> None"
    "ready_jobs (db_first_commit_ts b) (Suc offset) js"
    using Cons.prems(1) by (simp_all add: ready_jobs_Cons)
  from handle_counted [OF job(1)] have "dh_commit_ts ?h = sj_commit_ts j" using Cons.prems(3) by (simp add: dh_commit_ts_def)
  then have "take_durable_job (j\<lparr>sj_record := None\<rparr>) ?h = (j\<lparr>sj_record := None, sj_post_append := None\<rparr>, Inr (durable_of j))"
    using job(2) by (auto simp: take_durable_job_def durable_of_def)
  with Cons.IH [OF job(3)] Cons.prems handle show ?case by simp
qed simp

text \<open>The outcomes of an append of jobs that are ready.\<close>

lemma append_to_journal:
  assumes "ready_jobs first 0 js" "js \<noteq> []"
  shows "append_durable_commit_batch journal js =
    (let jobs = map (\<lambda>j. j\<lparr>sj_record := None\<rparr>) js
     in case journal (job_records js) of
          Inl err \<Rightarrow> (jobs, Inl (AppendCommitFailed (JournalFailed err)))
        | Inr rs \<Rightarrow>
            (case validate_append_results rs (length js) first (sj_commit_ts (last js)) of
               Some err \<Rightarrow> (jobs, Inl err)
             | None \<Rightarrow>
                 (case durable_batch_new (ar_lsn (hd rs)) (ar_durable_batch_lsn (hd rs)) (ar_durable_batch_size (hd rs))
                         (ar_durable_batch_bytes (hd rs)) (map sj_estimated_record_bytes js)
                         (ar_sync_latency_micros (hd rs)) first (sj_commit_ts (last js)) of
                    Inl err \<Rightarrow> (jobs, Inl (protocol_error rs first (DurableBatchInvalid err)))
                  | Inr b \<Rightarrow>
                      (case take_durable_jobs rs first b 0 jobs of
                         (jobs', Inl err) \<Rightarrow> (jobs', Inl err)
                       | (jobs', Inr ds) \<Rightarrow>
                           (jobs', Inr \<lparr>ab_handles = map fst ds, ab_durable_jobs = map snd ds, ab_batch = b\<rparr>)))))"
proof -
  note first = ready_jobs_last(2) [OF assms]
  have ts: "hd (map sj_commit_ts js) = first" "last (map sj_commit_ts js) = sj_commit_ts (last js)"
    using assms(2) first by (simp_all add: hd_map last_map)
  note steps = collect_commit_ts_ready [OF assms(1)] check_record_ids_ready [OF assms(1)] take_records_ready [OF assms(1)]
  show ?thesis
    unfolding append_durable_commit_batch_def first steps Let_def if_not_P [OF assms(2)] sum.case option.case prod.case ts ..
qed

text \<open>A batch is made of the results unless their positions overflow.\<close>

lemma durable_batch_ready:
  assumes ready: "ready_jobs first 0 js" "js \<noteq> []" and len: "length js \<le> 2 ^ 32"
  shows "durable_batch_new lsn bl bs bb (map sj_estimated_record_bytes js) us first (sj_commit_ts (last js)) =
    (if unat lsn + (length js - 1) < 2 ^ 64
     then Inr \<lparr>db_first_lsn = lsn, db_durable_batch_lsn = bl, db_durable_batch_size = bs, db_durable_batch_bytes = bb,
               db_commit_record_bytes_by_offset = map sj_estimated_record_bytes js, db_sync_latency_micros = us,
               db_first_commit_ts = first, db_last_commit_ts = sj_commit_ts (last js)\<rparr>
     else Inl (LsnOverflow lsn (ucast (of_nat (length js - 1) :: u64))))"
proof -
  have "unat (of_nat (length js - 1) :: u64) = length js - 1" using len by (simp add: unat_of_nat)
  with u64_exact(1) [OF ready_jobs_last(1) [OF ready]] ready(2) show ?thesis
    by (simp add: durable_batch_new_def Let_def checked_add_def)
qed

lemma results_ok_iff:
  assumes "rs \<noteq> []"
  shows "results_ok n rs \<longleftrightarrow> length rs = n \<and> check_results (hd rs) 0 rs = None \<and> unat (ar_lsn (hd rs)) + (n - 1) < 2 ^ 64"
    (is "?ok \<longleftrightarrow> ?checked")
proof
  assume ok: ?ok
  let ?lsn = "unat (ar_lsn (hd rs))"
  have lsns: "unat (ar_lsn (rs ! i)) = ?lsn + i" if "i < n" for i
    using ok that by (intro counted_nth) (simp_all add: results_ok_def)
  have n: "length rs = n" "0 < n" using ok assms by (auto simp: results_ok_def)
  have "?lsn + (n - 1) < 2 ^ 64" using lsns [of "n - 1"] n unsigned_less [of "ar_lsn (rs ! (n - 1))", where ?'a = nat] by simp
  moreover have "map ar_lsn rs = map (\<lambda>i. u64_saturating_add (ar_lsn (hd rs)) (of_nat i)) [0 ..< n]"
    using n u64_exact(2) [OF lsns] by (intro nth_equalityI) simp_all
  ultimately show ?checked using ok n by (simp add: check_results_iff results_ok_def)
next
  assume checked: ?checked
  let ?lsn = "ar_lsn (hd rs)"
  have "unat (u64_saturating_add ?lsn (of_nat i)) = unat ?lsn + i" if "i < n" for i
  proof -
    have room: "unat ?lsn + i < 2 ^ 64" using checked that by linarith
    then have "unat (of_nat i :: u64) = i" by (simp add: unat_of_nat)
    with room show ?thesis by (simp add: u64_saturating_add_def unat_word_ariths)
  qed
  then have "map unat (map (\<lambda>i. u64_saturating_add ?lsn (of_nat i)) [0 ..< n]) = map (\<lambda>i. unat ?lsn + i) [0 ..< n]"
    by simp
  also have "\<dots> = [unat ?lsn ..< unat ?lsn + n]" by (simp add: map_add_upt add.commute)
  finally have "map unat (map (\<lambda>i. u64_saturating_add ?lsn (of_nat i)) [0 ..< n]) = [unat ?lsn ..< unat ?lsn + n]" .
  moreover have "map ar_lsn rs = map (\<lambda>i. u64_saturating_add ?lsn (of_nat i)) [0 ..< n]" "\<forall>r \<in> set rs. same_batch r (hd rs)"
    using checked by (simp_all add: check_results_iff)
  ultimately show ?ok using checked unfolding results_ok_def map_map [symmetric] by metis
qed

lemma append_durable:
  fixes journal :: "'c commit_record list \<Rightarrow> 'e + append_result list" and js :: "('c, 'x) sequenced_job list"
  assumes ready: "ready_jobs first 0 js" "js \<noteq> []" and len: "length js \<le> 2 ^ 32"
    and rs: "journal (job_records js) = Inr rs" "results_ok (length js) rs"
  shows "\<exists>b. append_durable_commit_batch journal js =
      (map (\<lambda>j. j\<lparr>sj_record := None, sj_post_append := None\<rparr>) js,
       Inr \<lparr>ab_handles = map (\<lambda>i. \<lparr>dh_batch = b, dh_offset_in_batch = of_nat i\<rparr>) [0 ..< length js],
            ab_durable_jobs = map durable_of js, ab_batch = b\<rparr>) \<and>
    db_first_commit_ts b = first \<and> db_first_lsn b = ar_lsn (hd rs) \<and>
    db_commit_record_bytes_by_offset b = map sj_estimated_record_bytes js"
proof -
  have n: "length rs = length js" "rs \<noteq> []" using rs(2) ready(2) by (auto simp: results_ok_def)
  have checked: "check_results (hd rs) 0 rs = None" and room: "unat (ar_lsn (hd rs)) + (length js - 1) < 2 ^ 64"
    using rs(2) results_ok_iff [OF n(2)] by blast+
  have "(validate_append_results rs (length js) first (sj_commit_ts (last js)) :: 'e append_commit_error option) = None"
    using n checked by (simp add: validate_append_results_def)
  moreover obtain b where b: "durable_batch_new (ar_lsn (hd rs)) (ar_durable_batch_lsn (hd rs)) (ar_durable_batch_size (hd rs))
      (ar_durable_batch_bytes (hd rs)) (map sj_estimated_record_bytes js) (ar_sync_latency_micros (hd rs)) first
      (sj_commit_ts (last js)) = Inr b" and fields: "db_first_commit_ts b = first" "db_first_lsn b = ar_lsn (hd rs)"
      "db_commit_record_bytes_by_offset b = map sj_estimated_record_bytes js"
    using durable_batch_ready [OF ready len] room by simp
  moreover have "(take_durable_jobs rs first b 0 (map (\<lambda>j. j\<lparr>sj_record := None\<rparr>) js) ::
      ('c, 'x) sequenced_job list \<times> ('e append_commit_error + (durable_handle \<times> 'x durable_job) list)) =
    (map (\<lambda>j. j\<lparr>sj_record := None, sj_post_append := None\<rparr>) js,
     Inr (map (\<lambda>(i, j). (\<lparr>dh_batch = b, dh_offset_in_batch = of_nat i\<rparr>, durable_of j)) (enumerate 0 js)))"
    using ready(1) len fields by (intro take_durable_jobs_ready) simp_all
  moreover have "map fst (map (\<lambda>(i, j). (\<lparr>dh_batch = b, dh_offset_in_batch = of_nat i\<rparr>, durable_of j)) (enumerate 0 js)) =
      map (\<lambda>i. \<lparr>dh_batch = b, dh_offset_in_batch = of_nat i\<rparr>) (map fst (enumerate 0 js))"
    "map snd (map (\<lambda>(i, j). (\<lparr>dh_batch = b, dh_offset_in_batch = of_nat i\<rparr>, durable_of j)) (enumerate 0 js)) =
      map durable_of (map snd (enumerate 0 js))"
    by (simp_all add: case_prod_beta del: map_fst_enumerate map_snd_enumerate)
  ultimately show ?thesis
    unfolding append_to_journal [OF ready] rs(1) Let_def by (intro exI [of _ b]) simp
qed

lemma append_violation:
  fixes journal :: "'c commit_record list \<Rightarrow> 'e + append_result list" and js :: "('c, 'x) sequenced_job list"
  assumes ready: "ready_jobs first 0 js" "js \<noteq> []" and len: "length js \<le> 2 ^ 32"
    and rs: "journal (job_records js) = Inr rs" "\<not> results_ok (length js) rs"
  shows "\<exists>range lsn kind. append_durable_commit_batch journal js =
    (map (\<lambda>j. j\<lparr>sj_record := None\<rparr>) js, Inl (DurableProtocolViolation range lsn kind))"
proof (cases "length rs = length js \<and> check_results (hd rs) 0 rs = None")
  case False
  then have "\<exists>kind. (validate_append_results rs (length js) first (sj_commit_ts (last js)) :: 'e append_commit_error option) =
      Some (protocol_violation rs first (sj_commit_ts (last js)) kind)"
    by (cases "length rs = length js") (auto simp: validate_append_results_def)
  then show ?thesis unfolding append_to_journal [OF ready] rs(1) Let_def by (auto simp: protocol_violation_def)
next
  case True
  then have "rs \<noteq> []" using ready(2) by auto
  then have "\<not> unat (ar_lsn (hd rs)) + (length js - 1) < 2 ^ 64" using True rs(2) results_ok_iff by blast
  with True durable_batch_ready [OF ready len] show ?thesis
    unfolding append_to_journal [OF ready] rs(1) Let_def
    by (simp add: validate_append_results_def protocol_error_def protocol_violation_def)
qed

section \<open>Properties\<close>

text \<open>\<^bold>\<open>C35.\<close> The append of a batch of sequenced jobs is all or nothing, and says truthfully which.  If the
  journal refuses the records the error says so, if its results are not one per record with consecutive
  positions in one batch the error says that the batch may be durable, and in both cases every job keeps
  the sidecar its cleanup needs.  Otherwise every job gets, in order, a handle with its own timestamp and
  the position the journal gave its record, and its sidecar moves into its durable job.\<close>

theorem append_all_or_nothing:
  assumes "ready_jobs first 0 js" "js \<noteq> []" "length js \<le> 2 ^ 32" "append_durable_commit_batch journal js = (js', out)"
  shows "case journal (job_records js) of
      Inl err \<Rightarrow> out = Inl (AppendCommitFailed (JournalFailed err)) \<and> map sj_post_append js' = map sj_post_append js
    | Inr rs \<Rightarrow>
        if results_ok (length js) rs
        then list_all (\<lambda>j. sj_post_append j = None) js' \<and>
          (\<exists>b. out = Inr b \<and> map dh_commit_ts (ab_handles b) = map sj_commit_ts js \<and>
             map dh_durable_lsn (ab_handles b) = map ar_lsn rs \<and> ab_durable_jobs b = map durable_of js)
        else (\<exists>range lsn kind. out = Inl (DurableProtocolViolation range lsn kind)) \<and>
          map sj_post_append js' = map sj_post_append js"
proof (cases "journal (job_records js)")
  case (Inl err)
  then show ?thesis using assms(4) by (auto simp: append_to_journal [OF assms(1,2)] Let_def)
next
  case (Inr rs)
  show ?thesis
  proof (cases "results_ok (length js) rs")
    case False
    then show ?thesis using append_violation [where journal = journal, OF assms(1-3) Inr] assms(4) Inr by auto
  next
    case True
    from append_durable [where journal = journal, OF assms(1-3) Inr True] obtain b where js': "js' = map (\<lambda>j. j\<lparr>sj_record := None, sj_post_append := None\<rparr>) js"
      and out: "out = Inr \<lparr>ab_handles = map (\<lambda>i. \<lparr>dh_batch = b, dh_offset_in_batch = of_nat i\<rparr>) [0 ..< length js],
          ab_durable_jobs = map durable_of js, ab_batch = b\<rparr>"
      and b: "db_first_commit_ts b = first" "db_first_lsn b = ar_lsn (hd rs)"
      using assms(4) by auto
    have len: "length rs = length js" using True by (simp add: results_ok_def)
    have "first + ucast (of_nat i :: u32) = sj_commit_ts (js ! i)" if "i < length js" for i
      using assms(1,3) that by (intro handle_counted counted_nth) (simp_all add: ready_jobs_def)
    moreover have "ar_lsn (hd rs) + ucast (of_nat i :: u32) = ar_lsn (rs ! i)" if "i < length js" for i
      using True assms(3) that by (intro handle_counted counted_nth) (simp_all add: results_ok_def)
    ultimately have "map dh_commit_ts (ab_handles (projr out)) = map sj_commit_ts js"
      "map dh_durable_lsn (ab_handles (projr out)) = map ar_lsn rs"
      using len by (auto simp: out b dh_commit_ts_def dh_durable_lsn_def intro!: nth_equalityI)
    then show ?thesis using True Inr by (simp add: js' out list_all_iff)
  qed
qed

text \<open>Two jobs, and a journal that numbers its records from seven.\<close>

definition demo_sequenced :: "commit_ts \<Rightarrow> (unit, unit) sequenced_job" where
  "demo_sequenced ts =
     \<lparr>sj_commit_ts = ts, sj_record = Some \<lparr>rec_commit_id = ts, rec_content = ()\<rparr>, sj_estimated_record_bytes = 100,
      sj_retained_bytes = 1024,
      sj_post_append = Some \<lparr>pa_ack_policy = RequiredPublished, pa_completion = \<lparr>ch_slot_id = ts\<rparr>, pa_actions = ()\<rparr>\<rparr>"

definition demo_journal :: "unit commit_record list \<Rightarrow> string + append_result list" where
  "demo_journal records =
     Inr (map (\<lambda>i. \<lparr>ar_lsn = 7 + of_nat i, ar_durable_batch_lsn = 8, ar_durable_batch_size = 2, ar_durable_batch_bytes = 200,
                    ar_sync_latency_micros = 3\<rparr>) [0 ..< length records])"

theorem append_all_or_nothing_witness:
  "\<exists>js' b. append_durable_commit_batch demo_journal [demo_sequenced 4, demo_sequenced 5] = (js', Inr b) \<and>
     map dh_commit_ts (ab_handles b) = [4, 5] \<and> map dh_durable_lsn (ab_handles b) = [7, 8]"
proof -
  let ?js = "[demo_sequenced 4, demo_sequenced 5]"
  obtain js' out where run: "append_durable_commit_batch demo_journal ?js = (js', out)" by fastforce
  have ready: "ready_jobs 4 0 ?js" by (simp add: ready_jobs_Cons demo_sequenced_def) (simp add: ready_jobs_def)
  let ?r = "\<lambda>lsn. \<lparr>ar_lsn = lsn, ar_durable_batch_lsn = 8, ar_durable_batch_size = 2, ar_durable_batch_bytes = 200,
      ar_sync_latency_micros = 3\<rparr>"
  have journal: "demo_journal (job_records ?js) = Inr [?r 7, ?r 8]" by (simp add: demo_journal_def)
  have ok: "results_ok (length ?js) [?r 7, ?r 8]" by (simp add: results_ok_def same_batch_def numeral_2_eq_2 [symmetric])
  have few: "?js \<noteq> []" "length ?js \<le> 2 ^ 32" by simp_all
  from append_all_or_nothing [OF ready few run] obtain b where "out = Inr b"
    "map dh_commit_ts (ab_handles b) = map sj_commit_ts ?js" "map dh_durable_lsn (ab_handles b) = map ar_lsn [?r 7, ?r 8]"
    unfolding journal sum.case if_P [OF ok] by blast
  with run show ?thesis by (auto simp: demo_sequenced_def)
qed

end
