(* ===== verification/Finalize_Stage.thy ===== *)
theory Finalize_Stage
  imports Durable_Append
begin

text \<open>
  The commit-finalize stage (\<open>commit/finalize/stage.rs\<close>) with its registration gate (\<open>commit/gate.rs\<close>): durable
  batches wait in a bounded queue for one worker, which applies the reservation of each job, releases its
  locks, registers its timestamp and submits its publication.  The calls of hooks and of the closures of
  a job are events; what the closures and the apply runtime do, a panic included, is a parameter.
\<close>

section \<open>State\<close>

datatype stage_error =
  StagePhase1 commit_ts u64 string
| StageDurableHandle nat handle_error
| StageBuildRequest commit_ts u64 string
| StageSubmit commit_ts u64 string

datatype shutdown_mode = Running | GracefulDraining nat | Forced

record stage_options =
  sg_queue_capacity :: nat
  sg_graceful_shutdown_timeout :: nat

definition stage_options_default :: stage_options where
  "stage_options_default = \<lparr>sg_queue_capacity = 1024, sg_graceful_shutdown_timeout = 30000000\<rparr>"

record 'x scheduled_batch =
  sc_accepted :: "'x durable_job list"
  sc_batch :: durable_batch

record 'x finalize_stage =
  fs_queue :: "'x scheduled_batch list"
  fs_shutdown :: shutdown_mode
  fs_poison :: "stage_error option"
  fs_registered_commit_ts :: commit_ts
  fs_options :: stage_options

definition stage_new :: "stage_options \<Rightarrow> 'x finalize_stage" where
  "stage_new opts =
     \<lparr>fs_queue = [], fs_shutdown = Running, fs_poison = None, fs_registered_commit_ts = 0, fs_options = opts\<rparr>"

definition mark_registered :: "commit_ts \<Rightarrow> 'x finalize_stage \<Rightarrow> 'x finalize_stage" where
  "mark_registered ts st =
     (if fs_registered_commit_ts st < ts then st\<lparr>fs_registered_commit_ts := ts\<rparr> else st)"

section \<open>Operations of clients\<close>

datatype schedule_error = ForcedShutdown | StagePoisoned stage_error

definition push_batch :: "'x scheduled_batch \<Rightarrow> 'x finalize_stage \<Rightarrow> 'x finalize_stage \<times> (schedule_error + unit) option" where
  "push_batch b st =
     (if length (fs_queue st) < sg_queue_capacity (fs_options st) then (st\<lparr>fs_queue := fs_queue st @ [b]\<rparr>, Some (Inr ()))
      else (st, None))"

text \<open>One pass of the loop of \<open>schedule\<close>; None is a caller that waits for room, and tries again when it is
  woken or its deadline has passed.\<close>

definition schedule :: "nat \<Rightarrow> 'x scheduled_batch \<Rightarrow> 'x finalize_stage \<Rightarrow> 'x finalize_stage \<times> (schedule_error + unit) option" where
  "schedule now b st =
     (case fs_poison st of
        Some err \<Rightarrow> (st, Some (Inl (StagePoisoned err)))
      | None \<Rightarrow>
          (case fs_shutdown st of
             Forced \<Rightarrow> (st, Some (Inl ForcedShutdown))
           | GracefulDraining deadline \<Rightarrow>
               (if deadline \<le> now then (st\<lparr>fs_shutdown := Forced\<rparr>, Some (Inl ForcedShutdown)) else push_batch b st)
           | Running \<Rightarrow> push_batch b st))"

definition start_graceful_shutdown :: "nat \<Rightarrow> nat option \<Rightarrow> 'x finalize_stage \<Rightarrow> 'x finalize_stage" where
  "start_graceful_shutdown now timeout st =
     (case fs_shutdown st of
        Running \<Rightarrow>
          st\<lparr>fs_shutdown := GracefulDraining
            (now + (case timeout of None \<Rightarrow> sg_graceful_shutdown_timeout (fs_options st) | Some t \<Rightarrow> t))\<rparr>
      | _ \<Rightarrow> st)"

definition force_shutdown :: "'x finalize_stage \<Rightarrow> 'x finalize_stage" where
  "force_shutdown st = st\<lparr>fs_shutdown := Forced\<rparr>"

section \<open>The worker\<close>

text \<open>Calls of the closures of a job, with the job, and of hooks.\<close>

datatype 'x stage_event =
  Ev_ReservationApply "'x durable_job"
| Ev_ReservationRelease "'x durable_job"
| Ev_LockRelease "'x durable_job"
| Ev_PrePublishRelease "'x durable_job"
| Ev_SubmitAsync "'x durable_job"
| Ev_OnRegistered commit_ts
| Ev_OnSubmission commit_ts commit_ack_policy
| Ev_OnSubmitError commit_ts string
| Ev_OnStageError stage_error
| Ev_OnDurableAmbiguous completion_handle stage_error

text \<open>What the closures of a job and the apply runtime do: the first phase panics in one of its three calls,
  building the request panics, the submission is refused.\<close>

record job_outcome =
  jo_phase1 :: "(nat \<times> string) option"
  jo_build :: "string option"
  jo_submit :: "string option"

record stage_failure =
  sf_error :: stage_error
  sf_ambiguous_jobs :: "completion_handle list"

definition stage_poison :: "stage_error \<Rightarrow> 'x finalize_stage \<Rightarrow> 'x finalize_stage" where
  "stage_poison err st =
     st\<lparr>fs_poison := Some (case fs_poison st of None \<Rightarrow> err | Some first \<Rightarrow> first), fs_shutdown := Forced\<rparr>"

definition release_unprocessed_job :: "'x durable_job \<Rightarrow> 'x stage_event list" where
  "release_unprocessed_job job = [Ev_ReservationRelease job, Ev_LockRelease job, Ev_PrePublishRelease job]"

definition release_unprocessed_jobs :: "'x durable_job list \<Rightarrow> 'x stage_event list \<times> completion_handle list" where
  "release_unprocessed_jobs jobs = (concat (map release_unprocessed_job jobs), map dj_completion jobs)"

definition finalize_failure_after_current ::
  "stage_error \<Rightarrow> completion_handle \<Rightarrow> 'x durable_job list \<Rightarrow> 'x stage_event list \<times> stage_failure" where
  "finalize_failure_after_current err current suffix =
     (case release_unprocessed_jobs suffix of
        (evs, cs) \<Rightarrow> (evs, \<lparr>sf_error = err, sf_ambiguous_jobs = current # cs\<rparr>))"

definition finalize_failure_unprocessed ::
  "stage_error \<Rightarrow> 'x durable_job option \<Rightarrow> 'x durable_job list \<Rightarrow> 'x stage_event list \<times> stage_failure" where
  "finalize_failure_unprocessed err current suffix =
     (case release_unprocessed_jobs (case current of None \<Rightarrow> suffix | Some job \<Rightarrow> job # suffix) of
        (evs, cs) \<Rightarrow> (evs, \<lparr>sf_error = err, sf_ambiguous_jobs = cs\<rparr>))"

text \<open>The loop of \<open>process_finalize_batch\<close>; the stage changes by the gate only.\<close>

fun process_jobs ::
  "('x durable_job \<Rightarrow> job_outcome) \<Rightarrow> durable_batch \<Rightarrow> nat \<Rightarrow> 'x finalize_stage \<Rightarrow> 'x durable_job list
     \<Rightarrow> 'x finalize_stage \<times> 'x stage_event list \<times> stage_failure option" where
  "process_jobs outcome b offset st [] = (st, [], None)"
| "process_jobs outcome b offset st (job # rest) =
     (case handle_at b (of_nat offset) of
        Inl err \<Rightarrow>
          (case finalize_failure_unprocessed (StageDurableHandle offset err) (Some job) rest of
             (evs, failure) \<Rightarrow> (st, evs, Some failure))
      | Inr h \<Rightarrow>
          (let ts = dj_commit_ts job; o1 = outcome job;
               phase1 = [Ev_ReservationApply job, Ev_LockRelease job, Ev_PrePublishRelease job]
           in case jo_phase1 o1 of
                Some (calls, message) \<Rightarrow>
                  (case finalize_failure_after_current (StagePhase1 ts (dh_durable_lsn h) message) (dj_completion job) rest of
                     (evs, failure) \<Rightarrow> (st, take calls phase1 @ evs, Some failure))
              | None \<Rightarrow>
                  (let st1 = mark_registered ts st; evs1 = phase1 @ [Ev_OnRegistered ts]
                   in case jo_build o1 of
                        Some message \<Rightarrow>
                          (case finalize_failure_after_current (StageBuildRequest ts (dh_durable_lsn h) message) (dj_completion job) rest of
                             (evs, failure) \<Rightarrow> (st1, evs1 @ evs, Some failure))
                      | None \<Rightarrow>
                          (case jo_submit o1 of
                             Some message \<Rightarrow>
                               (case finalize_failure_after_current (StageSubmit ts (dh_durable_lsn h) message) (dj_completion job) rest of
                                  (evs, failure) \<Rightarrow> (st1, evs1 @ Ev_OnSubmitError ts message # evs, Some failure))
                           | None \<Rightarrow>
                               (case process_jobs outcome b (Suc offset) st1 rest of
                                  (st2, evs2, failure) \<Rightarrow>
                                    (st2, evs1 @ [Ev_SubmitAsync job, Ev_OnSubmission ts (dj_ack_policy job)] @ evs2, failure))))))"

definition process_finalize_batch ::
  "('x durable_job \<Rightarrow> job_outcome) \<Rightarrow> 'x scheduled_batch \<Rightarrow> 'x finalize_stage
     \<Rightarrow> 'x finalize_stage \<times> 'x stage_event list \<times> stage_failure option" where
  "process_finalize_batch outcome b st = process_jobs outcome (sc_batch b) 0 st (sc_accepted b)"

text \<open>None is a worker that waits for a batch; Some None one that stops.\<close>

definition pop_batch :: "'x finalize_stage \<Rightarrow> 'x finalize_stage \<times> 'x scheduled_batch option option" where
  "pop_batch st =
     (case fs_queue st of
        b # bs \<Rightarrow> (st\<lparr>fs_queue := bs\<rparr>, Some (Some b))
      | [] \<Rightarrow> (st, if fs_shutdown st = Forced \<or> fs_poison st \<noteq> None then Some None else None))"

definition drain_queued_jobs :: "'x finalize_stage \<Rightarrow> 'x finalize_stage \<times> 'x stage_event list \<times> completion_handle list" where
  "drain_queued_jobs st =
     (case release_unprocessed_jobs (concat (map sc_accepted (fs_queue st))) of (evs, cs) \<Rightarrow> (st\<lparr>fs_queue := []\<rparr>, evs, cs))"

text \<open>One turn of \<open>run_finalize_worker\<close>, and whether the worker goes on.\<close>

definition worker_turn ::
  "('x durable_job \<Rightarrow> job_outcome) \<Rightarrow> 'x finalize_stage \<Rightarrow> ('x finalize_stage \<times> 'x stage_event list \<times> bool) option" where
  "worker_turn outcome st =
     (case pop_batch st of
        (st1, None) \<Rightarrow> None
      | (st1, Some None) \<Rightarrow> Some (st1, [], False)
      | (st1, Some (Some b)) \<Rightarrow>
          (case process_finalize_batch outcome b st1 of
             (st2, evs, None) \<Rightarrow> Some (st2, evs, True)
           | (st2, evs, Some failure) \<Rightarrow>
               (case drain_queued_jobs (stage_poison (sf_error failure) st2) of
                  (st3, evs', cs) \<Rightarrow>
                    Some (st3, evs @ Ev_OnStageError (sf_error failure) # evs' @
                       map (\<lambda>c. Ev_OnDurableAmbiguous c (sf_error failure)) (sf_ambiguous_jobs failure @ cs), False))))"

section \<open>What a batch reports\<close>

text \<open>How a job is settled: its publication was submitted, or its completion is ambiguous.\<close>

fun report :: "'x stage_event \<Rightarrow> (commit_ts + completion_handle) option" where
  "report (Ev_OnSubmission ts policy) = Some (Inl ts)"
| "report (Ev_OnDurableAmbiguous c err) = Some (Inr c)"
| "report _ = None"

fun lock_release :: "'x stage_event \<Rightarrow> 'x durable_job option" where
  "lock_release (Ev_LockRelease job) = Some job"
| "lock_release _ = None"

fun registration :: "'x stage_event \<Rightarrow> commit_ts option" where
  "registration (Ev_OnRegistered ts) = Some ts"
| "registration _ = None"

fun application :: "'x stage_event \<Rightarrow> 'x durable_job option" where
  "application (Ev_ReservationApply job) = Some job"
| "application _ = None"

definition settles :: "'x durable_job \<Rightarrow> commit_ts + completion_handle \<Rightarrow> bool" where
  "settles job r \<longleftrightarrow> r = Inl (dj_commit_ts job) \<or> r = Inr (dj_completion job)"

fun phase1_error :: "stage_error \<Rightarrow> bool" where
  "phase1_error (StagePhase1 ts lsn message) = True"
| "phase1_error _ = False"

lemma map_filter_append: "List.map_filter f (xs @ ys) = List.map_filter f xs @ List.map_filter f ys"
  by (simp add: map_filter_def)

lemmas filter_events = map_filter_append map_filter_simps

lemma released_events:
  "List.map_filter report (concat (map release_unprocessed_job jobs)) = []"
  "List.map_filter lock_release (concat (map release_unprocessed_job jobs)) = jobs"
  "List.map_filter registration (concat (map release_unprocessed_job jobs)) = []"
  "List.map_filter application (concat (map release_unprocessed_job jobs)) = []"
  by (induction jobs) (simp_all add: release_unprocessed_job_def filter_events)

lemma ambiguous_events:
  "List.map_filter report (map (\<lambda>c. Ev_OnDurableAmbiguous c err) cs) = map Inr cs"
  "List.map_filter lock_release (map (\<lambda>c. Ev_OnDurableAmbiguous c err) cs) = []"
  "List.map_filter registration (map (\<lambda>c. Ev_OnDurableAmbiguous c err) cs) = []"
  "List.map_filter application (map (\<lambda>c. Ev_OnDurableAmbiguous c err) cs) = []"
  by (induction cs) (simp_all add: filter_events)

definition batch_reports :: "'x durable_job list \<Rightarrow> 'x stage_event list \<Rightarrow> stage_failure option \<Rightarrow> bool" where
  "batch_reports jobs evs failure \<longleftrightarrow>
     (let cs = (case failure of None \<Rightarrow> [] | Some f \<Rightarrow> sf_ambiguous_jobs f)
      in list_all2 settles jobs (List.map_filter report evs @ map Inr cs)) \<and>
     (List.map_filter lock_release evs = jobs \<or> (\<exists>f. failure = Some f \<and> phase1_error (sf_error f))) \<and>
     (\<exists>n. List.map_filter registration evs = map dj_commit_ts (take n jobs) \<and>
        set (take n jobs) \<subseteq> set (List.map_filter application evs) \<and> (failure = None \<longrightarrow> n = length jobs))"

lemma settles_ambiguous: "list_all2 settles jobs (map Inr (map dj_completion jobs))"
  by (simp add: list_all2_conv_all_nth settles_def)

lemma process_jobs_stage:
  "process_jobs outcome b offset st jobs = (st', evs, failure) \<Longrightarrow> st' = fold mark_registered (List.map_filter registration evs) st"
proof (induction outcome b offset st jobs arbitrary: st' evs failure rule: process_jobs.induct)
  case (2 outcome b offset st job rest)
  show ?case
  proof (cases "handle_at b (of_nat offset)")
    case (Inl err)
    then show ?thesis using "2.prems"
      by (auto simp: finalize_failure_unprocessed_def release_unprocessed_jobs_def released_events filter_events
          release_unprocessed_job_def)
  next
    case (Inr h)
    note failed = finalize_failure_after_current_def release_unprocessed_jobs_def released_events filter_events
    show ?thesis
    proof (cases "jo_phase1 (outcome job)")
      case (Some panic)
      then show ?thesis using "2.prems" Inr
        by (cases panic) (auto simp: Let_def failed take_Cons' split: nat.splits)
    next
      case None
      show ?thesis
      proof (cases "jo_build (outcome job) = None \<and> jo_submit (outcome job) = None")
        case True
        let ?st = "mark_registered (dj_commit_ts job) st"
        obtain st2 evs2 where go: "process_jobs outcome b (Suc offset) ?st rest = (st2, evs2, failure)"
          and st': "st' = st2" and evs: "List.map_filter registration evs = dj_commit_ts job # List.map_filter registration evs2"
          using "2.prems" Inr None True by (auto simp: Let_def filter_events split: prod.splits)
        from True have t: "jo_build (outcome job) = None" "jo_submit (outcome job) = None" by blast+
        show ?thesis using "2.IH" [OF Inr refl refl refl None refl refl t go] st' evs by simp
      next
        case False
        then show ?thesis using "2.prems" Inr None
          by (cases "jo_build (outcome job)") (auto simp: Let_def failed)
      qed
    qed
  qed
qed (simp add: filter_events)

text \<open>A failure reports the jobs from the current one on.\<close>

lemma failed_after_current:
  assumes "finalize_failure_after_current err (dj_completion job) rest = (evs, f)"
    and "List.map_filter report pre = []" "List.map_filter lock_release pre = [job] \<or> phase1_error err"
    and "\<exists>n \<le> 1. List.map_filter registration pre = map dj_commit_ts (take n [job]) \<and>
      set (take n [job]) \<subseteq> set (List.map_filter application pre)"
  shows "batch_reports (job # rest) (pre @ evs) (Some f)"
proof -
  have evs: "evs = concat (map release_unprocessed_job rest)" and f: "f = \<lparr>sf_error = err, sf_ambiguous_jobs = dj_completion job # map dj_completion rest\<rparr>"
    using assms(1) by (auto simp: finalize_failure_after_current_def release_unprocessed_jobs_def)
  have "list_all2 settles (job # rest) (map Inr (map dj_completion (job # rest)))" by (rule settles_ambiguous)
  moreover obtain n where n: "n \<le> 1" "List.map_filter registration pre = map dj_commit_ts (take n [job])"
    "set (take n [job]) \<subseteq> set (List.map_filter application pre)" using assms(4) by blast
  then have "take n (job # rest) = take n [job]" by (cases n) auto
  ultimately show ?thesis unfolding batch_reports_def evs f
    using assms(2,3) n by (auto simp: filter_events released_events intro!: exI [of _ n])
qed

lemma batch_reports_Cons:
  assumes "batch_reports rest evs failure"
    and "List.map_filter report pre = [Inl (dj_commit_ts job)]" "List.map_filter lock_release pre = [job]"
    "List.map_filter registration pre = [dj_commit_ts job]" "List.map_filter application pre = [job]"
  shows "batch_reports (job # rest) (pre @ evs) failure"
proof -
  from assms(1) obtain n where n: "List.map_filter registration evs = map dj_commit_ts (take n rest)"
    "set (take n rest) \<subseteq> set (List.map_filter application evs)" "failure = None \<longrightarrow> n = length rest"
    by (auto simp: batch_reports_def)
  have "\<exists>n. List.map_filter registration (pre @ evs) = map dj_commit_ts (take n (job # rest)) \<and>
      set (take n (job # rest)) \<subseteq> set (List.map_filter application (pre @ evs)) \<and> (failure = None \<longrightarrow> n = length (job # rest))"
    using n assms(4,5) by (intro exI [of _ "Suc n"]) (auto simp: filter_events)
  with assms(1-3) show ?thesis by (simp add: batch_reports_def filter_events settles_def Let_def)
qed

lemma process_jobs_reports:
  "process_jobs outcome b offset st jobs = (st', evs, failure) \<Longrightarrow> batch_reports jobs evs failure"
proof (induction outcome b offset st jobs arbitrary: st' evs failure rule: process_jobs.induct)
  case (1 outcome b offset st)
  then show ?case by (simp add: batch_reports_def filter_events)
next
  case (2 outcome b offset st job rest)
  show ?case
  proof (cases "handle_at b (of_nat offset)")
    case (Inl err)
    have "list_all2 settles (job # rest) (map Inr (map dj_completion (job # rest)))" by (rule settles_ambiguous)
    moreover have "evs = concat (map release_unprocessed_job (job # rest))"
      "failure = Some \<lparr>sf_error = StageDurableHandle offset err, sf_ambiguous_jobs = map dj_completion (job # rest)\<rparr>"
      using "2.prems" Inl by (auto simp: finalize_failure_unprocessed_def release_unprocessed_jobs_def)
    moreover note released_events [of "job # rest"]
    ultimately show ?thesis by (auto simp: batch_reports_def intro!: exI [of _ 0])
  next
    case (Inr h)
    let ?phase1 = "[Ev_ReservationApply job, Ev_LockRelease job, Ev_PrePublishRelease job]"
    show ?thesis
    proof (cases "jo_phase1 (outcome job)")
      case (Some panic)
      obtain calls message where panic: "panic = (calls, message)" by fastforce
      obtain evs' f where fail: "finalize_failure_after_current (StagePhase1 (dj_commit_ts job) (dh_durable_lsn h) message)
          (dj_completion job) rest = (evs', f)" and out: "evs = take calls ?phase1 @ evs'" "failure = Some f"
        using "2.prems" Inr Some panic by (auto simp: Let_def split: prod.splits)
      have "List.map_filter report (take calls ?phase1) = []" "List.map_filter registration (take calls ?phase1) = []"
        by (auto simp: take_Cons' filter_events)
      then show ?thesis unfolding out by (intro failed_after_current [OF fail]) (auto intro: exI [of _ 0])
    next
      case None
      let ?pre = "?phase1 @ [Ev_OnRegistered (dj_commit_ts job)]"
      have pre: "List.map_filter report ?pre = []" "List.map_filter lock_release ?pre = [job]"
        "List.map_filter registration ?pre = [dj_commit_ts job]" "List.map_filter application ?pre = [job]"
        by (simp_all add: filter_events)
      have reg: "\<exists>n \<le> 1. [dj_commit_ts job] = map dj_commit_ts (take n [job]) \<and> set (take n [job]) \<subseteq> {job}"
        by (rule exI [of _ 1]) simp
      show ?thesis
      proof (cases "jo_build (outcome job)")
        case (Some message)
        obtain evs' f where fail: "finalize_failure_after_current (StageBuildRequest (dj_commit_ts job) (dh_durable_lsn h) message)
            (dj_completion job) rest = (evs', f)" and out: "evs = ?pre @ evs'" "failure = Some f"
          using "2.prems" Inr None Some by (auto simp: Let_def split: prod.splits)
        show ?thesis unfolding out using pre reg by (intro failed_after_current [OF fail]) simp_all
      next
        case built: None
        show ?thesis
        proof (cases "jo_submit (outcome job)")
          case (Some message)
          obtain evs' f where fail: "finalize_failure_after_current (StageSubmit (dj_commit_ts job) (dh_durable_lsn h) message)
              (dj_completion job) rest = (evs', f)"
            and out: "evs = (?pre @ [Ev_OnSubmitError (dj_commit_ts job) message]) @ evs'" "failure = Some f"
            using "2.prems" Inr None built Some by (auto simp: Let_def split: prod.splits)
          show ?thesis unfolding out using pre reg by (intro failed_after_current [OF fail]) (simp_all add: filter_events)
        next
          case submitted: None
          let ?sub = "?pre @ [Ev_SubmitAsync job, Ev_OnSubmission (dj_commit_ts job) (dj_ack_policy job)]"
          obtain st2 evs2 where go: "process_jobs outcome b (Suc offset) (mark_registered (dj_commit_ts job) st) rest = (st2, evs2, failure)"
            and out: "evs = ?sub @ evs2"
            using "2.prems" Inr None built submitted by (auto simp: Let_def split: prod.splits)
          from "2.IH" [OF Inr refl refl refl None refl refl built submitted go] show ?thesis
            unfolding out by (rule batch_reports_Cons) (simp_all add: filter_events)
        qed
      qed
    qed
  qed
qed

section \<open>Runs\<close>

text \<open>The stage with its worker, the jobs it ever took over and what was called, in order.\<close>

record 'x stage_world =
  sw_stage :: "'x finalize_stage"
  sw_worker_runs :: bool
  sw_scheduled :: "'x durable_job list"
  sw_events :: "'x stage_event list"

definition stage_world_new :: "stage_options \<Rightarrow> 'x stage_world" where
  "stage_world_new opts = \<lparr>sw_stage = stage_new opts, sw_worker_runs = True, sw_scheduled = [], sw_events = []\<rparr>"

inductive stage_step :: "'x stage_world \<Rightarrow> 'x stage_world \<Rightarrow> bool" where
  ss_schedule: "schedule now b (sw_stage w) = (st', Some (Inr ())) \<Longrightarrow>
    stage_step w (w\<lparr>sw_stage := st', sw_scheduled := sw_scheduled w @ sc_accepted b\<rparr>)"
| ss_refuse: "schedule now b (sw_stage w) = (st', Some (Inl err)) \<Longrightarrow> stage_step w (w\<lparr>sw_stage := st'\<rparr>)"
| ss_graceful: "stage_step w (w\<lparr>sw_stage := start_graceful_shutdown now timeout (sw_stage w)\<rparr>)"
| ss_force: "stage_step w (w\<lparr>sw_stage := force_shutdown (sw_stage w)\<rparr>)"
| ss_worker: "sw_worker_runs w \<Longrightarrow> worker_turn outcome (sw_stage w) = Some (st', evs, goes_on) \<Longrightarrow>
    stage_step w (w\<lparr>sw_stage := st', sw_events := sw_events w @ evs, sw_worker_runs := goes_on\<rparr>)"

abbreviation queued_jobs :: "'x finalize_stage \<Rightarrow> 'x durable_job list" where
  "queued_jobs st \<equiv> concat (map sc_accepted (fs_queue st))"

definition refuses :: "'x finalize_stage \<Rightarrow> bool" where
  "refuses st \<longleftrightarrow> fs_poison st \<noteq> None \<or> fs_shutdown st = Forced"

definition settled_ok :: "'x durable_job list \<Rightarrow> nat \<Rightarrow> 'x stage_event list \<Rightarrow> bool" where
  "settled_ok settled n evs \<longleftrightarrow>
     list_all2 settles settled (List.map_filter report evs) \<and>
     (List.map_filter lock_release evs = settled \<or> (\<exists>err. Ev_OnStageError err \<in> set evs \<and> phase1_error err)) \<and>
     List.map_filter registration evs = map dj_commit_ts (take n settled) \<and>
     set (take n settled) \<subseteq> set (List.map_filter application evs)"

definition stage_ok :: "'x stage_world \<Rightarrow> bool" where
  "stage_ok w \<longleftrightarrow>
     (\<exists>settled n. sw_scheduled w = settled @ queued_jobs (sw_stage w) \<and> settled_ok settled n (sw_events w) \<and>
        (sw_worker_runs w \<longrightarrow> n = length settled)) \<and>
     fs_registered_commit_ts (sw_stage w) = fold max (List.map_filter registration (sw_events w)) 0 \<and>
     (\<not> sw_worker_runs w \<longrightarrow> fs_queue (sw_stage w) = [] \<and> refuses (sw_stage w))"

lemma mark_registered_fold:
  "fold mark_registered ts st = st\<lparr>fs_registered_commit_ts := fold max ts (fs_registered_commit_ts st)\<rparr>"
  by (induction ts arbitrary: st) (auto simp: mark_registered_def max_def)

lemma refuses_schedule: "refuses st \<Longrightarrow> \<exists>err. schedule now b st = (st, Some (Inl err))"
  by (cases "fs_poison st") (auto simp: refuses_def schedule_def)

lemma schedule_cases:
  assumes "schedule now b st = (st', r)"
  shows "r = Some (Inr ()) \<and> \<not> refuses st \<and> st' = st\<lparr>fs_queue := fs_queue st @ [b]\<rparr> \<or>
    r \<noteq> Some (Inr ()) \<and> fs_queue st' = fs_queue st \<and> fs_registered_commit_ts st' = fs_registered_commit_ts st \<and>
    (refuses st \<longrightarrow> refuses st')"
  using assms by (auto simp: schedule_def push_batch_def refuses_def split: option.splits shutdown_mode.splits if_splits)

text \<open>The settled jobs after a batch and after a failure.\<close>

lemma settled_batch:
  assumes "settled_ok settled (length settled) evs" "batch_reports jobs evs' None"
  shows "settled_ok (settled @ jobs) (length (settled @ jobs)) (evs @ evs')"
  using assms by (auto simp: settled_ok_def batch_reports_def filter_events intro: list_all2_appendI)

lemma settled_failure:
  assumes ok: "settled_ok settled (length settled) evs" and batch: "batch_reports jobs evs' (Some f)"
  shows "\<exists>n. settled_ok (settled @ jobs @ queued) n
    (evs @ evs' @ Ev_OnStageError (sf_error f) # concat (map release_unprocessed_job queued) @
      map (\<lambda>c. Ev_OnDurableAmbiguous c (sf_error f)) (sf_ambiguous_jobs f @ map dj_completion queued))"
proof -
  from batch obtain n where n: "List.map_filter registration evs' = map dj_commit_ts (take n jobs)"
    "set (take n jobs) \<subseteq> set (List.map_filter application evs')" by (auto simp: batch_reports_def)
  let ?n = "length settled + min n (length jobs)"
  have take: "take ?n (settled @ jobs @ queued) = settled @ take n jobs" by (simp add: min_def)
  have "list_all2 settles (jobs @ queued) (List.map_filter report evs' @ map Inr (sf_ambiguous_jobs f @ map dj_completion queued))"
    using list_all2_appendI [OF _ settles_ambiguous [of queued]] batch by (fastforce simp: batch_reports_def)
  then have "list_all2 settles (settled @ jobs @ queued)
      (List.map_filter report evs @ List.map_filter report evs' @ map Inr (sf_ambiguous_jobs f @ map dj_completion queued))"
    using ok by (intro list_all2_appendI [of settles settled]) (simp_all add: settled_ok_def)
  moreover have "List.map_filter lock_release evs @ List.map_filter lock_release evs' @ queued = settled @ jobs @ queued \<or>
      (\<exists>err. Ev_OnStageError err \<in> set evs \<and> phase1_error err) \<or> phase1_error (sf_error f)"
    using ok batch by (auto simp: settled_ok_def batch_reports_def)
  moreover have "List.map_filter registration evs @ List.map_filter registration evs' = map dj_commit_ts (settled @ take n jobs)"
    "set (settled @ take n jobs) \<subseteq> set (List.map_filter application evs @ List.map_filter application evs')"
    using ok n by (auto simp: settled_ok_def)
  ultimately have "settled_ok (settled @ jobs @ queued) ?n
    (evs @ evs' @ Ev_OnStageError (sf_error f) # concat (map release_unprocessed_job queued) @
      map (\<lambda>c. Ev_OnDurableAmbiguous c (sf_error f)) (sf_ambiguous_jobs f @ map dj_completion queued))"
    unfolding settled_ok_def take filter_events released_events ambiguous_events by auto
  then show ?thesis ..
qed

lemma stage_ok_worker:
  assumes ok: "stage_ok w" and runs: "sw_worker_runs w" and turn: "worker_turn outcome (sw_stage w) = Some (st', evs, goes_on)"
  shows "stage_ok (w\<lparr>sw_stage := st', sw_events := sw_events w @ evs, sw_worker_runs := goes_on\<rparr>)"
proof (cases "fs_queue (sw_stage w)")
  case Nil
  then show ?thesis using ok turn
    by (auto simp: worker_turn_def pop_batch_def stage_ok_def refuses_def split: if_splits)
next
  case (Cons b bs)
  let ?st = "(sw_stage w)\<lparr>fs_queue := bs\<rparr>"
  from ok runs obtain settled where all: "sw_scheduled w = settled @ sc_accepted b @ concat (map sc_accepted bs)"
    and settled: "settled_ok settled (length settled) (sw_events w)"
    and reg: "fs_registered_commit_ts (sw_stage w) = fold max (List.map_filter registration (sw_events w)) 0"
    by (auto simp: stage_ok_def Cons)
  obtain st2 evs2 failure where run: "process_finalize_batch outcome b ?st = (st2, evs2, failure)"
    by (cases "process_finalize_batch outcome b ?st") auto
  note reports = process_jobs_reports [OF run [unfolded process_finalize_batch_def]]
  have st2: "st2 = ?st\<lparr>fs_registered_commit_ts := fold max (List.map_filter registration (sw_events w @ evs2)) 0\<rparr>"
    using process_jobs_stage [OF run [unfolded process_finalize_batch_def]] reg by (simp add: mark_registered_fold filter_events)
  show ?thesis
  proof (cases failure)
    case None
    then have out: "st' = st2" "evs = evs2" "goes_on" using turn Cons run by (auto simp: worker_turn_def pop_batch_def)
    show ?thesis using settled_batch [OF settled reports [unfolded None]] all
      by (auto simp: stage_ok_def out st2)
  next
    case (Some f)
    let ?q = "concat (map sc_accepted bs)"
    have out: "evs = evs2 @ Ev_OnStageError (sf_error f) # concat (map release_unprocessed_job ?q) @
        map (\<lambda>c. Ev_OnDurableAmbiguous c (sf_error f)) (sf_ambiguous_jobs f @ map dj_completion ?q)" "\<not> goes_on"
      and st': "st' = (stage_poison (sf_error f) st2)\<lparr>fs_queue := []\<rparr>"
      using turn Cons run Some
      by (auto simp: worker_turn_def pop_batch_def drain_queued_jobs_def release_unprocessed_jobs_def st2 stage_poison_def)
    obtain n where n: "settled_ok (settled @ sc_accepted b @ ?q) n (sw_events w @ evs)"
      using settled_failure [OF settled reports [unfolded Some], of ?q] by (auto simp: out(1))
    have "List.map_filter registration (sw_events w @ evs) = List.map_filter registration (sw_events w @ evs2)"
      unfolding out(1) filter_events released_events ambiguous_events by (simp add: filter_events)
    then show ?thesis using n all out(2) by (auto simp: stage_ok_def st' st2 stage_poison_def refuses_def)
  qed
qed

lemma stage_step_ok:
  assumes "stage_step w w'" "stage_ok w"
  shows "stage_ok w'"
  using assms
proof cases
  case (ss_schedule now b st')
  then have "\<not> refuses (sw_stage w)" and st': "st' = (sw_stage w)\<lparr>fs_queue := fs_queue (sw_stage w) @ [b]\<rparr>"
    using schedule_cases by blast+
  then have "sw_worker_runs w" using assms(2) by (auto simp: stage_ok_def)
  then show ?thesis using assms(2) ss_schedule(1) st' by (auto simp: stage_ok_def)
next
  case (ss_refuse now b st' err)
  then show ?thesis using schedule_cases [OF ss_refuse(2)] assms(2) by (auto simp: stage_ok_def)
next
  case (ss_graceful now timeout)
  then show ?thesis using assms(2) by (auto simp: stage_ok_def start_graceful_shutdown_def refuses_def split: shutdown_mode.splits)
next
  case ss_force
  then show ?thesis using assms(2) by (auto simp: stage_ok_def force_shutdown_def refuses_def)
next
  case (ss_worker outcome st' evs goes_on)
  then show ?thesis using stage_ok_worker [OF assms(2)] by simp
qed

lemma stage_run_ok: "stage_step\<^sup>*\<^sup>* (stage_world_new opts) w \<Longrightarrow> stage_ok w"
proof (induction rule: rtranclp_induct)
  case base
  then show ?case by (auto simp: stage_ok_def stage_world_new_def stage_new_def settled_ok_def map_filter_simps)
qed (rule stage_step_ok)

lemma fold_max_mem: "fold max xs a \<in> insert a (set xs)" for a :: "'b :: linorder"
  by (induction xs arbitrary: a) (auto simp: max_def split: if_splits)

text \<open>With increasing timestamps, what is registered is a prefix of what was scheduled.\<close>

lemma registered_prefix:
  assumes "sorted_wrt (<) (map dj_commit_ts jobs)" "0 \<notin> dj_commit_ts ` set jobs" "jobs = pre @ rest" "job \<in> set jobs"
    "dj_commit_ts job \<le> fold max (map dj_commit_ts pre) 0"
  shows "job \<in> set pre"
proof (rule ccontr)
  assume "job \<notin> set pre"
  then have "job \<in> set rest" using assms(3,4) by auto
  then have "ts < dj_commit_ts job" if "ts \<in> set (map dj_commit_ts pre)" for ts
    using assms(1,3) that by (auto simp: sorted_wrt_append)
  moreover have "0 < dj_commit_ts job" using assms(2,4) by (metis image_eqI word_neq_0_conv)
  ultimately show False using fold_max_mem [of "map dj_commit_ts pre" 0] assms(5) by fastforce
qed


text \<open>Two commits, of which the second is refused by the apply runtime.\<close>

definition demo_job :: "commit_ts \<Rightarrow> unit durable_job" where
  "demo_job ts = \<lparr>dj_commit_ts = ts, dj_retained_bytes = 1024, dj_ack_policy = RequiredPublished,
     dj_completion = \<lparr>ch_slot_id = ts\<rparr>, dj_actions = ()\<rparr>"

definition demo_batch :: "unit scheduled_batch" where
  "demo_batch = \<lparr>sc_accepted = [demo_job 4, demo_job 5],
     sc_batch = \<lparr>db_first_lsn = 7, db_durable_batch_lsn = 8, db_durable_batch_size = 2, db_durable_batch_bytes = 200,
       db_commit_record_bytes_by_offset = [100, 100], db_sync_latency_micros = 3, db_first_commit_ts = 4, db_last_commit_ts = 5\<rparr>\<rparr>"

definition demo_outcome :: "unit durable_job \<Rightarrow> job_outcome" where
  "demo_outcome job = \<lparr>jo_phase1 = None, jo_build = None, jo_submit = (if dj_commit_ts job = 5 then Some ''closed'' else None)\<rparr>"

lemmas stage_eval = worker_turn_def pop_batch_def process_finalize_batch_def handle_at_def finalize_failure_after_current_def
  release_unprocessed_jobs_def drain_queued_jobs_def stage_poison_def mark_registered_def stage_new_def stage_options_default_def
  schedule_def push_batch_def dh_durable_lsn_def


end
