(* ===== verification/Completion_Registry.thy ===== *)
theory Completion_Registry
  imports Finalize_Stage
begin

text \<open>
  Completions of commits (\<open>commit/runtime/completion.rs\<close>) and the errors they carry
  (\<open>commit/runtime/error.rs\<close>): each submitted commit has a slot that its waiter reads once it is
  terminal.  Publishing reports two events, that the publication was submitted and that it is complete,
  in either order; the acknowledgement joins them.  A message that the code renders from an error is that
  error here; \<open>'e\<close> is the error type of the journal.
\<close>

section \<open>Errors\<close>

text \<open>What the runtime reads of an error of the apply runtime.\<close>

record apply_error =
  ae_lsn :: u64
  ae_error_code :: u32
  ae_message :: string

datatype placeholder_kind = Maintenance | CheckpointFence | OtherRecord

text \<open>The reasons the runtime is poisoned for, the errors whose text it keeps and the errors of a replay.\<close>

datatype 'e runtime_poison =
  PoisonDurableProtocol "'e error_text"
| PoisonFinalizeSchedule "'e error_text"
| PoisonFinalizeStage "commit_ts option" "'e error_text"
| PoisonSubmit commit_ts "'e error_text"
| PoisonApply commit_ts "'e error_text"
| PoisonCompletionPanic commit_ts "'e error_text"
| PoisonAppendCleanup "'e error_text"
| PoisonRecovery "'e error_text"
and 'e error_text =
  TextAppend "'e append_commit_error"
| TextJobState job_state_error
| TextSchedule schedule_error
| TextRollback 'e
| TextStage stage_error
| TextSubmit string
| TextApply apply_error
| TextRecovery "'e recovery_error"
and 'e recovery_error =
  RecoveryRuntimePoisoned "'e runtime_poison"
| RecoveryCommitOrder commit_ts commit_ts
| RecoveryCommitLsnGap commit_ts u64 u64
| RecoveryBuildRequest commit_ts u64 string
| RecoveryPlaceholder u64 placeholder_kind string
| RecoveryApply commit_ts u64 string
| RecoveryIncompleteFrontier commit_ts commit_ts

datatype 'e runtime_rejection =
  RejectedFence fence_reject_reason
| RejectedDrainBackpressure drain_backpressure
| RejectedRuntimePoisoned "'e runtime_poison"

datatype 'e runtime_failure =
  FailedAppend "'e append_commit_error"
| FailedAppendCleanup "'e error_text"
| FailedApply apply_error
| FailedCompletionPanic apply_error
| FailedAmbiguous "'e error_text"

datatype 'e completion_error =
  CompletionRejected "'e runtime_rejection"
| CompletionFailed "'e runtime_failure"
| CompletionAmbiguousCommitted "'e runtime_failure"
| CompletionUnknownSlot completion_handle

section \<open>Slots\<close>

datatype 'e completion_state =
  CS_Queued
| CS_Durable durable_handle commit_ack_policy bool
| CS_PublishSubmitted durable_handle
| CS_DurableOnlyAcked durable_handle
| CS_Published durable_handle
| CS_Rejected "'e runtime_rejection"
| CS_Failed "'e runtime_failure"
| CS_AmbiguousCommitted "'e runtime_failure"

fun is_terminal :: "'e completion_state \<Rightarrow> bool" where
  "is_terminal CS_Queued = False"
| "is_terminal (CS_Durable _ _ _) = False"
| "is_terminal (CS_PublishSubmitted _) = False"
| "is_terminal _ = True"

record 'e completion_registry =
  cg_slots :: "(u64 \<times> 'e completion_state) list"
  cg_commit_to_slot :: "(u64 \<times> u64) list"
  cg_slot_to_commit :: "(u64 \<times> u64) list"
  cg_next_slot_id :: u64

definition completions_new :: "'e completion_registry" where
  "completions_new = \<lparr>cg_slots = [], cg_commit_to_slot = [], cg_slot_to_commit = [], cg_next_slot_id = 0\<rparr>"

definition slot_for_completion :: "'e completion_registry \<Rightarrow> completion_handle \<Rightarrow> 'e completion_state option" where
  "slot_for_completion cg c = map_of (cg_slots cg) (ch_slot_id c)"

definition slot_for_commit_ts :: "'e completion_registry \<Rightarrow> commit_ts \<Rightarrow> (u64 \<times> 'e completion_state) option" where
  "slot_for_commit_ts cg ts =
     (case map_of (cg_commit_to_slot cg) ts of
        None \<Rightarrow> None
      | Some i \<Rightarrow> map_option (Pair i) (map_of (cg_slots cg) i))"

definition completion_allocate :: "'e completion_registry \<Rightarrow> 'e completion_registry \<times> completion_handle" where
  "completion_allocate cg =
     (let i = cg_next_slot_id cg + 1
      in (cg\<lparr>cg_next_slot_id := i, cg_slots := AList.update i CS_Queued (cg_slots cg)\<rparr>, \<lparr>ch_slot_id = i\<rparr>))"

definition completion_mark_durable ::
  "'e completion_registry \<Rightarrow> completion_handle \<Rightarrow> durable_handle \<Rightarrow> commit_ack_policy \<Rightarrow> 'e completion_registry" where
  "completion_mark_durable cg c h policy =
     (case slot_for_completion cg c of
        None \<Rightarrow> cg
      | Some _ \<Rightarrow>
          cg\<lparr>cg_commit_to_slot := AList.update (dh_commit_ts h) (ch_slot_id c) (cg_commit_to_slot cg),
             cg_slot_to_commit := AList.update (ch_slot_id c) (dh_commit_ts h) (cg_slot_to_commit cg),
             cg_slots := AList.update (ch_slot_id c) (CS_Durable h policy False) (cg_slots cg)\<rparr>)"

definition completion_mark_publish_submitted :: "'e completion_registry \<Rightarrow> commit_ts \<Rightarrow> 'e completion_registry" where
  "completion_mark_publish_submitted cg ts =
     (case slot_for_commit_ts cg ts of
        Some (i, CS_Durable h policy completed) \<Rightarrow>
          cg\<lparr>cg_slots := AList.update i
            (case policy of
               DurableOnlyAsync \<Rightarrow> CS_DurableOnlyAcked h
             | RequiredPublished \<Rightarrow> if completed then CS_Published h else CS_PublishSubmitted h) (cg_slots cg)\<rparr>
      | _ \<Rightarrow> cg)"

text \<open>None is the \<open>unreachable!\<close> on a queued slot.\<close>

definition completion_mark_published :: "'e completion_registry \<Rightarrow> commit_ts \<Rightarrow> 'e completion_registry option" where
  "completion_mark_published cg ts =
     (case slot_for_commit_ts cg ts of
        Some (i, CS_PublishSubmitted h) \<Rightarrow> Some (cg\<lparr>cg_slots := AList.update i (CS_Published h) (cg_slots cg)\<rparr>)
      | Some (i, CS_Durable h policy _) \<Rightarrow> Some (cg\<lparr>cg_slots := AList.update i (CS_Durable h policy True) (cg_slots cg)\<rparr>)
      | Some (i, CS_Queued) \<Rightarrow> None
      | _ \<Rightarrow> Some cg)"

text \<open>\<open>mark_rejected\<close>, \<open>mark_failed_handle\<close> and \<open>mark_ambiguous\<close> set the slot of a completion, \<open>mark_failed\<close> and
  \<open>mark_ambiguous_commit_ts\<close> that of a commit.\<close>

definition set_completion :: "'e completion_registry \<Rightarrow> completion_handle \<Rightarrow> 'e completion_state \<Rightarrow> 'e completion_registry" where
  "set_completion cg c st =
     (case slot_for_completion cg c of
        None \<Rightarrow> cg
      | Some _ \<Rightarrow> cg\<lparr>cg_slots := AList.update (ch_slot_id c) st (cg_slots cg)\<rparr>)"

definition set_commit :: "'e completion_registry \<Rightarrow> commit_ts \<Rightarrow> 'e completion_state \<Rightarrow> 'e completion_registry" where
  "set_commit cg ts st =
     (case slot_for_commit_ts cg ts of
        None \<Rightarrow> cg
      | Some (i, _) \<Rightarrow> cg\<lparr>cg_slots := AList.update i st (cg_slots cg)\<rparr>)"

definition remove_slot :: "'e completion_registry \<Rightarrow> completion_handle \<Rightarrow> 'e completion_registry" where
  "remove_slot cg c =
     (let i = ch_slot_id c; cg' = cg\<lparr>cg_slots := AList.delete i (cg_slots cg)\<rparr>
      in case map_of (cg_slot_to_commit cg) i of
           None \<Rightarrow> cg'
         | Some ts \<Rightarrow> cg'\<lparr>cg_slot_to_commit := AList.delete i (cg_slot_to_commit cg),
                          cg_commit_to_slot := AList.delete ts (cg_commit_to_slot cg)\<rparr>)"

datatype runtime_ack = AckDurableOnly | AckPublished

record commit_outcome =
  co_commit_ts :: commit_ts
  co_handle :: durable_handle
  co_ack :: runtime_ack

text \<open>None is a waiter that stays blocked.\<close>

definition completion_wait ::
  "'e completion_registry \<Rightarrow> completion_handle \<Rightarrow> ('e completion_registry \<times> ('e completion_error + commit_outcome)) option" where
  "completion_wait cg c =
     (case slot_for_completion cg c of
        None \<Rightarrow> Some (cg, Inl (CompletionUnknownSlot c))
      | Some (CS_DurableOnlyAcked h) \<Rightarrow>
          Some (remove_slot cg c, Inr \<lparr>co_commit_ts = dh_commit_ts h, co_handle = h, co_ack = AckDurableOnly\<rparr>)
      | Some (CS_Published h) \<Rightarrow>
          Some (remove_slot cg c, Inr \<lparr>co_commit_ts = dh_commit_ts h, co_handle = h, co_ack = AckPublished\<rparr>)
      | Some (CS_Rejected reason) \<Rightarrow> Some (remove_slot cg c, Inl (CompletionRejected reason))
      | Some (CS_Failed failure) \<Rightarrow> Some (remove_slot cg c, Inl (CompletionFailed failure))
      | Some (CS_AmbiguousCommitted failure) \<Rightarrow> Some (remove_slot cg c, Inl (CompletionAmbiguousCommitted failure))
      | Some _ \<Rightarrow> None)"

section \<open>Runs\<close>

datatype 'e completion_op =
  Op_Allocate
| Op_Durable completion_handle durable_handle commit_ack_policy
| Op_Submitted commit_ts
| Op_Published commit_ts
| Op_Reject completion_handle "'e runtime_rejection"
| Op_FailHandle completion_handle "'e runtime_failure"
| Op_Ambiguous completion_handle "'e runtime_failure"
| Op_Fail commit_ts "'e runtime_failure"
| Op_AmbiguousCommit commit_ts "'e runtime_failure"
| Op_Wait completion_handle

fun completion_apply :: "'e completion_op \<Rightarrow> 'e completion_registry \<Rightarrow> 'e completion_registry option" where
  "completion_apply Op_Allocate cg = Some (fst (completion_allocate cg))"
| "completion_apply (Op_Durable c h policy) cg = Some (completion_mark_durable cg c h policy)"
| "completion_apply (Op_Submitted ts) cg = Some (completion_mark_publish_submitted cg ts)"
| "completion_apply (Op_Published ts) cg = completion_mark_published cg ts"
| "completion_apply (Op_Reject c reason) cg = Some (set_completion cg c (CS_Rejected reason))"
| "completion_apply (Op_FailHandle c failure) cg = Some (set_completion cg c (CS_Failed failure))"
| "completion_apply (Op_Ambiguous c failure) cg = Some (set_completion cg c (CS_AmbiguousCommitted failure))"
| "completion_apply (Op_Fail ts failure) cg = Some (set_commit cg ts (CS_Failed failure))"
| "completion_apply (Op_AmbiguousCommit ts failure) cg = Some (set_commit cg ts (CS_AmbiguousCommitted failure))"
| "completion_apply (Op_Wait c) cg = Some (case completion_wait cg c of None \<Rightarrow> cg | Some (cg', _) \<Rightarrow> cg')"

definition completion_run :: "'e completion_op list \<Rightarrow> 'e completion_registry option" where
  "completion_run ops = foldl (\<lambda>r op. Option.bind r (completion_apply op)) (Some completions_new) ops"

lemma completion_run_simps [simp]:
  "completion_run [] = Some completions_new" "completion_run (ops @ [op]) = Option.bind (completion_run ops) (completion_apply op)"
  by (simp_all add: completion_run_def)

text \<open>The durable marks of a run, and what of a run a state of a slot stands for.\<close>

fun durable_mark :: "'e completion_op \<Rightarrow> (completion_handle \<times> durable_handle) option" where
  "durable_mark (Op_Durable c h policy) = Some (c, h)"
| "durable_mark _ = None"

abbreviation durable_marks :: "'e completion_op list \<Rightarrow> (completion_handle \<times> durable_handle) list" where
  "durable_marks ops \<equiv> List.map_filter durable_mark ops"

lemma durable_marks_append: "durable_marks (xs @ ys) = durable_marks xs @ durable_marks ys"
  by (simp add: map_filter_def)

lemma durable_marks_mem: "Op_Durable c h policy \<in> set ops \<Longrightarrow> (c, h) \<in> set (durable_marks ops)"
  by (force simp: map_filter_def)

definition reported ::
  "'e completion_op list \<Rightarrow> completion_handle \<Rightarrow> durable_handle \<Rightarrow> commit_ack_policy \<Rightarrow> bool \<Rightarrow> bool \<Rightarrow> bool" where
  "reported ops c h policy submitted published \<longleftrightarrow>
     (\<exists>pre post. ops = pre @ Op_Durable c h policy # post \<and> (Op_Submitted (dh_commit_ts h) \<in> set post \<longleftrightarrow> submitted) \<and>
        (Op_Published (dh_commit_ts h) \<in> set post \<longleftrightarrow> published))"

fun justified :: "'e completion_op list \<Rightarrow> completion_handle \<Rightarrow> 'e completion_state \<Rightarrow> bool" where
  "justified ops c (CS_Durable h policy completed) = reported ops c h policy False completed"
| "justified ops c (CS_PublishSubmitted h) = reported ops c h RequiredPublished True False"
| "justified ops c (CS_DurableOnlyAcked h) = (\<exists>published. reported ops c h DurableOnlyAsync True published)"
| "justified ops c (CS_Published h) = reported ops c h RequiredPublished True True"
| "justified ops c (CS_Rejected reason) = (Op_Reject c reason \<in> set ops)"
| "justified ops c (CS_Failed failure) =
     (Op_FailHandle c failure \<in> set ops \<or>
      (\<exists>h. (c, h) \<in> set (durable_marks ops) \<and> Op_Fail (dh_commit_ts h) failure \<in> set ops))"
| "justified ops c (CS_AmbiguousCommitted failure) =
     (Op_Ambiguous c failure \<in> set ops \<or>
      (\<exists>h. (c, h) \<in> set (durable_marks ops) \<and> Op_AmbiguousCommit (dh_commit_ts h) failure \<in> set ops))"
| "justified ops c CS_Queued = True"

fun pending_handle :: "'e completion_state \<Rightarrow> durable_handle option" where
  "pending_handle (CS_Durable h policy completed) = Some h"
| "pending_handle (CS_PublishSubmitted h) = Some h"
| "pending_handle _ = None"

definition untouched :: "'e completion_op \<Rightarrow> 'e completion_state \<Rightarrow> bool" where
  "untouched op st \<longleftrightarrow>
     (\<forall>h. pending_handle st = Some h \<longrightarrow> op \<noteq> Op_Submitted (dh_commit_ts h) \<and> op \<noteq> Op_Published (dh_commit_ts h))"

lemma reported_snoc:
  assumes "reported ops c h policy sub pub"
  shows "reported (ops @ [op]) c h policy (sub \<or> op = Op_Submitted (dh_commit_ts h)) (pub \<or> op = Op_Published (dh_commit_ts h))"
proof -
  from assms obtain pre post where split: "ops = pre @ Op_Durable c h policy # post"
    and post: "Op_Submitted (dh_commit_ts h) \<in> set post \<longleftrightarrow> sub" "Op_Published (dh_commit_ts h) \<in> set post \<longleftrightarrow> pub"
    by (auto simp: reported_def)
  from split have "ops @ [op] = pre @ Op_Durable c h policy # (post @ [op])" by simp
  moreover have "Op_Submitted (dh_commit_ts h) \<in> set (post @ [op]) \<longleftrightarrow> sub \<or> op = Op_Submitted (dh_commit_ts h)"
    "Op_Published (dh_commit_ts h) \<in> set (post @ [op]) \<longleftrightarrow> pub \<or> op = Op_Published (dh_commit_ts h)"
    using post by auto
  ultimately show ?thesis unfolding reported_def by blast
qed

lemma justified_later: "justified ops c st \<Longrightarrow> untouched op st \<Longrightarrow> justified (ops @ [op]) c st"
proof (cases st)
  case (CS_DurableOnlyAcked h)
  assume "justified ops c st"
  then obtain pub where "reported ops c h DurableOnlyAsync True pub" using CS_DurableOnlyAcked by auto
  from reported_snoc [OF this, of op] show "justified (ops @ [op]) c st" using CS_DurableOnlyAcked by auto
qed (auto simp: untouched_def durable_marks_append dest: reported_snoc [where op = op])

lemma reported_mark: "reported ops c h policy sub pub \<Longrightarrow> (c, h) \<in> set (durable_marks ops)"
  by (auto simp: reported_def intro: durable_marks_mem)

lemma mark_unique:
  "distinct (map fst (durable_marks ops)) \<Longrightarrow> (c, h) \<in> set (durable_marks ops) \<Longrightarrow> (c, h') \<in> set (durable_marks ops) \<Longrightarrow> h = h'"
  by (rule eq_key_imp_eq_value)

text \<open>A completion is marked durable once, so its reports are those after that mark.\<close>

lemma marked_once:
  assumes "distinct (map fst (durable_marks ops))" "ops = pre @ Op_Durable c h policy # post" "ops = pre' @ Op_Durable c h' policy' # post'"
  shows "post = post'"
proof -
  have c: "c \<notin> fst ` set (durable_marks xs)" if "ops = xs @ Op_Durable c h policy # ys" for xs ys h policy
  proof -
    have "durable_marks ops = durable_marks xs @ (c, h) # durable_marks ys"
      by (simp add: that durable_marks_append map_filter_simps)
    with assms(1) show ?thesis by simp
  qed
  have mem: "Op_Durable c h policy \<in> set xs \<Longrightarrow> c \<in> fst ` set (durable_marks xs)" for xs h policy
    using durable_marks_mem [of c h policy xs] by force
  from assms(2,3) have "pre @ Op_Durable c h policy # post = pre' @ Op_Durable c h' policy' # post'" by simp
  then obtain us where us: "pre = pre' @ us \<and> us @ Op_Durable c h policy # post = Op_Durable c h' policy' # post' \<or>
      pre @ us = pre' \<and> Op_Durable c h policy # post = us @ Op_Durable c h' policy' # post'"
    by (auto simp: append_eq_append_conv2)
  show ?thesis
  proof (cases us)
    case Nil
    then show ?thesis using us by auto
  next
    case (Cons x xs)
    then have "Op_Durable c h' policy' \<in> set pre \<or> Op_Durable c h policy \<in> set pre'" using us by auto
    then show ?thesis using mem c [OF assms(2)] c [OF assms(3)] by blast
  qed
qed

text \<open>What is reported of a completion is unique.\<close>

lemma reported_once:
  assumes marks: "distinct (map fst (durable_marks ops))" and "reported ops c h policy sub pub" "reported ops c h' policy' sub' pub'"
  shows "sub = sub' \<and> pub = pub'"
proof -
  from assms(2) obtain pre post where one: "ops = pre @ Op_Durable c h policy # post"
    "Op_Submitted (dh_commit_ts h) \<in> set post \<longleftrightarrow> sub" "Op_Published (dh_commit_ts h) \<in> set post \<longleftrightarrow> pub" by (auto simp: reported_def)
  from assms(3) obtain pre' post' where two: "ops = pre' @ Op_Durable c h' policy' # post'"
    "Op_Submitted (dh_commit_ts h') \<in> set post' \<longleftrightarrow> sub'" "Op_Published (dh_commit_ts h') \<in> set post' \<longleftrightarrow> pub'" by (auto simp: reported_def)
  have "h = h'" using mark_unique [OF marks reported_mark [OF assms(2)] reported_mark [OF assms(3)]] .
  with one two marked_once [OF marks one(1) two(1)] show ?thesis by simp
qed

abbreviation allocations :: "'e completion_op list \<Rightarrow> nat" where
  "allocations ops \<equiv> length (filter (\<lambda>op. op = Op_Allocate) ops)"

text \<open>The marks of a run: each completion once, and each timestamp once.\<close>

definition marks_once :: "'e completion_op list \<Rightarrow> bool" where
  "marks_once ops \<longleftrightarrow> distinct (map fst (durable_marks ops)) \<and> distinct (map (dh_commit_ts \<circ> snd) (durable_marks ops))"

lemma marks_onceD:
  assumes "marks_once ops" "(c, h) \<in> set (durable_marks ops)" "(c', h') \<in> set (durable_marks ops)"
  shows "c = c' \<longleftrightarrow> dh_commit_ts h = dh_commit_ts h'"
proof
  assume "c = c'"
  then show "dh_commit_ts h = dh_commit_ts h'" using mark_unique assms by (fastforce simp: marks_once_def)
next
  assume "dh_commit_ts h = dh_commit_ts h'"
  then have "(dh_commit_ts \<circ> snd) (c, h) = (dh_commit_ts \<circ> snd) (c', h')" by simp
  with assms have "(c, h) = (c', h')" unfolding marks_once_def distinct_map by (meson inj_onD)
  then show "c = c'" by simp
qed

lemma marks_once_later: "marks_once (ops @ [op]) \<Longrightarrow> marks_once ops"
  by (simp add: marks_once_def durable_marks_append)

definition completion_ok :: "'e completion_op list \<Rightarrow> 'e completion_registry \<Rightarrow> bool" where
  "completion_ok ops cg \<longleftrightarrow>
     (\<forall>i st. map_of (cg_slots cg) i = Some st \<longrightarrow> justified ops \<lparr>ch_slot_id = i\<rparr> st \<and> unat i \<le> allocations ops \<and>
        (\<forall>h. pending_handle st = Some h \<longrightarrow> map_of (cg_commit_to_slot cg) (dh_commit_ts h) = Some i)) \<and>
     (\<forall>ts i. map_of (cg_commit_to_slot cg) ts = Some i \<longrightarrow>
        (\<exists>h. (\<lparr>ch_slot_id = i\<rparr>, h) \<in> set (durable_marks ops) \<and> dh_commit_ts h = ts) \<and>
        unat i \<le> allocations ops \<and> map_of (cg_slots cg) i \<noteq> Some CS_Queued) \<and>
     (\<forall>i ts. map_of (cg_slot_to_commit cg) i = Some ts \<longrightarrow>
        (\<exists>h. (\<lparr>ch_slot_id = i\<rparr>, h) \<in> set (durable_marks ops) \<and> dh_commit_ts h = ts)) \<and>
     unat (cg_next_slot_id cg) = allocations ops"

lemma completion_okD:
  assumes "completion_ok ops cg"
  shows "map_of (cg_slots cg) i = Some st \<Longrightarrow> justified ops \<lparr>ch_slot_id = i\<rparr> st"
    "map_of (cg_slots cg) i = Some st \<Longrightarrow> unat i \<le> allocations ops"
    "map_of (cg_slots cg) i = Some st \<Longrightarrow> pending_handle st = Some h \<Longrightarrow> map_of (cg_commit_to_slot cg) (dh_commit_ts h) = Some i"
    "map_of (cg_commit_to_slot cg) ts = Some i \<Longrightarrow> \<exists>h. (\<lparr>ch_slot_id = i\<rparr>, h) \<in> set (durable_marks ops) \<and> dh_commit_ts h = ts"
    "map_of (cg_commit_to_slot cg) ts = Some i \<Longrightarrow> unat i \<le> allocations ops"
    "map_of (cg_commit_to_slot cg) ts = Some i \<Longrightarrow> map_of (cg_slots cg) i \<noteq> Some CS_Queued"
    "map_of (cg_slot_to_commit cg) i = Some ts \<Longrightarrow> \<exists>h. (\<lparr>ch_slot_id = i\<rparr>, h) \<in> set (durable_marks ops) \<and> dh_commit_ts h = ts"
    "unat (cg_next_slot_id cg) = allocations ops"
  using assms unfolding completion_ok_def by blast+

text \<open>Keeping the invariant: slots and commits are kept, forgotten or get a justified state.\<close>

lemma completion_okI:
  assumes ok: "completion_ok ops cg" and op: "op \<noteq> Op_Allocate" and "cg_next_slot_id cg' = cg_next_slot_id cg"
    and slots: "\<And>i st. map_of (cg_slots cg') i = Some st \<Longrightarrow> map_of (cg_slots cg) i = Some st \<and> untouched op st \<or>
      map_of (cg_slots cg) i \<noteq> None \<and> st \<noteq> CS_Queued \<and> justified (ops @ [op]) \<lparr>ch_slot_id = i\<rparr> st"
    and pend: "\<And>i st h. map_of (cg_slots cg') i = Some st \<Longrightarrow> pending_handle st = Some h \<Longrightarrow>
      map_of (cg_commit_to_slot cg') (dh_commit_ts h) = Some i"
    and commits: "\<And>ts i. map_of (cg_commit_to_slot cg') ts = Some i \<Longrightarrow> map_of (cg_commit_to_slot cg) ts = Some i \<or>
      map_of (cg_slots cg) i \<noteq> None \<and> map_of (cg_slots cg') i \<noteq> Some CS_Queued \<and>
        (\<exists>h. durable_mark op = Some (\<lparr>ch_slot_id = i\<rparr>, h) \<and> dh_commit_ts h = ts)"
    and back_ts: "\<And>ts i. map_of (cg_slot_to_commit cg') i = Some ts \<Longrightarrow> map_of (cg_slot_to_commit cg) i = Some ts \<or>
      (\<exists>h. durable_mark op = Some (\<lparr>ch_slot_id = i\<rparr>, h) \<and> dh_commit_ts h = ts)"
  shows "completion_ok (ops @ [op]) cg'"
proof -
  have same: "allocations (ops @ [op]) = allocations ops" using op by simp
  have marks: "durable_marks (ops @ [op]) = durable_marks ops @ (case durable_mark op of None \<Rightarrow> [] | Some m \<Rightarrow> [m])"
    by (simp add: map_filter_def split: option.splits)
  show ?thesis unfolding completion_ok_def same
  proof (intro conjI allI impI, goal_cases)
    case (1 i st)
    show ?case using slots [OF 1] completion_okD(1) [OF ok] justified_later by blast
  next
    case (2 i st)
    show ?case using slots [OF 2] completion_okD(2) [OF ok] by fastforce
  next
    case (3 i st h)
    show ?case by (rule pend [OF 3])
  next
    case (4 ts i)
    show ?case using commits [OF 4] completion_okD(4) [OF ok] unfolding marks by fastforce
  next
    case (5 ts i)
    show ?case using commits [OF 5] completion_okD(2,5) [OF ok] by fastforce
  next
    case (6 ts i)
    show ?case using commits [OF 6] completion_okD(6) [OF ok, of ts i] slots [of i CS_Queued] by blast
  next
    case (7 i ts)
    show ?case using back_ts [OF 7] completion_okD(7) [OF ok] unfolding marks by fastforce
  next
    case 8
    show ?case using completion_okD(8) [OF ok] assms(3) by simp
  qed
qed

text \<open>A change of one slot to a state that forgets or keeps its pending handle.\<close>

lemma ok_set:
  assumes ok: "completion_ok ops cg" and op: "op \<noteq> Op_Allocate" and i: "map_of (cg_slots cg) i = Some st0" and "st \<noteq> CS_Queued"
    and now: "justified (ops @ [op]) \<lparr>ch_slot_id = i\<rparr> st" and "pending_handle st = None \<or> pending_handle st = pending_handle st0"
    and others: "\<And>j st'. map_of (cg_slots cg) j = Some st' \<Longrightarrow> j \<noteq> i \<Longrightarrow> untouched op st'"
  shows "completion_ok (ops @ [op]) (cg\<lparr>cg_slots := AList.update i st (cg_slots cg)\<rparr>)"
proof (rule completion_okI [OF ok op], goal_cases)
  case (2 j st')
  then show ?case using i now assms(4) others [of j st'] by (cases "j = i") auto
next
  case (3 j st' h)
  then show ?case using completion_okD(3) [OF ok, of j st' h] completion_okD(3) [OF ok i, of h] assms(6) by (cases "j = i") auto
qed simp_all

lemma ok_same: "completion_ok ops cg \<Longrightarrow> op \<noteq> Op_Allocate \<Longrightarrow> (\<And>i st. map_of (cg_slots cg) i = Some st \<Longrightarrow> untouched op st) \<Longrightarrow>
    completion_ok (ops @ [op]) cg"
  by (rule completion_okI) (auto dest: completion_okD(3))

lemma untouched_simps [simp]:
  "untouched Op_Allocate st" "untouched (Op_Durable c h policy) st" "untouched (Op_Reject c r) st" "untouched (Op_FailHandle c f) st"
  "untouched (Op_Ambiguous c f) st" "untouched (Op_Fail ts f) st" "untouched (Op_AmbiguousCommit ts f) st" "untouched (Op_Wait c) st"
  by (simp_all add: untouched_def)

lemma ok_allocate:
  assumes ok: "completion_ok ops cg" and room: "Suc (allocations ops) < 2 ^ 64"
  shows "completion_ok (ops @ [Op_Allocate]) (fst (completion_allocate cg))"
proof -
  let ?i = "cg_next_slot_id cg + 1"
  have new: "unat ?i = Suc (allocations ops)"
    using completion_okD(8) [OF ok] room by (simp add: unat_word_ariths)
  have fresh: "map_of (cg_commit_to_slot cg) ts \<noteq> Some ?i" for ts
    using completion_okD(5) [OF ok, of ts ?i] new by auto
  have marks: "durable_marks (ops @ [Op_Allocate]) = durable_marks ops" by (simp add: map_filter_def)
  show ?thesis unfolding completion_ok_def marks completion_allocate_def Let_def
  proof (intro conjI allI impI, goal_cases)
    case (1 i st)
    then show ?case using completion_okD(1) [OF ok, of i st] justified_later [of ops _ st Op_Allocate] by (auto split: if_splits)
  next
    case (2 i st)
    then show ?case using completion_okD(2) [OF ok, of i st] new by (auto split: if_splits)
  next
    case (3 i st h)
    then show ?case using completion_okD(3) [OF ok, of i st h] by (auto split: if_splits)
  next
    case (4 ts i)
    then show ?case using completion_okD(4) [OF ok, of ts i] by simp
  next
    case (5 ts i)
    then show ?case using completion_okD(5) [OF ok, of ts i] by simp
  next
    case (6 ts i)
    then show ?case using completion_okD(6) [OF ok, of ts i] fresh [of ts] by (auto split: if_splits)
  next
    case (7 i ts)
    then show ?case using completion_okD(7) [OF ok, of i ts] by simp
  next
    case 8
    then show ?case using new by simp
  qed
qed

text \<open>The slot a commit resolves to is not queued and has the timestamp of the commit; the other slots do not.\<close>

lemma resolved:
  assumes ok: "completion_ok ops cg" and marks: "marks_once ops" and slot: "slot_for_commit_ts cg ts = Some (i, st)"
  shows "map_of (cg_slots cg) i = Some st" "st \<noteq> CS_Queued"
    "reported ops \<lparr>ch_slot_id = i\<rparr> h policy sub pub \<Longrightarrow> dh_commit_ts h = ts"
    "map_of (cg_slots cg) j = Some st' \<Longrightarrow> j \<noteq> i \<Longrightarrow> untouched (Op_Submitted ts) st' \<and> untouched (Op_Published ts) st'"
proof -
  have i: "map_of (cg_commit_to_slot cg) ts = Some i" "map_of (cg_slots cg) i = Some st"
    using slot by (auto simp: slot_for_commit_ts_def split: option.splits)
  then show "map_of (cg_slots cg) i = Some st" "st \<noteq> CS_Queued" using completion_okD(6) [OF ok i(1)] by auto
  show "dh_commit_ts h = ts" if "reported ops \<lparr>ch_slot_id = i\<rparr> h policy sub pub"
    using reported_mark [OF that] completion_okD(4) [OF ok i(1)] marks_onceD [OF marks] by blast
  assume j: "map_of (cg_slots cg) j = Some st'" "j \<noteq> i"
  have "dh_commit_ts h \<noteq> ts" if "pending_handle st' = Some h" for h
    using completion_okD(3) [OF ok j(1) that] i(1) j(2) by auto
  then show "untouched (Op_Submitted ts) st' \<and> untouched (Op_Published ts) st'" by (auto simp: untouched_def)
qed

lemma unresolved:
  assumes ok: "completion_ok ops cg" and slot: "\<nexists>i st. slot_for_commit_ts cg ts = Some (i, st) \<and> pending_handle st \<noteq> None"
    and i: "map_of (cg_slots cg) i = Some st"
  shows "untouched (Op_Submitted ts) st \<and> untouched (Op_Published ts) st"
proof -
  have "dh_commit_ts h \<noteq> ts" if "pending_handle st = Some h" for h
    using completion_okD(3) [OF ok i that] slot i that by (auto simp: slot_for_commit_ts_def)
  then show ?thesis by (auto simp: untouched_def)
qed

lemma ok_submitted:
  assumes ok: "completion_ok ops cg" and marks: "marks_once ops"
  shows "completion_ok (ops @ [Op_Submitted ts]) (completion_mark_publish_submitted cg ts)"
proof (cases "\<exists>i st. slot_for_commit_ts cg ts = Some (i, st) \<and> pending_handle st \<noteq> None")
  case False
  then have "completion_mark_publish_submitted cg ts = cg"
    by (auto simp: completion_mark_publish_submitted_def split: option.splits completion_state.splits)
  then show ?thesis using ok_same [OF ok] unresolved [OF ok False] by simp
next
  case True
  then obtain i st where slot: "slot_for_commit_ts cg ts = Some (i, st)" "pending_handle st \<noteq> None" by blast
  note i = resolved [OF ok marks slot(1)] and was = completion_okD(1) [OF ok resolved(1) [OF ok marks slot(1)]]
  show ?thesis
  proof (cases st)
    case (CS_Durable h policy pub)
    then have "reported ops \<lparr>ch_slot_id = i\<rparr> h policy False pub" using was by simp
    from reported_snoc [OF this, of "Op_Submitted ts"] i(3) [OF this]
    have now: "reported (ops @ [Op_Submitted ts]) \<lparr>ch_slot_id = i\<rparr> h policy True pub" by simp
    with slot(1) i(1,4) CS_Durable show ?thesis
      by (cases policy) (auto simp: completion_mark_publish_submitted_def intro!: ok_set [OF ok _ i(1)])
  next
    case (CS_PublishSubmitted h)
    then have was': "reported ops \<lparr>ch_slot_id = i\<rparr> h RequiredPublished True False" using was by simp
    have same: "completion_mark_publish_submitted cg ts = cg" using slot(1) CS_PublishSubmitted
      by (simp add: completion_mark_publish_submitted_def)
    show ?thesis unfolding same
    proof (rule completion_okI [OF ok], goal_cases)
      case (3 j st')
      show ?case
      proof (cases "j = i")
        case True
        then show ?thesis using 3 i(1) CS_PublishSubmitted reported_snoc [OF was', of "Op_Submitted ts"] by (cases st') auto
      next
        case False
        then show ?thesis using 3 i(4) by blast
      qed
    qed (use completion_okD(3) [OF ok] in auto)
  qed (use slot(2) in simp_all)
qed

lemma ok_published:
  assumes ok: "completion_ok ops cg" and marks: "marks_once ops"
  shows "\<exists>cg'. completion_mark_published cg ts = Some cg' \<and> completion_ok (ops @ [Op_Published ts]) cg'"
proof (cases "\<exists>i st. slot_for_commit_ts cg ts = Some (i, st) \<and> pending_handle st \<noteq> None")
  case False
  then have "completion_mark_published cg ts = Some cg" using resolved(2) [OF ok marks]
    by (fastforce simp: completion_mark_published_def split: option.splits completion_state.splits)
  then show ?thesis using ok_same [OF ok] unresolved [OF ok False] by simp
next
  case True
  then obtain i st where slot: "slot_for_commit_ts cg ts = Some (i, st)" "pending_handle st \<noteq> None" by blast
  note i = resolved [OF ok marks slot(1)] and was = completion_okD(1) [OF ok resolved(1) [OF ok marks slot(1)]]
  show ?thesis
  proof (cases st)
    case (CS_Durable h policy pub)
    then have "reported ops \<lparr>ch_slot_id = i\<rparr> h policy False pub" using was by simp
    from reported_snoc [OF this, of "Op_Published ts"] i(3) [OF this] slot(1) i(1,4) CS_Durable show ?thesis
      by (auto simp: completion_mark_published_def intro!: ok_set [OF ok _ i(1)])
  next
    case (CS_PublishSubmitted h)
    then have "reported ops \<lparr>ch_slot_id = i\<rparr> h RequiredPublished True False" using was by simp
    from reported_snoc [OF this, of "Op_Published ts"] i(3) [OF this] slot(1) i(1,4) CS_PublishSubmitted show ?thesis
      by (auto simp: completion_mark_published_def intro!: ok_set [OF ok _ i(1)])
  qed (use slot(2) in simp_all)
qed

lemma ok_set_completion:
  assumes ok: "completion_ok ops cg" and op: "op \<noteq> Op_Allocate" "\<And>st. untouched op st" and st: "is_terminal st"
    and now: "justified (ops @ [op]) c st"
  shows "completion_ok (ops @ [op]) (set_completion cg c st)"
proof (cases "slot_for_completion cg c")
  case None
  then show ?thesis using ok_same [OF ok op] by (simp add: set_completion_def)
next
  case (Some st0)
  have "pending_handle st = None" "st \<noteq> CS_Queued" using st by (cases st; simp)+
  then show ?thesis using Some now ok_set [OF ok op(1), of "ch_slot_id c" st0 st] op(2)
    by (cases c) (simp add: set_completion_def slot_for_completion_def)
qed

lemma ok_set_commit:
  assumes ok: "completion_ok ops cg" and op: "op \<noteq> Op_Allocate" "\<And>st. untouched op st" and st: "is_terminal st"
    and now: "\<And>c h. (c, h) \<in> set (durable_marks ops) \<Longrightarrow> dh_commit_ts h = ts \<Longrightarrow> justified (ops @ [op]) c st"
  shows "completion_ok (ops @ [op]) (set_commit cg ts st)"
proof (cases "slot_for_commit_ts cg ts")
  case None
  then show ?thesis using ok_same [OF ok op] by (simp add: set_commit_def)
next
  case (Some slot)
  then obtain i st0 where slot: "map_of (cg_commit_to_slot cg) ts = Some i" "map_of (cg_slots cg) i = Some st0"
    by (auto simp: slot_for_commit_ts_def split: option.splits)
  have "pending_handle st = None" "st \<noteq> CS_Queued" using st by (cases st; simp)+
  then show ?thesis using slot now completion_okD(4) [OF ok slot(1)] ok_set [OF ok op(1) slot(2), of st] op(2)
    by (auto simp: set_commit_def slot_for_commit_ts_def)
qed

lemma reported_now: "reported (ops @ [Op_Durable c h policy]) c h policy False False"
  unfolding reported_def by (rule exI [of _ ops], rule exI [of _ "[]"]) simp

lemma ok_durable:
  assumes ok: "completion_ok ops cg" and marks: "marks_once (ops @ [Op_Durable c h policy])"
  shows "completion_ok (ops @ [Op_Durable c h policy]) (completion_mark_durable cg c h policy)"
proof (cases "slot_for_completion cg c")
  case None
  then show ?thesis using ok_same [OF ok] by (simp add: completion_mark_durable_def)
next
  case (Some st0)
  let ?i = "ch_slot_id c"
  have c: "\<lparr>ch_slot_id = ?i\<rparr> = c" and i: "map_of (cg_slots cg) ?i = Some st0" using Some by (cases c; simp add: slot_for_completion_def)+
  have new: "(c, h) \<in> set (durable_marks (ops @ [Op_Durable c h policy]))" by (rule reported_mark [OF reported_now])
  have other: "dh_commit_ts h' \<noteq> dh_commit_ts h"
    if j: "map_of (cg_slots cg) j = Some st'" "pending_handle st' = Some h'" "j \<noteq> ?i" for j st' h'
  proof -
    from completion_okD(4) [OF ok completion_okD(3) [OF ok j(1,2)]] obtain g where
      "(\<lparr>ch_slot_id = j\<rparr>, g) \<in> set (durable_marks ops)" "dh_commit_ts g = dh_commit_ts h'" by blast
    with marks_onceD [OF marks _ new, of "\<lparr>ch_slot_id = j\<rparr>" g] j(3) show ?thesis by (cases c) (auto simp: durable_marks_append)
  qed
  show ?thesis
    unfolding completion_mark_durable_def Some option.case
  proof (rule completion_okI [OF ok], goal_cases)
    case (3 j st')
    then show ?case using i reported_now [of ops c h policy] by (cases c; cases "j = ?i") auto
  next
    case (4 j st' h')
    then show ?case using completion_okD(3) [OF ok, of j st' h'] other [of j st' h'] by (cases "j = ?i") auto
  next
    case (5 ts j)
    then show ?case using i c by (cases "ts = dh_commit_ts h") auto
  next
    case (6 ts j)
    then show ?case using c by (cases "j = ?i") auto
  qed simp_all
qed

text \<open>Removing the slot of an answered completion leaves the commits of the pending ones in place.\<close>

lemma ok_remove:
  assumes ok: "completion_ok ops cg" and marks: "marks_once ops"
  shows "completion_ok (ops @ [Op_Wait c]) (remove_slot cg c)"
proof (rule completion_okI [OF ok], goal_cases)
  case (4 j st' h)
  then have j: "j \<noteq> ch_slot_id c" "map_of (cg_slots cg) j = Some st'"
    by (auto simp: remove_slot_def Let_def split: option.splits if_splits)
  note at = completion_okD(3) [OF ok j(2) 4(2)]
  have "ts \<noteq> dh_commit_ts h" if "map_of (cg_slot_to_commit cg) (ch_slot_id c) = Some ts" for ts
  proof -
    from completion_okD(7) [OF ok that] obtain g where
      g: "(\<lparr>ch_slot_id = ch_slot_id c\<rparr>, g) \<in> set (durable_marks ops)" "dh_commit_ts g = ts" by blast
    from completion_okD(4) [OF ok at] obtain g' where
      g': "(\<lparr>ch_slot_id = j\<rparr>, g') \<in> set (durable_marks ops)" "dh_commit_ts g' = dh_commit_ts h" by blast
    show ?thesis using marks_onceD [OF marks g(1) g'(1)] g(2) g'(2) j(1) by auto
  qed
  then show ?case using at by (auto simp: remove_slot_def Let_def split: option.splits)
qed (auto simp: remove_slot_def Let_def split: option.splits if_splits)

lemma completion_wait_effect:
  "(case completion_wait cg c of None \<Rightarrow> cg | Some (cg', _) \<Rightarrow> cg') \<in> {cg, remove_slot cg c}"
  by (auto simp: completion_wait_def split: option.splits completion_state.splits)

lemma completion_apply_ok:
  assumes ok: "completion_ok ops cg" and marks: "marks_once (ops @ [op])" and room: "allocations (ops @ [op]) < 2 ^ 64"
  shows "\<exists>cg'. completion_apply op cg = Some cg' \<and> completion_ok (ops @ [op]) cg'"
proof -
  note old = marks_once_later [OF marks]
  show ?thesis
  proof (cases op)
    case Op_Allocate
    then show ?thesis using ok_allocate [OF ok] room by simp
  next
    case (Op_Durable c h policy)
    then show ?thesis using ok_durable [OF ok] marks by simp
  next
    case (Op_Submitted ts)
    then show ?thesis using ok_submitted [OF ok old] by simp
  next
    case (Op_Published ts)
    then show ?thesis using ok_published [OF ok old] by simp
  next
    case (Op_Wait c)
    have "completion_ok (ops @ [Op_Wait c]) cg" by (rule ok_same [OF ok]) simp_all
    then show ?thesis using Op_Wait ok_remove [OF ok old, of c] completion_wait_effect [of cg c] by auto
  qed (auto simp: durable_marks_append intro!: ok_set_completion [OF ok] ok_set_commit [OF ok])
qed

lemma completion_run_ok:
  "marks_once ops \<Longrightarrow> allocations ops < 2 ^ 64 \<Longrightarrow> \<exists>cg. completion_run ops = Some cg \<and> completion_ok ops cg"
proof (induction ops rule: rev_induct)
  case Nil
  then show ?case by (simp add: completion_ok_def completions_new_def)
next
  case (snoc op ops)
  then obtain cg where cg: "completion_run ops = Some cg" "completion_ok ops cg"
    using marks_once_later by (auto split: if_splits)
  show ?case using completion_apply_ok [OF cg(2) snoc.prems] cg(1) by simp
qed

text \<open>What an answer of \<open>wait\<close> may say after a run, the states of the waiters that get none included.\<close>

fun answer_ok :: "'e completion_op list \<Rightarrow> completion_handle \<Rightarrow> ('e completion_error + commit_outcome) \<Rightarrow> bool" where
  "answer_ok ops c (Inr out) \<longleftrightarrow> co_commit_ts out = dh_commit_ts (co_handle out) \<and>
     (case co_ack out of
        AckPublished \<Rightarrow> reported ops c (co_handle out) RequiredPublished True True
      | AckDurableOnly \<Rightarrow> \<exists>published. reported ops c (co_handle out) DurableOnlyAsync True published)"
| "answer_ok ops c (Inl (CompletionRejected reason)) \<longleftrightarrow> justified ops c (CS_Rejected reason)"
| "answer_ok ops c (Inl (CompletionFailed failure)) \<longleftrightarrow> justified ops c (CS_Failed failure)"
| "answer_ok ops c (Inl (CompletionAmbiguousCommitted failure)) \<longleftrightarrow> justified ops c (CS_AmbiguousCommitted failure)"
| "answer_ok ops c (Inl e) \<longleftrightarrow> e = CompletionUnknownSlot c"

lemma remove_slot_gone: "slot_for_completion (remove_slot cg c) c = None"
  by (simp add: remove_slot_def slot_for_completion_def Let_def split: option.splits)

lemma completion_wait_ok:
  assumes ok: "completion_ok ops cg"
  shows "case completion_wait cg c of
      Some (cg', answer) \<Rightarrow> answer_ok ops c answer \<and> slot_for_completion cg' c = None
    | None \<Rightarrow> slot_for_completion cg c = Some CS_Queued \<or>
        (\<exists>h policy submitted published. reported ops c h policy submitted published \<and>
          \<not> (submitted \<and> (policy = DurableOnlyAsync \<or> published)))"
proof (cases "slot_for_completion cg c")
  case None
  then show ?thesis by (simp add: completion_wait_def)
next
  case (Some st)
  have "justified ops c st" using completion_okD(1) [OF ok, of "ch_slot_id c" st] Some by (cases c) (simp add: slot_for_completion_def)
  then show ?thesis using Some remove_slot_gone [of cg c] by (cases st) (auto simp: completion_wait_def)
qed

text \<open>\<^bold>\<open>C36.\<close> Completion answers are truthful and not withheld. After any run of the operations in which no completion and no
  commit timestamp is marked durable twice and which allocates fewer than 2^64 slots, the \<open>unreachable!\<close> of
  \<open>mark_published\<close> was never reached, and for every completion: an acknowledgement \<open>Published\<close> means the commit was
  marked durable under that policy and both its submission and its publication were reported afterwards, in either order;
  \<open>DurableOnly\<close> means it was marked durable under the asynchronous policy and submitted afterwards; an error is one that
  was reported for the completion or its commit; the answered slot is gone; and a waiter that stays blocked has a queued
  slot or a durable mark whose policy the later reports do not yet meet.\<close>

theorem acknowledged_truthfully:
  fixes ops :: "'e completion_op list"
  assumes "marks_once ops" "allocations ops < 2 ^ 64"
  shows "\<exists>cg. completion_run ops = Some cg \<and>
    (\<forall>c. case completion_wait cg c of
       Some (cg', answer) \<Rightarrow> answer_ok ops c answer \<and> slot_for_completion cg' c = None
     | None \<Rightarrow> slot_for_completion cg c = Some CS_Queued \<or>
         (\<exists>h policy submitted published. reported ops c h policy submitted published \<and>
           \<not> (submitted \<and> (policy = DurableOnlyAsync \<or> published))))"
  using completion_run_ok [OF assms] completion_wait_ok by blast

definition demo_handle :: durable_handle where
  "demo_handle =
     \<lparr>dh_batch =
        \<lparr>db_first_lsn = 7, db_durable_batch_lsn = 7, db_durable_batch_size = 1, db_durable_batch_bytes = 100,
         db_commit_record_bytes_by_offset = [100], db_sync_latency_micros = 3, db_first_commit_ts = 5, db_last_commit_ts = 5\<rparr>,
      dh_offset_in_batch = 0\<rparr>"

definition demo_ops :: "string completion_op list" where
  "demo_ops = [Op_Allocate, Op_Durable \<lparr>ch_slot_id = 1\<rparr> demo_handle RequiredPublished, Op_Published 5, Op_Submitted 5]"

lemmas completion_eval = completion_run_def completions_new_def completion_allocate_def completion_mark_durable_def
  completion_mark_publish_submitted_def completion_mark_published_def completion_wait_def slot_for_completion_def
  slot_for_commit_ts_def

lemma demo_ts: "dh_commit_ts demo_handle = 5"
  by (simp add: dh_commit_ts_def demo_handle_def)

lemma demo_published:
  "map_option snd (Option.bind (completion_run demo_ops) (\<lambda>cg. completion_wait cg \<lparr>ch_slot_id = 1\<rparr>)) =
     Some (Inr \<lparr>co_commit_ts = 5, co_handle = demo_handle, co_ack = AckPublished\<rparr>)"
  by (simp add: demo_ops_def completion_eval demo_ts Let_def)

theorem acknowledged_truthfully_witness:
  "reported demo_ops \<lparr>ch_slot_id = 1\<rparr> demo_handle RequiredPublished True True"
proof -
  have "marks_once demo_ops" "allocations demo_ops < 2 ^ 64"
    by (simp_all add: demo_ops_def marks_once_def map_filter_simps)
  from acknowledged_truthfully [OF this] obtain cg where cg: "completion_run demo_ops = Some cg"
    "case completion_wait cg \<lparr>ch_slot_id = 1\<rparr> of
       Some (cg', answer) \<Rightarrow> answer_ok demo_ops \<lparr>ch_slot_id = 1\<rparr> answer \<and> slot_for_completion cg' \<lparr>ch_slot_id = 1\<rparr> = None
     | None \<Rightarrow> slot_for_completion cg \<lparr>ch_slot_id = 1\<rparr> = Some CS_Queued \<or>
         (\<exists>h policy submitted published. reported demo_ops \<lparr>ch_slot_id = 1\<rparr> h policy submitted published \<and>
           \<not> (submitted \<and> (policy = DurableOnlyAsync \<or> published)))" by blast
  from demo_published cg(1) obtain cg' where
    "completion_wait cg \<lparr>ch_slot_id = 1\<rparr> = Some (cg', Inr \<lparr>co_commit_ts = 5, co_handle = demo_handle, co_ack = AckPublished\<rparr>)"
    by auto
  with cg(2) show ?thesis by simp
qed

end
