(* ===== verification/Sequencer_Runs.thy ===== *)
theory Sequencer_Runs
  imports Commit_Sequencer
begin

text \<open>
  What the sequencer does over many batches: its clock refines a counter without bounds that hands out
  consecutive numbers, and sequencing the deferred plans of a batch again ends.
\<close>

section \<open>Batches\<close>

lemma ordered_loop_size:
  "ordered_loop opts clock fence base n st b acc rej ps = (st', acc', rej', dfr) \<Longrightarrow>
     length acc \<le> effective_batch_size opts \<Longrightarrow> length acc' \<le> effective_batch_size opts"
  by (induction opts clock fence base n st b acc rej ps rule: ordered_loop.induct)
    (auto split: if_splits option.splits prod.splits)

text \<open>The accepted plans of a call, with their timestamps.\<close>

definition accepted_of ::
  "sequencer \<Rightarrow> (nat \<Rightarrow> u64) \<Rightarrow> 's final_fence \<Rightarrow> 's \<Rightarrow> 'r ordered_plan list \<Rightarrow> (commit_ts \<times> 'r ordered_plan) list" where
  "accepted_of sq clock fence st plans =
     (case ordered_loop (sq_options sq) clock fence (sq_next_commit_ts sq) 0 st in_flight_default [] [] plans of
        (st', acc, rej, dfr) \<Rightarrow> acc)"

fun rejected_deferred ::
  "('e, 'a, 'r) ordered_error + ('o, 'r) ordered_batch
     \<Rightarrow> ('r ordered_plan \<times> fence_reject_reason) list \<times> 'r ordered_plan list" where
  "rejected_deferred (Inr batch) = (ob_rejected batch, ob_deferred batch)"
| "rejected_deferred (Inl (OrderedAppend err durable start n back rej dfr us)) = (rej, dfr)"

lemma sequence_ordered_batch_loop:
  assumes "sequence_ordered_batch sq clock us fence st accept write_log plans = (sq', st', res)"
    "rejected_deferred res = (rej, dfr)"
  shows "ordered_loop (sq_options sq) clock fence (sq_next_commit_ts sq) 0 st in_flight_default [] [] plans =
    (st', accepted_of sq clock fence st plans, rej, dfr)"
  using assms
  by (auto simp: sequence_ordered_batch_def accepted_of_def Let_def
      split: prod.splits if_splits sum.splits append_error.splits)

lemma sequence_ordered_batch_ok:
  assumes "sequence_ordered_batch sq clock us fence st accept write_log plans = (sq', st', res)"
    "rejected_deferred res = (rej, dfr)" "acc = accepted_of sq clock fence st plans"
  shows "accepted_ok (sq_next_commit_ts sq) (plans_of acc) \<and> length acc \<le> effective_batch_size (sq_options sq) \<and>
    (\<exists>taken. plans = taken @ dfr \<and> mset (map snd acc) + mset (map fst rej) = mset taken \<and> (plans \<noteq> [] \<longrightarrow> taken \<noteq> []))"
proof -
  note loop = sequence_ordered_batch_loop [OF assms(1,2), folded assms(3)]
  have "batch_ok (sq_next_commit_ts sq) in_flight_default (plans_of [])" using batch_ok_default by simp
  from ordered_loop_ok [OF loop this] ordered_loop_size [OF loop] show ?thesis by auto
qed

section \<open>The clock\<close>

text \<open>The specification: a counter that issues consecutive numbers or is raised past a number.\<close>

datatype clock_op = Issue nat | Raise nat

fun clock_spec :: "clock_op list \<Rightarrow> nat \<Rightarrow> nat \<times> nat list" where
  "clock_spec [] n = (n, [])"
| "clock_spec (Issue k # ops) n = (case clock_spec ops (n + k) of (n', ts) \<Rightarrow> (n', [n ..< n + k] @ ts))"
| "clock_spec (Raise m # ops) n = clock_spec ops (max n (Suc m))"

lemma clock_spec_increasing:
  "clock_spec ops n = (n', ts) \<Longrightarrow> sorted_wrt (<) ts \<and> n \<le> n' \<and> (\<forall>t \<in> set ts. n \<le> t \<and> t < n')"
proof (induction ops n arbitrary: n' ts rule: clock_spec.induct)
  case (2 k ops n)
  obtain ts' where ts': "clock_spec ops (n + k) = (n', ts')" "ts = [n ..< n + k] @ ts'"
    using "2.prems" by (auto split: prod.splits)
  have IH: "sorted_wrt (<) ts'" "n + k \<le> n'" "\<And>t. t \<in> set ts' \<Longrightarrow> n + k \<le> t \<and> t < n'"
    using "2.IH" [OF ts'(1)] by blast+
  have "n \<le> t \<and> t < n'" if "t \<in> set ts" for t
    using that IH(2) IH(3) [of t] by (cases "t \<in> set ts'") (simp_all add: ts'(2))
  moreover have "sorted_wrt (<) ts"
    unfolding ts'(2) sorted_wrt_append
  proof (intro conjI ballI)
    show "x < y" if "x \<in> set [n ..< n + k]" "y \<in> set ts'" for x y
      using that(1) IH(3) [OF that(2)] by simp
  qed (use IH(1) in simp_all)
  ultimately show ?case using IH(2) by simp
next
  case (3 m ops n)
  have "clock_spec ops (max n (Suc m)) = (n', ts)" using "3.prems" by (simp only: clock_spec.simps)
  from "3.IH" [OF this] show ?case by simp
qed simp

text \<open>A call of the sequencer, and the timestamps it makes durable: all it assigned unless the append
  failed.\<close>

record ('s, 'r, 'a, 'e, 'o) seq_call =
  sc_clock :: "nat \<Rightarrow> u64"
  sc_fence_us :: u64
  sc_fence :: "'s final_fence"
  sc_state :: 's
  sc_accept :: "commit_ts \<Rightarrow> 'r ordered_plan \<Rightarrow> 'a"
  sc_write_log :: "'a list \<Rightarrow> ('e, 'a) append_error + 'o"
  sc_plans :: "'r ordered_plan list"

datatype ('s, 'r, 'a, 'e, 'o) seq_op = Seq_Batch "('s, 'r, 'a, 'e, 'o) seq_call" | Seq_Sync commit_ts

definition durable_ts :: "sequencer \<Rightarrow> ('s, 'r, 'a, 'e, 'o) seq_call \<Rightarrow> commit_ts list" where
  "durable_ts sq c =
     (let acc = accepted_of sq (sc_clock c) (sc_fence c) (sc_state c) (sc_plans c)
      in if acc = [] then []
         else (case sc_write_log c (map (\<lambda>(ts, p). sc_accept c ts p) acc) of
                 Inl (AppendFailed _ _) \<Rightarrow> [] | _ \<Rightarrow> map fst acc))"

fun seq_apply :: "('s, 'r, 'a, 'e, 'o) seq_op \<Rightarrow> sequencer \<Rightarrow> sequencer" where
  "seq_apply (Seq_Batch c) sq =
     fst (sequence_ordered_batch sq (sc_clock c) (sc_fence_us c) (sc_fence c) (sc_state c) (sc_accept c) (sc_write_log c) (sc_plans c))"
| "seq_apply (Seq_Sync ts) sq = sync_next_commit_ts_with sq ts"

fun seq_run :: "('s, 'r, 'a, 'e, 'o) seq_op list \<Rightarrow> sequencer \<Rightarrow> sequencer \<times> commit_ts list" where
  "seq_run [] sq = (sq, [])"
| "seq_run (op # ops) sq =
     (case seq_run ops (seq_apply op sq) of (sq', ts) \<Rightarrow>
        (sq', (case op of Seq_Batch c \<Rightarrow> durable_ts sq c | Seq_Sync _ \<Rightarrow> []) @ ts))"

fun clock_of :: "('s, 'r, 'a, 'e, 'o) seq_op list \<Rightarrow> sequencer \<Rightarrow> clock_op list" where
  "clock_of [] sq = []"
| "clock_of (op # ops) sq =
     (case op of Seq_Batch c \<Rightarrow> Issue (length (durable_ts sq c)) | Seq_Sync m \<Rightarrow> Raise (unat m))
       # clock_of ops (seq_apply op sq)"

lemma seq_batch_clock:
  assumes "sq' = seq_apply (Seq_Batch c) sq" "unat (sq_next_commit_ts sq) + length (durable_ts sq c) < 2 ^ 64"
  shows "unat (sq_next_commit_ts sq') = unat (sq_next_commit_ts sq) + length (durable_ts sq c) \<and>
    map unat (durable_ts sq c) = [unat (sq_next_commit_ts sq) ..< unat (sq_next_commit_ts sq) + length (durable_ts sq c)]"
proof -
  define acc where "acc = accepted_of sq (sc_clock c) (sc_fence c) (sc_state c) (sc_plans c)"
  obtain sq1 st1 res where call: "sequence_ordered_batch sq (sc_clock c) (sc_fence_us c) (sc_fence c) (sc_state c)
      (sc_accept c) (sc_write_log c) (sc_plans c) = (sq1, st1, res)" by (rule prod_cases3)
  obtain rej dfr where "rejected_deferred res = (rej, dfr)" by (cases "rejected_deferred res")
  note loop = sequence_ordered_batch_loop [OF call this, folded acc_def]
    and ok = sequence_ordered_batch_ok [OF call this acc_def]
  have ts: "map (unat \<circ> fst) acc = [unat (sq_next_commit_ts sq) ..< unat (sq_next_commit_ts sq) + length acc]"
    using ok by (simp add: accepted_ok_def comp_def case_prod_beta)
  have advanced: "unat (advance_shadow_clock (sq_next_commit_ts sq) (sq_next_commit_ts sq) n) = unat (sq_next_commit_ts sq) + n"
    if room: "unat (sq_next_commit_ts sq) + n < 2 ^ 64" for n
  proof -
    obtain nxt where "commit_ts_at (sq_next_commit_ts sq) n = Some nxt" "unat nxt = unat (sq_next_commit_ts sq) + n"
      using commit_ts_at_exists room by blast
    then show ?thesis by (simp add: advance_shadow_clock_def max_def word_le_nat_alt)
  qed
  show ?thesis
    using assms ts advanced
    by (auto simp: durable_ts_def acc_def [symmetric] sequence_ordered_batch_def loop Let_def
        split: sum.splits append_error.splits)
qed

lemma seq_sync_clock:
  assumes "Suc (unat m) < 2 ^ 64"
  shows "unat (sq_next_commit_ts (sync_next_commit_ts_with sq m)) = max (unat (sq_next_commit_ts sq)) (Suc (unat m))"
proof -
  obtain nxt where "commit_ts_at m 1 = Some nxt" "unat nxt = unat m + 1"
    using commit_ts_at_exists [of m 1] assms by auto
  then show ?thesis by (auto simp: sync_next_commit_ts_with_def max_def word_le_nat_alt)
qed

lemma seq_run_refines:
  "fst (clock_spec (clock_of ops sq) (unat (sq_next_commit_ts sq))) < 2 ^ 64 \<Longrightarrow>
     clock_spec (clock_of ops sq) (unat (sq_next_commit_ts sq)) =
       (unat (sq_next_commit_ts (fst (seq_run ops sq))), map unat (snd (seq_run ops sq)))"
proof (induction ops arbitrary: sq)
  case (Cons op ops)
  let ?sq = "seq_apply op sq" and ?n = "unat (sq_next_commit_ts sq)"
  have mono: "k \<le> fst (clock_spec cs k)" for cs k
    using clock_spec_increasing [OF prod.collapse [symmetric], of cs k] by blast
  show ?case
  proof (cases op)
    case (Seq_Batch c)
    let ?k = "length (durable_ts sq c)"
    have fin: "fst (clock_spec (clock_of ops ?sq) (?n + ?k)) < 2 ^ 64"
      using Cons.prems by (simp add: Seq_Batch case_prod_beta)
    then have "?n + ?k < 2 ^ 64" using mono [of "?n + ?k"] order.strict_trans1 by blast
    note step = seq_batch_clock [OF _ this, where sq' = ?sq, simplified Seq_Batch, OF refl]
    have "fst (clock_spec (clock_of ops ?sq) (unat (sq_next_commit_ts ?sq))) < 2 ^ 64"
      using fin step by (simp add: Seq_Batch)
    from Cons.IH [OF this] show ?thesis using step by (simp add: Seq_Batch case_prod_beta)
  next
    case (Seq_Sync m)
    have fin: "fst (clock_spec (clock_of ops ?sq) (max ?n (Suc (unat m)))) < 2 ^ 64"
      using Cons.prems by (simp add: Seq_Sync)
    then have "Suc (unat m) < 2 ^ 64"
      using mono [of "max ?n (Suc (unat m))" "clock_of ops ?sq"] by linarith
    note step = seq_sync_clock [OF this, of sq]
    have "fst (clock_spec (clock_of ops ?sq) (unat (sq_next_commit_ts ?sq))) < 2 ^ 64"
      using fin step by (simp add: Seq_Sync)
    from Cons.IH [OF this] show ?thesis using step by (simp add: Seq_Sync case_prod_beta)
  qed
qed simp

subsection \<open>The end of the clock\<close>

text \<open>The number of batches of a run that make something durable.\<close>

fun durable_batches :: "('s, 'r, 'a, 'e, 'o) seq_op list \<Rightarrow> sequencer \<Rightarrow> nat" where
  "durable_batches [] sq = 0"
| "durable_batches (op # ops) sq =
     (case op of Seq_Batch c \<Rightarrow> (if durable_ts sq c = [] then 0 else 1) | Seq_Sync _ \<Rightarrow> 0) + durable_batches ops (seq_apply op sq)"

lemma accepted_of_room: "unat (sq_next_commit_ts sq) + length (accepted_of sq clock fence st plans) \<le> 2 ^ 64 \<and>
    map (unat \<circ> fst) (accepted_of sq clock fence st plans) =
      [unat (sq_next_commit_ts sq) ..< unat (sq_next_commit_ts sq) + length (accepted_of sq clock fence st plans)]"
proof -
  obtain st' acc rej dfr where loop: "ordered_loop (sq_options sq) clock fence (sq_next_commit_ts sq) 0 st in_flight_default [] [] plans =
      (st', acc, rej, dfr)" by (rule prod_cases4)
  have "batch_ok (sq_next_commit_ts sq) in_flight_default (plans_of [])" using batch_ok_default by simp
  from ordered_loop_ok [OF loop this] loop show ?thesis
    by (simp add: accepted_of_def accepted_ok_def comp_def case_prod_beta)
qed

lemma durable_clock:
  "sq_next_commit_ts (seq_apply (Seq_Batch c) sq) =
     (if durable_ts sq c = [] then sq_next_commit_ts sq
      else advance_shadow_clock (sq_next_commit_ts sq) (sq_next_commit_ts sq) (length (durable_ts sq c)))"
  by (auto simp: durable_ts_def accepted_of_def sequence_ordered_batch_def Let_def
      split: prod.splits sum.splits append_error.splits if_splits)

lemma durable_room: "unat (sq_next_commit_ts sq) + length (durable_ts sq c) \<le> 2 ^ 64 \<and>
    map unat (durable_ts sq c) = [unat (sq_next_commit_ts sq) ..< unat (sq_next_commit_ts sq) + length (durable_ts sq c)]"
  using accepted_of_room [of sq "sc_clock c" "sc_fence c" "sc_state c" "sc_plans c"] unsigned_less [of "sq_next_commit_ts sq"]
  by (auto simp: durable_ts_def Let_def comp_def split: sum.splits append_error.splits)

lemma unat_last: "unat (- 1 :: u64) = 2 ^ 64 - 1"
  by (simp add: unsigned_minus_1_eq_mask mask_eq_exp_minus_1)

lemma last_ts_ends_clock:
  assumes "- 1 \<in> set (durable_ts sq c)"
  shows "sq_next_commit_ts (seq_apply (Seq_Batch c) sq) = - 1"
proof -
  have "2 ^ 64 - 1 \<in> set (map unat (durable_ts sq c))" using assms unat_last by force
  then have "unat (sq_next_commit_ts sq) + length (durable_ts sq c) = 2 ^ 64" using durable_room [of sq c] by auto
  then have "commit_ts_at (sq_next_commit_ts sq) (length (durable_ts sq c)) = None" by (simp add: commit_ts_at_def)
  then show ?thesis using assms by (auto simp: durable_clock advance_shadow_clock_def simp del: seq_apply.simps)
qed

lemma ended_durable_ts:
  assumes "sq_next_commit_ts sq = - 1"
  shows "durable_ts sq c = [] \<or> durable_ts sq c = [- 1]"
proof -
  have room: "length (durable_ts sq c) \<le> 1" "map unat (durable_ts sq c) = [2 ^ 64 - 1 ..< 2 ^ 64 - 1 + length (durable_ts sq c)]"
    using durable_room [of sq c] unfolding assms unat_last by auto
  show ?thesis
  proof (cases "durable_ts sq c")
    case (Cons ts rest)
    with room have "rest = []" "unat ts = unat (- 1 :: u64)" by (auto simp: unat_last upt_rec)
    then show ?thesis using Cons by (simp add: word_unat_eq_iff)
  qed simp
qed

lemma ended_clock_step:
  assumes "sq_next_commit_ts sq = - 1"
  shows "sq_next_commit_ts (seq_apply op sq) = - 1"
proof (cases op)
  case (Seq_Batch c)
  then show ?thesis using ended_durable_ts [OF assms, of c] last_ts_ends_clock [of sq c] assms durable_clock [of c sq] by (auto simp del: seq_apply.simps)
next
  case (Seq_Sync m)
  then show ?thesis using assms by (auto simp: sync_next_commit_ts_with_def max_def word_order.extremum_unique split: option.splits)
qed

lemma ended_clock_run:
  "sq_next_commit_ts sq = - 1 \<Longrightarrow> snd (seq_run ops sq) = replicate (durable_batches ops sq) (- 1) \<and>
     sq_next_commit_ts (fst (seq_run ops sq)) = - 1"
proof (induction ops arbitrary: sq)
  case (Cons op ops)
  note IH = Cons.IH [OF ended_clock_step [OF Cons.prems, of op]]
  show ?case
  proof (cases op)
    case (Seq_Batch c)
    then show ?thesis using IH ended_durable_ts [OF Cons.prems, of c] by (auto simp: case_prod_beta)
  qed (use IH in \<open>auto simp: case_prod_beta\<close>)
qed simp

lemma ordered_loop_grows:
  "ordered_loop opts clock fence base n st b acc rej ps = (st', acc', rej', dfr) \<Longrightarrow> acc \<noteq> [] \<Longrightarrow> acc' \<noteq> []"
  by (induction opts clock fence base n st b acc rej ps rule: ordered_loop.induct)
    (auto split: if_splits option.splits prod.splits)

lemma first_plan_accepted:
  assumes "sc_plans c = p # ps" "snd (fence_plan (sc_fence c) (sc_state c) in_flight_default (op_sequencing_plan p)) = None"
  shows "accepted_of sq (sc_clock c) (sc_fence c) (sc_state c) (sc_plans c) \<noteq> []"
proof -
  obtain st1 where "fence_plan (sc_fence c) (sc_state c) in_flight_default (op_sequencing_plan p) = (st1, None)"
    using assms(2) by (metis prod.collapse)
  moreover have "0 < effective_batch_size (sq_options sq)" by (simp add: effective_batch_size_def)
  moreover have "commit_ts_at (sq_next_commit_ts sq) 0 = Some (sq_next_commit_ts sq)"
    using unsigned_less [of "sq_next_commit_ts sq"] by (simp add: commit_ts_at_def)
  ultimately show ?thesis
    by (auto simp: accepted_of_def assms(1) split: prod.splits dest!: ordered_loop_grows)
qed

section \<open>Draining\<close>

text \<open>Sequencing again what a batch deferred, as the drain owner of the queue does, until nothing is
  left; \<open>k\<close> numbers the batches.  The result is the accepted and rejected plans of all batches.\<close>

function drain ::
  "(nat \<Rightarrow> nat \<Rightarrow> u64) \<Rightarrow> 's final_fence \<Rightarrow> (commit_ts \<Rightarrow> 'r ordered_plan \<Rightarrow> 'a)
     \<Rightarrow> (nat \<Rightarrow> 'a list \<Rightarrow> ('e, 'a) append_error + 'o) \<Rightarrow> nat \<Rightarrow> sequencer \<Rightarrow> 's \<Rightarrow> 'r ordered_plan list
     \<Rightarrow> sequencer \<times> 's \<times> nat \<times> 'r ordered_plan list" where
  "drain clock fence accept write_log k sq st plans =
     (if plans = [] then (sq, st, k, [])
      else (case sequence_ordered_batch sq (clock k) 0 fence st accept (write_log k) plans of
              (sq', st', res) \<Rightarrow>
                (case rejected_deferred res of
                   (rej, dfr) \<Rightarrow>
                     (case drain clock fence accept write_log (Suc k) sq' st' dfr of
                        (sq'', st'', k'', decided) \<Rightarrow>
                          (sq'', st'', k'',
                           map snd (accepted_of sq (clock k) fence st plans) @ map fst rej @ decided)))))"
  by pat_completeness auto

lemma deferred_shorter:
  assumes "sequence_ordered_batch sq clock us fence st accept write_log plans = (sq', st', res)"
    "rejected_deferred res = (rej, dfr)" "plans \<noteq> []"
  shows "length dfr < length plans"
  using sequence_ordered_batch_ok [OF assms(1,2) refl] assms(3) by auto

termination drain
  by (relation "measure (\<lambda>(clock, fence, accept, write_log, k, sq, st, plans). length plans)")
    (auto dest: deferred_shorter [OF _ sym] simp: deferred_shorter [OF sym sym])

declare drain.simps [simp del]

lemma drain_decides:
  "drain clock fence accept write_log k sq st plans = (sq', st', k', decided) \<Longrightarrow>
     mset decided = mset plans \<and> k \<le> k' \<and> k' \<le> k + length plans"
proof (induction clock fence accept write_log k sq st plans arbitrary: sq' st' k' decided rule: drain.induct)
  case (1 clock fence accept write_log k sq st plans)
  show ?case
  proof (cases "plans = []")
    case True
    with "1.prems" show ?thesis by (simp add: drain.simps)
  next
    case False
    obtain sq1 st1 res where call: "sequence_ordered_batch sq (clock k) 0 fence st accept (write_log k) plans = (sq1, st1, res)"
      by (rule prod_cases3)
    obtain rej dfr where rd: "rejected_deferred res = (rej, dfr)" by (cases "rejected_deferred res")
    obtain rest where rest: "drain clock fence accept write_log (Suc k) sq1 st1 dfr = (sq', st', k', rest)"
      "decided = map snd (accepted_of sq (clock k) fence st plans) @ map fst rej @ rest"
      using "1.prems" False call rd by (subst (asm) drain.simps) (auto split: prod.splits)
    have IH: "mset rest = mset dfr \<and> Suc k \<le> k' \<and> k' \<le> Suc k + length dfr"
      using "1.IH" [OF False call [symmetric] refl rd [symmetric] rest(1)] .
    obtain taken where taken: "plans = taken @ dfr" "taken \<noteq> []"
      "mset (map snd (accepted_of sq (clock k) fence st plans)) + mset (map fst rej) = mset taken"
      using sequence_ordered_batch_ok [OF call rd refl] False by blast
    have "mset decided = mset plans" using taken(3) IH by (simp add: rest(2) taken(1) add.assoc [symmetric])
    moreover have "Suc (length dfr) \<le> length plans" using taken(1,2) by (cases taken) simp_all
    ultimately show ?thesis using IH by simp
  qed
qed

section \<open>Properties\<close>

text \<open>\<^bold>\<open>C26.\<close> What a group commit accepts.  Whatever the final fence, the clock and the outcome of the append, the
  accepted plans get consecutive timestamps from the sequencer's next one on, without wrapping; no two
  write conflicting resources, and a serializable one was validated no earlier than the marks of those
  before it; their number is within the batch size; every plan is accepted, rejected or deferred, once;
  and the deferred ones are a suffix that is not the whole batch.\<close>

theorem ordered_batch_fenced:
  assumes "sequence_ordered_batch sq clock us fence st accept write_log plans = (sq', st', res)"
    "rejected_deferred res = (rej, dfr)" "acc = accepted_of sq clock fence st plans"
  shows "map (unat \<circ> fst) acc = [unat (sq_next_commit_ts sq) ..< unat (sq_next_commit_ts sq) + length acc] \<and>
    unat (sq_next_commit_ts sq) + length acc \<le> 2 ^ 64 \<and>
    sorted_wrt fence_compatible (map (op_sequencing_plan \<circ> snd) acc) \<and>
    length acc \<le> effective_batch_size (sq_options sq) \<and>
    (\<exists>taken. plans = taken @ dfr \<and> mset (map snd acc) + mset (map fst rej) = mset taken \<and> (plans \<noteq> [] \<longrightarrow> taken \<noteq> []))"
  using sequence_ordered_batch_ok [OF assms]
  by (simp add: accepted_ok_def comp_def case_prod_beta)

text \<open>\<^bold>\<open>C27.\<close> The commit clock refines a counter.  Over any sequence of group commits, whose appends succeed, fail or
  turn out durable after an error, and of synchronisations with recovered commits, the sequencer's next
  timestamp and the timestamps made durable are those of a counter without bounds, as long as that one
  stays below 2 to the 64; so they are strictly increasing, and none is given twice.\<close>

theorem sequencer_refines_clock:
  assumes "fst (clock_spec (clock_of ops sq) (unat (sq_next_commit_ts sq))) < 2 ^ 64"
  shows "clock_spec (clock_of ops sq) (unat (sq_next_commit_ts sq)) =
      (unat (sq_next_commit_ts (fst (seq_run ops sq))), map unat (snd (seq_run ops sq))) \<and>
    sorted_wrt (<) (snd (seq_run ops sq)) \<and>
    (\<forall>ts \<in> set (snd (seq_run ops sq)). sq_next_commit_ts sq \<le> ts \<and> ts < sq_next_commit_ts (fst (seq_run ops sq)))"
proof -
  note run = seq_run_refines [OF assms]
  have "(\<lambda>x y :: u64. unat x < unat y) = (<)" by (simp add: fun_eq_iff word_less_nat_alt)
  with clock_spec_increasing [OF run] run show ?thesis
    by (simp add: sorted_wrt_map word_less_nat_alt word_le_nat_alt)
qed

text \<open>\<^bold>\<open>C29.\<close> Draining ends: sequencing the deferred suffix again and again reaches the point where nothing is
  deferred after at most as many batches as there are plans, and by then every plan was accepted or
  rejected exactly once.\<close>

theorem drain_ends:
  "\<exists>sq' st' batches decided. drain clock fence accept write_log 0 sq st plans = (sq', st', batches, decided) \<and>
     batches \<le> length plans \<and> mset decided = mset plans"
proof -
  obtain sq' st' batches decided where "drain clock fence accept write_log 0 sq st plans = (sq', st', batches, decided)"
    by (metis prod_cases4)
  with drain_decides [OF this] show ?thesis by simp
qed

text \<open>\<^bold>\<open>C30.\<close> The clock's last timestamp is given more than once.  Once a batch has made a commit at the largest 64-bit
  number durable, the next timestamp stays at that number through every later batch and synchronisation; every later
  batch that makes something durable makes exactly one commit durable, at that same number; and a batch
  does so whenever its first plan passes the fence and its append does not fail, so such a commit is never
  told that timestamps are exhausted.\<close>

theorem exhausted_clock_repeats:
  assumes "- 1 \<in> set (durable_ts sq c)" "sq' = seq_apply (Seq_Batch c) sq"
  shows "snd (seq_run ops sq') = replicate (durable_batches ops sq') (- 1) \<and>
    sq_next_commit_ts (fst (seq_run ops sq')) = - 1 \<and>
    (\<forall>c' p ps. sc_plans c' = p # ps \<and>
        snd (fence_plan (sc_fence c') (sc_state c') in_flight_default (op_sequencing_plan p)) = None \<and>
        (\<forall>accepted err back. sc_write_log c' accepted \<noteq> Inl (AppendFailed err back)) \<longrightarrow>
      durable_ts (fst (seq_run ops sq')) c' = [- 1])"
proof -
  have "sq_next_commit_ts sq' = - 1" using last_ts_ends_clock [OF assms(1)] assms(2) by simp
  from ended_clock_run [OF this, of ops] have run: "snd (seq_run ops sq') = replicate (durable_batches ops sq') (- 1)"
    "sq_next_commit_ts (fst (seq_run ops sq')) = - 1" by simp_all
  have "durable_ts (fst (seq_run ops sq')) c' = [- 1]"
    if c': "sc_plans c' = p # ps" "snd (fence_plan (sc_fence c') (sc_state c') in_flight_default (op_sequencing_plan p)) = None"
      "\<forall>accepted err back. sc_write_log c' accepted \<noteq> Inl (AppendFailed err back)" for c' p ps
  proof -
    have "durable_ts (fst (seq_run ops sq')) c' \<noteq> []"
      using first_plan_accepted [OF c'(1,2)] c'(3) by (auto simp: durable_ts_def Let_def split: sum.splits append_error.splits)
    then show ?thesis using ended_durable_ts [OF run(2)] by blast
  qed
  with run show ?thesis by blast
qed

section \<open>Witnesses\<close>

text \<open>Three snapshot transactions that write the keys 1, 2 and 1 of a table; the log takes every batch.\<close>

definition demo_sequencing_plan :: "txn_id \<Rightarrow> u64 \<Rightarrow> unit ordered_plan" where
  "demo_sequencing_plan t key =
     \<lparr>op_sequencing_plan = sequencing_plan_new
        \<lparr>pl_database_id = 7, pl_txn_id = t, pl_read_ts = 4, pl_isolation = Snapshot, pl_frozen_read_set = frozen_empty,
         pl_lock_set = [], pl_participants = []\<rparr>
        [LR_PrimaryKey \<lparr>ns_tenant_id = 0, ns_database_id = 7\<rparr> 3 1 key],
      op_payload = ()\<rparr>"

abbreviation demo_batch :: "unit ordered_plan list" where
  "demo_batch \<equiv> [demo_sequencing_plan 1 1, demo_sequencing_plan 2 2, demo_sequencing_plan 3 1]"

abbreviation no_fence :: "unit final_fence" where
  "no_fence \<equiv> \<lambda>st p b. (st, None)"

lemmas seq_eval = sequence_ordered_batch_def accepted_of_def sequencer_with_next_commit_ts_def sequencer_new_def
  options_default_def DEFAULT_MAX_GROUP_COMMIT_BATCH_SIZE_def DEFAULT_MAX_GROUP_COMMIT_FENCE_US_def
  effective_batch_size_def fence_plan_def reject_reason_for_def in_flight_default_def in_flight_accept_def
  commit_ts_at_def demo_sequencing_plan_def sequencing_plan_new_def conflicts_with_def for_pair_def
  advance_shadow_clock_def Let_def

theorem ordered_batch_fenced_witness:
  "map (unat \<circ> fst) (accepted_of (sequencer_with_next_commit_ts 5) (\<lambda>_. 0) no_fence () demo_batch) = [5, 6]"
proof -
  let ?sq = "sequencer_with_next_commit_ts 5" and ?accept = "\<lambda>ts (p :: unit ordered_plan). ts"
    and ?log = "\<lambda>ts :: commit_ts list. Inr () :: (unit, commit_ts) append_error + unit"
  obtain sq' st' res where call: "sequence_ordered_batch ?sq (\<lambda>_. 0) 1 no_fence () ?accept ?log demo_batch = (sq', st', res)"
    by (rule prod_cases3)
  obtain rej dfr where rd: "rejected_deferred res = (rej, dfr)" by (cases "rejected_deferred res")
  have "length (accepted_of ?sq (\<lambda>_. 0) no_fence () demo_batch) = 2" by (simp add: seq_eval)
  moreover have "unat (sq_next_commit_ts ?sq) = 5" by (simp add: seq_eval)
  ultimately show ?thesis
    using ordered_batch_fenced [OF call rd refl] by (simp add: upt_rec)
qed

abbreviation demo_call :: "(unit, unit, commit_ts, unit, unit) seq_call" where
  "demo_call \<equiv> \<lparr>sc_clock = \<lambda>_. 0, sc_fence_us = 1, sc_fence = no_fence, sc_state = (), sc_accept = \<lambda>ts p. ts,
     sc_write_log = \<lambda>ts. Inr (), sc_plans = demo_batch\<rparr>"

theorem sequencer_refines_clock_witness:
  "sorted_wrt (<) (snd (seq_run [Seq_Batch demo_call, Seq_Sync 9, Seq_Batch demo_call] (sequencer_with_next_commit_ts 5))) \<and>
   snd (seq_run [Seq_Batch demo_call, Seq_Sync 9, Seq_Batch demo_call] (sequencer_with_next_commit_ts 5)) = [5, 6, 10, 11]"
proof -
  let ?ops = "[Seq_Batch demo_call, Seq_Sync 9, Seq_Batch demo_call]" and ?sq = "sequencer_with_next_commit_ts 5"
  have "fst (clock_spec (clock_of ?ops ?sq) (unat (sq_next_commit_ts ?sq))) < 2 ^ 64"
    by (simp add: seq_eval durable_ts_def sync_next_commit_ts_with_def)
  from sequencer_refines_clock [OF this]
  have "sorted_wrt (<) (snd (seq_run ?ops ?sq))" by blast
  moreover have "snd (seq_run ?ops ?sq) = [5, 6, 10, 11]"
    by (simp add: seq_eval durable_ts_def sync_next_commit_ts_with_def)
  ultimately show ?thesis ..
qed

theorem exhausted_clock_repeats_witness:
  "snd (seq_run [Seq_Batch (demo_call\<lparr>sc_plans := [demo_sequencing_plan 2 2]\<rparr>)]
     (seq_apply (Seq_Batch (demo_call\<lparr>sc_plans := [demo_sequencing_plan 1 1]\<rparr>)) (sequencer_with_next_commit_ts (- 1)))) = [- 1]"
proof -
  let ?c = "demo_call\<lparr>sc_plans := [demo_sequencing_plan 1 1]\<rparr>" and ?sq = "sequencer_with_next_commit_ts (- 1)"
  let ?c' = "demo_call\<lparr>sc_plans := [demo_sequencing_plan 2 2]\<rparr>"
  have "- 1 \<in> set (durable_ts ?sq ?c)"
    by (simp add: seq_eval durable_ts_def unsigned_minus_1_eq_mask mask_eq_exp_minus_1)
  note exhausted_clock_repeats [OF this refl, of "[Seq_Batch ?c']"]
  moreover have "durable_batches [Seq_Batch ?c'] (seq_apply (Seq_Batch ?c) ?sq) = 1"
    by (simp add: seq_eval durable_ts_def unsigned_minus_1_eq_mask mask_eq_exp_minus_1)
  ultimately show ?thesis by (metis One_nat_def replicate_0 replicate_Suc)
qed

end
