(* ===== verification/Queue_Safety.thy ===== *)
theory Queue_Safety
  imports Commit_Queue
begin

text \<open>
  The commit queue against the multiset of the commits it was given: no operation loses, duplicates or
  reorders an entry beyond deferring it, and the byte counters are exact.  The last section is the race
  of a submitter with a drain owner that is about to give up.
\<close>

section \<open>Accounting\<close>

lemma unat_saturating_add: "unat a + unat b < 2 ^ 64 \<Longrightarrow> unat (u64_saturating_add a b) = unat a + unat b"
  by (simp add: u64_saturating_add_def unat_word_ariths)

lemma unat_saturating_sub: "unat (u64_saturating_sub a b) = unat a - unat b"
  by (simp add: u64_saturating_sub_def unat_sub_if' word_le_nat_alt)

definition entry_bytes :: "'p queue_entry multiset \<Rightarrow> nat" where
  "entry_bytes M = (\<Sum>e \<in># M. unat (qe_retained_bytes e))"

lemma entry_bytes_simps [simp]:
  "entry_bytes {#} = 0" "entry_bytes (add_mset e M) = unat (qe_retained_bytes e) + entry_bytes M"
  "entry_bytes (M + N) = entry_bytes M + entry_bytes N"
  by (simp_all add: entry_bytes_def)

lemma entry_bytes_mono: "M \<subseteq># N \<Longrightarrow> entry_bytes M \<le> entry_bytes N"
  by (metis entry_bytes_simps(3) le_add1 subset_mset.add_diff_inverse)

lemma entry_bytes_diff: "M \<subseteq># N \<Longrightarrow> entry_bytes (N - M) = entry_bytes N - entry_bytes M"
  by (metis add_diff_cancel_left' entry_bytes_simps(3) subset_mset.add_diff_inverse)

definition queue_all :: "'p commit_queue \<Rightarrow> 'p queue_entry multiset" where
  "queue_all q = mset (cq_entries q) + mset (cq_deferred_entries q) + mset (pending_entries q)"

definition bytes_ok :: "'p commit_queue \<Rightarrow> bool" where
  "bytes_ok q \<longleftrightarrow> unat (cq_queue_retained_bytes q) = entry_bytes (queue_all q) \<and>
     unat (cq_deferred_entries_bytes q) = entry_bytes (mset (cq_deferred_entries q)) \<and>
     (\<forall>b \<in> set (cq_pending_fence q). unat (fb_retained_bytes b) = entry_bytes (mset (fb_entries b))) \<and>
     pg_batch_count (cq_pending_fence_guard q) = length (cq_pending_fence q) \<and>
     pg_retained_bytes (cq_pending_fence_guard q) = sum_list (map fb_retained_bytes (cq_pending_fence q))"

lemma retained_fold:
  "unat s + entry_bytes (mset es) < 2 ^ 64 \<Longrightarrow>
     unat (fold (\<lambda>e sum. u64_saturating_add sum (qe_retained_bytes e)) es s) = unat s + entry_bytes (mset es)"
  by (induction es arbitrary: s) (simp_all add: unat_saturating_add)

lemma retained_sum_exact: "entry_bytes (mset es) < 2 ^ 64 \<Longrightarrow> unat (retained_sum es) = entry_bytes (mset es)"
  using retained_fold [of 0 es] by (simp add: retained_sum_def)

section \<open>What the operations of the owner take and put back\<close>

text \<open>The parts of the queue an operation of the owner leaves alone.\<close>

definition same_order :: "'p commit_queue \<Rightarrow> 'p commit_queue \<Rightarrow> bool" where
  "same_order q' q \<longleftrightarrow> cq_next_enqueue_seq q' = cq_next_enqueue_seq q \<and> cq_published_tail_seq q' = cq_published_tail_seq q"

lemma take_deferred_ok:
  assumes "take_deferred n q = (q', es)"
  shows "es = take n (cq_deferred_entries q) \<and> cq_deferred_entries q' = drop n (cq_deferred_entries q) \<and>
    cq_entries q' = cq_entries q \<and> cq_pending_fence q' = cq_pending_fence q \<and> same_order q' q \<and> (bytes_ok q \<longrightarrow> bytes_ok q')"
  using assms
proof (induction n q arbitrary: q' es rule: take_deferred.induct)
  case (1 q)
  then show ?case by (simp add: same_order_def)
next
  case (2 n q)
  show ?case
  proof (cases "cq_deferred_entries q")
    case Nil
    then show ?thesis using "2.prems" by (simp add: same_order_def)
  next
    case (Cons e rest)
    let ?q = "q\<lparr>cq_deferred_entries := rest,
      cq_deferred_entries_bytes := u64_saturating_sub (cq_deferred_entries_bytes q) (qe_retained_bytes e),
      cq_queue_retained_bytes := u64_saturating_sub (cq_queue_retained_bytes q) (qe_retained_bytes e)\<rparr>"
    obtain taken where taken: "take_deferred n ?q = (q', taken)" "es = e # taken"
      using "2.prems" Cons by (auto split: prod.splits)
    have "bytes_ok q \<longrightarrow> bytes_ok ?q"
      using Cons by (auto simp: bytes_ok_def queue_all_def unat_saturating_sub)
    with "2.IH" [OF Cons taken(1)] taken(2) Cons show ?thesis by (simp add: same_order_def)
  qed
qed

lemma take_entries_ok:
  assumes "take_entries tail_seq n q = (q', es)" "\<forall>e \<in> set (cq_entries q). qe_queue_seq e \<le> tail_seq"
  shows "es = take n (cq_entries q) \<and> cq_entries q' = drop n (cq_entries q) \<and>
    cq_deferred_entries q' = cq_deferred_entries q \<and> cq_pending_fence q' = cq_pending_fence q \<and> same_order q' q \<and>
    (bytes_ok q \<longrightarrow> bytes_ok q')"
  using assms
proof (induction tail_seq n q arbitrary: q' es rule: take_entries.induct)
  case (1 tail_seq q)
  then show ?case by (simp add: same_order_def)
next
  case (2 tail_seq n q)
  show ?case
  proof (cases "cq_entries q")
    case Nil
    then show ?thesis using "2.prems" by (simp add: same_order_def)
  next
    case (Cons e rest)
    let ?q = "q\<lparr>cq_entries := rest,
      cq_queue_retained_bytes := u64_saturating_sub (cq_queue_retained_bytes q) (qe_retained_bytes e)\<rparr>"
    have front: "\<not> tail_seq < qe_queue_seq e" using "2.prems"(2) Cons by auto
    obtain taken where taken: "take_entries tail_seq n ?q = (q', taken)" "es = e # taken"
      using "2.prems"(1) Cons front by (auto split: prod.splits)
    have "bytes_ok q \<longrightarrow> bytes_ok ?q"
      using Cons by (auto simp: bytes_ok_def queue_all_def unat_saturating_sub)
    with "2.IH" [OF Cons front taken(1)] taken(2) Cons "2.prems"(2) show ?thesis by (simp add: same_order_def)
  qed
qed

lemma ready_flag_ok: "bytes_ok (q\<lparr>cq_ready_queued := b\<rparr>) = bytes_ok q"
  by (simp add: bytes_ok_def queue_all_def)

lemma take_local_buffer_ok:
  assumes "take_local_buffer n q = (q', es)" "\<forall>e \<in> set (cq_entries q). qe_queue_seq e \<le> cq_published_tail_seq q"
  shows "es = take n (cq_deferred_entries q @ cq_entries q) \<and>
    cq_deferred_entries q' = drop n (cq_deferred_entries q) \<and>
    cq_entries q' = drop (n - length (cq_deferred_entries q)) (cq_entries q) \<and>
    cq_pending_fence q' = cq_pending_fence q \<and> same_order q' q \<and> (bytes_ok q \<longrightarrow> bytes_ok q')"
proof -
  obtain q1 deferred where first: "take_deferred n (q\<lparr>cq_ready_queued := False\<rparr>) = (q1, deferred)" by fastforce
  obtain taken where second: "take_entries (cq_published_tail_seq q) (n - length deferred) q1 = (q', taken)"
    and es: "es = deferred @ taken"
    using assms(1) first by (auto simp: take_local_buffer_def split: prod.splits)
  note one = take_deferred_ok [OF first]
  from one assms(2) have "\<forall>e \<in> set (cq_entries q1). qe_queue_seq e \<le> cq_published_tail_seq q" by simp
  note two = take_entries_ok [OF second this]
  from one two es show ?thesis by (auto simp: same_order_def ready_flag_ok min_def)
qed

lemma recompute_ok:
  "queue_all (recompute_pending_guard p q) = queue_all q" "cq_entries (recompute_pending_guard p q) = cq_entries q"
  "same_order (recompute_pending_guard p q) q"
  by (simp_all add: recompute_pending_guard_def Let_def same_order_def queue_all_def)

lemma recompute_bytes_ok:
  assumes "unat (cq_queue_retained_bytes q) = entry_bytes (queue_all q)"
    "unat (cq_deferred_entries_bytes q) = entry_bytes (mset (cq_deferred_entries q))"
    "\<forall>b \<in> set (cq_pending_fence q). unat (fb_retained_bytes b) = entry_bytes (mset (fb_entries b))"
  shows "bytes_ok (recompute_pending_guard p q)"
  using assms by (simp add: bytes_ok_def queue_all_def recompute_pending_guard_def Let_def)

lemma take_ready_ok:
  assumes "take_ready_pending_fence ts p q = (q', Some es)" "bytes_ok q"
  shows "queue_all q = queue_all q' + mset es \<and> cq_entries q' = cq_entries q \<and> same_order q' q \<and> bytes_ok q'"
proof -
  obtain b bs where pending: "cq_pending_fence q = b # bs"
    using assms(1) by (cases "cq_pending_fence q") (auto simp: take_ready_pending_fence_def)
  let ?q = "q\<lparr>cq_pending_fence := bs,
    cq_queue_retained_bytes := u64_saturating_sub (cq_queue_retained_bytes q) (fb_retained_bytes b),
    cq_metrics := (cq_metrics q)\<lparr>qm_pending_fence_ready_count := u64_saturating_add (qm_pending_fence_ready_count (cq_metrics q)) 1\<rparr>\<rparr>"
  have q': "q' = recompute_pending_guard p ?q" and es: "es = fb_entries b"
    using assms(1) pending by (auto simp: take_ready_pending_fence_def split: if_splits)
  have "bytes_ok (recompute_pending_guard p ?q)"
    using assms(2) pending by (intro recompute_bytes_ok) (auto simp: bytes_ok_def queue_all_def unat_saturating_sub)
  then show ?thesis using pending recompute_ok [of p ?q] by (simp add: q' es same_order_def queue_all_def)
qed

lemma take_ready_none: "take_ready_pending_fence ts p q = (q', None) \<Longrightarrow> q' = q"
  by (auto simp: take_ready_pending_fence_def split: list.splits if_splits)

lemma block_on_fence_ok:
  assumes "bytes_ok q" "entry_bytes (queue_all q) + entry_bytes (mset es) < 2 ^ 64"
  shows "queue_all (block_on_fence ts es p q) = queue_all q + mset es \<and> cq_entries (block_on_fence ts es p q) = cq_entries q \<and>
    same_order (block_on_fence ts es p q) q \<and> bytes_ok (block_on_fence ts es p q)"
proof (cases "es = []")
  case True
  then show ?thesis using assms(1) by (simp add: block_on_fence_def same_order_def)
next
  case False
  let ?b = "\<lparr>fb_required_registered_ts = ts, fb_entries = es, fb_original_head_seq = qe_queue_seq (hd es),
    fb_enqueued_at = qe_enqueued_at (hd es), fb_bypass_epoch_at_block = cq_snapshot_bypass_epoch q,
    fb_bypass_batch_budget = bp_serializable_bypass_batch_budget p, fb_retained_bytes = retained_sum es\<rparr>"
  let ?q = "q\<lparr>cq_queue_retained_bytes := u64_saturating_add (cq_queue_retained_bytes q) (retained_sum es),
    cq_pending_fence := cq_pending_fence q @ [?b],
    cq_metrics := (cq_metrics q)\<lparr>qm_pending_fence_block_count := u64_saturating_add (qm_pending_fence_block_count (cq_metrics q)) 1\<rparr>\<rparr>"
  have block: "block_on_fence ts es p q = recompute_pending_guard p ?q" using False by (simp add: block_on_fence_def)
  have sum: "unat (retained_sum es) = entry_bytes (mset es)" using assms(2) by (intro retained_sum_exact) simp
  have "bytes_ok (recompute_pending_guard p ?q)"
    using assms sum by (intro recompute_bytes_ok) (auto simp: bytes_ok_def queue_all_def unat_saturating_add)
  then show ?thesis unfolding block using recompute_ok [of p ?q] by (simp add: same_order_def queue_all_def)
qed

lemma defer_entries_ok:
  assumes "bytes_ok q" "entry_bytes (queue_all q) + entry_bytes (mset es) < 2 ^ 64"
  shows "queue_all (defer_entries es q) = queue_all q + mset es \<and> cq_entries (defer_entries es q) = cq_entries q \<and>
    same_order (defer_entries es q) q \<and> bytes_ok (defer_entries es q)"
  using assms
proof (induction es arbitrary: q)
  case Nil
  then show ?case by (simp add: defer_entries_def same_order_def queue_all_def)
next
  case (Cons e es)
  have "unat (cq_deferred_entries_bytes q) + unat (qe_retained_bytes e) < 2 ^ 64"
    using Cons.prems by (simp add: bytes_ok_def queue_all_def)
  then have "bytes_ok (defer_entry e q)"
    using Cons.prems by (simp add: bytes_ok_def queue_all_def defer_entry_def unat_saturating_add)
  moreover have fields: "cq_deferred_entries (defer_entry e q) = cq_deferred_entries q @ [e]"
    "cq_entries (defer_entry e q) = cq_entries q" "cq_pending_fence (defer_entry e q) = cq_pending_fence q"
    "same_order (defer_entry e q) q"
    by (simp_all add: defer_entry_def same_order_def)
  moreover have "entry_bytes (queue_all (defer_entry e q)) + entry_bytes (mset es) < 2 ^ 64"
    using Cons.prems(2) by (simp add: fields queue_all_def)
  ultimately show ?case using Cons.IH [of "defer_entry e q"]
    by (auto simp: defer_entries_def same_order_def queue_all_def)
qed

lemma record_bypass_ok:
  "queue_all (record_snapshot_bypass p q) = queue_all q \<and> cq_entries (record_snapshot_bypass p q) = cq_entries q \<and>
    same_order (record_snapshot_bypass p q) q \<and> (bytes_ok q \<longrightarrow> bytes_ok (record_snapshot_bypass p q))"
proof (cases "cq_pending_fence q = []")
  case False
  let ?q = "q\<lparr>cq_snapshot_bypass_epoch := u64_saturating_add (cq_snapshot_bypass_epoch q) 1,
    cq_pending_fence_guard := (cq_pending_fence_guard q)\<lparr>pg_min_remaining_bypass_batches :=
      (let n = pg_min_remaining_bypass_batches (cq_pending_fence_guard q) in if n = 0 then 0 else n - 1)\<rparr>,
    cq_metrics := (cq_metrics q)\<lparr>qm_snapshot_bypass_count := u64_saturating_add (qm_snapshot_bypass_count (cq_metrics q)) 1\<rparr>\<rparr>"
  have bypass: "record_snapshot_bypass p q = recompute_pending_guard p ?q" using False by (simp add: record_snapshot_bypass_def)
  have "bytes_ok q \<longrightarrow> bytes_ok (recompute_pending_guard p ?q)"
    by (intro impI recompute_bytes_ok) (simp_all add: bytes_ok_def queue_all_def)
  then show ?thesis unfolding bypass using recompute_ok [of p ?q] by (simp add: same_order_def queue_all_def)
qed (simp add: record_snapshot_bypass_def same_order_def)

lemma can_bypass_ok:
  assumes "can_bypass_snapshot p now q = (q', b)"
  shows "queue_all q' = queue_all q \<and> cq_entries q' = cq_entries q \<and> same_order q' q \<and> (bytes_ok q \<longrightarrow> bytes_ok q')"
  using assms by (auto simp: can_bypass_snapshot_def count_bypass_block_def same_order_def bytes_ok_def queue_all_def
      split: if_splits option.splits)

section \<open>Runs\<close>

text \<open>The queue with the entries its owner holds, those that were finished (committed, rejected or
  completed by the close) and all that were ever accepted.\<close>

record 'p queue_world =
  qw_queue :: "'p commit_queue"
  qw_out :: "'p queue_entry multiset"
  qw_finished :: "'p queue_entry multiset"
  qw_issued :: "'p queue_entry multiset"

definition world_new :: "'p queue_world" where
  "world_new = \<lparr>qw_queue = commit_queue_new, qw_out = {#}, qw_finished = {#}, qw_issued = {#}\<rparr>"

text \<open>A submission is a step while the bytes in the system fit 64 bits and sequence numbers are left.\<close>

inductive queue_step :: "batch_policy \<Rightarrow> 'p queue_world \<Rightarrow> 'p queue_world \<Rightarrow> bool" for p where
  qs_enqueue: "enqueue now (qw_queue w) job c p = (q', Inr t) \<Longrightarrow>
    entry_bytes (queue_all (qw_queue w) + qw_out w) + unat (pj_retained_bytes job) < 2 ^ 64 \<Longrightarrow>
    cq_next_enqueue_seq (qw_queue w) \<noteq> - 1 \<Longrightarrow>
    queue_step p w (w\<lparr>qw_queue := q', qw_issued := add_mset (last (cq_entries q')) (qw_issued w)\<rparr>)"
| qs_refuse: "enqueue now (qw_queue w) job c p = (q', Inl err) \<Longrightarrow> queue_step p w (w\<lparr>qw_queue := q'\<rparr>)"
| qs_acquire: "try_acquire_drain_owner (qw_queue w) = Some q' \<Longrightarrow> queue_step p w (w\<lparr>qw_queue := q'\<rparr>)"
| qs_signal: "signal_drain_needed (qw_queue w) inline = (q', b) \<Longrightarrow> queue_step p w (w\<lparr>qw_queue := q'\<rparr>)"
| qs_fence_ready: "signal_pending_fence_ready (qw_queue w) inline = (q', b) \<Longrightarrow> queue_step p w (w\<lparr>qw_queue := q'\<rparr>)"
| qs_take: "take_local_buffer n (qw_queue w) = (q', es) \<Longrightarrow> queue_step p w (w\<lparr>qw_queue := q', qw_out := qw_out w + mset es\<rparr>)"
| qs_take_ready: "take_ready_pending_fence ts p (qw_queue w) = (q', Some es) \<Longrightarrow>
    queue_step p w (w\<lparr>qw_queue := q', qw_out := qw_out w + mset es\<rparr>)"
| qs_block: "mset es \<subseteq># qw_out w \<Longrightarrow>
    queue_step p w (w\<lparr>qw_queue := block_on_fence ts es p (qw_queue w), qw_out := qw_out w - mset es\<rparr>)"
| qs_defer: "mset es \<subseteq># qw_out w \<Longrightarrow>
    queue_step p w (w\<lparr>qw_queue := defer_entries es (qw_queue w), qw_out := qw_out w - mset es\<rparr>)"
| qs_can_bypass: "can_bypass_snapshot p now (qw_queue w) = (q', b) \<Longrightarrow> queue_step p w (w\<lparr>qw_queue := q'\<rparr>)"
| qs_bypass: "queue_step p w (w\<lparr>qw_queue := record_snapshot_bypass p (qw_queue w)\<rparr>)"
| qs_finish: "e \<in># qw_out w \<Longrightarrow>
    queue_step p w (w\<lparr>qw_out := qw_out w - {#e#}, qw_finished := add_mset e (qw_finished w)\<rparr>)"
| qs_release: "queue_step p w (w\<lparr>qw_queue := release_drain_owner (qw_queue w)\<rparr>)"
| qs_close: "close_and_drain_pending (qw_queue w) = (q', cs) \<Longrightarrow>
    queue_step p w (w\<lparr>qw_queue := q', qw_finished := qw_finished w + queue_all (qw_queue w)\<rparr>)"

definition seqs_ok :: "'p queue_entry multiset \<Rightarrow> u64 \<Rightarrow> bool" where
  "seqs_ok M n \<longleftrightarrow> (\<forall>s. count (image_mset qe_queue_seq M) s \<le> 1) \<and> (\<forall>e \<in># M. qe_queue_seq e < n)"

definition world_ok :: "'p queue_world \<Rightarrow> bool" where
  "world_ok w \<longleftrightarrow> bytes_ok (qw_queue w) \<and> qw_issued w = queue_all (qw_queue w) + qw_out w + qw_finished w \<and>
     entry_bytes (queue_all (qw_queue w) + qw_out w) < 2 ^ 64 \<and>
     seqs_ok (qw_issued w) (cq_next_enqueue_seq (qw_queue w)) \<and>
     sorted_wrt (<) (map qe_queue_seq (cq_entries (qw_queue w))) \<and>
     (\<forall>e \<in> set (cq_entries (qw_queue w)). qe_queue_seq e \<le> cq_published_tail_seq (qw_queue w))"

lemma world_okD:
  assumes "world_ok w"
  shows "bytes_ok (qw_queue w)" "qw_issued w = queue_all (qw_queue w) + qw_out w + qw_finished w"
    "entry_bytes (queue_all (qw_queue w) + qw_out w) < 2 ^ 64" "seqs_ok (qw_issued w) (cq_next_enqueue_seq (qw_queue w))"
    "sorted_wrt (<) (map qe_queue_seq (cq_entries (qw_queue w)))"
    "\<forall>e \<in> set (cq_entries (qw_queue w)). qe_queue_seq e \<le> cq_published_tail_seq (qw_queue w)"
  using assms unfolding world_ok_def by blast+

lemma world_new_ok: "world_ok world_new"
  by (simp add: world_ok_def seqs_ok_def world_new_def bytes_ok_def queue_all_def commit_queue_new_def guard_default_def)

text \<open>A step that moves entries between the queue, its owner and the finished ones.\<close>

lemma world_moved:
  assumes ok: "world_ok w" and "bytes_ok q'" "same_order q' (qw_queue w)" "cq_entries q' = drop k (cq_entries (qw_queue w))"
    and all: "queue_all q' + out' + fin' = queue_all (qw_queue w) + qw_out w + qw_finished w"
    and le: "entry_bytes (queue_all q' + out') \<le> entry_bytes (queue_all (qw_queue w) + qw_out w)"
  shows "world_ok (w\<lparr>qw_queue := q', qw_out := out', qw_finished := fin'\<rparr>)"
proof -
  have "entry_bytes (queue_all q' + out') < 2 ^ 64" using ok le unfolding world_ok_def by (meson le_less_trans)
  moreover have "qw_issued w = queue_all q' + out' + fin'" using ok all by (simp only: world_ok_def)
  moreover have "sorted_wrt (<) (map qe_queue_seq (cq_entries q'))"
    using ok assms(4) by (simp add: world_ok_def sorted_wrt_drop flip: drop_map)
  moreover have "\<forall>e \<in> set (cq_entries q'). qe_queue_seq e \<le> cq_published_tail_seq q'"
    using ok assms(3,4) by (auto simp: world_ok_def same_order_def dest: in_set_dropD)
  moreover have "seqs_ok (qw_issued w) (cq_next_enqueue_seq q')"
    using world_okD(4) [OF ok] assms(3) by (simp add: same_order_def)
  ultimately show ?thesis using assms(2) by (simp add: world_ok_def)
qed

lemma world_same:
  assumes "world_ok w" "bytes_ok q'" "same_order q' (qw_queue w)" "cq_entries q' = cq_entries (qw_queue w)"
    "queue_all q' = queue_all (qw_queue w)"
  shows "world_ok (w\<lparr>qw_queue := q'\<rparr>)"
  using world_moved [of w q' 0 "qw_out w" "qw_finished w"] assms by simp

lemma world_take:
  assumes ok: "world_ok w" and take: "take_local_buffer n (qw_queue w) = (q', es)"
  shows "world_ok (w\<lparr>qw_queue := q', qw_out := qw_out w + mset es\<rparr>)"
proof -
  let ?q = "qw_queue w"
  have "\<forall>e \<in> set (cq_entries ?q). qe_queue_seq e \<le> cq_published_tail_seq ?q" using ok by (simp add: world_ok_def)
  note t = take_local_buffer_ok [OF take this]
  have bytes: "bytes_ok q'" using t ok by (simp add: world_ok_def)
  have "mset (cq_deferred_entries ?q) + mset (cq_entries ?q) =
      mset es + mset (drop n (cq_deferred_entries ?q)) + mset (drop (n - length (cq_deferred_entries ?q)) (cq_entries ?q))"
    using t by (metis append_take_drop_id drop_append mset_append union_assoc)
  then have all: "queue_all ?q = queue_all q' + mset es" using t by (simp add: queue_all_def ac_simps)
  have "world_ok (w\<lparr>qw_queue := q', qw_out := qw_out w + mset es, qw_finished := qw_finished w\<rparr>)"
    using t by (intro world_moved [OF ok bytes, where k = "n - length (cq_deferred_entries ?q)"]) (simp_all only: all, simp_all add: ac_simps)
  then show ?thesis by simp
qed

lemma world_put:
  assumes ok: "world_ok w" and sub: "mset es \<subseteq># qw_out w"
    and put: "queue_all q' = queue_all (qw_queue w) + mset es" "cq_entries q' = cq_entries (qw_queue w)"
      "same_order q' (qw_queue w)" "bytes_ok q'"
  shows "world_ok (w\<lparr>qw_queue := q', qw_out := qw_out w - mset es\<rparr>)"
proof -
  have "mset es + (qw_out w - mset es) = qw_out w" using sub by (rule subset_mset.add_diff_inverse)
  then have sum: "queue_all q' + (qw_out w - mset es) = queue_all (qw_queue w) + qw_out w"
    unfolding put(1) by (simp only: add.assoc)
  have "world_ok (w\<lparr>qw_queue := q', qw_out := qw_out w - mset es, qw_finished := qw_finished w\<rparr>)"
    by (intro world_moved [OF ok put(4,3), where k = 0]) (simp_all only: sum put(2) drop_0 order_refl)
  then show ?thesis by simp
qed

lemma world_room:
  assumes "world_ok w" "mset es \<subseteq># qw_out w"
  shows "entry_bytes (queue_all (qw_queue w)) + entry_bytes (mset es) < 2 ^ 64"
  using assms entry_bytes_mono [OF assms(2)] by (simp add: world_ok_def)

lemma world_enqueue:
  assumes ok: "world_ok w" and enq: "enqueue now (qw_queue w) job c p = (q', Inr t)"
    and room: "entry_bytes (queue_all (qw_queue w) + qw_out w) + unat (pj_retained_bytes job) < 2 ^ 64"
      "cq_next_enqueue_seq (qw_queue w) \<noteq> - 1"
  shows "world_ok (w\<lparr>qw_queue := q', qw_issued := add_mset (last (cq_entries q')) (qw_issued w)\<rparr>)"
proof -
  let ?q = "qw_queue w" and ?n = "cq_next_enqueue_seq (qw_queue w)"
  let ?e = "\<lparr>qe_queue_seq = ?n, qe_completion = c, qe_enqueued_at = now, qe_job = job\<rparr>"
  have q': "q' = ?q\<lparr>cq_next_enqueue_seq := u64_saturating_add ?n 1, cq_entries := cq_entries ?q @ [?e],
      cq_queue_retained_bytes := u64_saturating_add (cq_queue_retained_bytes ?q) (pj_retained_bytes job),
      cq_metrics := (cq_metrics ?q)\<lparr>qm_enqueue_count := u64_saturating_add (qm_enqueue_count (cq_metrics ?q)) 1\<rparr>,
      cq_published_tail_seq := ?n\<rparr>"
    using enq by (auto simp: enqueue_def Let_def split: if_splits sum.splits)
  have "unat ?n \<noteq> unat (- 1 :: u64)" using room(2) by (metis word_unat_eq_iff)
  moreover have "unat ?n < 2 ^ 64" using unsigned_less [of ?n] by simp
  ultimately have "unat ?n + unat (1 :: u64) < 2 ^ 64" by (simp add: unsigned_minus_1_eq_mask mask_eq_exp_minus_1)
  then have n: "unat (u64_saturating_add ?n 1) = unat ?n + 1" using unat_saturating_add [of ?n 1] by simp
  have all: "queue_all q' = add_mset ?e (queue_all ?q)" by (simp add: q' queue_all_def)
  have below: "\<forall>e \<in># qw_issued w. qe_queue_seq e < ?n" using world_okD(4) [OF ok] by (simp add: seqs_ok_def)
  then have fresh: "count (image_mset qe_queue_seq (qw_issued w)) ?n = 0"
    by (auto simp: count_eq_zero_iff)
  have "seqs_ok (qw_issued w) ?n" by (rule world_okD(4) [OF ok])
  then have seqs: "seqs_ok (add_mset ?e (qw_issued w)) (cq_next_enqueue_seq q')"
    using fresh n by (auto simp: seqs_ok_def q' word_less_nat_alt)
  have waiting: "\<forall>e \<in> set (cq_entries ?q). qe_queue_seq e < ?n"
    using below world_okD(2) [OF ok] by (auto simp: queue_all_def)
  have "bytes_ok q'"
    using world_okD(1) [OF ok] room(1) by (auto simp: bytes_ok_def queue_all_def q' unat_saturating_add)
  moreover have "add_mset ?e (qw_issued w) = queue_all q' + qw_out w + qw_finished w"
    using world_okD(2) [OF ok] by (simp add: all)
  moreover have "sorted_wrt (<) (map qe_queue_seq (cq_entries q'))"
    using world_okD(5) [OF ok] waiting by (simp add: q' sorted_wrt_append)
  moreover have "\<forall>e \<in> set (cq_entries q'). qe_queue_seq e \<le> cq_published_tail_seq q'"
    using waiting by (auto simp: q' less_imp_le)
  moreover have "last (cq_entries q') = ?e" by (simp add: q')
  moreover have "entry_bytes (queue_all q' + qw_out w) < 2 ^ 64" using room(1) by (simp add: all)
  ultimately show ?thesis using seqs by (simp add: world_ok_def)
qed

text \<open>A step that only touches flags, metrics or epochs.\<close>

definition same_content :: "'p commit_queue \<Rightarrow> 'p commit_queue \<Rightarrow> bool" where
  "same_content q' q \<longleftrightarrow> cq_entries q' = cq_entries q \<and> cq_deferred_entries q' = cq_deferred_entries q \<and>
     cq_deferred_entries_bytes q' = cq_deferred_entries_bytes q \<and> cq_pending_fence q' = cq_pending_fence q \<and>
     cq_pending_fence_guard q' = cq_pending_fence_guard q \<and> cq_queue_retained_bytes q' = cq_queue_retained_bytes q \<and> same_order q' q"

lemma world_unchanged:
  assumes "world_ok w" "same_content q' (qw_queue w)"
  shows "world_ok (w\<lparr>qw_queue := q'\<rparr>)"
proof (rule world_same [OF assms(1)])
  have "bytes_ok (qw_queue w)" using assms(1) by (simp add: world_ok_def)
  then show "bytes_ok q'" using assms(2) by (simp add: same_content_def bytes_ok_def queue_all_def)
qed (use assms(2) in \<open>simp_all add: same_content_def queue_all_def\<close>)

lemmas unchanged_defs = same_content_def same_order_def

lemma flags_unchanged:
  "enqueue now q job c p = (q', Inl err) \<Longrightarrow> same_content q' q"
  "try_acquire_drain_owner q = Some q' \<Longrightarrow> same_content q' q"
  "signal_drain_needed q inline = (q', b) \<Longrightarrow> same_content q' q"
  "signal_pending_fence_ready q inline = (q', b) \<Longrightarrow> same_content q' q"
  "same_content (release_drain_owner q) q"
  by (auto simp: unchanged_defs enqueue_def count_enqueue_reject_def Let_def try_acquire_drain_owner_def signal_drain_needed_def
      signal_pending_fence_ready_def release_drain_owner_def split: if_splits sum.splits)

lemma world_finish:
  assumes ok: "world_ok w" and e: "e \<in># qw_out w"
  shows "world_ok (w\<lparr>qw_out := qw_out w - {#e#}, qw_finished := add_mset e (qw_finished w)\<rparr>)"
proof -
  obtain M where M: "qw_out w = add_mset e M" using e by (metis insert_DiffM)
  have "world_ok (w\<lparr>qw_queue := qw_queue w, qw_out := M, qw_finished := add_mset e (qw_finished w)\<rparr>)"
    using ok by (intro world_moved [OF ok, where k = 0]) (simp_all add: M world_ok_def same_order_def)
  then show ?thesis by (simp add: M)
qed

lemma world_close:
  assumes ok: "world_ok w" and close: "close_and_drain_pending (qw_queue w) = (q', cs)"
  shows "world_ok (w\<lparr>qw_queue := q', qw_finished := qw_finished w + queue_all (qw_queue w)\<rparr>)"
proof -
  have empty: "queue_all q' = {#}" "cq_entries q' = []" "bytes_ok q'" "same_order q' (qw_queue w)"
    using close by (auto simp: close_and_drain_pending_def queue_all_def bytes_ok_def guard_default_def same_order_def)
  have "world_ok (w\<lparr>qw_queue := q', qw_out := qw_out w, qw_finished := qw_finished w + queue_all (qw_queue w)\<rparr>)"
    by (intro world_moved [OF ok empty(3,4), where k = "length (cq_entries (qw_queue w))"]) (simp_all add: empty ac_simps)
  then show ?thesis by simp
qed

lemma queue_step_ok:
  assumes "queue_step p w w'" "world_ok w"
  shows "world_ok w'"
proof -
  have bytes: "bytes_ok (qw_queue w)" using assms(2) by (simp add: world_ok_def)
  note same = world_unchanged [OF assms(2)] and put = world_put [OF assms(2)] and room = world_room [OF assms(2)]
  from assms(1) show ?thesis
  proof cases
    case (qs_enqueue now job c q' t)
    then show ?thesis using world_enqueue [OF assms(2)] by blast
  next
    case (qs_take n q' es)
    then show ?thesis using world_take [OF assms(2)] by blast
  next
    case (qs_take_ready ts q' es)
    note t = take_ready_ok [OF qs_take_ready(2) bytes]
    have "world_ok (w\<lparr>qw_queue := q', qw_out := qw_out w + mset es, qw_finished := qw_finished w\<rparr>)"
      using t by (intro world_moved [OF assms(2), where k = 0]) (simp_all add: ac_simps)
    then show ?thesis using qs_take_ready(1) by simp
  next
    case (qs_block es ts)
    then show ?thesis using put [OF qs_block(2)] block_on_fence_ok [OF bytes room [OF qs_block(2)]] by blast
  next
    case (qs_defer es)
    then show ?thesis using put [OF qs_defer(2)] defer_entries_ok [OF bytes room [OF qs_defer(2)]] by blast
  next
    case (qs_can_bypass now q' b)
    then show ?thesis using world_same [OF assms(2)] can_bypass_ok [OF qs_can_bypass(2)] bytes by blast
  next
    case qs_bypass
    then show ?thesis using world_same [OF assms(2)] record_bypass_ok [of p "qw_queue w"] bytes by blast
  next
    case (qs_refuse now job c q' err)
    then show ?thesis using same [OF flags_unchanged(1) [OF qs_refuse(2)]] by simp
  next
    case (qs_acquire q')
    then show ?thesis using same [OF flags_unchanged(2) [OF qs_acquire(2)]] by simp
  next
    case (qs_signal inline q' b)
    then show ?thesis using same [OF flags_unchanged(3) [OF qs_signal(2)]] by simp
  next
    case (qs_fence_ready inline q' b)
    then show ?thesis using same [OF flags_unchanged(4) [OF qs_fence_ready(2)]] by simp
  next
    case (qs_finish e)
    then show ?thesis using world_finish [OF assms(2)] by simp
  next
    case qs_release
    then show ?thesis using same [OF flags_unchanged(5)] by simp
  next
    case (qs_close q' cs)
    then show ?thesis using world_close [OF assms(2)] by simp
  qed
qed

lemma queue_run_ok: "(queue_step p)\<^sup>*\<^sup>* world_new w \<Longrightarrow> world_ok w"
  by (induction rule: rtranclp_induct) (auto simp: world_new_ok intro: queue_step_ok)

section \<open>Properties\<close>

text \<open>\<^bold>\<open>C33.\<close> The queue neither loses nor duplicates a commit.  In every state that clients, the drain owner, the
  fence signals and a close can reach, the accepted commits are exactly those waiting in the queue, the
  deferred entries or the blocked batches, those in the hands of the owner and the finished ones; their
  sequence numbers are distinct; the byte counters are exact; the owner's buffer takes deferred entries
  first and then the oldest; and a close completes exactly those waiting.\<close>

theorem queue_conserves_commits:
  assumes "(queue_step p)\<^sup>*\<^sup>* world_new w" "q = qw_queue w"
  shows "qw_issued w = queue_all q + qw_out w + qw_finished w \<and>
    (\<forall>s. count (image_mset qe_queue_seq (qw_issued w)) s \<le> 1) \<and>
    sorted_wrt (<) (map qe_queue_seq (cq_entries q)) \<and>
    unat (cq_queue_retained_bytes q) = entry_bytes (queue_all q) \<and>
    unat (cq_deferred_entries_bytes q) = entry_bytes (mset (cq_deferred_entries q)) \<and>
    snd (take_local_buffer n q) = take n (cq_deferred_entries q @ cq_entries q) \<and>
    mset (snd (close_and_drain_pending q)) = image_mset qe_completion (queue_all q)"
proof -
  have ok: "world_ok w" using queue_run_ok [OF assms(1)] .
  have "\<forall>e \<in> set (cq_entries q). qe_queue_seq e \<le> cq_published_tail_seq q" using ok assms(2) by (simp add: world_ok_def)
  then have "snd (take_local_buffer n q) = take n (cq_deferred_entries q @ cq_entries q)"
    using take_local_buffer_ok [of n q] by (metis prod.collapse)
  moreover have "mset (snd (close_and_drain_pending q)) = image_mset qe_completion (queue_all q)"
    by (simp add: close_and_drain_pending_def queue_all_def)
  moreover have "seqs_ok (qw_issued w) (cq_next_enqueue_seq q)" using world_okD(4) [OF ok] assms(2) by simp
  ultimately show ?thesis
    using ok unfolding assms(2) world_ok_def bytes_ok_def seqs_ok_def by blast
qed

text \<open>A snapshot commit of one key, which retains a kilobyte.\<close>

definition demo_job :: "unit prepared_job" where
  "demo_job =
     \<lparr>pj_sequencing_plan = sequencing_plan_new
        \<lparr>pl_database_id = 7, pl_txn_id = 1, pl_read_ts = 4, pl_isolation = Snapshot, pl_frozen_read_set = frozen_empty,
         pl_lock_set = [], pl_participants = []\<rparr>
        [LR_PrimaryKey \<lparr>ns_tenant_id = 0, ns_database_id = 7\<rparr> 3 1 5],
      pj_estimated_record_bytes = 100, pj_retained_bytes = 1024, pj_payload = ()\<rparr>"

lemmas queue_eval = enqueue_def check_enqueue_def visible_depth_def policy_default_def commit_queue_new_def demo_job_def
  u64_saturating_add_def saturating_add_def usize_max_def Let_def

theorem queue_conserves_commits_witness:
  "\<exists>w. (queue_step policy_default)\<^sup>*\<^sup>* world_new w \<and>
     (\<exists>e. qw_issued w = {#e#} \<and> snd (take_local_buffer 4 (qw_queue w)) = [e] \<and> qe_job e = demo_job)"
proof -
  let ?q = "fst (enqueue 9 commit_queue_new demo_job \<lparr>ch_slot_id = 1\<rparr> policy_default)"
  let ?w = "world_new\<lparr>qw_queue := ?q, qw_issued := add_mset (last (cq_entries ?q)) (qw_issued world_new)\<rparr>"
  have entries: "cq_entries ?q = [\<lparr>qe_queue_seq = 1, qe_completion = \<lparr>ch_slot_id = 1\<rparr>, qe_enqueued_at = 9, qe_job = demo_job\<rparr>]"
    and deferred: "cq_deferred_entries ?q = []" by (simp_all add: queue_eval)
  have "\<exists>t. enqueue 9 commit_queue_new demo_job \<lparr>ch_slot_id = 1\<rparr> policy_default = (?q, Inr t)" by (simp add: queue_eval)
  then obtain t where t: "enqueue 9 commit_queue_new demo_job \<lparr>ch_slot_id = 1\<rparr> policy_default = (?q, Inr t)" ..
  have new: "qw_queue world_new = commit_queue_new" "qw_out world_new = {#}" by (simp_all add: world_new_def)
  have "queue_step policy_default world_new ?w"
  proof (rule qs_enqueue)
    show "enqueue 9 (qw_queue world_new) demo_job \<lparr>ch_slot_id = 1\<rparr> policy_default = (?q, Inr t)" unfolding new by (rule t)
  qed (simp_all add: new queue_all_def demo_job_def commit_queue_new_def)
  then have run: "(queue_step policy_default)\<^sup>*\<^sup>* world_new ?w" by simp
  from queue_conserves_commits [OF run refl, of 4]
  have "snd (take_local_buffer 4 ?q) = take 4 (cq_deferred_entries ?q @ cq_entries ?q)" by simp
  moreover have "qw_issued ?w = {#last (cq_entries ?q)#}" by (simp add: world_new_def)
  ultimately show ?thesis using run by (intro exI [of _ ?w]) (simp add: entries deferred)
qed

section \<open>A submitter and a drain owner that gives up\<close>

text \<open>
  A commit is submitted with \<open>commit_blocking\<close> (\<open>runtime/mod.rs\<close>): it enqueues, signals, drains inline if
  the signal says so and wakes the pool otherwise, tries to drain, and waits.  At most one thread owns
  the drain; it takes batches until it finds nothing and then releases.  Here a batch that is taken is
  decided at once, and the flag of the owner says that it found nothing and is about to release.
\<close>

datatype drain_thread = T_Drainer | T_Submitter | T_Worker

datatype submitter_pc = S_Submit | S_Signal | S_Inline | S_Drain | S_Wait | S_Acknowledged

record 'p drain_race =
  dr_queue :: "'p commit_queue"
  dr_owner :: "(drain_thread \<times> bool) option"
  dr_submitter :: submitter_pc
  dr_wake_tasks :: nat
  dr_decided :: "completion_handle list"

fun after_drain :: "submitter_pc \<Rightarrow> submitter_pc" where
  "after_drain S_Inline = S_Drain"
| "after_drain S_Drain = S_Wait"
| "after_drain pc = pc"

inductive race_step :: "batch_policy \<Rightarrow> 'p prepared_job \<Rightarrow> completion_handle \<Rightarrow> 'p drain_race \<Rightarrow> 'p drain_race \<Rightarrow> bool"
  for p job c where
  race_submit: "dr_submitter r = S_Submit \<Longrightarrow> enqueue now (dr_queue r) job c p = (q', Inr t) \<Longrightarrow>
    race_step p job c r (r\<lparr>dr_queue := q', dr_submitter := S_Signal\<rparr>)"
| race_signal_inline: "dr_submitter r = S_Signal \<Longrightarrow> signal_drain_needed (dr_queue r) AllowInline = (q', True) \<Longrightarrow>
    race_step p job c r (r\<lparr>dr_queue := q', dr_submitter := S_Inline\<rparr>)"
| race_signal_wake: "dr_submitter r = S_Signal \<Longrightarrow> signal_drain_needed (dr_queue r) AllowInline = (q', False) \<Longrightarrow>
    race_step p job c r (r\<lparr>dr_queue := q', dr_submitter := S_Drain, dr_wake_tasks := Suc (dr_wake_tasks r)\<rparr>)"
| race_acquire: "dr_submitter r \<in> {S_Inline, S_Drain} \<Longrightarrow> try_acquire_drain_owner (dr_queue r) = Some q' \<Longrightarrow>
    race_step p job c r (r\<lparr>dr_queue := q', dr_owner := Some (T_Submitter, False)\<rparr>)"
| race_acquire_fails: "dr_submitter r \<in> {S_Inline, S_Drain} \<Longrightarrow> map_option fst (dr_owner r) \<noteq> Some T_Submitter \<Longrightarrow>
    try_acquire_drain_owner (dr_queue r) = None \<Longrightarrow>
    race_step p job c r (r\<lparr>dr_submitter := after_drain (dr_submitter r)\<rparr>)"
| race_wake: "dr_wake_tasks r = Suc n \<Longrightarrow> try_acquire_drain_owner (dr_queue r) = Some q' \<Longrightarrow>
    race_step p job c r (r\<lparr>dr_queue := q', dr_owner := Some (T_Worker, False), dr_wake_tasks := n\<rparr>)"
| race_wake_fails: "dr_wake_tasks r = Suc n \<Longrightarrow> try_acquire_drain_owner (dr_queue r) = None \<Longrightarrow>
    race_step p job c r (r\<lparr>dr_wake_tasks := n\<rparr>)"
| race_take_fence: "dr_owner r = Some (t, False) \<Longrightarrow> take_ready_pending_fence ts p (dr_queue r) = (q', Some es) \<Longrightarrow>
    race_step p job c r (r\<lparr>dr_queue := q', dr_decided := dr_decided r @ map qe_completion es\<rparr>)"
| race_take: "dr_owner r = Some (t, False) \<Longrightarrow> take_ready_pending_fence ts p (dr_queue r) = (q1, None) \<Longrightarrow>
    take_local_buffer (effective_target_batch_size p) q1 = (q', es) \<Longrightarrow> es \<noteq> [] \<Longrightarrow>
    race_step p job c r (r\<lparr>dr_queue := q', dr_decided := dr_decided r @ map qe_completion es\<rparr>)"
| race_take_empty: "dr_owner r = Some (t, False) \<Longrightarrow> take_ready_pending_fence ts p (dr_queue r) = (q1, None) \<Longrightarrow>
    take_local_buffer (effective_target_batch_size p) q1 = (q', []) \<Longrightarrow>
    race_step p job c r (r\<lparr>dr_queue := q', dr_owner := Some (t, True)\<rparr>)"
| race_release: "dr_owner r = Some (t, True) \<Longrightarrow>
    race_step p job c r (r\<lparr>dr_queue := release_drain_owner (dr_queue r), dr_owner := None,
      dr_submitter := (if t = T_Submitter then after_drain (dr_submitter r) else dr_submitter r)\<rparr>)"
| race_acknowledged: "dr_submitter r = S_Wait \<Longrightarrow> c \<in> set (dr_decided r) \<Longrightarrow>
    race_step p job c r (r\<lparr>dr_submitter := S_Acknowledged\<rparr>)"

inductive_simps race_step_iff: "race_step p job c r r'"

definition race_start :: "'p drain_race" where
  "race_start = \<lparr>dr_queue = commit_queue_new\<lparr>cq_drain_owner_active := True\<rparr>, dr_owner = Some (T_Drainer, False),
     dr_submitter = S_Submit, dr_wake_tasks = 0, dr_decided = []\<rparr>"

text \<open>\<^bold>\<open>C34.\<close> A submitted commit can be left behind.  The owner that found the queue empty still holds the drain
  while a commit is enqueued, so the signal of the submitter, the task of the wake-up pool and the
  submitter's own attempt to drain all find an owner and do nothing; then the owner releases without
  looking at the queue or its ready flag again.  The commit stays in the queue, its submitter waits, no
  thread owns the drain and none can take a step.\<close>

theorem submitted_commit_stranded:
  "\<exists>r. (race_step policy_default demo_job c)\<^sup>*\<^sup>* race_start r \<and>
     map qe_completion (cq_entries (dr_queue r)) = [c] \<and> cq_ready_queued (dr_queue r) \<and>
     dr_submitter r = S_Wait \<and> dr_owner r = None \<and> (\<nexists>r'. race_step policy_default demo_job c r r')"
proof -
  let ?step = "race_step policy_default demo_job c"
  let ?q0 = "commit_queue_new\<lparr>cq_drain_owner_active := True\<rparr> :: unit commit_queue"
  obtain q1 t where enq: "enqueue 0 ?q0 demo_job c policy_default = (q1, Inr t)"
    and q1: "cq_drain_owner_active q1" "map qe_completion (cq_entries q1) = [c]" "cq_pending_fence q1 = []"
    by (simp add: queue_eval)
  let ?q2 = "q1\<lparr>cq_ready_queued := True\<rparr>"
  define r where "r q owner pc n = \<lparr>dr_queue = q, dr_owner = owner, dr_submitter = pc, dr_wake_tasks = n, dr_decided = []\<rparr>"
    for q :: "unit commit_queue" and owner pc n
  have "take_local_buffer (effective_target_batch_size policy_default) ?q0 = (?q0, [])"
    by (simp add: take_local_buffer_def effective_target_batch_size_def policy_default_def commit_queue_new_def numeral_eq_Suc)
  then have "?step (r ?q0 (Some (T_Drainer, False)) S_Submit 0) (r ?q0 (Some (T_Drainer, True)) S_Submit 0)"
    using race_take_empty [of "r ?q0 (Some (T_Drainer, False)) S_Submit 0" T_Drainer 0 policy_default ?q0 ?q0 demo_job c]
    by (simp add: r_def take_ready_pending_fence_def commit_queue_new_def)
  moreover have "?step (r ?q0 (Some (T_Drainer, True)) S_Submit 0) (r q1 (Some (T_Drainer, True)) S_Signal 0)"
    using race_submit [of "r ?q0 (Some (T_Drainer, True)) S_Submit 0" 0 demo_job c policy_default q1 t] enq by (simp add: r_def)
  moreover have "?step (r q1 (Some (T_Drainer, True)) S_Signal 0) (r ?q2 (Some (T_Drainer, True)) S_Drain 1)"
    using race_signal_wake [of "r q1 (Some (T_Drainer, True)) S_Signal 0" ?q2 policy_default demo_job c] q1
    by (simp add: r_def signal_drain_needed_def)
  moreover have "?step (r ?q2 (Some (T_Drainer, True)) S_Drain 1) (r ?q2 (Some (T_Drainer, True)) S_Drain 0)"
    using race_wake_fails [of "r ?q2 (Some (T_Drainer, True)) S_Drain 1" 0 policy_default demo_job c] q1
    by (simp add: r_def try_acquire_drain_owner_def)
  moreover have "?step (r ?q2 (Some (T_Drainer, True)) S_Drain 0) (r ?q2 (Some (T_Drainer, True)) S_Wait 0)"
    using race_acquire_fails [of "r ?q2 (Some (T_Drainer, True)) S_Drain 0" policy_default demo_job c] q1
    by (simp add: r_def try_acquire_drain_owner_def)
  moreover have "?step (r ?q2 (Some (T_Drainer, True)) S_Wait 0) (r (release_drain_owner ?q2) None S_Wait 0)"
    using race_release [of "r ?q2 (Some (T_Drainer, True)) S_Wait 0" T_Drainer policy_default demo_job c] by (simp add: r_def)
  ultimately have "?step\<^sup>*\<^sup>* (r ?q0 (Some (T_Drainer, False)) S_Submit 0) (r (release_drain_owner ?q2) None S_Wait 0)"
    by (meson converse_rtranclp_into_rtranclp rtranclp.rtrancl_refl)
  moreover have "r ?q0 (Some (T_Drainer, False)) S_Submit 0 = race_start" by (simp add: r_def race_start_def)
  moreover have "\<not> ?step (r (release_drain_owner ?q2) None S_Wait 0) r'" for r'
    by (simp add: race_step_iff r_def)
  moreover have "map qe_completion (cq_entries (release_drain_owner ?q2)) = [c]" "cq_ready_queued (release_drain_owner ?q2)"
    using q1 by (simp_all add: release_drain_owner_def)
  ultimately show ?thesis
    by (intro exI [of _ "r (release_drain_owner ?q2) None S_Wait 0"]) (simp add: r_def)
qed

end
