(* ===== verification/Commit_Runtime.thy ===== *)
theory Commit_Runtime
  imports Completion_Registry Sequencer_Runs Queue_Safety
begin

text \<open>
  The commit runtime (\<open>commit/runtime/mod.rs\<close>, \<open>commit/recovery.rs\<close>): it owns the queue, the sequencer, the
  frontier, the completions and the finalize stage, drains the queue into group commits, appends them to
  the journal, hands them to the stage, and answers the submitters.  A fault poisons it, which closes the
  queue for good.  What the journal, the final fence, the closures of a job and the clock do is given by
  an environment, one for each turn of the drain loop.
\<close>

section \<open>State\<close>

datatype 'e runtime_error =
  RuntimeAdmissionClosed
| RuntimeQueue queue_error
| RuntimeCompletion "'e completion_error"
| RuntimePoisoned "'e runtime_poison"

record ('c, 'x, 's, 'e) runtime =
  rt_policy :: batch_policy
  rt_sequencer :: sequencer
  rt_queue :: "('c, 'x) job_payload commit_queue"
  rt_frontier :: commit_frontier
  rt_stage :: "'x finalize_stage"
  rt_completions :: "'e completion_registry"
  rt_fence_state :: 's
  rt_has_wake_handle :: bool
  rt_admission_open :: bool
  rt_poison :: "'e runtime_poison option"
  rt_health_reports :: "'e runtime_poison list"

definition runtime_new ::
  "batch_policy \<Rightarrow> sequencer \<Rightarrow> commit_frontier \<Rightarrow> 's \<Rightarrow> bool \<Rightarrow> ('c, 'x, 's, 'e) runtime" where
  "runtime_new p sq frontier fence_state wake =
     \<lparr>rt_policy = p, rt_sequencer = sq, rt_queue = commit_queue_new, rt_frontier = frontier,
      rt_stage = mark_registered (cf_published_commit_id frontier)
        (stage_new \<lparr>sg_queue_capacity = max (bp_max_commit_finalize_pipeline_depth p) 1,
                    sg_graceful_shutdown_timeout = unat (bp_graceful_shutdown_timeout_us p)\<rparr>),
      rt_completions = completions_new, rt_fence_state = fence_state, rt_has_wake_handle = wake, rt_admission_open = True,
      rt_poison = None, rt_health_reports = []\<rparr>"

definition ensure_healthy :: "('c, 'x, 's, 'e) runtime \<Rightarrow> 'e runtime_error + unit" where
  "ensure_healthy rt =
     (if \<not> rt_admission_open rt then Inl RuntimeAdmissionClosed
      else (case rt_poison rt of Some poison \<Rightarrow> Inl (RuntimePoisoned poison) | None \<Rightarrow> Inr ()))"

section \<open>Poison\<close>

text \<open>The first poison stays; every one closes the queue and rejects the commits that wait in it.\<close>

definition reject_all :: "completion_handle list \<Rightarrow> 'e runtime_rejection \<Rightarrow> 'e completion_registry \<Rightarrow> 'e completion_registry" where
  "reject_all cs reason cg = fold (\<lambda>c cg. set_completion cg c (CS_Rejected reason)) cs cg"

definition poison :: "'e runtime_poison \<Rightarrow> ('c, 'x, 's, 'e) runtime \<Rightarrow> ('c, 'x, 's, 'e) runtime" where
  "poison p rt =
     (let effective = (case rt_poison rt of Some existing \<Rightarrow> existing | None \<Rightarrow> p);
          (q, pending) = close_and_drain_pending (rt_queue rt)
      in rt\<lparr>rt_admission_open := False, rt_poison := Some effective,
            rt_health_reports := rt_health_reports rt @ (if rt_poison rt = None then [p] else []),
            rt_queue := q, rt_completions := reject_all pending (RejectedRuntimePoisoned effective) (rt_completions rt)\<rparr>)"

section \<open>Hooks of the finalize stage and of the apply runtime\<close>

definition on_registered :: "commit_ts \<Rightarrow> ('c, 'x, 's, 'e) runtime \<Rightarrow> ('c, 'x, 's, 'e) runtime \<times> bool" where
  "on_registered ts rt =
     (case signal_pending_fence_ready (rt_queue rt) (if rt_has_wake_handle rt then WakePoolOnly else AllowInline) of
        (q, inline) \<Rightarrow> (rt\<lparr>rt_queue := q\<rparr>, inline))"

definition on_submission :: "commit_ts \<Rightarrow> ('c, 'x, 's, 'e) runtime \<Rightarrow> ('c, 'x, 's, 'e) runtime" where
  "on_submission ts rt = rt\<lparr>rt_completions := completion_mark_publish_submitted (rt_completions rt) ts\<rparr>"

definition publish_failed :: "commit_ts \<Rightarrow> publish_failure_cause \<Rightarrow> ('c, 'x, 's, 'e) runtime \<Rightarrow> ('c, 'x, 's, 'e) runtime" where
  "publish_failed ts cause rt = rt\<lparr>rt_frontier := mark_publish_failed (rt_frontier rt) ts cause\<rparr>"

definition commit_set :: "commit_ts \<Rightarrow> 'e completion_state \<Rightarrow> ('c, 'x, 's, 'e) runtime \<Rightarrow> ('c, 'x, 's, 'e) runtime" where
  "commit_set ts st rt = rt\<lparr>rt_completions := set_commit (rt_completions rt) ts st\<rparr>"

definition completion_set :: "completion_handle \<Rightarrow> 'e completion_state \<Rightarrow> ('c, 'x, 's, 'e) runtime \<Rightarrow> ('c, 'x, 's, 'e) runtime" where
  "completion_set c st rt = rt\<lparr>rt_completions := set_completion (rt_completions rt) c st\<rparr>"

fun on_stage_error :: "stage_error \<Rightarrow> ('c, 'x, 's, 'e) runtime \<Rightarrow> ('c, 'x, 's, 'e) runtime" where
  "on_stage_error (StagePhase1 ts lsn message) rt =
     commit_set ts (CS_AmbiguousCommitted (FailedAmbiguous (TextStage (StagePhase1 ts lsn message))))
       (poison (PoisonFinalizeStage (Some ts) (TextStage (StagePhase1 ts lsn message)))
         (publish_failed ts (Phase1 lsn 0 message) rt))"
| "on_stage_error (StageBuildRequest ts lsn message) rt =
     commit_set ts (CS_AmbiguousCommitted (FailedAmbiguous (TextStage (StageBuildRequest ts lsn message))))
       (poison (PoisonFinalizeStage (Some ts) (TextStage (StageBuildRequest ts lsn message)))
         (publish_failed ts (Phase1 lsn 0 message) rt))"
| "on_stage_error (StageSubmit ts lsn message) rt =
     commit_set ts (CS_AmbiguousCommitted (FailedAmbiguous (TextStage (StageSubmit ts lsn message))))
       (poison (PoisonSubmit ts (TextSubmit message)) (publish_failed ts (Submit lsn 0 message) rt))"
| "on_stage_error (StageDurableHandle offset err) rt =
     poison (PoisonFinalizeStage None (TextStage (StageDurableHandle offset err))) rt"

definition on_durable_ambiguous :: "completion_handle \<Rightarrow> stage_error \<Rightarrow> ('c, 'x, 's, 'e) runtime \<Rightarrow> ('c, 'x, 's, 'e) runtime" where
  "on_durable_ambiguous c err = completion_set c (CS_AmbiguousCommitted (FailedAmbiguous (TextStage err)))"

text \<open>None is the \<open>unreachable!\<close> of the completions.\<close>

definition on_complete :: "commit_ts \<Rightarrow> apply_error + unit \<Rightarrow> ('c, 'x, 's, 'e) runtime \<Rightarrow> ('c, 'x, 's, 'e) runtime option" where
  "on_complete ts result rt =
     (case result of
        Inr _ \<Rightarrow> map_option (\<lambda>cg. rt\<lparr>rt_completions := cg\<rparr>) (completion_mark_published (rt_completions rt) ts)
      | Inl err \<Rightarrow>
          Some (commit_set ts (CS_Failed (FailedApply err))
            (poison (PoisonApply ts (TextApply err))
              (publish_failed ts (Apply (ae_lsn err) (ae_error_code err) (ae_message err)) rt))))"

definition fallback_ack :: "commit_ts \<Rightarrow> apply_error \<Rightarrow> ('c, 'x, 's, 'e) runtime \<Rightarrow> ('c, 'x, 's, 'e) runtime" where
  "fallback_ack ts err = commit_set ts (CS_Failed (FailedCompletionPanic err))"

definition fatal_sink :: "commit_ts \<Rightarrow> apply_error \<Rightarrow> ('c, 'x, 's, 'e) runtime \<Rightarrow> ('c, 'x, 's, 'e) runtime" where
  "fatal_sink ts err rt =
     poison (PoisonCompletionPanic ts (TextApply err))
       (publish_failed ts (Apply (ae_lsn err) (ae_error_code err) (ae_message err)) rt)"

text \<open>What the runtime does on an event of the stage; the calls of closures do not concern it.\<close>

fun on_stage_event :: "'x stage_event \<Rightarrow> ('c, 'x, 's, 'e) runtime \<Rightarrow> ('c, 'x, 's, 'e) runtime" where
  "on_stage_event (Ev_OnRegistered ts) rt = fst (on_registered ts rt)"
| "on_stage_event (Ev_OnSubmission ts policy) rt = on_submission ts rt"
| "on_stage_event (Ev_OnStageError err) rt = on_stage_error err rt"
| "on_stage_event (Ev_OnDurableAmbiguous c err) rt = on_durable_ambiguous c err rt"
| "on_stage_event _ rt = rt"

section \<open>Submission\<close>

text \<open>\<open>submit_commit\<close> up to the drain, and whether the submitter drains.\<close>

definition submit_commit ::
  "nat \<Rightarrow> ('c, 'x) job_payload prepared_job \<Rightarrow> ('c, 'x, 's, 'e) runtime
     \<Rightarrow> ('c, 'x, 's, 'e) runtime \<times> ('e runtime_error + queue_ticket \<times> bool)" where
  "submit_commit now job rt =
     (case ensure_healthy rt of
        Inl err \<Rightarrow> (rt, Inl err)
      | Inr _ \<Rightarrow>
          (case completion_allocate (rt_completions rt) of
             (cg, c) \<Rightarrow>
               (case enqueue now (rt_queue rt) job c (rt_policy rt) of
                  (q, Inl err) \<Rightarrow> (rt\<lparr>rt_completions := cg, rt_queue := q\<rparr>, Inl (RuntimeQueue err))
                | (q, Inr ticket) \<Rightarrow>
                    (case signal_drain_needed q AllowInline of
                       (q', inline) \<Rightarrow> (rt\<lparr>rt_completions := cg, rt_queue := q'\<rparr>, Inr (ticket, inline))))))"

section \<open>Draining\<close>

text \<open>What a turn of the drain loop meets: the registered timestamp and the clock when it looks at its first
  entry and at the further ones, the depth of the cleanup queue, the fence, its clock, the journal, the
  time at which the batch is scheduled, and whether a rollback after a failed append fails.\<close>

record ('c, 'x, 's, 'e) drain_env =
  ev_registered :: "nat \<Rightarrow> commit_ts"
  ev_now :: "nat \<Rightarrow> nat"
  ev_cleanup :: cleanup_snapshot
  ev_fence :: "'s final_fence"
  ev_clock :: "nat \<Rightarrow> u64"
  ev_fence_us :: u64
  ev_journal :: "'c commit_record list \<Rightarrow> 'e + append_result list"
  ev_schedule_now :: nat
  ev_rollback :: "'x \<Rightarrow> 'e option"

type_synonym ('c, 'x) commit_entry = "('c, 'x) job_payload queue_entry"

definition predecessor_commit_ts :: "sequencer \<Rightarrow> commit_ts" where
  "predecessor_commit_ts sq = u64_saturating_sub (sq_next_commit_ts sq) 1"

definition should_block_on_registration :: "commit_ts \<Rightarrow> sequencer \<Rightarrow> 'p queue_entry \<Rightarrow> bool" where
  "should_block_on_registration registered sq e \<longleftrightarrow>
     is_serializable e \<and> 0 < predecessor_commit_ts sq \<and> registered < predecessor_commit_ts sq"

text \<open>May an entry that reads a snapshot pass the batches blocked on a fence?\<close>

definition admit_snapshot :: "batch_policy \<Rightarrow> nat \<Rightarrow> 'p queue_entry \<Rightarrow> 'p commit_queue \<Rightarrow> 'p commit_queue \<times> bool" where
  "admit_snapshot p now e q =
     (if is_snapshot_only e \<and> has_pending_fence q
      then if snapshot_bypass_conflicts_with_pending_head e q then (q, False)
           else (case can_bypass_snapshot p now q of
                   (q', False) \<Rightarrow> (q', False)
                 | (q', True) \<Rightarrow> (record_snapshot_bypass p q', True))
      else (q, True))"

text \<open>The loop that fills a batch from the local entries; \<open>n\<close> counts the entries looked at.\<close>

fun collect_batch ::
  "('c, 'x, 's, 'e) drain_env \<Rightarrow> batch_policy \<Rightarrow> sequencer \<Rightarrow> nat \<Rightarrow> 'p commit_queue \<Rightarrow> 'p queue_entry list \<Rightarrow> u64 \<Rightarrow> 'p queue_entry list
     \<Rightarrow> 'p commit_queue \<times> 'p queue_entry list \<times> 'p queue_entry list" where
  "collect_batch env p sq n q batch bytes [] = (q, batch, [])"
| "collect_batch env p sq n q batch bytes (e # local) =
     (if length batch < effective_target_batch_size p \<and> bytes < effective_target_batch_bytes p
      then if should_block_on_registration (ev_registered env n) sq e
           then (block_on_fence (predecessor_commit_ts sq) [e] p q, batch, local)
           else (case admit_snapshot p (ev_now env n) e q of
                   (q', False) \<Rightarrow> (q', batch, e # local)
                 | (q', True) \<Rightarrow>
                     collect_batch env p sq (Suc n) q' (batch @ [e])
                       (u64_saturating_add bytes (ucast (pj_estimated_record_bytes (qe_job e)))) local)
      else (q, batch, e # local))"

text \<open>The closure that appends the accepted jobs.\<close>

definition runtime_append ::
  "('c commit_record list \<Rightarrow> 'e + append_result list) \<Rightarrow> ('c, 'x) sequenced_job list
     \<Rightarrow> ('e append_commit_error, ('c, 'x) sequenced_job) append_error + 'x append_batch" where
  "runtime_append journal accepted =
     (if accepted = [] then Inl (AppendFailed (AppendCommitFailed EmptyAppendBatch) accepted)
      else (case append_durable_commit_batch journal accepted of
              (jobs, Inr batch) \<Rightarrow> Inr batch
            | (jobs, Inl (AppendCommitFailed cause)) \<Rightarrow> Inl (AppendFailed (AppendCommitFailed cause) jobs)
            | (jobs, Inl (DurableProtocolViolation bounds lsn kind)) \<Rightarrow>
                Inl (DurableCommitted (DurableProtocolViolation bounds lsn kind) jobs)))"

definition defer_plans :: "'p queue_entry ordered_plan list \<Rightarrow> 'p commit_queue \<Rightarrow> 'p commit_queue" where
  "defer_plans plans q = (if plans = [] then q else defer_entries (map op_payload plans) q)"

definition reject_plans ::
  "('p queue_entry ordered_plan \<times> fence_reject_reason) list \<Rightarrow> 'e completion_registry \<Rightarrow> 'e completion_registry" where
  "reject_plans rejected cg =
     fold (\<lambda>(plan, reason) cg. set_completion cg (qe_completion (op_payload plan)) (CS_Rejected (RejectedFence reason))) rejected cg"

definition settle_plans ::
  "('c, 'x) commit_entry ordered_plan list \<Rightarrow> (('c, 'x) commit_entry ordered_plan \<times> fence_reject_reason) list
     \<Rightarrow> ('c, 'x, 's, 'e) runtime \<Rightarrow> ('c, 'x, 's, 'e) runtime" where
  "settle_plans deferred rejected rt =
     rt\<lparr>rt_queue := defer_plans deferred (rt_queue rt), rt_completions := reject_plans rejected (rt_completions rt)\<rparr>"

definition mark_durable_jobs :: "(durable_handle \<times> 'x durable_job) list \<Rightarrow> ('c, 'x, 's, 'e) runtime \<Rightarrow> ('c, 'x, 's, 'e) runtime" where
  "mark_durable_jobs jobs rt =
     fold (\<lambda>(h, job) rt.
       rt\<lparr>rt_frontier := mark_durable (rt_frontier rt) (dh_frontier_handle h),
          rt_completions := completion_mark_durable (rt_completions rt) (dj_completion job) h (dj_ack_policy job)\<rparr>) jobs rt"

text \<open>None is an owner that waits for room in the finalize stage.\<close>

definition handle_append_success ::
  "nat \<Rightarrow> ('x append_batch, ('c, 'x) commit_entry) ordered_batch \<Rightarrow> ('c, 'x, 's, 'e) runtime \<Rightarrow> ('c, 'x, 's, 'e) runtime option" where
  "handle_append_success now batch rt =
     (let rt1 = settle_plans (ob_deferred batch) (ob_rejected batch) rt
      in case ob_append_output batch of
           None \<Rightarrow> Some rt1
         | Some out \<Rightarrow>
             (let rt2 = mark_durable_jobs (zip (ab_handles out) (ab_durable_jobs out)) rt1
              in case schedule now \<lparr>sc_accepted = ab_durable_jobs out, sc_batch = ab_batch out\<rparr> (rt_stage rt2) of
                   (stage, None) \<Rightarrow> None
                 | (stage, Some (Inr _)) \<Rightarrow> Some (rt2\<lparr>rt_stage := stage\<rparr>)
                 | (stage, Some (Inl err)) \<Rightarrow>
                     Some (poison (PoisonFinalizeSchedule (TextSchedule err))
                       (fold (\<lambda>job. completion_set (dj_completion job) (CS_AmbiguousCommitted (FailedAmbiguous (TextSchedule err))))
                         (ab_durable_jobs out) (rt2\<lparr>rt_stage := stage\<rparr>)))))"

definition cleanup_append_failure ::
  "('x \<Rightarrow> 'e option) \<Rightarrow> 'x post_append \<Rightarrow> 'e append_commit_error \<Rightarrow> ('c, 'x, 's, 'e) runtime \<Rightarrow> ('c, 'x, 's, 'e) runtime" where
  "cleanup_append_failure rollback bundle err rt =
     (case rollback (pa_actions bundle) of
        None \<Rightarrow> completion_set (pa_completion bundle) (CS_Failed (FailedAppend err)) rt
      | Some failed \<Rightarrow>
          poison (PoisonAppendCleanup (TextRollback failed))
            (completion_set (pa_completion bundle) (CS_Failed (FailedAppendCleanup (TextRollback failed))) rt))"

definition cleanup_durable_ambiguous ::
  "'x post_append \<Rightarrow> 'e append_commit_error \<Rightarrow> ('c, 'x, 's, 'e) runtime \<Rightarrow> ('c, 'x, 's, 'e) runtime" where
  "cleanup_durable_ambiguous bundle err = completion_set (pa_completion bundle) (CS_AmbiguousCommitted (FailedAppend err))"

definition cleanup_job ::
  "('x post_append \<Rightarrow> ('c, 'x, 's, 'e) runtime \<Rightarrow> ('c, 'x, 's, 'e) runtime) \<Rightarrow> ('c, 'x) sequenced_job
     \<Rightarrow> ('c, 'x, 's, 'e) runtime \<Rightarrow> ('c, 'x, 's, 'e) runtime" where
  "cleanup_job cleanup job rt =
     (case take_cleanup job of
        Inr bundle \<Rightarrow> cleanup bundle rt
      | Inl err \<Rightarrow> poison (PoisonAppendCleanup (TextJobState err)) rt)"

fun handle_sequence_or_append_error ::
  "('x \<Rightarrow> 'e option) \<Rightarrow> ('e append_commit_error, ('c, 'x) sequenced_job, ('c, 'x) commit_entry) ordered_error
     \<Rightarrow> ('c, 'x, 's, 'e) runtime \<Rightarrow> ('c, 'x, 's, 'e) runtime" where
  "handle_sequence_or_append_error rollback (OrderedAppend err durable start n accepted rejected deferred us) rt =
     (let rt1 = settle_plans deferred rejected rt
      in if durable
         then fold (cleanup_job (\<lambda>bundle. cleanup_durable_ambiguous bundle err)) accepted
                (poison (PoisonDurableProtocol (TextAppend err)) rt1)
         else fold (cleanup_job (\<lambda>bundle. cleanup_append_failure rollback bundle err)) accepted rt1)"

definition sequence_append_schedule ::
  "('c, 'x, 's, 'e) drain_env \<Rightarrow> ('c, 'x) commit_entry list \<Rightarrow> ('c, 'x, 's, 'e) runtime \<Rightarrow> ('c, 'x, 's, 'e) runtime option" where
  "sequence_append_schedule env entries rt =
     (case sequence_ordered_batch (rt_sequencer rt) (ev_clock env) (ev_fence_us env) (ev_fence env) (rt_fence_state rt)
             (\<lambda>ts plan. into_sequenced (qe_job (op_payload plan)) ts (qe_completion (op_payload plan)))
             (runtime_append (ev_journal env))
             (map (\<lambda>e. \<lparr>op_sequencing_plan = pj_sequencing_plan (qe_job e), op_payload = e\<rparr>) entries) of
        (sq, st, Inr batch) \<Rightarrow>
          handle_append_success (ev_schedule_now env) batch (rt\<lparr>rt_sequencer := sq, rt_fence_state := st\<rparr>)
      | (sq, st, Inl err) \<Rightarrow>
          Some (handle_sequence_or_append_error (ev_rollback env) err (rt\<lparr>rt_sequencer := sq, rt_fence_state := st\<rparr>)))"

text \<open>One turn of the loop of \<open>process_entries\<close> on its first entry: the entries left, and whether a batch was
  scheduled.  None is an owner that waits for room in the stage.\<close>

definition process_turn ::
  "('c, 'x, 's, 'e) drain_env \<Rightarrow> ('c, 'x) commit_entry \<Rightarrow> ('c, 'x) commit_entry list \<Rightarrow> ('c, 'x, 's, 'e) runtime
     \<Rightarrow> (('c, 'x, 's, 'e) runtime \<times> ('c, 'x) commit_entry list \<times> bool) option" where
  "process_turn env front local rt =
     (let p = rt_policy rt; q = rt_queue rt; sq = rt_sequencer rt
      in case check_drain p \<lparr>di_frontier = rt_frontier rt, di_commit_finalize_queue_depth = length (fs_queue (rt_stage rt)),
                              di_pending_fence_retained_bytes = pg_retained_bytes (cq_pending_fence_guard q),
                              di_cleanup = ev_cleanup env\<rparr> of
           Inl err \<Rightarrow>
             Some (completion_set (qe_completion front) (CS_Rejected (RejectedDrainBackpressure err)) rt, local, False)
         | Inr _ \<Rightarrow>
             (if should_block_on_registration (ev_registered env 0) sq front
              then (case can_bypass_snapshot p (ev_now env 0) (block_on_fence (predecessor_commit_ts sq) [front] p q) of
                      (q', True) \<Rightarrow> Some (rt\<lparr>rt_queue := q'\<rparr>, local, False)
                    | (q', False) \<Rightarrow> Some (rt\<lparr>rt_queue := defer_entries local q'\<rparr>, [], False))
              else (case admit_snapshot p (ev_now env 0) front q of
                      (q', False) \<Rightarrow> Some (rt\<lparr>rt_queue := defer_entries (front # local) q'\<rparr>, [], False)
                    | (q', True) \<Rightarrow>
                        (case collect_batch env p sq 1 q' [front] (ucast (pj_estimated_record_bytes (qe_job front))) local of
                           (q'', batch, local') \<Rightarrow>
                             map_option (\<lambda>rt'. (rt', local', True)) (sequence_append_schedule env batch (rt\<lparr>rt_queue := q''\<rparr>))))))"

lemma collect_batch_shorter:
  "collect_batch env p sq n q batch bytes local = (q', batch', local') \<Longrightarrow> length local' \<le> length local"
  by (induction env p sq n q batch bytes local rule: collect_batch.induct) (fastforce split: if_splits prod.splits bool.splits)+

lemma process_turn_shorter: "process_turn env front local rt = Some (rt', local', b) \<Longrightarrow> length local' \<le> length local"
  by (auto simp: process_turn_def Let_def dest: collect_batch_shorter
      split: sum.splits if_splits prod.splits bool.splits)

text \<open>The loop of \<open>process_entries\<close>, with an environment for each number of entries left.\<close>

function process_entries ::
  "(nat \<Rightarrow> ('c, 'x, 's, 'e) drain_env) \<Rightarrow> ('c, 'x) commit_entry list \<Rightarrow> nat \<Rightarrow> ('c, 'x, 's, 'e) runtime
     \<Rightarrow> (('c, 'x, 's, 'e) runtime \<times> nat) option" where
  "process_entries env [] scheduled rt = Some (rt, scheduled)"
| "process_entries env (front # local) scheduled rt =
     (case process_turn (env (length local)) front local rt of
        None \<Rightarrow> None
      | Some (rt', local', batch) \<Rightarrow>
          process_entries env local' (if batch then saturating_add scheduled 1 else scheduled) rt')"
  by pat_completeness auto

termination process_entries
  by (relation "measure (\<lambda>(env, local, scheduled, rt). length local)")
    (auto simp: less_Suc_eq_le dest!: process_turn_shorter [OF sym] process_turn_shorter)

datatype drain_next = Drain_Released | Drain_Continuation | Drain_Again nat

definition release_owner :: "('c, 'x, 's, 'e) runtime \<Rightarrow> ('c, 'x, 's, 'e) runtime" where
  "release_owner rt = rt\<lparr>rt_queue := release_drain_owner (rt_queue rt)\<rparr>"

definition turn_batch_budget_exhausted :: "nat \<Rightarrow> nat option \<Rightarrow> ('c, 'x, 's, 'e) runtime \<Rightarrow> bool" where
  "turn_batch_budget_exhausted scheduled max_batches rt \<longleftrightarrow>
     (case max_batches of None \<Rightarrow> False | Some m \<Rightarrow> m \<le> scheduled) \<and> has_ready_work (rt_queue rt)"

text \<open>One turn of the loop of \<open>drain_owned\<close>: released for good, released with a signal to continue, or on.\<close>

definition drain_turn ::
  "(nat \<Rightarrow> ('c, 'x, 's, 'e) drain_env) \<Rightarrow> commit_ts \<Rightarrow> u64 \<Rightarrow> nat option \<Rightarrow> nat \<Rightarrow> ('c, 'x, 's, 'e) runtime
     \<Rightarrow> (('c, 'x, 's, 'e) runtime \<times> drain_next) option" where
  "drain_turn env registered elapsed_us max_batches scheduled rt =
     (case ensure_healthy rt of
        Inl _ \<Rightarrow> Some (release_owner rt, Drain_Released)
      | Inr _ \<Rightarrow>
          (case take_ready_pending_fence registered (rt_policy rt) (rt_queue rt) of
             (q, Some entries) \<Rightarrow>
               map_option (\<lambda>(rt', n).
                 if turn_batch_budget_exhausted (saturating_add scheduled n) max_batches rt'
                 then (release_owner rt', Drain_Continuation) else (rt', Drain_Again (saturating_add scheduled n)))
                 (process_entries env entries 0 (rt\<lparr>rt_queue := q\<rparr>))
           | (q, None) \<Rightarrow>
               (case take_local_buffer (effective_target_batch_size (rt_policy rt)) q of
                  (q', local) \<Rightarrow>
                    (if local = [] then Some (release_owner (rt\<lparr>rt_queue := q'\<rparr>), Drain_Released)
                     else map_option (\<lambda>(rt', n).
                       if turn_batch_budget_exhausted (saturating_add scheduled n) max_batches rt'
                       then (release_owner rt', Drain_Continuation)
                       else if bp_drain_owner_coalesce_budget_us (rt_policy rt') \<le> elapsed_us \<and> has_ready_work (rt_queue rt')
                       then (release_owner rt', Drain_Continuation)
                       else (rt', Drain_Again (saturating_add scheduled n)))
                       (process_entries env local 0 (rt\<lparr>rt_queue := q'\<rparr>))))))"

section \<open>Recovery\<close>

text \<open>The text of an error that the frontier keeps is its message here.  The apply runtime during a replay: it skips a placeholder, tells the next position it dispatches, builds a
  request (or panics) and applies it, which moves the frontier.\<close>

record recovery_env =
  re_skip_placeholder :: "u64 \<Rightarrow> placeholder_kind \<Rightarrow> string option"
  re_next_dispatch_lsn :: "durable_handle \<Rightarrow> u64"
  re_build_request :: "durable_handle \<Rightarrow> string option"
  re_apply :: "durable_handle \<Rightarrow> string option"
  re_publish :: "durable_handle \<Rightarrow> commit_frontier \<Rightarrow> commit_frontier"

datatype recovery_event = ReplayCommit durable_handle | ReplayPlaceholder u64 placeholder_kind

record recovery_summary =
  rs_commits :: u64
  rs_placeholders :: u64
  rs_max_lsn_seen :: u64
  rs_max_commit_ts_seen :: commit_ts

definition replay_failed ::
  "'e recovery_error \<Rightarrow> ('c, 'x, 's, 'e) runtime \<Rightarrow> ('c, 'x, 's, 'e) runtime \<times> ('e recovery_error + 'a)" where
  "replay_failed err rt = (poison (PoisonRecovery (TextRecovery err)) rt, Inl err)"

definition replay_commit ::
  "recovery_env \<Rightarrow> durable_handle \<Rightarrow> recovery_summary \<Rightarrow> ('c, 'x, 's, 'e) runtime
     \<Rightarrow> ('c, 'x, 's, 'e) runtime \<times> ('e recovery_error + recovery_summary)" where
  "replay_commit env h summary rt =
     (let ts = dh_commit_ts h; lsn = dh_durable_lsn h
      in if ts \<le> rs_max_commit_ts_seen summary then replay_failed (RecoveryCommitOrder (rs_max_commit_ts_seen summary) ts) rt
         else if lsn \<noteq> re_next_dispatch_lsn env h then replay_failed (RecoveryCommitLsnGap ts lsn (re_next_dispatch_lsn env h)) rt
         else
           (let rt1 = rt\<lparr>rt_frontier := mark_durable (rt_frontier rt) (dh_frontier_handle h)\<rparr>
            in case re_build_request env h of
                 Some message \<Rightarrow>
                   replay_failed (RecoveryBuildRequest ts lsn message) (publish_failed ts (Phase1 lsn 0 message) rt1)
               | None \<Rightarrow>
                   (case re_apply env h of
                      Some message \<Rightarrow> replay_failed (RecoveryApply ts lsn message) (publish_failed ts (Apply lsn 0 message) rt1)
                    | None \<Rightarrow>
                        (rt1\<lparr>rt_frontier := re_publish env h (rt_frontier rt1)\<rparr>,
                         Inr (summary\<lparr>rs_commits := u64_saturating_add (rs_commits summary) 1,
                                      rs_max_lsn_seen := max (rs_max_lsn_seen summary) lsn,
                                      rs_max_commit_ts_seen := ts\<rparr>)))))"

definition replay_event ::
  "recovery_env \<Rightarrow> recovery_event \<Rightarrow> recovery_summary \<Rightarrow> ('c, 'x, 's, 'e) runtime
     \<Rightarrow> ('c, 'x, 's, 'e) runtime \<times> ('e recovery_error + recovery_summary)" where
  "replay_event env event summary rt =
     (case rt_poison rt of
        Some p \<Rightarrow> (rt, Inl (RecoveryRuntimePoisoned p))
      | None \<Rightarrow>
          (case event of
             ReplayPlaceholder lsn kind \<Rightarrow>
               (case re_skip_placeholder env lsn kind of
                  Some message \<Rightarrow> replay_failed (RecoveryPlaceholder lsn kind message) rt
                | None \<Rightarrow>
                    (rt, Inr (summary\<lparr>rs_placeholders := u64_saturating_add (rs_placeholders summary) 1,
                                      rs_max_lsn_seen := max (rs_max_lsn_seen summary) lsn\<rparr>)))
           | ReplayCommit h \<Rightarrow> replay_commit env h summary rt))"

fun replay_events ::
  "recovery_env \<Rightarrow> recovery_event list \<Rightarrow> recovery_summary \<Rightarrow> ('c, 'x, 's, 'e) runtime
     \<Rightarrow> ('c, 'x, 's, 'e) runtime \<times> ('e recovery_error + recovery_summary)" where
  "replay_events env [] summary rt = (rt, Inr summary)"
| "replay_events env (event # events) summary rt =
     (case replay_event env event summary rt of
        (rt', Inl err) \<Rightarrow> (rt', Inl err)
      | (rt', Inr summary') \<Rightarrow> replay_events env events summary' rt')"

definition recovery_replay ::
  "recovery_env \<Rightarrow> recovery_event list \<Rightarrow> ('c, 'x, 's, 'e) runtime
     \<Rightarrow> ('c, 'x, 's, 'e) runtime \<times> ('e recovery_error + recovery_summary)" where
  "recovery_replay env events rt =
     (case rt_poison rt of
        Some p \<Rightarrow> (rt, Inl (RecoveryRuntimePoisoned p))
      | None \<Rightarrow>
          (case replay_events env events
                  \<lparr>rs_commits = 0, rs_placeholders = 0, rs_max_lsn_seen = 0,
                   rs_max_commit_ts_seen = cf_durable_commit_id (rt_frontier rt)\<rparr> (rt\<lparr>rt_admission_open := False\<rparr>) of
             (rt1, Inl err) \<Rightarrow> (rt1, Inl err)
           | (rt1, Inr summary) \<Rightarrow>
               (let durable = cf_durable_commit_id (rt_frontier rt1); published = cf_published_commit_id (rt_frontier rt1)
                in if published \<noteq> durable then replay_failed (RecoveryIncompleteFrontier durable published) rt1
                   else (rt1\<lparr>rt_sequencer := sync_next_commit_ts_with (rt_sequencer rt1) (rs_max_commit_ts_seen summary),
                             rt_stage := mark_registered (rs_max_commit_ts_seen summary) (rt_stage rt1),
                             rt_admission_open := True\<rparr>, Inr summary))))"

end
