(* ===== verification/Runtime_Safety.thy ===== *)
theory Runtime_Safety
  imports Commit_Runtime
begin

text \<open>
  What the commit runtime does with the commits it was given.  Draining, the finalize stage, the apply
  runtime, submitters and waiters take steps in any order; no commit is forgotten on the way from the
  queue to its answer, except that a poisoned runtime may leave one waiting.  A replay of the journal
  either rebuilds clock, gate and frontier or leaves the runtime closed.
\<close>

section \<open>Entries that wait\<close>

definition waiting :: "'p commit_queue \<Rightarrow> completion_handle set" where
  "waiting q = qe_completion ` (set (cq_entries q) \<union> set (cq_deferred_entries q) \<union> set (pending_entries q))"

lemma waiting_cong:
  "cq_entries q' = cq_entries q \<Longrightarrow> cq_deferred_entries q' = cq_deferred_entries q \<Longrightarrow> cq_pending_fence q' = cq_pending_fence q \<Longrightarrow>
     waiting q' = waiting q"
  by (simp add: waiting_def)

lemma waiting_recompute [simp]: "waiting (recompute_pending_guard p q) = waiting q"
  by (rule waiting_cong) (simp_all add: recompute_pending_guard_def Let_def)

lemma waiting_block [simp]: "waiting (block_on_fence ts es p q) = waiting q \<union> qe_completion ` set es"
  by (auto simp: block_on_fence_def) (auto simp: waiting_def)

lemma waiting_defer [simp]: "waiting (defer_entries es q) = waiting q \<union> qe_completion ` set es"
proof (induction es arbitrary: q)
  case (Cons e es)
  have "waiting (defer_entry e q) = insert (qe_completion e) (waiting q)" by (auto simp: defer_entry_def waiting_def)
  with Cons [of "defer_entry e q"] show ?case by (simp add: defer_entries_def)
qed (simp add: defer_entries_def)

lemma waiting_bypass [simp]: "waiting (record_snapshot_bypass p q) = waiting q"
  by (auto simp: record_snapshot_bypass_def) (auto simp: waiting_def)

lemma waiting_can_bypass: "can_bypass_snapshot p now q = (q', b) \<Longrightarrow> waiting q' = waiting q"
  by (auto simp: can_bypass_snapshot_def count_bypass_block_def waiting_def split: if_splits option.splits)

lemma waiting_admit: "admit_snapshot p now e q = (q', b) \<Longrightarrow> waiting q' = waiting q"
  by (auto simp: admit_snapshot_def dest: waiting_can_bypass split: if_splits prod.splits bool.splits)

lemma waiting_take_deferred:
  "take_deferred n q = (q', es) \<Longrightarrow> waiting q = waiting q' \<union> qe_completion ` set es"
  by (induction n q arbitrary: q' es rule: take_deferred.induct) (fastforce simp: waiting_def split: list.splits prod.splits)+

lemma waiting_take_entries:
  "take_entries tail_seq n q = (q', es) \<Longrightarrow> waiting q = waiting q' \<union> qe_completion ` set es"
  by (induction tail_seq n q arbitrary: q' es rule: take_entries.induct)
    (fastforce simp: waiting_def split: list.splits prod.splits if_splits)+

lemma waiting_take_local:
  assumes "take_local_buffer n q = (q', es)"
  shows "waiting q = waiting q' \<union> qe_completion ` set es"
proof -
  obtain q1 deferred taken where one: "take_deferred n (q\<lparr>cq_ready_queued := False\<rparr>) = (q1, deferred)"
    and two: "take_entries (cq_published_tail_seq q) (n - length deferred) q1 = (q', taken)" and es: "es = deferred @ taken"
    using assms by (auto simp: take_local_buffer_def split: prod.splits)
  have "waiting (q\<lparr>cq_ready_queued := False\<rparr>) = waiting q" by (rule waiting_cong) simp_all
  then show ?thesis using waiting_take_deferred [OF one] waiting_take_entries [OF two] by (auto simp: es)
qed

lemma waiting_take_ready:
  "take_ready_pending_fence ts p q = (q', r) \<Longrightarrow>
     waiting q = waiting q' \<union> qe_completion ` set (case r of None \<Rightarrow> [] | Some es \<Rightarrow> es)"
  by (auto simp: take_ready_pending_fence_def split: list.splits if_splits) (auto simp: waiting_def)

lemma waiting_flags [simp]:
  "waiting (fst (signal_drain_needed q inline)) = waiting q" "waiting (fst (signal_pending_fence_ready q inline)) = waiting q"
  "waiting (release_drain_owner q) = waiting q"
  by (simp_all add: waiting_def signal_drain_needed_def signal_pending_fence_ready_def release_drain_owner_def)

lemma waiting_acquire: "try_acquire_drain_owner q = Some q' \<Longrightarrow> waiting q' = waiting q"
  by (auto simp: try_acquire_drain_owner_def waiting_def split: if_splits)

lemma waiting_enqueue:
  "enqueue now q job c p = (q', r) \<Longrightarrow> waiting q' = (if isl r then waiting q else insert c (waiting q))"
  by (auto simp: enqueue_def count_enqueue_reject_def waiting_def Let_def split: if_splits sum.splits)

lemma waiting_close:
  "close_and_drain_pending q = (q', cs) \<Longrightarrow> set cs = waiting q \<and> waiting q' = {}"
  by (auto simp: close_and_drain_pending_def waiting_def image_Un simp del: set_concat)

section \<open>Completions that are answered\<close>

definition answered :: "'e completion_registry \<Rightarrow> completion_handle \<Rightarrow> bool" where
  "answered cg c \<longleftrightarrow> slot_for_completion cg c \<noteq> Some CS_Queued"

text \<open>A change that queues no completion again and issues none.\<close>

definition answers :: "'e completion_registry \<Rightarrow> 'e completion_registry \<Rightarrow> bool" where
  "answers cg cg' \<longleftrightarrow> (\<forall>c. answered cg c \<longrightarrow> answered cg' c) \<and> cg_next_slot_id cg' = cg_next_slot_id cg"

lemma answers_refl [simp]: "answers cg cg"
  by (simp add: answers_def)

lemma answers_trans: "answers cg cg' \<Longrightarrow> answers cg' cg'' \<Longrightarrow> answers cg cg''"
  by (simp add: answers_def)

lemma ch_slot_id_inject [simp]: "ch_slot_id c = ch_slot_id c' \<longleftrightarrow> c = c'" for c c' :: completion_handle
  by (cases c; cases c') simp

lemma answers_set_completion: "st \<noteq> CS_Queued \<Longrightarrow> answers cg (set_completion cg c st) \<and> answered (set_completion cg c st) c"
  by (auto simp: answers_def answered_def set_completion_def slot_for_completion_def split: option.splits)

lemma answers_set_commit: "st \<noteq> CS_Queued \<Longrightarrow> answers cg (set_commit cg ts st)"
  by (auto simp: answers_def answered_def set_commit_def slot_for_commit_ts_def slot_for_completion_def split: option.splits)

lemma answers_durable:
  "answers cg (completion_mark_durable cg c h policy) \<and> answered (completion_mark_durable cg c h policy) c"
  by (auto simp: answers_def answered_def completion_mark_durable_def slot_for_completion_def split: option.splits)

lemma answers_submitted: "answers cg (completion_mark_publish_submitted cg ts)"
  by (auto simp: answers_def answered_def completion_mark_publish_submitted_def slot_for_commit_ts_def slot_for_completion_def
      split: option.splits completion_state.splits commit_ack_policy.splits)

lemma answers_published: "completion_mark_published cg ts = Some cg' \<Longrightarrow> answers cg cg'"
  by (auto simp: answers_def answered_def completion_mark_published_def slot_for_commit_ts_def slot_for_completion_def
      split: option.splits completion_state.splits if_splits)

lemma answers_remove: "answers cg (remove_slot cg c)"
  by (auto simp: answers_def answered_def remove_slot_def slot_for_completion_def Let_def split: option.splits)

lemma answers_wait: "completion_wait cg c = Some (cg', r) \<Longrightarrow> answers cg cg'"
  using completion_wait_effect [of cg c] answers_remove [of cg c] by auto

lemma answers_reject_all:
  "answers cg (reject_all cs reason cg) \<and> (\<forall>c \<in> set cs. answered (reject_all cs reason cg) c)"
proof (induction cs arbitrary: cg)
  case (Cons c cs)
  let ?cg = "set_completion cg c (CS_Rejected reason)"
  have "answers cg ?cg" "answered ?cg c" using answers_set_completion [of "CS_Rejected reason" cg c] by simp_all
  with Cons [of ?cg] show ?case using answers_trans by (auto simp: reject_all_def answers_def)
qed (simp add: reject_all_def)

section \<open>Commits the runtime accounts for\<close>

definition accounted :: "('c, 'x, 's, 'e) runtime \<Rightarrow> completion_handle \<Rightarrow> bool" where
  "accounted rt c \<longleftrightarrow> answered (rt_completions rt) c \<or> c \<in> waiting (rt_queue rt)"

definition keeps :: "('c, 'x, 's, 'e) runtime \<Rightarrow> ('c, 'x, 's, 'e) runtime \<Rightarrow> bool" where
  "keeps rt rt' \<longleftrightarrow> (\<forall>c. accounted rt c \<longrightarrow> accounted rt' c) \<and>
     cg_next_slot_id (rt_completions rt') = cg_next_slot_id (rt_completions rt) \<and>
     sq_options (rt_sequencer rt') = sq_options (rt_sequencer rt)"

lemma keeps_refl [simp]: "keeps rt rt"
  by (simp add: keeps_def)

lemma keeps_trans [trans]: "keeps rt rt' \<Longrightarrow> keeps rt' rt'' \<Longrightarrow> keeps rt rt''"
  by (simp add: keeps_def)

lemma keepsD: "keeps rt rt' \<Longrightarrow> accounted rt c \<Longrightarrow> accounted rt' c"
  by (simp add: keeps_def)

lemma keepsI:
  assumes "answers (rt_completions rt) (rt_completions rt')" "sq_options (rt_sequencer rt') = sq_options (rt_sequencer rt)"
    "\<And>c. c \<in> waiting (rt_queue rt) \<Longrightarrow> accounted rt' c"
  shows "keeps rt rt'"
  using assms by (auto simp: keeps_def answers_def accounted_def)

lemma keeps_completion_set:
  "st \<noteq> CS_Queued \<Longrightarrow> keeps rt (completion_set c st rt) \<and> accounted (completion_set c st rt) c"
  using answers_set_completion [of st "rt_completions rt" c]
  by (auto intro!: keepsI simp: completion_set_def accounted_def)

lemma keeps_commit_set: "st \<noteq> CS_Queued \<Longrightarrow> keeps rt (commit_set ts st rt)"
  using answers_set_commit [of st "rt_completions rt" ts] by (auto intro!: keepsI simp: commit_set_def accounted_def)

lemma keeps_poison: "keeps rt (poison p rt)"
proof -
  obtain q pending where close: "close_and_drain_pending (rt_queue rt) = (q, pending)" by fastforce
  note drained = waiting_close [OF close]
    and rejected = answers_reject_all [of "rt_completions rt" pending
      "RejectedRuntimePoisoned (case rt_poison rt of Some existing \<Rightarrow> existing | None \<Rightarrow> p)"]
  show ?thesis using drained rejected by (intro keepsI) (auto simp: poison_def close Let_def accounted_def)
qed

lemma keeps_publish_failed [simp]: "keeps rt (publish_failed ts cause rt)"
  by (rule keepsI) (simp_all add: publish_failed_def accounted_def)

lemma keeps_stage_error: "keeps rt (on_stage_error err rt)"
proof -
  have "keeps rt (commit_set ts (CS_AmbiguousCommitted f) (poison p (publish_failed ts cause rt)))" for ts f p cause
    by (meson keeps_commit_set keeps_poison keeps_publish_failed keeps_trans completion_state.distinct)
  then show ?thesis by (cases err) (simp_all add: keeps_poison)
qed

lemma keeps_stage_event: "keeps rt (on_stage_event ev rt)"
proof (cases ev)
  case (Ev_OnRegistered ts)
  then show ?thesis by (auto simp: on_registered_def accounted_def case_prod_beta intro!: keepsI)
next
  case (Ev_OnSubmission ts policy)
  then show ?thesis using answers_submitted by (auto simp: on_submission_def accounted_def intro!: keepsI)
next
  case (Ev_OnStageError err)
  then show ?thesis by (simp add: keeps_stage_error)
next
  case (Ev_OnDurableAmbiguous c err)
  then show ?thesis by (simp add: on_durable_ambiguous_def keeps_completion_set)
qed simp_all

lemma keeps_fold: "(\<And>x rt. keeps rt (f x rt)) \<Longrightarrow> keeps rt (fold f xs rt)"
  by (induction xs arbitrary: rt) (auto intro: keeps_trans)

text \<open>A loop that answers a completion for each element.\<close>

lemma keeps_fold_answers:
  assumes "\<And>x rt. x \<in> set xs \<Longrightarrow> keeps rt (f x rt) \<and> accounted (f x rt) (key x)"
  shows "keeps rt (fold f xs rt) \<and> (\<forall>x \<in> set xs. accounted (fold f xs rt) (key x))"
  using assms
proof (induction xs arbitrary: rt)
  case (Cons x xs)
  have one: "keeps rt (f x rt)" "accounted (f x rt) (key x)" using Cons.prems by simp_all
  have rest: "keeps (f x rt) (fold f xs (f x rt))" "\<forall>y \<in> set xs. accounted (fold f xs (f x rt)) (key y)"
    using Cons.IH [of "f x rt"] Cons.prems by simp_all
  show ?case using keeps_trans [OF one(1) rest(1)] keepsD [OF rest(1) one(2)] rest(2) by simp
qed simp

lemma keeps_complete: "on_complete ts r rt = Some rt' \<Longrightarrow> keeps rt rt'"
proof (cases r)
  case (Inl err)
  assume "on_complete ts r rt = Some rt'"
  then show ?thesis using Inl
    by (auto simp: on_complete_def) (meson keeps_commit_set keeps_poison keeps_publish_failed keeps_trans completion_state.distinct)
next
  case (Inr u)
  assume "on_complete ts r rt = Some rt'"
  then show ?thesis using Inr by (auto simp: on_complete_def accounted_def intro!: keepsI dest: answers_published)
qed

lemma keeps_fallback: "keeps rt (fallback_ack ts err rt)"
  by (simp add: fallback_ack_def keeps_commit_set)

lemma keeps_fatal: "keeps rt (fatal_sink ts err rt)"
  using keeps_trans [OF keeps_publish_failed keeps_poison] by (simp add: fatal_sink_def)

section \<open>A group commit accounts for its entries\<close>

lemma keeps_settle_plans:
  "keeps rt (settle_plans deferred rejected rt) \<and>
     (\<forall>plan \<in> set deferred. accounted (settle_plans deferred rejected rt) (qe_completion (op_payload plan))) \<and>
     (\<forall>plan \<in> fst ` set rejected. accounted (settle_plans deferred rejected rt) (qe_completion (op_payload plan)))"
proof -
  have reject: "answers cg (reject_plans rejected cg) \<and>
      (\<forall>plan \<in> fst ` set rejected. answered (reject_plans rejected cg) (qe_completion (op_payload plan)))"
    for cg :: "'d completion_registry"
  proof (induction rejected arbitrary: cg)
    case (Cons r rejected)
    obtain plan reason where r: "r = (plan, reason)" by fastforce
    let ?cg = "set_completion cg (qe_completion (op_payload plan)) (CS_Rejected (RejectedFence reason))"
    have "answers cg ?cg" "answered ?cg (qe_completion (op_payload plan))" by (simp_all add: answers_set_completion)
    with Cons [of ?cg] show ?case using answers_trans by (auto simp: reject_plans_def r answers_def)
  qed (simp add: reject_plans_def)
  have put_back: "waiting (defer_plans deferred q) = waiting q \<union> (qe_completion \<circ> op_payload) ` set deferred" for q :: "('a, 'b) job_payload commit_queue"
    by (auto simp: defer_plans_def)
  show ?thesis using reject [of "rt_completions rt"] by (auto simp: settle_plans_def accounted_def put_back intro!: keepsI)
qed

lemma keeps_mark_durable:
  "keeps rt (mark_durable_jobs jobs rt) \<and> (\<forall>(h, job) \<in> set jobs. accounted (mark_durable_jobs jobs rt) (dj_completion job))"
proof -
  let ?f = "\<lambda>(h, job) rt. rt\<lparr>rt_frontier := mark_durable (rt_frontier rt) (dh_frontier_handle h),
    rt_completions := completion_mark_durable (rt_completions rt) (dj_completion job) h (dj_ack_policy job)\<rparr>"
  have "keeps rt (?f x rt) \<and> accounted (?f x rt) (dj_completion (snd x))" for x rt
    using answers_durable by (auto simp: accounted_def case_prod_beta intro!: keepsI)
  from keeps_fold_answers [where f = ?f and key = "\<lambda>x. dj_completion (snd x)" and xs = jobs, OF this]
  show ?thesis by (fastforce simp: mark_durable_jobs_def)
qed

lemma keeps_cleanup_job:
  assumes "sj_post_append job = Some pa" "\<And>rt. keeps rt (cleanup pa rt) \<and> accounted (cleanup pa rt) (pa_completion pa)"
  shows "keeps rt (cleanup_job cleanup job rt) \<and> accounted (cleanup_job cleanup job rt) (pa_completion pa)"
  using assms by (simp add: cleanup_job_def take_cleanup_def)

lemma keeps_cleanup_append_failure:
  "keeps rt (cleanup_append_failure rollback bundle err rt) \<and> accounted (cleanup_append_failure rollback bundle err rt) (pa_completion bundle)"
proof (cases "rollback (pa_actions bundle)")
  case None
  then show ?thesis by (simp add: cleanup_append_failure_def keeps_completion_set)
next
  case (Some failed)
  let ?rt = "completion_set (pa_completion bundle) (CS_Failed (FailedAppendCleanup (TextRollback failed))) rt"
  have "keeps rt ?rt" "accounted ?rt (pa_completion bundle)" by (simp_all add: keeps_completion_set)
  with Some show ?thesis by (auto simp: cleanup_append_failure_def intro: keeps_trans [OF _ keeps_poison] keepsD [OF keeps_poison])
qed

lemma keeps_cleanup_durable_ambiguous:
  "keeps rt (cleanup_durable_ambiguous bundle err rt) \<and> accounted (cleanup_durable_ambiguous bundle err rt) (pa_completion bundle)"
  by (simp add: cleanup_durable_ambiguous_def keeps_completion_set)

text \<open>What comes back from the append of jobs that are ready.\<close>

lemma runtime_append_ready:
  fixes journal :: "'c commit_record list \<Rightarrow> 'e + append_result list" and js :: "('c, 'x) sequenced_job list"
  assumes ready: "ready_jobs first 0 js" "js \<noteq> []" "length js \<le> 2 ^ 32"
  shows "case runtime_append journal js of
      Inr out \<Rightarrow> ab_durable_jobs out = map durable_of js \<and> length (ab_handles out) = length js
    | Inl (AppendFailed err back) \<Rightarrow> map sj_post_append back = map sj_post_append js
    | Inl (DurableCommitted err back) \<Rightarrow> map sj_post_append back = map sj_post_append js"
proof (cases "journal (job_records js)")
  case (Inl err)
  then show ?thesis using ready(2) by (simp add: runtime_append_def append_to_journal [OF ready(1,2)] Let_def comp_def)
next
  case (Inr rs)
  show ?thesis
  proof (cases "results_ok (length js) rs")
    case True
    then show ?thesis using append_durable [where journal = journal, OF ready Inr True] ready(2)
      by (auto simp: runtime_append_def)
  next
    case False
    then show ?thesis using append_violation [where journal = journal, OF ready Inr False] ready(2)
      by (auto simp: runtime_append_def comp_def)
  qed
qed

lemma ordered_batch_append:
  assumes "sequence_ordered_batch sq clock us fence st accept write_log plans = (sq', st', res)"
  shows "sq_options sq' = sq_options sq"
    "case res of
       Inr batch \<Rightarrow> (case ob_append_output batch of
           None \<Rightarrow> accepted_of sq clock fence st plans = []
         | Some out \<Rightarrow> accepted_of sq clock fence st plans \<noteq> [] \<and>
             write_log (map (\<lambda>(ts, p). accept ts p) (accepted_of sq clock fence st plans)) = Inr out)
     | Inl (OrderedAppend err durable start n back rej dfr us) \<Rightarrow> accepted_of sq clock fence st plans \<noteq> [] \<and>
         write_log (map (\<lambda>(ts, p). accept ts p) (accepted_of sq clock fence st plans)) \<in>
           {Inl (AppendFailed err back), Inl (DurableCommitted err back)}"
  using assms
  by (auto simp: sequence_ordered_batch_def accepted_of_def Let_def
      split: prod.splits if_splits sum.splits append_error.splits)

definition sequenced_of :: "commit_ts \<times> ('c, 'x) commit_entry ordered_plan \<Rightarrow> ('c, 'x) sequenced_job" where
  "sequenced_of = (\<lambda>(ts, plan). into_sequenced (qe_job (op_payload plan)) ts (qe_completion (op_payload plan)))"

lemma sequenced_of_fields:
  "sj_commit_ts (sequenced_of x) = fst x" "map_option rec_commit_id (sj_record (sequenced_of x)) = Some (fst x)"
  "map_option pa_completion (sj_post_append (sequenced_of x)) = Some (qe_completion (op_payload (snd x)))"
  "dj_completion (durable_of (sequenced_of x)) = qe_completion (op_payload (snd x))"
  by (simp_all add: sequenced_of_def into_sequenced_def durable_of_def case_prod_beta)

lemma sequenced_ready:
  assumes "accepted_ok base (plans_of acc)"
  shows "ready_jobs base 0 (map sequenced_of acc)"
  unfolding ready_jobs_def
proof (intro conjI ballI)
  have "map (unat \<circ> sj_commit_ts) (map sequenced_of acc) = map (unat \<circ> fst) (plans_of acc)"
    by (simp add: sequenced_of_fields comp_def case_prod_beta)
  also have "\<dots> = [unat base ..< unat base + length acc]" using assms unfolding accepted_ok_def by simp
  finally show "map (unat \<circ> sj_commit_ts) (map sequenced_of acc) = [unat base + 0 ..< unat base + 0 + length (map sequenced_of acc)]"
    by simp
next
  fix j assume "j \<in> set (map sequenced_of acc)"
  then obtain x where j: "j = sequenced_of x" by auto
  show "map_option rec_commit_id (sj_record j) = Some (sj_commit_ts j)" unfolding j sequenced_of_fields ..
  show "sj_post_append j \<noteq> None" using sequenced_of_fields(3) [of x] by (auto simp: j)
qed

lemma keeps_append_success:
  assumes "handle_append_success now batch rt = Some rt'"
    and out: "\<And>out. ob_append_output batch = Some out \<Longrightarrow> ab_durable_jobs out = map durable_of js \<and> length (ab_handles out) = length js"
  shows "keeps rt rt'" "\<And>plan. plan \<in> set (ob_deferred batch) \<union> fst ` set (ob_rejected batch) \<Longrightarrow> accounted rt' (qe_completion (op_payload plan))"
    "\<And>j. ob_append_output batch \<noteq> None \<Longrightarrow> j \<in> set js \<Longrightarrow> accounted rt' (dj_completion (durable_of j))"
proof -
  let ?rt1 = "settle_plans (ob_deferred batch) (ob_rejected batch) rt"
  note one = keeps_settle_plans [of rt "ob_deferred batch" "ob_rejected batch"]
  have two: "keeps ?rt1 rt' \<and> (ob_append_output batch \<noteq> None \<longrightarrow> (\<forall>j \<in> set js. accounted rt' (dj_completion (durable_of j))))"
  proof (cases "ob_append_output batch")
    case None
    then show ?thesis using assms(1) by (simp add: handle_append_success_def Let_def)
  next
    case (Some batch_out)
    note jobs = out [OF Some]
    let ?rt2 = "mark_durable_jobs (zip (ab_handles batch_out) (ab_durable_jobs batch_out)) ?rt1"
    note durable = keeps_mark_durable [of ?rt1 "zip (ab_handles batch_out) (ab_durable_jobs batch_out)"]
    have marked: "accounted ?rt2 (dj_completion (durable_of j))" if j: "j \<in> set js" for j
    proof -
      have "set (map snd (zip (ab_handles batch_out) (ab_durable_jobs batch_out))) = durable_of ` set js" using jobs by simp
      then obtain h where "(h, durable_of j) \<in> set (zip (ab_handles batch_out) (ab_durable_jobs batch_out))"
        using j by fastforce
      with durable show ?thesis by blast
    qed
    obtain stage r where sched: "schedule now \<lparr>sc_accepted = ab_durable_jobs batch_out, sc_batch = ab_batch batch_out\<rparr> (rt_stage ?rt2) = (stage, r)"
      by fastforce
    have stage: "keeps ?rt2 (?rt2\<lparr>rt_stage := stage\<rparr>)" by (rule keepsI) (simp_all add: accounted_def)
    have "keeps ?rt2 rt'"
    proof (cases r)
      case None
      then show ?thesis using assms(1) Some sched by (simp add: handle_append_success_def Let_def)
    next
      case (Some res)
      show ?thesis
      proof (cases res)
        case (Inl err)
        let ?f = "\<lambda>job. completion_set (dj_completion job) (CS_AmbiguousCommitted (FailedAmbiguous (TextSchedule err)))"
        have "rt' = poison (PoisonFinalizeSchedule (TextSchedule err)) (fold ?f (ab_durable_jobs batch_out) (?rt2\<lparr>rt_stage := stage\<rparr>))"
          using assms(1) \<open>ob_append_output batch = Some batch_out\<close> sched Some Inl by (simp add: handle_append_success_def Let_def)
        moreover have "keeps (?rt2\<lparr>rt_stage := stage\<rparr>) (fold ?f (ab_durable_jobs batch_out) (?rt2\<lparr>rt_stage := stage\<rparr>))"
          by (rule keeps_fold) (simp add: keeps_completion_set)
        ultimately show ?thesis using keeps_trans [OF stage] keeps_trans [OF _ keeps_poison] by blast
      next
        case (Inr u)
        then show ?thesis using assms(1) \<open>ob_append_output batch = Some batch_out\<close> sched Some stage
          by (simp add: handle_append_success_def Let_def)
      qed
    qed
    then show ?thesis using durable marked keeps_trans keepsD by blast
  qed
  show "keeps rt rt'" using keeps_trans one two by blast
  show "accounted rt' (qe_completion (op_payload plan))" if "plan \<in> set (ob_deferred batch) \<union> fst ` set (ob_rejected batch)" for plan
    using that one two keepsD by blast
  show "accounted rt' (dj_completion (durable_of j))" if "ob_append_output batch \<noteq> None" "j \<in> set js" for j
    using that two by blast
qed

lemma keeps_cleanup_jobs:
  assumes sidecars: "map sj_post_append back = map (sj_post_append \<circ> sequenced_of) acc"
    and cleanup: "\<And>bundle rt. keeps rt (cleanup bundle rt) \<and> accounted (cleanup bundle rt) (pa_completion bundle)"
  shows "keeps rt (fold (cleanup_job cleanup) back rt) \<and>
    (\<forall>x \<in> set acc. accounted (fold (cleanup_job cleanup) back rt) (qe_completion (op_payload (snd x))))"
proof -
  let ?key = "\<lambda>job. pa_completion (the (sj_post_append job))"
  have sidecar: "\<exists>pa. sj_post_append job = Some pa" if "job \<in> set back" for job
  proof -
    have "sj_post_append job \<in> (sj_post_append \<circ> sequenced_of) ` set acc"
      using that sidecars by (metis image_eqI image_set)
    then show ?thesis using sequenced_of_fields(3) by fastforce
  qed
  have "keeps rt (cleanup_job cleanup job rt) \<and> accounted (cleanup_job cleanup job rt) (?key job)" if "job \<in> set back" for job rt
    using sidecar [OF that] keeps_cleanup_job [of job _ cleanup, OF _ cleanup] by auto
  from keeps_fold_answers [where f = "cleanup_job cleanup" and key = ?key and xs = "back", OF this]
  have all: "keeps rt (fold (cleanup_job cleanup) back rt)" "\<forall>job \<in> set back. accounted (fold (cleanup_job cleanup) back rt) (?key job)"
    by blast+
  have "accounted (fold (cleanup_job cleanup) back rt) (qe_completion (op_payload (snd x)))" if x: "x \<in> set acc" for x
  proof -
    have "sj_post_append (sequenced_of x) \<in> sj_post_append ` set back"
      using x sidecars by (metis comp_apply image_eqI image_set)
    then obtain job where "job \<in> set back" "sj_post_append job = sj_post_append (sequenced_of x)" by auto
    then show ?thesis using all(2) sequenced_of_fields(3) [of x] by fastforce
  qed
  with all(1) show ?thesis by blast
qed

lemma keeps_append_error:
  assumes "map sj_post_append back = map (sj_post_append \<circ> sequenced_of) acc"
    and "rt' = handle_sequence_or_append_error rollback (OrderedAppend err durable start n back rej dfr us) rt"
  shows "keeps rt rt'" "\<And>plan. plan \<in> set dfr \<union> fst ` set rej \<Longrightarrow> accounted rt' (qe_completion (op_payload plan))"
    "\<And>x. x \<in> set acc \<Longrightarrow> accounted rt' (qe_completion (op_payload (snd x)))"
proof -
  let ?rt1 = "settle_plans dfr rej rt"
  note one = keeps_settle_plans [of rt dfr rej]
  have two: "keeps ?rt1 rt' \<and> (\<forall>x \<in> set acc. accounted rt' (qe_completion (op_payload (snd x))))"
  proof (cases durable)
    case True
    let ?f = "cleanup_job (\<lambda>bundle. cleanup_durable_ambiguous bundle err)"
    let ?rt2 = "poison (PoisonDurableProtocol (TextAppend err)) ?rt1"
    have rt': "rt' = fold ?f back ?rt2" using assms(2) True by (simp add: Let_def)
    note cleaned = keeps_cleanup_jobs [OF assms(1) keeps_cleanup_durable_ambiguous [where err = err], of ?rt2]
    show ?thesis unfolding rt' using cleaned keeps_trans [OF keeps_poison conjunct1 [OF cleaned]] by blast
  next
    case False
    let ?f = "cleanup_job (\<lambda>bundle. cleanup_append_failure rollback bundle err)"
    have rt': "rt' = fold ?f back ?rt1" using assms(2) False by (simp add: Let_def)
    show ?thesis unfolding rt' by (rule keeps_cleanup_jobs [OF assms(1) keeps_cleanup_append_failure])
  qed
  show "keeps rt rt'" using keeps_trans one two by blast
  show "accounted rt' (qe_completion (op_payload plan))" if "plan \<in> set dfr \<union> fst ` set rej" for plan
    using that one two keepsD by blast
  show "accounted rt' (qe_completion (op_payload (snd x)))" if "x \<in> set acc" for x using that two by blast
qed

lemma keeps_sequence:
  assumes run: "sequence_append_schedule env entries rt = Some rt'"
    and size: "effective_batch_size (sq_options (rt_sequencer rt)) \<le> 2 ^ 32"
  shows "keeps rt rt' \<and> (\<forall>e \<in> set entries. accounted rt' (qe_completion e))"
proof -
  let ?plans = "map (\<lambda>e. \<lparr>op_sequencing_plan = pj_sequencing_plan (qe_job e), op_payload = e\<rparr>) entries"
  let ?accept = "\<lambda>ts plan. into_sequenced (qe_job (op_payload plan)) ts (qe_completion (op_payload plan))"
  obtain sq st res where seq: "sequence_ordered_batch (rt_sequencer rt) (ev_clock env) (ev_fence_us env) (ev_fence env) (rt_fence_state rt)
      ?accept (runtime_append (ev_journal env)) ?plans = (sq, st, res)" using prod_cases3 by blast
  obtain rej dfr where split: "rejected_deferred res = (rej, dfr)" by fastforce
  define acc where "acc = accepted_of (rt_sequencer rt) (ev_clock env) (ev_fence env) (rt_fence_state rt) ?plans"
  let ?rt = "rt\<lparr>rt_sequencer := sq, rt_fence_state := st\<rparr>" and ?js = "map sequenced_of acc"
  note ok = sequence_ordered_batch_ok [OF seq split acc_def] and out = ordered_batch_append [OF seq, folded acc_def]
  have accept: "map (\<lambda>(ts, p). ?accept ts p) acc = ?js" by (simp add: sequenced_of_def)
  have began: "keeps rt ?rt" by (rule keepsI) (simp_all add: out(1) accounted_def)
  have ready: "ready_jobs (sq_next_commit_ts (rt_sequencer rt)) 0 ?js" "length ?js \<le> 2 ^ 32"
    using ok size sequenced_ready by auto
  note appended = runtime_append_ready [OF ready(1) _ ready(2), of "ev_journal env"]
  have three: "keeps ?rt rt' \<and> (\<forall>plan \<in> set dfr \<union> fst ` set rej \<union> snd ` set acc. accounted rt' (qe_completion (op_payload plan)))"
  proof (cases res)
    case (Inr batch)
    have run': "handle_append_success (ev_schedule_now env) batch ?rt = Some rt'"
      using run seq Inr by (simp add: sequence_append_schedule_def)
    have jobs: "ab_durable_jobs o1 = map durable_of ?js \<and> length (ab_handles o1) = length ?js" if "ob_append_output batch = Some o1" for o1
      using out(2) appended that Inr by (auto simp: accept)
    have none: "ob_append_output batch = None \<Longrightarrow> acc = []" using out(2) Inr by simp
    note s = keeps_append_success [OF run' jobs]
    have "accounted rt' (qe_completion (op_payload (snd x)))" if "x \<in> set acc" for x
      using s(3) [of "sequenced_of x"] that none by (force simp: sequenced_of_fields)
    then show ?thesis using s(1,2) split Inr by auto
  next
    case (Inl error)
    obtain err durable start n jobs us where error: "error = OrderedAppend err durable start n jobs rej dfr us"
      using split Inl by (cases error) auto
    have run': "rt' = handle_sequence_or_append_error (ev_rollback env) error ?rt"
      using run seq Inl by (simp add: sequence_append_schedule_def)
    have "map sj_post_append jobs = map sj_post_append ?js"
      using out(2) appended Inl error by (auto simp: accept)
    then have "map sj_post_append jobs = map (sj_post_append \<circ> sequenced_of) acc" by simp
    from keeps_append_error [OF this run' [unfolded error]] show ?thesis by auto
  qed
  have "accounted rt' (qe_completion e)" if e: "e \<in> set entries" for e
  proof -
    let ?plan = "\<lparr>op_sequencing_plan = pj_sequencing_plan (qe_job e), op_payload = e\<rparr>"
    from ok obtain taken where taken: "?plans = taken @ dfr" "mset (map snd acc) + mset (map fst rej) = mset taken" by blast
    have "set taken = snd ` set acc \<union> fst ` set rej" using arg_cong [OF taken(2), of set_mset] by simp
    moreover have "?plan \<in> set taken \<union> set dfr" using e taken(1) by (metis (no_types, lifting) image_eqI list.set_map set_append)
    ultimately have "?plan \<in> set dfr \<union> fst ` set rej \<union> snd ` set acc" by blast
    with three show ?thesis by force
  qed
  then show ?thesis using keeps_trans [OF began] three by blast
qed

section \<open>Draining loses no entry\<close>

lemma collect_batch_ok:
  "collect_batch env p sq n q batch bytes local = (q', batch', local') \<Longrightarrow>
     waiting q \<subseteq> waiting q' \<and>
     qe_completion ` (set batch \<union> set local) \<subseteq> waiting q' \<union> qe_completion ` (set batch' \<union> set local')"
proof (induction env p sq n q batch bytes local rule: collect_batch.induct)
  case (2 env p sq n q batch bytes e local)
  show ?case
  proof (cases "length batch < effective_target_batch_size p \<and> bytes < effective_target_batch_bytes p \<and>
      \<not> should_block_on_registration (ev_registered env n) sq e")
    case True
    then have go: "length batch < effective_target_batch_size p \<and> bytes < effective_target_batch_bytes p"
      "\<not> should_block_on_registration (ev_registered env n) sq e" by blast+
    obtain q1 b where admit: "admit_snapshot p (ev_now env n) e q = (q1, b)" by fastforce
    show ?thesis
    proof (cases b)
      case True
      then have b: "b = True" by simp
      then show ?thesis using "2.IH" [OF go admit [symmetric] b] "2.prems" go admit waiting_admit [OF admit] by auto
    next
      case False
      then show ?thesis using "2.prems" go admit waiting_admit [OF admit] by auto
    qed
  next
    case False
    then show ?thesis using "2.prems" by (auto split: if_splits)
  qed
qed auto

lemma keeps_queue: "waiting (rt_queue rt) \<subseteq> waiting q \<Longrightarrow> keeps rt (rt\<lparr>rt_queue := q\<rparr>)"
  by (rule keepsI) (auto simp: accounted_def)

lemma accounted_waiting: "c \<in> waiting (rt_queue rt) \<Longrightarrow> accounted rt c"
  by (simp add: accounted_def)

text \<open>A turn of the loop keeps what was accounted for, and its entries are then accounted for or still held.\<close>

definition holds_entries :: "('c, 'x, 's, 'e) runtime \<Rightarrow> ('c, 'x) commit_entry list \<Rightarrow> ('c, 'x) commit_entry list \<Rightarrow> bool" where
  "holds_entries rt es es' \<longleftrightarrow> (\<forall>c \<in> qe_completion ` set es. accounted rt c \<or> c \<in> qe_completion ` set es')"

lemma process_turn_ok:
  assumes turn: "process_turn env front local rt = Some (rt', local', b)"
    and size: "effective_batch_size (sq_options (rt_sequencer rt)) \<le> 2 ^ 32"
  shows "keeps rt rt' \<and> holds_entries rt' (front # local) local'"
proof -
  let ?p = "rt_policy rt" and ?q = "rt_queue rt" and ?sq = "rt_sequencer rt"
  let ?input = "\<lparr>di_frontier = rt_frontier rt, di_commit_finalize_queue_depth = length (fs_queue (rt_stage rt)),
    di_pending_fence_retained_bytes = pg_retained_bytes (cq_pending_fence_guard ?q), di_cleanup = ev_cleanup env\<rparr>"
  show ?thesis
  proof (cases "check_drain ?p ?input")
    case (Inl err)
    then show ?thesis using turn keeps_completion_set [of "CS_Rejected (RejectedDrainBackpressure err)" rt "qe_completion front"]
      by (auto simp: process_turn_def Let_def holds_entries_def)
  next
    case pass: (Inr u)
    show ?thesis
    proof (cases "should_block_on_registration (ev_registered env 0) ?sq front")
      case True
      obtain q1 ok where bypass: "can_bypass_snapshot ?p (ev_now env 0) (block_on_fence (predecessor_commit_ts ?sq) [front] ?p ?q) = (q1, ok)"
        by fastforce
      have q1: "waiting q1 = insert (qe_completion front) (waiting ?q)" using waiting_can_bypass [OF bypass] by simp
      show ?thesis
      proof (cases ok)
        case True
        then have "rt' = rt\<lparr>rt_queue := q1\<rparr>" "local' = local"
          using turn pass \<open>should_block_on_registration (ev_registered env 0) ?sq front\<close> bypass by (simp_all add: process_turn_def Let_def)
        then show ?thesis using q1 by (auto simp: holds_entries_def accounted_def intro!: keeps_queue)
      next
        case False
        then have "rt' = rt\<lparr>rt_queue := defer_entries local q1\<rparr>" "local' = []"
          using turn pass \<open>should_block_on_registration (ev_registered env 0) ?sq front\<close> bypass by (simp_all add: process_turn_def Let_def)
        then show ?thesis using q1 by (auto simp: holds_entries_def accounted_def intro!: keeps_queue)
      qed
    next
      case go: False
      obtain q1 ok where admit: "admit_snapshot ?p (ev_now env 0) front ?q = (q1, ok)" by fastforce
      note q1 = waiting_admit [OF admit]
      show ?thesis
      proof (cases ok)
        case False
        then have "rt' = rt\<lparr>rt_queue := defer_entries (front # local) q1\<rparr>" "local' = []"
          using turn pass go admit by (simp_all add: process_turn_def Let_def)
        then show ?thesis using q1 by (auto simp: holds_entries_def accounted_def intro!: keeps_queue)
      next
        case True
        obtain q2 batch local1 where collect: "collect_batch env ?p ?sq 1 q1 [front]
            (ucast (pj_estimated_record_bytes (qe_job front))) local = (q2, batch, local1)" using prod_cases3 by blast
        have run: "sequence_append_schedule env batch (rt\<lparr>rt_queue := q2\<rparr>) = Some rt'" and local': "local' = local1"
          using turn pass go admit True collect by (auto simp: process_turn_def Let_def)
        note c = collect_batch_ok [OF collect]
        have rt1: "keeps rt (rt\<lparr>rt_queue := q2\<rparr>)" using c q1 by (intro keeps_queue) simp
        have seq: "keeps (rt\<lparr>rt_queue := q2\<rparr>) rt'" "\<forall>e \<in> set batch. accounted rt' (qe_completion e)"
          using keeps_sequence [OF run] size by simp_all
        have "accounted rt' d \<or> d \<in> qe_completion ` set local'" if d: "d \<in> qe_completion ` set (front # local)" for d
        proof -
          have "d \<in> waiting q2 \<union> qe_completion ` (set batch \<union> set local1)" using c d by auto
          moreover have "accounted rt' d" if "d \<in> waiting q2"
            using that keepsD [OF seq(1) accounted_waiting] by simp
          ultimately show ?thesis using seq(2) local' by auto
        qed
        then show ?thesis using keeps_trans [OF rt1 seq(1)] by (simp add: holds_entries_def)
      qed
    qed
  qed
qed

section \<open>Runs\<close>

text \<open>The runtime with the entries its drain owner holds, whether the worker of the stage runs, and the
  completions of the commits it ever accepted.\<close>

record ('c, 'x, 's, 'e) runtime_world =
  rw_runtime :: "('c, 'x, 's, 'e) runtime"
  rw_local :: "('c, 'x) commit_entry list"
  rw_worker_runs :: bool
  rw_issued :: "completion_handle list"

text \<open>Steps of the threads: submitters, the drain owner (which takes entries only while the runtime is healthy,
  and treats them one turn at a time), the worker of the stage, the apply runtime with its callbacks, and
  waiters.  A submission is a step while slots are left.\<close>

inductive runtime_step :: "('c, 'x, 's, 'e) runtime_world \<Rightarrow> ('c, 'x, 's, 'e) runtime_world \<Rightarrow> bool" where
  rs_submit: "submit_commit now job (rw_runtime w) = (rt', Inr (ticket, inline)) \<Longrightarrow>
    cg_next_slot_id (rt_completions (rw_runtime w)) \<noteq> - 1 \<Longrightarrow>
    runtime_step w (w\<lparr>rw_runtime := rt', rw_issued := rw_issued w @ [qt_completion ticket]\<rparr>)"
| rs_refused: "submit_commit now job (rw_runtime w) = (rt', Inl err) \<Longrightarrow>
    cg_next_slot_id (rt_completions (rw_runtime w)) \<noteq> - 1 \<Longrightarrow> runtime_step w (w\<lparr>rw_runtime := rt'\<rparr>)"
| rs_acquire: "try_acquire_drain_owner (rt_queue (rw_runtime w)) = Some q' \<Longrightarrow>
    runtime_step w (w\<lparr>rw_runtime := (rw_runtime w)\<lparr>rt_queue := q'\<rparr>\<rparr>)"
| rs_take_ready: "ensure_healthy (rw_runtime w) = Inr () \<Longrightarrow> rw_local w = [] \<Longrightarrow>
    take_ready_pending_fence registered (rt_policy (rw_runtime w)) (rt_queue (rw_runtime w)) = (q', Some es) \<Longrightarrow>
    runtime_step w (w\<lparr>rw_runtime := (rw_runtime w)\<lparr>rt_queue := q'\<rparr>, rw_local := es\<rparr>)"
| rs_take: "ensure_healthy (rw_runtime w) = Inr () \<Longrightarrow> rw_local w = [] \<Longrightarrow>
    take_local_buffer (effective_target_batch_size (rt_policy (rw_runtime w))) (rt_queue (rw_runtime w)) = (q', es) \<Longrightarrow>
    runtime_step w (w\<lparr>rw_runtime := (rw_runtime w)\<lparr>rt_queue := q'\<rparr>, rw_local := es\<rparr>)"
| rs_turn: "rw_local w = front # local \<Longrightarrow> process_turn env front local (rw_runtime w) = Some (rt', local', scheduled) \<Longrightarrow>
    runtime_step w (w\<lparr>rw_runtime := rt', rw_local := local'\<rparr>)"
| rs_release: "rw_local w = [] \<Longrightarrow> runtime_step w (w\<lparr>rw_runtime := release_owner (rw_runtime w)\<rparr>)"
| rs_worker: "rw_worker_runs w \<Longrightarrow> worker_turn outcome (rt_stage (rw_runtime w)) = Some (st', evs, goes_on) \<Longrightarrow>
    runtime_step w (w\<lparr>rw_runtime := fold on_stage_event evs ((rw_runtime w)\<lparr>rt_stage := st'\<rparr>), rw_worker_runs := goes_on\<rparr>)"
| rs_force: "runtime_step w (w\<lparr>rw_runtime := (rw_runtime w)\<lparr>rt_stage := force_shutdown (rt_stage (rw_runtime w))\<rparr>\<rparr>)"
| rs_graceful: "runtime_step w (w\<lparr>rw_runtime := (rw_runtime w)
    \<lparr>rt_stage := start_graceful_shutdown now timeout (rt_stage (rw_runtime w))\<rparr>\<rparr>)"
| rs_complete: "on_complete ts result (rw_runtime w) = Some rt' \<Longrightarrow> runtime_step w (w\<lparr>rw_runtime := rt'\<rparr>)"
| rs_fallback: "runtime_step w (w\<lparr>rw_runtime := fallback_ack ts err (rw_runtime w)\<rparr>)"
| rs_fatal: "runtime_step w (w\<lparr>rw_runtime := fatal_sink ts err (rw_runtime w)\<rparr>)"
| rs_publish: "runtime_step w (w\<lparr>rw_runtime := (rw_runtime w)\<lparr>rt_frontier := mark_published (rt_frontier (rw_runtime w)) h\<rparr>\<rparr>)"
| rs_wait: "completion_wait (rt_completions (rw_runtime w)) c = Some (cg', answer) \<Longrightarrow>
    runtime_step w (w\<lparr>rw_runtime := (rw_runtime w)\<lparr>rt_completions := cg'\<rparr>\<rparr>)"

definition runtime_world_new ::
  "batch_policy \<Rightarrow> sequencer \<Rightarrow> commit_frontier \<Rightarrow> 's \<Rightarrow> bool \<Rightarrow> ('c, 'x, 's, 'e) runtime_world" where
  "runtime_world_new p sq frontier fence_state wake =
     \<lparr>rw_runtime = runtime_new p sq frontier fence_state wake, rw_local = [], rw_worker_runs = True, rw_issued = []\<rparr>"

definition runtime_ok :: "('c, 'x, 's, 'e) runtime_world \<Rightarrow> bool" where
  "runtime_ok w \<longleftrightarrow>
     (\<forall>c \<in> set (rw_issued w). (accounted (rw_runtime w) c \<or> c \<in> qe_completion ` set (rw_local w)) \<and>
        ch_slot_id c \<le> cg_next_slot_id (rt_completions (rw_runtime w))) \<and>
     effective_batch_size (sq_options (rt_sequencer (rw_runtime w))) \<le> 2 ^ 32"

lemma runtime_ok_keeps:
  assumes "runtime_ok w" "keeps (rw_runtime w) rt'"
    and "\<And>c. c \<in> qe_completion ` set (rw_local w) \<Longrightarrow> accounted rt' c \<or> c \<in> qe_completion ` set local'"
    and "rw_runtime w' = rt'" "rw_local w' = local'" "rw_issued w' = rw_issued w"
  shows "runtime_ok w'"
  using assms unfolding runtime_ok_def keeps_def by (metis (no_types, lifting))

lemma runtime_ok_same:
  assumes "runtime_ok w" "keeps (rw_runtime w) rt'" "rw_runtime w' = rt'" "rw_local w' = rw_local w" "rw_issued w' = rw_issued w"
  shows "runtime_ok w'"
  using runtime_ok_keeps [OF assms(1,2) _ assms(3,4,5)] by blast

text \<open>A new slot is not one of an issued completion.\<close>

lemma submit_commit_cases:
  assumes "submit_commit now job rt = (rt', r)" "cg_next_slot_id (rt_completions rt) \<noteq> - 1"
  shows "sq_options (rt_sequencer rt') = sq_options (rt_sequencer rt)"
    "cg_next_slot_id (rt_completions rt) \<le> cg_next_slot_id (rt_completions rt')"
    "accounted rt c \<Longrightarrow> ch_slot_id c \<le> cg_next_slot_id (rt_completions rt) \<Longrightarrow> accounted rt' c"
    "r = Inr (ticket, inline) \<Longrightarrow> accounted rt' (qt_completion ticket) \<and>
       ch_slot_id (qt_completion ticket) \<le> cg_next_slot_id (rt_completions rt')"
proof -
  let ?cg = "rt_completions rt" and ?i = "cg_next_slot_id (rt_completions rt) + 1"
  have "unat (cg_next_slot_id ?cg) \<noteq> unat (- 1 :: u64)" using assms(2) by (simp only: word_unat_eq_iff [symmetric] not_False_eq_True)
  then have "Suc (unat (cg_next_slot_id ?cg)) < 2 ^ 64"
    using unsigned_less [of "cg_next_slot_id ?cg", where ?'a = nat] by (simp add: unsigned_minus_1_eq_mask mask_eq_exp_minus_1)
  then have less: "cg_next_slot_id ?cg < ?i" by (simp add: word_less_nat_alt unat_word_ariths)
  show "sq_options (rt_sequencer rt') = sq_options (rt_sequencer rt)"
    using assms(1) by (auto simp: submit_commit_def completion_allocate_def Let_def split: sum.splits prod.splits)
  show "cg_next_slot_id ?cg \<le> cg_next_slot_id (rt_completions rt')"
    using assms(1) less by (auto simp: submit_commit_def completion_allocate_def Let_def split: sum.splits prod.splits)
  show "accounted rt' c" if "accounted rt c" "ch_slot_id c \<le> cg_next_slot_id ?cg"
  proof -
    have "ch_slot_id c \<noteq> ?i" using that(2) less by auto
    with that(1) assms(1) show ?thesis
      by (auto simp: submit_commit_def completion_allocate_def Let_def accounted_def answered_def slot_for_completion_def
          signal_drain_needed_def dest!: waiting_enqueue split: sum.splits prod.splits)
        (auto simp: waiting_def)
  qed
  show "accounted rt' (qt_completion ticket) \<and> ch_slot_id (qt_completion ticket) \<le> cg_next_slot_id (rt_completions rt')"
    if "r = Inr (ticket, inline)"
    using that assms(1)
    by (auto simp: submit_commit_def completion_allocate_def Let_def accounted_def enqueue_def signal_drain_needed_def waiting_def
        split: sum.splits prod.splits if_splits)
qed

lemma runtime_step_ok:
  assumes "runtime_step w w'" "runtime_ok w"
  shows "runtime_ok w'"
  using assms(1)
proof cases
  case (rs_submit now job rt' ticket inline)
  note c = submit_commit_cases [OF rs_submit(2,3)]
  show ?thesis using assms(2) c(1,2) c(3) c(4) [OF refl] unfolding rs_submit(1) runtime_ok_def by (auto intro: order_trans)
next
  case (rs_refused now job rt' err)
  note c = submit_commit_cases [OF rs_refused(2,3)]
  show ?thesis using assms(2) c(1,2) c(3) unfolding rs_refused(1) runtime_ok_def by (auto intro: order_trans)
next
  case (rs_acquire q')
  then show ?thesis using waiting_acquire [OF rs_acquire(2)]
    by (intro runtime_ok_same [OF assms(2) keeps_queue [of "rw_runtime w" q']]) simp_all
next
  case (rs_take_ready registered q' es)
  have "accounted ((rw_runtime w)\<lparr>rt_queue := q'\<rparr>) c \<or> c \<in> qe_completion ` set es" if "accounted (rw_runtime w) c" for c
    using that waiting_take_ready [OF rs_take_ready(4)] by (auto simp: accounted_def)
  then show ?thesis using assms(2) rs_take_ready(3) unfolding rs_take_ready(1) runtime_ok_def by auto
next
  case (rs_take q' es)
  have "accounted ((rw_runtime w)\<lparr>rt_queue := q'\<rparr>) c \<or> c \<in> qe_completion ` set es" if "accounted (rw_runtime w) c" for c
    using that waiting_take_local [OF rs_take(4)] by (auto simp: accounted_def)
  then show ?thesis using assms(2) rs_take(3) unfolding rs_take(1) runtime_ok_def by auto
next
  case (rs_turn front local env rt' local' scheduled)
  have "effective_batch_size (sq_options (rt_sequencer (rw_runtime w))) \<le> 2 ^ 32" using assms(2) by (simp add: runtime_ok_def)
  note t = process_turn_ok [OF rs_turn(3) this]
  show ?thesis using t rs_turn
    by (intro runtime_ok_keeps [OF assms(2), of rt' local']) (auto simp: holds_entries_def)
next
  case rs_release
  then show ?thesis
    by (intro runtime_ok_same [OF assms(2) keeps_queue [of "rw_runtime w" "release_drain_owner (rt_queue (rw_runtime w))"]])
      (simp_all add: release_owner_def)
next
  case (rs_worker outcome st' evs goes_on)
  have "keeps (rw_runtime w) ((rw_runtime w)\<lparr>rt_stage := st'\<rparr>)" by (rule keepsI) (simp_all add: accounted_def)
  from keeps_trans [OF this keeps_fold [where f = on_stage_event and xs = evs, OF keeps_stage_event]] rs_worker show ?thesis
    by (intro runtime_ok_same [OF assms(2)]) auto
next
  case rs_force
  have "keeps (rw_runtime w) ((rw_runtime w)\<lparr>rt_stage := force_shutdown (rt_stage (rw_runtime w))\<rparr>)"
    by (rule keepsI) (simp_all add: accounted_def)
  with rs_force show ?thesis by (intro runtime_ok_same [OF assms(2)]) auto
next
  case (rs_graceful now timeout)
  have "keeps (rw_runtime w) ((rw_runtime w)\<lparr>rt_stage := start_graceful_shutdown now timeout (rt_stage (rw_runtime w))\<rparr>)"
    by (rule keepsI) (simp_all add: accounted_def)
  with rs_graceful show ?thesis by (intro runtime_ok_same [OF assms(2)]) auto
next
  case (rs_complete ts result rt')
  then show ?thesis using keeps_complete [OF rs_complete(2)] by (intro runtime_ok_same [OF assms(2)]) auto
next
  case (rs_fallback ts err)
  then show ?thesis using keeps_fallback by (intro runtime_ok_same [OF assms(2)]) auto
next
  case (rs_fatal ts err)
  then show ?thesis using keeps_fatal by (intro runtime_ok_same [OF assms(2)]) auto
next
  case (rs_publish h)
  have "keeps (rw_runtime w) ((rw_runtime w)\<lparr>rt_frontier := mark_published (rt_frontier (rw_runtime w)) h\<rparr>)"
    by (rule keepsI) (simp_all add: accounted_def)
  with rs_publish show ?thesis by (intro runtime_ok_same [OF assms(2)]) auto
next
  case (rs_wait c cg' answer)
  have "keeps (rw_runtime w) ((rw_runtime w)\<lparr>rt_completions := cg'\<rparr>)"
    using answers_wait [OF rs_wait(2)] by (intro keepsI) (simp_all add: accounted_def)
  with rs_wait show ?thesis by (intro runtime_ok_same [OF assms(2)]) auto
qed

lemma runtime_run_ok:
  assumes "runtime_step\<^sup>*\<^sup>* (runtime_world_new p sq frontier fence_state wake) w" "effective_batch_size (sq_options sq) \<le> 2 ^ 32"
  shows "runtime_ok w"
  using assms(1)
proof (induction rule: rtranclp_induct)
  case base
  show ?case using assms(2) by (simp add: runtime_ok_def runtime_world_new_def runtime_new_def)
qed (rule runtime_step_ok)

section \<open>A runtime for the instances below\<close>

definition demo_commit :: "isolation_level \<Rightarrow> u32 \<Rightarrow> (unit, unit) job_payload prepared_job" where
  "demo_commit isolation bytes =
     \<lparr>pj_sequencing_plan = sequencing_plan_new
        \<lparr>pl_database_id = 7, pl_txn_id = 1, pl_read_ts = 0, pl_isolation = isolation, pl_frozen_read_set = frozen_empty,
         pl_lock_set = [], pl_participants = []\<rparr> [],
      pj_estimated_record_bytes = bytes, pj_retained_bytes = 64,
      pj_payload = \<lparr>jp_content = (\<lambda>_. ()), jp_ack_policy = RequiredPublished, jp_actions = ()\<rparr>\<rparr>"

definition demo_entry :: "u64 \<Rightarrow> isolation_level \<Rightarrow> u32 \<Rightarrow> (unit, unit) commit_entry" where
  "demo_entry n isolation bytes =
     \<lparr>qe_queue_seq = n, qe_completion = \<lparr>ch_slot_id = n\<rparr>, qe_enqueued_at = 0, qe_job = demo_commit isolation bytes\<rparr>"

abbreviation demo_runtime :: "(unit, unit, unit, string) runtime" where
  "demo_runtime \<equiv> runtime_new policy_default (sequencer_with_next_commit_ts 1) frontier_new () False"

definition demo_env :: "(unit, unit, unit, string) drain_env" where
  "demo_env =
     \<lparr>ev_registered = (\<lambda>_. 0), ev_now = (\<lambda>_. 0), ev_cleanup = \<lparr>cs_depth = 0, cs_bytes = 0, cs_reserved_slots_available = 0\<rparr>,
      ev_fence = (\<lambda>st p b. (st, None)), ev_clock = (\<lambda>_. 0), ev_fence_us = 0, ev_journal = (\<lambda>_. Inr []), ev_schedule_now = 0,
      ev_rollback = (\<lambda>_. None)\<rparr>"

definition demo_submitted :: "(unit, unit, unit, string) runtime" where
  "demo_submitted = demo_runtime
     \<lparr>rt_queue := commit_queue_new
        \<lparr>cq_entries := [demo_entry 1 Snapshot 4000000, demo_entry 2 Serializable 100], cq_next_enqueue_seq := 3,
         cq_queue_retained_bytes := 128, cq_ready_queued := True, cq_metrics := queue_metrics_default\<lparr>qm_enqueue_count := 2\<rparr>,
         cq_published_tail_seq := 2\<rparr>,
      rt_completions := completions_new\<lparr>cg_slots := [(1, CS_Queued), (2, CS_Queued)], cg_next_slot_id := 2\<rparr>\<rparr>"

definition demo_taken :: "(unit, unit, unit, string) runtime" where
  "demo_taken = demo_submitted
     \<lparr>rt_queue := commit_queue_new
        \<lparr>cq_next_enqueue_seq := 3, cq_metrics := queue_metrics_default\<lparr>qm_enqueue_count := 2, qm_drain_owner_acquire_count := 1\<rparr>,
         cq_published_tail_seq := 2, cq_drain_owner_active := True\<rparr>\<rparr>"

lemma demo_commit_fields:
  "pj_retained_bytes (demo_commit i b) = 64" "pj_estimated_record_bytes (demo_commit i b) = b"
  "pj_payload (demo_commit i b) = \<lparr>jp_content = (\<lambda>_. ()), jp_ack_policy = RequiredPublished, jp_actions = ()\<rparr>"
  "sp_write_set (pj_sequencing_plan (demo_commit i b)) = []"
  "sp_validation_epoch (pj_sequencing_plan (demo_commit i b)) = 0"
  "pl_isolation (sp_plan (pj_sequencing_plan (demo_commit i b))) = i"
  by (simp_all add: demo_commit_def sequencing_plan_new_def)

lemma demo_stage: "mark_registered (cf_published_commit_id frontier_new) (stage_new os) = stage_new os" "fs_queue (stage_new os) = []"
  "fs_registered_commit_ts (stage_new os) = 0" "pop_batch (stage_new os) = (stage_new os, None)"
  by (simp_all add: pop_batch_def mark_registered_def frontier_new_def stage_new_def)

lemmas submit_eval = submit_commit_def runtime_new_def ensure_healthy_def enqueue_def commit_queue_new_def check_enqueue_def
  visible_depth_def saturating_add_def signal_drain_needed_def demo_commit_fields u64_saturating_add_def
  completion_allocate_def completions_new_def queue_metrics_default_def

lemma policy_default_fields:
  "bp_max_commit_queue_depth policy_default = 8192" "bp_max_commit_queue_bytes policy_default = 512 * 1024 * 1024"
  "effective_target_batch_size policy_default = 64" "effective_target_batch_bytes policy_default = 2 * 1024 * 1024"
  "bp_max_unpublished_commit_count policy_default = 1024" "bp_max_durable_to_published_bytes_lag policy_default = 512 * 1024 * 1024"
  "bp_max_commit_finalize_queue_depth_reject policy_default = 0" "bp_max_pending_fence_bytes policy_default = 128 * 1024 * 1024"
  "bp_max_cleanup_queue_depth policy_default = 0" "bp_max_cleanup_queue_bytes policy_default = 0"
  "bp_min_cleanup_queue_reserved_slots policy_default = 0" "bp_serializable_bypass_batch_budget policy_default = 8"
  "bp_serializable_bypass_wait_budget_us policy_default = 2000"
  by (simp_all add: policy_default_def effective_target_batch_size_def effective_target_batch_bytes_def)

lemma demo_submits:
  obtains rt1 t1 t2 where
    "submit_commit 0 (demo_commit Snapshot 4000000) demo_runtime = (rt1, Inr (t1, True))" "qt_completion t1 = \<lparr>ch_slot_id = 1\<rparr>"
    "submit_commit 0 (demo_commit Serializable 100) rt1 = (demo_submitted, Inr (t2, True))" "qt_completion t2 = \<lparr>ch_slot_id = 2\<rparr>"
    "cg_next_slot_id (rt_completions demo_runtime) = 0" "cg_next_slot_id (rt_completions rt1) = 1"
  by (simp add: demo_submitted_def demo_entry_def submit_eval policy_default_fields Let_def)

lemmas take_numeral_eval = take_deferred.simps(2) [of "pred_numeral k" for k, folded numeral_eq_Suc]
  take_entries.simps(2) [of _ "pred_numeral k" for k, folded numeral_eq_Suc]

lemmas take_eval = try_acquire_drain_owner_def take_local_buffer_def take_numeral_eval u64_saturating_sub_def u64_saturating_add_def
   demo_commit_fields

lemma demo_takes:
  obtains q where "try_acquire_drain_owner (rt_queue demo_submitted) = Some q"
    "take_local_buffer (effective_target_batch_size policy_default) q =
       (rt_queue demo_taken, [demo_entry 1 Snapshot 4000000, demo_entry 2 Serializable 100])"
  by (simp add: demo_submitted_def demo_taken_def demo_entry_def runtime_new_def commit_queue_new_def queue_metrics_default_def
      policy_default_fields take_eval)

lemma demo_check_drain: "check_drain policy_default \<lparr>di_frontier = frontier_new, di_commit_finalize_queue_depth = 0,
    di_pending_fence_retained_bytes = 0, di_cleanup = \<lparr>cs_depth = 0, cs_bytes = 0, cs_reserved_slots_available = 0\<rparr>\<rparr> = Inr ()"
  by (simp add: check_drain_def policy_default_def frontier_new_def durable_to_published_bytes_lag_def u64_saturating_sub_def Let_def)

lemma demo_ordered_loop:
  assumes "op_sequencing_plan p = pj_sequencing_plan (demo_commit i b)"
  shows "ordered_loop options_default clock (\<lambda>st p b. ((), None)) 1 0 () in_flight_default [] [] [p] = ((), [(1, p)], [], [])"
  using assms by (simp add: options_default_def effective_batch_size_def fence_plan_def in_flight_default_def
    reject_reason_for_def commit_ts_at_def demo_commit_fields)

lemma demo_sequence:
  assumes "rt_sequencer rt = sequencer_with_next_commit_ts 1"
  obtains sq err where "sequence_append_schedule demo_env [demo_entry 1 i b] rt =
      Some (completion_set \<lparr>ch_slot_id = 1\<rparr> (CS_AmbiguousCommitted (FailedAppend err))
        (poison (PoisonDurableProtocol (TextAppend err)) (rt\<lparr>rt_sequencer := sq, rt_fence_state := ()\<rparr>)))"
    "sq_next_commit_ts sq = 2"
  using assms by (simp add: sequence_append_schedule_def sequence_ordered_batch_def demo_env_def demo_ordered_loop
   sequencer_with_next_commit_ts_def sequencer_new_def runtime_append_def append_durable_commit_batch_def into_sequenced_def
    demo_entry_def demo_commit_fields validate_append_results_def advance_shadow_clock_def commit_ts_at_def Let_def
    settle_plans_def defer_plans_def reject_plans_def cleanup_job_def cleanup_durable_ambiguous_def take_cleanup_def checked_add_def take_record_def protocol_violation_def
   del: ordered_loop.simps)

lemma demo_taken_fields: "rt_policy demo_taken = policy_default" "rt_sequencer demo_taken = sequencer_with_next_commit_ts 1"
  "rt_frontier demo_taken = frontier_new" "fs_queue (rt_stage demo_taken) = []" "fs_registered_commit_ts (rt_stage demo_taken) = 0"
  "pop_batch (rt_stage demo_taken) = (rt_stage demo_taken, None)"
  "cq_pending_fence (rt_queue demo_taken) = []" "pg_retained_bytes (cq_pending_fence_guard (rt_queue demo_taken)) = 0"
  "cq_entries (rt_queue demo_taken) = []" "cq_deferred_entries (rt_queue demo_taken) = []"
  "rt_completions demo_taken = completions_new\<lparr>cg_slots := [(1, CS_Queued), (2, CS_Queued)], cg_next_slot_id := 2\<rparr>"
  by (simp_all add: demo_taken_def demo_submitted_def runtime_new_def demo_stage commit_queue_new_def guard_default_def)

lemma demo_turn_fields: "ev_registered demo_env k = 0" "ev_now demo_env k = 0"
  "ev_cleanup demo_env = \<lparr>cs_depth = 0, cs_bytes = 0, cs_reserved_slots_available = 0\<rparr>"
  "is_serializable (demo_entry n i b) \<longleftrightarrow> i = Serializable" "qe_job (demo_entry n i b) = demo_commit i b"
  "qe_enqueued_at (demo_entry n i b) = 0"
  by (simp_all add: demo_env_def demo_entry_def is_serializable_def demo_commit_fields)

lemmas turn_eval = process_turn_def demo_turn_fields demo_taken_fields demo_check_drain should_block_on_registration_def
  admit_snapshot_def is_snapshot_only_def has_pending_fence_def predecessor_commit_ts_def demo_commit_fields policy_default_fields

section \<open>A poisoned runtime\<close>

text \<open>What a step may do to the commits that wait in the queue of a runtime that is closed: nothing, or drain them all.\<close>

definition stays :: "('c, 'x, 's, 'e) runtime \<Rightarrow> ('c, 'x, 's, 'e) runtime \<Rightarrow> bool" where
  "stays rt rt' \<longleftrightarrow> (waiting (rt_queue rt') = waiting (rt_queue rt) \<or> waiting (rt_queue rt') = {}) \<and>
     (\<not> rt_admission_open rt \<longrightarrow> \<not> rt_admission_open rt')"

lemma stays_trans: "stays rt rt' \<Longrightarrow> stays rt' rt'' \<Longrightarrow> stays rt rt''"
  by (auto simp: stays_def)

lemma stays_same: "waiting (rt_queue rt') = waiting (rt_queue rt) \<Longrightarrow> rt_admission_open rt' = rt_admission_open rt \<Longrightarrow> stays rt rt'"
  by (simp add: stays_def)

lemma stays_poison: "stays rt (poison p rt)"
  using waiting_close [of "rt_queue rt"] by (auto simp: stays_def poison_def Let_def split: prod.splits)

lemma stays_failed: "stays rt (commit_set ts st (poison p (publish_failed ts' cause rt)))"
proof -
  have "stays rt (publish_failed ts' cause rt)" by (rule stays_same) (simp_all add: publish_failed_def)
  from stays_trans [OF this stays_poison] show ?thesis
    by (rule stays_trans) (rule stays_same, simp_all add: commit_set_def)
qed

lemma stays_stage_event: "stays rt (on_stage_event ev rt)"
proof (cases ev)
  case (Ev_OnStageError err)
  show ?thesis unfolding Ev_OnStageError by (cases err) (simp_all add: stays_failed stays_poison)
qed (auto simp: on_registered_def on_submission_def on_durable_ambiguous_def completion_set_def split: prod.splits
    intro!: stays_same dest!: arg_cong [where f = fst])

lemma stays_events: "stays rt (fold on_stage_event evs rt)"
  by (induction evs arbitrary: rt) (auto intro: stays_trans stays_stage_event stays_same)

lemma closed_step:
  assumes "runtime_step w w'" "\<not> rt_admission_open (rw_runtime w)" "rw_local w = []"
  shows "stays (rw_runtime w) (rw_runtime w') \<and> rw_local w' = []"
  using assms(1)
proof cases
  case (rs_worker outcome st' evs goes_on)
  have "stays (rw_runtime w) ((rw_runtime w)\<lparr>rt_stage := st'\<rparr>)" by (rule stays_same) simp_all
  from stays_trans [OF this stays_events] show ?thesis using rs_worker assms(3) by simp
next
  case (rs_complete ts result rt')
  have "stays (rw_runtime w) rt'"
  proof (cases result)
    case (Inr u)
    then show ?thesis using rs_complete(2) by (auto simp: on_complete_def intro!: stays_same)
  next
    case (Inl err)
    then show ?thesis using rs_complete(2) stays_failed by (auto simp: on_complete_def)
  qed
  then show ?thesis using rs_complete(1) assms(3) by simp
next
  case (rs_fatal ts err)
  have "stays (rw_runtime w) (publish_failed ts (Apply (ae_lsn err) (ae_error_code err) (ae_message err)) (rw_runtime w))"
    by (rule stays_same) (simp_all add: publish_failed_def)
  from stays_trans [OF this stays_poison] show ?thesis using rs_fatal assms(3) by (simp add: fatal_sink_def)
next
  case (rs_acquire q')
  then show ?thesis using waiting_acquire [OF rs_acquire(2)] assms(3) by (auto intro: stays_same)
qed (use assms(2,3) in \<open>auto simp: submit_commit_def ensure_healthy_def release_owner_def fallback_ack_def
    commit_set_def intro!: stays_same\<close>)

lemma closed_run:
  assumes "runtime_step\<^sup>*\<^sup>* w w'" "\<not> rt_admission_open (rw_runtime w)" "rw_local w = []"
  shows "stays (rw_runtime w) (rw_runtime w') \<and> rw_local w' = []"
  using assms(1)
proof (induction rule: rtranclp_induct)
  case base
  show ?case using assms(3) by (simp add: stays_same)
next
  case (step w1 w2)
  then have "\<not> rt_admission_open (rw_runtime w1)" using assms(2) by (simp add: stays_def)
  with closed_step [OF step(2)] step.IH show ?case using stays_trans by blast
qed

definition drain_input :: "('c, 'x, 's, 'e) drain_env \<Rightarrow> ('c, 'x, 's, 'e) runtime \<Rightarrow> drain_input" where
  "drain_input env rt = \<lparr>di_frontier = rt_frontier rt, di_commit_finalize_queue_depth = length (fs_queue (rt_stage rt)),
     di_pending_fence_retained_bytes = pg_retained_bytes (cq_pending_fence_guard (rt_queue rt)), di_cleanup = ev_cleanup env\<rparr>"

text \<open>\<^bold>\<open>C40.\<close> A poisoned runtime strands commits.  Poisoning rejects the commits that wait in the queue, but the drain owner goes
  on with the entries it holds.  If the last of these passes the backpressure check and is serializable with
  its predecessor not registered, then it is put back among the blocked batches of the poisoned runtime, its submitter still
  waiting.  From then on, in every run of the runtime's threads, the commits that wait in the queue stay there until one
  more failure drains them all: every turn of the drain loop releases the queue without a look at it.\<close>

theorem poisoned_runtime_strands_commit:
  assumes "rt_poison rt \<noteq> None" "\<not> rt_admission_open rt"
    "slot_for_completion (rt_completions rt) (qe_completion front) = Some CS_Queued"
    "check_drain (rt_policy rt) (drain_input env rt) = Inr ()"
    "should_block_on_registration (ev_registered env 0) (rt_sequencer rt) front"
  shows "\<exists>rt'. process_turn env front [] rt = Some (rt', [], False) \<and> qe_completion front \<in> waiting (rt_queue rt') \<and>
    completion_wait (rt_completions rt') (qe_completion front) = None \<and> rt_poison rt' \<noteq> None \<and>
    (\<forall>w w'. rw_runtime w = rt' \<and> rw_local w = [] \<and> runtime_step\<^sup>*\<^sup>* w w' \<longrightarrow>
       (waiting (rt_queue (rw_runtime w')) = waiting (rt_queue rt') \<or> waiting (rt_queue (rw_runtime w')) = {}) \<and>
       (\<forall>envs registered elapsed max_batches scheduled.
          drain_turn envs registered elapsed max_batches scheduled (rw_runtime w') =
            Some (release_owner (rw_runtime w'), Drain_Released)))"
proof -
  obtain q b where bypass: "can_bypass_snapshot (rt_policy rt) (ev_now env 0)
      (block_on_fence (predecessor_commit_ts (rt_sequencer rt)) [front] (rt_policy rt) (rt_queue rt)) = (q, b)" by fastforce
  let ?rt = "rt\<lparr>rt_queue := q\<rparr>"
  have "process_turn env front [] rt = Some (?rt, [], False)"
    using assms(4,5) bypass
    by (cases b) (simp_all add: process_turn_def drain_input_def defer_entries_def Let_def)
  moreover have "qe_completion front \<in> waiting (rt_queue ?rt)" using waiting_can_bypass [OF bypass] by simp
  moreover have "completion_wait (rt_completions ?rt) (qe_completion front) = None" using assms(3) by (simp add: completion_wait_def)
  moreover have "(waiting (rt_queue (rw_runtime w')) = waiting (rt_queue ?rt) \<or> waiting (rt_queue (rw_runtime w')) = {}) \<and>
       drain_turn envs registered elapsed max_batches scheduled (rw_runtime w') = Some (release_owner (rw_runtime w'), Drain_Released)"
    if run: "rw_runtime w = ?rt" "rw_local w = []" "runtime_step\<^sup>*\<^sup>* w w'" for w w' envs registered elapsed max_batches scheduled
    using closed_run [OF run(3)] run(1,2) assms(2) by (auto simp: stays_def drain_turn_def ensure_healthy_def)
  moreover have "rt_poison ?rt \<noteq> None" using assms(1) by simp
  ultimately show ?thesis by blast
qed

text \<open>Such a runtime is reached: two commits, the first with a snapshot and the second serializable, are submitted to
  a fresh runtime and drained; the journal breaks its protocol on the batch of the first, which poisons the runtime.\<close>

lemma demo_turns:
  obtains rt where "process_turn demo_env (demo_entry 1 Snapshot 4000000) [demo_entry 2 Serializable 100] demo_taken =
      Some (rt, [demo_entry 2 Serializable 100], True)"
    "rt_poison rt \<noteq> None" "\<not> rt_admission_open rt" "slot_for_completion (rt_completions rt) \<lparr>ch_slot_id = 2\<rparr> = Some CS_Queued"
    "check_drain (rt_policy rt) (drain_input demo_env rt) = Inr ()"
    "should_block_on_registration (ev_registered demo_env 0) (rt_sequencer rt) (demo_entry 2 Serializable 100)"
proof -
  let ?e1 = "demo_entry 1 Snapshot 4000000" and ?e2 = "demo_entry 2 Serializable 100"
  obtain sq err where seq: "sequence_append_schedule demo_env [?e1] demo_taken =
      Some (completion_set \<lparr>ch_slot_id = 1\<rparr> (CS_AmbiguousCommitted (FailedAppend err))
        (poison (PoisonDurableProtocol (TextAppend err)) (demo_taken\<lparr>rt_sequencer := sq, rt_fence_state := ()\<rparr>)))"
    "sq_next_commit_ts sq = 2"
    using demo_sequence [OF demo_taken_fields(2)] by metis
  define rt where "rt = completion_set \<lparr>ch_slot_id = 1\<rparr> (CS_AmbiguousCommitted (FailedAppend err))
        (poison (PoisonDurableProtocol (TextAppend err)) (demo_taken\<lparr>rt_sequencer := sq, rt_fence_state := ()\<rparr>))"
  have fields: "rt_policy rt = policy_default" "rt_sequencer rt = sq" "rt_frontier rt = frontier_new"
    "rt_stage rt = rt_stage demo_taken" "cq_pending_fence (rt_queue rt) = []" "pg_retained_bytes (cq_pending_fence_guard (rt_queue rt)) = 0"
    "rt_poison rt \<noteq> None" "\<not> rt_admission_open rt"
    "slot_for_completion (rt_completions rt) \<lparr>ch_slot_id = 2\<rparr> = Some CS_Queued"
    by (simp_all add: rt_def completion_set_def poison_def demo_taken_fields close_and_drain_pending_def reject_all_def
        guard_default_def set_completion_def slot_for_completion_def completions_new_def split: option.split)
  have 1: "process_turn demo_env ?e1 [?e2] demo_taken = Some (rt, [?e2], True)"
    using seq(1) unfolding rt_def
    by (simp add: turn_eval Let_def)
  have 2: "check_drain (rt_policy rt) (drain_input demo_env rt) = Inr ()"
    "should_block_on_registration (ev_registered demo_env 0) (rt_sequencer rt) ?e2"
    by (simp_all add: drain_input_def turn_eval fields seq(2) u64_saturating_sub_def)
  from that [OF 1 fields(7-9) 2] show thesis .
qed

theorem poisoned_runtime_strands_commit_witness:
  "\<exists>(w :: (unit, unit, unit, string) runtime_world) rt'.
     runtime_step\<^sup>*\<^sup>* (runtime_world_new policy_default (sequencer_with_next_commit_ts 1) frontier_new () False) w \<and>
     \<lparr>ch_slot_id = 2\<rparr> \<in> set (rw_issued w) \<and> rw_local w = [demo_entry 2 Serializable 100] \<and>
     process_turn demo_env (demo_entry 2 Serializable 100) [] (rw_runtime w) = Some (rt', [], False) \<and>
     completion_wait (rt_completions rt') \<lparr>ch_slot_id = 2\<rparr> = None \<and> rt_poison rt' \<noteq> None"
proof -
  let ?step = "runtime_step :: (unit, unit, unit, string) runtime_world \<Rightarrow> _"
  obtain rt1 t1 t2 where s: "submit_commit 0 (demo_commit Snapshot 4000000) demo_runtime = (rt1, Inr (t1, True))"
    "qt_completion t1 = \<lparr>ch_slot_id = 1\<rparr>"
    "submit_commit 0 (demo_commit Serializable 100) rt1 = (demo_submitted, Inr (t2, True))" "qt_completion t2 = \<lparr>ch_slot_id = 2\<rparr>"
    "cg_next_slot_id (rt_completions demo_runtime) = 0" "cg_next_slot_id (rt_completions rt1) = 1"
    by (rule demo_submits)
  obtain q where q: "try_acquire_drain_owner (rt_queue demo_submitted) = Some q"
    "take_local_buffer (effective_target_batch_size policy_default) q =
       (rt_queue demo_taken, [demo_entry 1 Snapshot 4000000, demo_entry 2 Serializable 100])" by (rule demo_takes)
  obtain rt where t: "process_turn demo_env (demo_entry 1 Snapshot 4000000) [demo_entry 2 Serializable 100] demo_taken =
      Some (rt, [demo_entry 2 Serializable 100], True)"
    and turn: "rt_poison rt \<noteq> None" "\<not> rt_admission_open rt"
      "slot_for_completion (rt_completions rt) \<lparr>ch_slot_id = 2\<rparr> = Some CS_Queued"
      "check_drain (rt_policy rt) (drain_input demo_env rt) = Inr ()"
      "should_block_on_registration (ev_registered demo_env 0) (rt_sequencer rt) (demo_entry 2 Serializable 100)"
    by (rule demo_turns)
  let ?w = "\<lambda>rt es cs. \<lparr>rw_runtime = rt, rw_local = es, rw_worker_runs = True, rw_issued = cs\<rparr>"
  let ?c1 = "\<lparr>ch_slot_id = 1\<rparr>" and ?c2 = "\<lparr>ch_slot_id = 2\<rparr>"
  let ?e1 = "demo_entry 1 Snapshot 4000000" and ?e2 = "demo_entry 2 Serializable 100"
  have "?step (?w demo_runtime [] []) (?w rt1 [] [?c1])"
    using rs_submit [of 0 "demo_commit Snapshot 4000000" "?w demo_runtime [] []" rt1 t1 True] s by simp
  moreover have "?step (?w rt1 [] [?c1]) (?w demo_submitted [] [?c1, ?c2])"
    using rs_submit [of 0 "demo_commit Serializable 100" "?w rt1 [] [?c1]" demo_submitted t2 True] s by simp
  moreover have "?step (?w demo_submitted [] [?c1, ?c2]) (?w (demo_submitted\<lparr>rt_queue := q\<rparr>) [] [?c1, ?c2])"
    using rs_acquire [of "?w demo_submitted [] [?c1, ?c2]" q] q by simp
  moreover have "?step (?w (demo_submitted\<lparr>rt_queue := q\<rparr>) [] [?c1, ?c2]) (?w demo_taken [?e1, ?e2] [?c1, ?c2])"
    using rs_take [of "?w (demo_submitted\<lparr>rt_queue := q\<rparr>) [] [?c1, ?c2]"] q
    by (simp add: ensure_healthy_def demo_submitted_def demo_taken_def runtime_new_def)
  moreover have "?step (?w demo_taken [?e1, ?e2] [?c1, ?c2]) (?w rt [?e2] [?c1, ?c2])"
    using rs_turn [of "?w demo_taken [?e1, ?e2] [?c1, ?c2]" ?e1 "[?e2]" demo_env rt "[?e2]" True] t by simp
  ultimately have run: "?step\<^sup>*\<^sup>* (?w demo_runtime [] []) (?w rt [?e2] [?c1, ?c2])"
    by (meson rtranclp.rtrancl_into_rtrancl rtranclp.rtrancl_refl)
  have c2: "qe_completion ?e2 = ?c2" by (simp add: demo_entry_def)
  have "slot_for_completion (rt_completions rt) (qe_completion ?e2) = Some CS_Queued" using turn(3) by (simp add: c2)
  from poisoned_runtime_strands_commit [OF turn(1,2) this turn(4,5)] run show ?thesis
    by (intro exI [of _ "?w rt [?e2] [?c1, ?c2]"]) (auto simp: runtime_world_new_def c2)
qed

section \<open>Accepted commits\<close>




section \<open>Recovery\<close>

text \<open>The handles of the commits among the events, in order.\<close>

fun replayed :: "recovery_event list \<Rightarrow> durable_handle list" where
  "replayed [] = []"
| "replayed (ReplayCommit h # events) = h # replayed events"
| "replayed (ReplayPlaceholder lsn kind # events) = replayed events"

text \<open>The apply runtime takes a commit: it is the next to dispatch, its request is built and it applies.\<close>

definition takes_commit :: "recovery_env \<Rightarrow> durable_handle \<Rightarrow> bool" where
  "takes_commit env h \<longleftrightarrow>
     dh_durable_lsn h = re_next_dispatch_lsn env h \<and> re_build_request env h = None \<and> re_apply env h = None"

fun skips_placeholder :: "recovery_env \<Rightarrow> recovery_event \<Rightarrow> bool" where
  "skips_placeholder env (ReplayCommit h) \<longleftrightarrow> True"
| "skips_placeholder env (ReplayPlaceholder lsn kind) \<longleftrightarrow> re_skip_placeholder env lsn kind = None"

lemma replay_failed_poisons: "replay_failed err rt = (rt', r) \<Longrightarrow> rt_poison rt' \<noteq> None \<and> (\<exists>e. r = Inl e)"
  by (auto simp: replay_failed_def poison_def Let_def split: prod.splits)

lemma replay_events_failed:
  "replay_events env events s rt = (rt', Inl err) \<Longrightarrow> rt_poison rt' \<noteq> None"
proof (induction events arbitrary: s rt)
  case (Cons event events)
  obtain rt1 r where event: "replay_event env event s rt = (rt1, r)" by fastforce
  have "rt_poison rt1 \<noteq> None" if "r = Inl e" for e
    using event that
    by (auto simp: replay_event_def replay_commit_def Let_def dest: replay_failed_poisons
        split: option.splits recovery_event.splits if_splits)
  with Cons event show ?case by (cases r) auto
qed simp

lemma replay_event_took:
  assumes "replay_event env event s rt = (rt', Inr s')"
  shows "rt_poison rt = None" "skips_placeholder env event"
    "event = ReplayCommit h \<Longrightarrow> takes_commit env h \<and> rs_max_commit_ts_seen s < dh_commit_ts h \<and> rs_max_commit_ts_seen s' = dh_commit_ts h"
    "event = ReplayPlaceholder lsn kind \<Longrightarrow> rs_max_commit_ts_seen s' = rs_max_commit_ts_seen s"
    "rt' = rt\<lparr>rt_frontier := rt_frontier rt'\<rparr>"
  using assms
  by (auto simp: replay_event_def replay_commit_def replay_failed_def takes_commit_def Let_def
      split: option.splits recovery_event.splits if_splits)

lemma replay_events_took:
  assumes "replay_events env events s rt = (rt', Inr s')"
  shows "sorted_wrt (<) (rs_max_commit_ts_seen s # map dh_commit_ts (replayed events)) \<and>
    rs_max_commit_ts_seen s' = last (rs_max_commit_ts_seen s # map dh_commit_ts (replayed events)) \<and>
    list_all (takes_commit env) (replayed events) \<and> list_all (skips_placeholder env) events \<and>
    rt' = rt\<lparr>rt_frontier := rt_frontier rt'\<rparr>"
  using assms
proof (induction events arbitrary: s rt)
  case (Cons event events)
  obtain rt1 s1 where event: "replay_event env event s rt = (rt1, Inr s1)" and rest: "replay_events env events s1 rt1 = (rt', Inr s')"
    using Cons.prems by (auto split: prod.splits sum.splits)
  note took = replay_event_took [OF event] and IH = Cons.IH [OF rest]
  have "rt' = rt\<lparr>rt_frontier := rt_frontier rt'\<rparr>"
  proof -
    have "rt' = rt1\<lparr>rt_frontier := rt_frontier rt'\<rparr>" using IH by blast
    also have "\<dots> = rt\<lparr>rt_frontier := rt_frontier rt'\<rparr>" by (subst took(5)) simp
    finally show ?thesis .
  qed
  with IH took(2-4) show ?case by (cases event) (auto simp del: last.simps simp: last_ConsR last_ConsL split: if_splits)
qed simp

lemma last_is_max: "sorted_wrt (<) (x # xs) \<Longrightarrow> y \<in> set xs \<Longrightarrow> y \<le> last (x # xs)" for x y :: u64
proof (induction xs arbitrary: x)
  case (Cons z zs)
  then show ?case by (cases zs) (auto simp: less_imp_le)
qed simp

lemma sync_above: "ts < sq_next_commit_ts (sync_next_commit_ts_with sq ts) \<or> sq_next_commit_ts (sync_next_commit_ts_with sq ts) = - 1"
proof (cases "Suc (unat ts) < 2 ^ 64")
  case True
  from seq_sync_clock [OF True, of sq] show ?thesis by (simp add: word_less_nat_alt less_max_iff_disj)
next
  case False
  then have "commit_ts_at ts 1 = None" by (simp add: commit_ts_at_def)
  then show ?thesis by (simp add: sync_next_commit_ts_with_def)
qed

text \<open>The apply runtime publishes each commit it applies.\<close>

definition publishes :: "recovery_env \<Rightarrow> bool" where
  "publishes env \<longleftrightarrow> (\<forall>h f. re_publish env h f = mark_published f (dh_frontier_handle h))"

lemma replay_events_go_on:
  assumes "publishes env"
  shows "rt_poison rt = None \<Longrightarrow> cf_published_commit_id (rt_frontier rt) = cf_durable_commit_id (rt_frontier rt) \<Longrightarrow>
    sorted_wrt (<) (rs_max_commit_ts_seen s # map dh_commit_ts (replayed events)) \<Longrightarrow>
    list_all (takes_commit env) (replayed events) \<Longrightarrow> list_all (skips_placeholder env) events \<Longrightarrow>
    \<exists>rt' s'. replay_events env events s rt = (rt', Inr s') \<and>
      cf_published_commit_id (rt_frontier rt') = cf_durable_commit_id (rt_frontier rt')"
proof (induction events arbitrary: s rt)
  case (Cons event events)
  show ?case
  proof (cases event)
    case (ReplayCommit h)
    let ?f = "mark_published (mark_durable (rt_frontier rt) (dh_frontier_handle h)) (dh_frontier_handle h)"
    let ?s = "s\<lparr>rs_commits := u64_saturating_add (rs_commits s) 1, rs_max_lsn_seen := max (rs_max_lsn_seen s) (dh_durable_lsn h),
        rs_max_commit_ts_seen := dh_commit_ts h\<rparr>"
    have "\<not> dh_commit_ts h \<le> rs_max_commit_ts_seen s" using Cons.prems(3) by (simp add: ReplayCommit not_le)
    then have "replay_event env event s rt = (rt\<lparr>rt_frontier := ?f\<rparr>, Inr ?s)"
      using Cons.prems(1,4) assms
      by (simp add: ReplayCommit replay_event_def replay_commit_def takes_commit_def publishes_def Let_def)
    moreover have "cf_published_commit_id ?f = cf_durable_commit_id ?f"
      using Cons.prems(2) by (simp add: mark_durable_def mark_published_def notify_waiters_def)
    ultimately show ?thesis using Cons.IH [of "rt\<lparr>rt_frontier := ?f\<rparr>" ?s] Cons.prems by (simp add: ReplayCommit)
  next
    case (ReplayPlaceholder lsn kind)
    let ?s = "s\<lparr>rs_placeholders := u64_saturating_add (rs_placeholders s) 1, rs_max_lsn_seen := max (rs_max_lsn_seen s) lsn\<rparr>"
    have "replay_event env event s rt = (rt, Inr ?s)"
      using Cons.prems by (simp add: ReplayPlaceholder replay_event_def)
    then show ?thesis using Cons.IH [of rt ?s] Cons.prems by (simp add: ReplayPlaceholder)
  qed
qed simp

lemma recovery_replay_checked:
  "case recovery_replay env events rt of
     (rt', Inl err) \<Rightarrow> rt_poison rt' \<noteq> None \<and> (\<exists>e. ensure_healthy rt' = Inl e)
   | (rt', Inr summary) \<Rightarrow>
       ensure_healthy rt' = Inr () \<and> rt_queue rt' = rt_queue rt \<and> rt_completions rt' = rt_completions rt \<and>
       sorted_wrt (<) (cf_durable_commit_id (rt_frontier rt) # map dh_commit_ts (replayed events)) \<and>
       list_all (takes_commit env) (replayed events) \<and> list_all (skips_placeholder env) events \<and>
       cf_published_commit_id (rt_frontier rt') = cf_durable_commit_id (rt_frontier rt') \<and>
       list_all (\<lambda>h. dh_commit_ts h \<le> fs_registered_commit_ts (rt_stage rt') \<and>
         (dh_commit_ts h < sq_next_commit_ts (rt_sequencer rt') \<or> sq_next_commit_ts (rt_sequencer rt') = - 1)) (replayed events)"
proof (cases "rt_poison rt")
  case (Some p)
  then show ?thesis by (simp add: recovery_replay_def ensure_healthy_def)
next
  case None
  let ?s = "\<lparr>rs_commits = 0, rs_placeholders = 0, rs_max_lsn_seen = 0, rs_max_commit_ts_seen = cf_durable_commit_id (rt_frontier rt)\<rparr>"
  obtain rt1 r where events: "replay_events env events ?s (rt\<lparr>rt_admission_open := False\<rparr>) = (rt1, r)" by fastforce
  show ?thesis
  proof (cases r)
    case (Inl err)
    with replay_events_failed events have "rt_poison rt1 \<noteq> None" by blast
    with None events Inl show ?thesis by (auto simp: recovery_replay_def ensure_healthy_def split: option.split)
  next
    case (Inr s)
    note took = replay_events_took [OF events [unfolded Inr]]
    let ?ts = "rs_max_commit_ts_seen s"
    have rt1: "rt_poison rt1 = None" "rt_queue rt1 = rt_queue rt" "rt_completions rt1 = rt_completions rt"
    proof -
      obtain f where "rt1 = rt\<lparr>rt_admission_open := False, rt_frontier := f\<rparr>" using took by blast
      then show "rt_poison rt1 = None" "rt_queue rt1 = rt_queue rt" "rt_completions rt1 = rt_completions rt"
        by (simp_all add: None)
    qed
    have up_to: "dh_commit_ts h \<le> ?ts" if "h \<in> set (replayed events)" for h
      using took last_is_max [of "cf_durable_commit_id (rt_frontier rt)" "map dh_commit_ts (replayed events)" "dh_commit_ts h"] that by simp
    have above_all: "list_all (\<lambda>h. dh_commit_ts h \<le> fs_registered_commit_ts (mark_registered ?ts (rt_stage rt1)) \<and>
         (dh_commit_ts h < sq_next_commit_ts (sync_next_commit_ts_with (rt_sequencer rt1) ?ts) \<or>
          sq_next_commit_ts (sync_next_commit_ts_with (rt_sequencer rt1) ?ts) = - 1)) (replayed events)"
      unfolding list_all_iff
    proof (intro ballI conjI)
      fix h assume "h \<in> set (replayed events)"
      note le = up_to [OF this]
      then show "dh_commit_ts h \<le> fs_registered_commit_ts (mark_registered ?ts (rt_stage rt1))"
        by (auto simp: mark_registered_def)
      from sync_above [of ?ts "rt_sequencer rt1"] le
      show "dh_commit_ts h < sq_next_commit_ts (sync_next_commit_ts_with (rt_sequencer rt1) ?ts) \<or>
          sq_next_commit_ts (sync_next_commit_ts_with (rt_sequencer rt1) ?ts) = - 1"
        using order.strict_trans1 by blast
    qed
    show ?thesis
    proof (cases "cf_published_commit_id (rt_frontier rt1) = cf_durable_commit_id (rt_frontier rt1)")
      case True
      with None events Inr took rt1 above_all show ?thesis by (simp add: recovery_replay_def ensure_healthy_def Let_def)
    next
      case False
      with None events Inr show ?thesis
        by (auto simp: recovery_replay_def Let_def replay_failed_def poison_def ensure_healthy_def split: prod.splits)
    qed
  qed
qed

text \<open>\<^bold>\<open>C39.\<close> What recovery leaves behind.  Replaying a journal never leaves a runtime that admits commits without having
  checked it: if it fails, in whichever event, the runtime is poisoned and refuses every later call; if it
  succeeds, commit timestamps of the replayed commits are strictly increasing and above the durable frontier the runtime
  started with, the apply runtime took each commit at its place in the journal and skipped each placeholder, everything
  durable is published, the runtime admits commits, and every replayed commit is registered and below the next
  timestamp the sequencer assigns, unless timestamps are exhausted.  And it does succeed on a healthy runtime without
  unpublished commits, if the journal's timestamps are so ordered and the apply runtime takes, skips and publishes.\<close>

theorem recovery_replay_sound:
  assumes "recovery_replay env events rt = (rt', r)"
  shows "(\<forall>err. r = Inl err \<longrightarrow> rt_poison rt' \<noteq> None \<and> isl (ensure_healthy rt')) \<and>
    (\<forall>summary. r = Inr summary \<longrightarrow>
       ensure_healthy rt' = Inr () \<and> rt_queue rt' = rt_queue rt \<and> rt_completions rt' = rt_completions rt \<and>
       sorted_wrt (<) (cf_durable_commit_id (rt_frontier rt) # map dh_commit_ts (replayed events)) \<and>
       list_all (takes_commit env) (replayed events) \<and> list_all (skips_placeholder env) events \<and>
       cf_published_commit_id (rt_frontier rt') = cf_durable_commit_id (rt_frontier rt') \<and>
       list_all (\<lambda>h. dh_commit_ts h \<le> fs_registered_commit_ts (rt_stage rt') \<and>
         (dh_commit_ts h < sq_next_commit_ts (rt_sequencer rt') \<or> sq_next_commit_ts (rt_sequencer rt') = - 1)) (replayed events)) \<and>
    (rt_poison rt = None \<and> cf_published_commit_id (rt_frontier rt) = cf_durable_commit_id (rt_frontier rt) \<and>
       sorted_wrt (<) (cf_durable_commit_id (rt_frontier rt) # map dh_commit_ts (replayed events)) \<and> publishes env \<and>
       list_all (takes_commit env) (replayed events) \<and> list_all (skips_placeholder env) events \<longrightarrow> \<not> isl r)"
proof (intro conjI allI impI)
  note checked = recovery_replay_checked [where env = env and events = events and rt = rt, unfolded assms]
  show "rt_poison rt' \<noteq> None" "isl (ensure_healthy rt')" if "r = Inl err" for err
    using checked that by auto
  assume ok: "rt_poison rt = None \<and> cf_published_commit_id (rt_frontier rt) = cf_durable_commit_id (rt_frontier rt) \<and>
       sorted_wrt (<) (cf_durable_commit_id (rt_frontier rt) # map dh_commit_ts (replayed events)) \<and> publishes env \<and>
       list_all (takes_commit env) (replayed events) \<and> list_all (skips_placeholder env) events"
  let ?s = "\<lparr>rs_commits = 0, rs_placeholders = 0, rs_max_lsn_seen = 0, rs_max_commit_ts_seen = cf_durable_commit_id (rt_frontier rt)\<rparr>"
  have "\<exists>rt1 s1. replay_events env events ?s (rt\<lparr>rt_admission_open := False\<rparr>) = (rt1, Inr s1) \<and>
      cf_published_commit_id (rt_frontier rt1) = cf_durable_commit_id (rt_frontier rt1)"
    by (rule replay_events_go_on) (use ok in simp_all)
  then show "\<not> isl r" using assms ok by (auto simp: recovery_replay_def Let_def)
qed (use recovery_replay_checked [where env = env and events = events and rt = rt] assms in auto)

definition demo_recovery_env :: recovery_env where
  "demo_recovery_env = \<lparr>re_skip_placeholder = \<lambda>lsn kind. None, re_next_dispatch_lsn = dh_durable_lsn, re_build_request = \<lambda>h. None,
     re_apply = \<lambda>h. None, re_publish = \<lambda>h f. mark_published f (dh_frontier_handle h)\<rparr>"

abbreviation demo_durable :: "u32 \<Rightarrow> durable_handle" where
  "demo_durable offset \<equiv> \<lparr>dh_batch = \<lparr>db_first_lsn = 5, db_durable_batch_lsn = 6, db_durable_batch_size = 2, db_durable_batch_bytes = 64,
     db_commit_record_bytes_by_offset = [32, 32], db_sync_latency_micros = 9, db_first_commit_ts = 3, db_last_commit_ts = 4\<rparr>,
     dh_offset_in_batch = offset\<rparr>"

theorem recovery_replay_sound_witness:
  "\<not> isl (snd (recovery_replay demo_recovery_env [ReplayCommit (demo_durable 0), ReplayPlaceholder 7 CheckpointFence, ReplayCommit (demo_durable 1)]
     demo_runtime))"
proof -
  let ?events = "[ReplayCommit (demo_durable 0), ReplayPlaceholder 7 CheckpointFence, ReplayCommit (demo_durable 1)]"
  obtain rt' r where run: "recovery_replay demo_recovery_env ?events demo_runtime = (rt', r)" by fastforce
  have "rt_poison demo_runtime = None" "cf_published_commit_id (rt_frontier demo_runtime) = 0"
    "cf_durable_commit_id (rt_frontier demo_runtime) = 0"
    by (simp_all add: runtime_new_def frontier_new_def)
  with recovery_replay_sound [OF run] run show ?thesis
    by (simp add: demo_recovery_env_def publishes_def takes_commit_def dh_commit_ts_def)
qed

end
