(* ===== verification/Spec2Isabelle.thy ===== *)
theory Spec2Isabelle
  imports Lock_Queries Ssi_Executions Backpressure Registry_Safety Predicate_Reads Runtime_Safety
begin

text \<open>
  \<^bold>\<open>The transaction core of the paro database.\<close>

  paro is a multi-model database written in Rust.  This development models the part of it that decides
  which transactions may commit and in which order: the crate \<open>crates/transaction\<close> and the two files of
  \<open>crates/storage/src/transaction\<close> that drive it, \<open>txn.rs\<close> and \<open>manager.rs\<close>.  Paths below are relative to
  \<open>src/crates/transaction/src\<close> unless they start with \<open>storage\<close>.

  \<^bold>\<open>How the parts work together.\<close>  A transaction begins with a snapshot timestamp and enters the registry of
  active transactions, whose watermarks tell the rest of the system what is still visible to somebody.
  While it runs it takes pessimistic locks from the lock manager and, under serializable isolation,
  records read dependencies, among them normalised predicates, in the index of active read sets.  To
  commit it freezes its read and lock sets into a request and a plan.  The plan waits in the commit
  queue; the one drain owner takes it in a batch, and the sequencer checks it against the batch, against
  the final fence (the validation of serializable snapshot isolation over the indexes of committed
  writes and committed summaries) and gives it the next commit timestamp.  The accepted plans of a batch
  are appended to the journal and handed to the finalize stage, whose worker settles them and submits
  them for publication, and the submitters find the answer in the registry of completions.  A durable
  commit is tracked by the commit frontier until it is published, and backpressure turns commits away
  when publication falls behind.  The commit runtime owns all of these, stops admitting commits after a fault
  (it is then poisoned) and replays the journal when the database is opened.

  \<^bold>\<open>Theories, and the code they model.\<close>
  \<^item> \<open>Prelude\<close>, \<open>Txn_Types\<close> (\<open>types/mod.rs\<close>): machine integers, saturating and wrapping arithmetic, the
    sort-and-dedup idiom, identifiers and timestamps.
  \<^item> \<open>Lock_Resource\<close>, \<open>Lock_Manager\<close> (\<open>lock_manager.rs\<close>): resources, modes, shards, grants, escalation,
    releases, wound-wait.  \<open>Lock_Table\<close>, \<open>Lock_Safety\<close>, \<open>Lock_Sets\<close> and \<open>Lock_Protocol\<close> build its proof from
    one holder list up to a system of concurrent transactions, in which lock sets are acquired, refused and
    released in any order; \<open>Lock_Protocol\<close> holds the locale \<open>lock_set_service\<close>, which the lock manager provides.
    \<open>Lock_Queries\<close> treats refusals, upgrades and queries.  \<open>Txn_Locks\<close>
    (\<open>storage/src/transaction/txn.rs\<close>): the lock sets of a transaction and its savepoints.
  \<^item> \<open>Read_Dependency\<close>, \<open>Predicate_Reads\<close> (\<open>view.rs\<close>, \<open>predicate.rs\<close>) and \<open>Read_Dependency_Index\<close>
    (\<open>read_dependency_index.rs\<close>), with \<open>Read_Set_Safety\<close> and \<open>Read_Set_Runs\<close>: reads, their normal forms and
    the index of active read sets under its memory budgets.
  \<^item> \<open>Commit_Log\<close>: the locale \<open>commit_log\<close>, the contract of an index of commits with a horizon, provided by
    \<open>Write_Conflict_Index\<close> with \<open>Conflict_Index_Safety\<close> (\<open>write_conflict_index.rs\<close>) and by \<open>Committed_Summary\<close>
    (\<open>committed_txn_summary.rs\<close>).
  \<^item> \<open>Ssi_Validator\<close> and \<open>Ssi_Executions\<close> (\<open>ssi_validator.rs\<close>, \<open>storage/src/transaction/manager.rs\<close>):
    validation of serializable commits over those indexes, and whole executions of it.
  \<^item> \<open>Txn_View\<close> (\<open>view.rs\<close>, \<open>participant_state.rs\<close>) and \<open>Commit_Request\<close> (\<open>commit/request.rs\<close>,
    \<open>commit/types.rs\<close>): what a transaction reads through, and what it asks to commit.
  \<^item> \<open>Commit_Queue\<close> and \<open>Queue_Safety\<close> (\<open>commit/queue/mod.rs\<close>, \<open>commit/queue/policy.rs\<close>): the queue of prepared
    commits, its policy and its drain owner, and the race of a submitter with the owner.
  \<^item> \<open>Commit_Sequencer\<close>, \<open>Sequencer_Runs\<close> (\<open>commit/sequencer/mod.rs\<close>) and \<open>Backpressure\<close>
    (\<open>commit/sequencer/backpressure.rs\<close>): group commit, commit timestamps and the limit on unpublished
    commits.
  \<^item> \<open>Commit_Frontier\<close> (\<open>commit/frontier.rs\<close>): durable and published commits and the threads that wait.
  \<^item> \<open>Durable_Append\<close> (\<open>commit/durable_append.rs\<close>, \<open>commit/durable_handle.rs\<close>, \<open>commit/job/mod.rs\<close>): the append of a
    batch to the journal and the handles it gives out.  \<open>Finalize_Stage\<close> (\<open>commit/finalize/stage.rs\<close>,
    \<open>commit/gate.rs\<close>): the bounded queue of durable batches, the worker's turns, shutdown, and the
    timestamp up to which commits are registered.  \<open>Completion_Registry\<close> (\<open>commit/runtime/completion.rs\<close>,
    \<open>commit/runtime/error.rs\<close>): the slots in which submitters wait for their commits.
  \<^item> \<open>Commit_Runtime\<close> and \<open>Runtime_Safety\<close> (\<open>commit/runtime/mod.rs\<close>, \<open>commit/recovery.rs\<close>): submission, the drain
    loop from the queue to the stage, the hooks of the stage and of the apply runtime, poisoning, and replay;
    and the runs in which all their threads take steps.
  \<^item> \<open>Slot_Registry\<close>: the locale \<open>slot_registry\<close>, what a sharded registry of slots with handles and
    watermarks keeps.  \<open>Active_Registry\<close> and \<open>Registry_Safety\<close> (\<open>active.rs\<close>, \<open>lifecycle.rs\<close>) provide it.

  \<^bold>\<open>How the code is represented.\<close>  A struct is a record and an enum a datatype, both with the fields and
  variants of the source; \<open>u64\<close> and \<open>u32\<close> are words of that width, and \<open>usize\<close> is a natural number with the
  saturating and wrapping operations written out.  A \<open>HashMap\<close> is an association list, so statements hold
  for every iteration order.  An operation takes the state and returns the changed one; a \<open>Result\<close> is a sum
  with the error on the left.  An operation that runs under one mutex is one function; where the code
  releases the mutex in between, or reads atomics without it, and the order matters (waiting for the
  frontier, fine grants under the coarse epoch, draining the queue), the steps are separate and
  interleave in an inductive relation.  Two operations that take several short locks are one step here: \<open>lock_many\<close> of
  one transaction, and the look-up and removal of a slot in \<open>wait\<close> of the completions, which has one caller for a
  slot.  \<open>sequence_ordered_batch\<close> advances the clock from the value it read at the start, as the code does under its
  assertion that there is one drain owner.  The loop \<open>drain\<close> of \<open>Sequencer_Runs\<close> and the composition
  \<open>commit_serializable\<close> of \<open>Ssi_Executions\<close> are not functions of the code: they call its operations in the order a
  drain owner and a committing transaction do.  Hashers, clocks, the append to the journal and the final fence,
  which the code receives as arguments or from the standard library, are parameters, and the theorems
  hold for all of them.

  \<^bold>\<open>What the lemmas show.\<close>
  \<^item> Locks: in every run, the reference counts are those of the outstanding lock sets, so that the last
    release frees a resource and ending a transaction frees all it holds; mutual exclusion as long as no
    upgrade combines modes that neither cover and no release undoes a later grant; all-or-nothing acquisition,
    whom a refusal blames, what a rollback to a savepoint restores, what an upgrade protects against.
  \<^item> Reads: a recorded read, predicates included, stays protected through normalising, coarsening and
    freezing; the memory counters are exact and budgets are enforced.
  \<^item> Validation: queries of the indexes are sound, and complete for the pairs their probes cover;
    validation is characterised exactly in terms of the history.
  \<^item> Group commit: accepted plans get consecutive timestamps and do not conflict, every plan is decided or
    deferred exactly once, and draining the deferred ones ends; the clock refines an unbounded counter.
  \<^item> Append and completions: an append is all or nothing and says which; what a submitter is told about its
    commit is what was reported of it.
  \<^item> Queue and registries: accepted commits are conserved; watermarks never pass an active snapshot.
  \<^item> Runtime: the finalize stage settles every durable commit once; in every run of the threads a commit without an
    answer is in the queue or held by the drain owner; a replay that fails closes the runtime, and one that
    succeeds leaves clock, gate and frontier above every replayed commit.
  \<^item> Defects are theorems as well: a lost wake-up, a commit left in the queue, exclusion lost by a rollback to a savepoint
    and by an upgrade, a repeated timestamp, a throttled participant, commits stranded by a poisoned runtime.
    Each states when the defect occurs, and its witness names an execution.  Missed conflicts of the write index, an
    accepted cycle of conflicts and a forgotten concurrent commit are shown on examples.

  \<^bold>\<open>Bounds.\<close>  Every function is total and no fuel is used.  Runs of the registries are limited to fewer steps
  than their 64-bit epoch counts, and submissions to the queue to a total of retained bytes and of sequence
  numbers below \<open>2 ^ 64\<close>; at those limits the counters of the code wrap or saturate, and the statements
  say so.

  \<^bold>\<open>Not modelled.\<close>
  \<^item> In \<open>crates/transaction\<close>: the encoding of commit records (\<open>commit/txn_record.rs\<close>), which belongs to the
    journal's format; the threads themselves, the blocking wait of the gate and the wake-up pool (\<open>commit/drain_wake.rs\<close>),
    whose order of work is the operating system's; what the closures of a job do; telemetry
    snapshots, \<open>Display\<close> and \<open>Debug\<close> implementations, which only read state.
  \<^item> In \<open>storage/src/transaction\<close>: write buffers, undo, spilling and version chains, which hold table data.
  \<^item> The other crates: they parse, plan, optimise and execute queries, store and index data, and serve
    clients.  They use the transaction core through the interfaces above and decide nothing about it.
\<close>

end
